(* ===== verification/Prelude.thy ===== *)
theory Prelude
  imports Main "HOL-Library.Word" "HOL-Library.Multiset" "HOL-Library.List_Lexorder"
    "HOL-Library.AList" "HOL-Library.While_Combinator" "HOL-Library.Sublist"
begin

text \<open>
  Shared base of the development: the collections of facts the component theories extend, and
  generic lemmas on JavaScript's insertion-ordered \<open>Map\<close> and \<open>Set\<close> and on lists.

  A JavaScript \<open>Map\<close> is an association list with distinct keys in insertion order:
  \<open>get\<close> is \<open>map_of\<close>, \<open>set\<close> is \<open>AList.update\<close> (it overwrites in place or appends at the end),
  \<open>delete\<close> is \<open>AList.delete\<close>. A JavaScript \<open>Set\<close> is a distinct list in insertion order.
\<close>

named_theorems js_defs \<open>definitions of the JavaScript library operations\<close>
named_theorems manifest_defs \<open>accessors of the normalized runtime spec\<close>

subsection \<open>Maps\<close>

type_synonym ('k, 'v) jmap = "('k \<times> 'v) list"

abbreviation jm_get :: "('k, 'v) jmap \<Rightarrow> 'k \<Rightarrow> 'v option" where
  "jm_get \<equiv> map_of"

abbreviation jm_set :: "'k \<Rightarrow> 'v \<Rightarrow> ('k, 'v) jmap \<Rightarrow> ('k, 'v) jmap" where
  "jm_set \<equiv> AList.update"

abbreviation jm_delete :: "'k \<Rightarrow> ('k, 'v) jmap \<Rightarrow> ('k, 'v) jmap" where
  "jm_delete \<equiv> AList.delete"

abbreviation jm_keys :: "('k, 'v) jmap \<Rightarrow> 'k list" where
  "jm_keys m \<equiv> map fst m"

abbreviation jm_wf :: "('k, 'v) jmap \<Rightarrow> bool" where
  "jm_wf m \<equiv> distinct (map fst m)"

definition jm_has :: "('k, 'v) jmap \<Rightarrow> 'k \<Rightarrow> bool" where
  [js_defs]: "jm_has m k = (map_of m k \<noteq> None)"

lemma jm_has_iff [simp]: "jm_has m k \<longleftrightarrow> k \<in> fst ` set m"
  by (auto simp: jm_has_def map_of_eq_None_iff)

lemma jm_get_set [simp]: "jm_get (jm_set k v m) = (jm_get m)(k \<mapsto> v)"
  by (rule update_conv')

lemma jm_get_delete [simp]: "jm_get (jm_delete k m) = (jm_get m)(k := None)"
  by (rule delete_conv')

lemma jm_wf_set [simp, intro]: "jm_wf m \<Longrightarrow> jm_wf (jm_set k v m)"
  by (rule distinct_update)

lemma jm_wf_delete [simp, intro]: "jm_wf m \<Longrightarrow> jm_wf (jm_delete k m)"
  by (rule distinct_delete)

lemma jm_keys_set: "jm_keys (jm_set k v m) = (if k \<in> fst ` set m then jm_keys m else jm_keys m @ [k])"
  by (induction m) auto

lemma set_keys_set [simp]: "fst ` set (jm_set k v m) = insert k (fst ` set m)"
  by (induction m) auto

lemma set_keys_delete [simp]: "fst ` set (jm_delete k m) = fst ` set m - {k}"
  by (auto simp: AList.delete_eq image_iff)

lemma length_jm_delete_less: "k \<in> fst ` set m \<Longrightarrow> length (jm_delete k m) < length m"
proof -
  assume "k \<in> fst ` set m"
  then obtain p where p: "p \<in> set m" "fst p = k" by auto
  have "length (filter (\<lambda>(k', _). k \<noteq> k') m) < length m"
    using p by (intro length_filter_less[of p]) auto
  then show ?thesis by (simp add: AList.delete_eq)
qed

lemma length_jm_delete_le: "length (jm_delete k m) \<le> length m"
  by (rule length_delete_le)

lemma length_jm_set: "length (jm_set k v m) = (if k \<in> fst ` set m then length m else Suc (length m))"
  using arg_cong[OF jm_keys_set[of k v m], of length] by (simp split: if_splits)

lemma jm_delete_idem: "k \<notin> fst ` set m \<Longrightarrow> jm_delete k m = m"
  by (force simp: AList.delete_eq intro!: filter_True)

lemma jm_get_in_set: "jm_get m k = Some v \<Longrightarrow> (k, v) \<in> set m"
  by (rule map_of_SomeD)

lemma set_jm_set_subset: "set (jm_set k v m) \<subseteq> insert (k, v) (set m)"
  by (induction m) auto

lemma set_jm_delete_subset: "set (jm_delete k m) \<subseteq> set m"
  by (auto simp: AList.delete_eq)

lemma list_all_jm_set: "list_all P m \<Longrightarrow> P (k, v) \<Longrightarrow> list_all P (jm_set k v m)"
  using set_jm_set_subset[of k v m] by (auto simp: list_all_iff)

lemma list_all_jm_delete: "list_all P m \<Longrightarrow> list_all P (jm_delete k m)"
  using set_jm_delete_subset[of k m] by (auto simp: list_all_iff)

lemma list_all_jm_get: "list_all P m \<Longrightarrow> jm_get m k = Some v \<Longrightarrow> P (k, v)"
  by (auto simp: list_all_iff dest: map_of_SomeD)

lemma jm_set_snoc: "k \<notin> fst ` set m \<Longrightarrow> jm_set k v m = m @ [(k, v)]"
  by (induction m) auto

subsection \<open>Sets\<close>

definition js_add :: "'a \<Rightarrow> 'a list \<Rightarrow> 'a list" where
  [js_defs]: "js_add x xs = (if x \<in> set xs then xs else xs @ [x])"

lemma set_js_add [simp]: "set (js_add x xs) = insert x (set xs)"
  by (auto simp: js_add_def)

lemma distinct_js_add [simp, intro]: "distinct xs \<Longrightarrow> distinct (js_add x xs)"
  by (simp add: js_add_def)

definition js_add_all :: "'a list \<Rightarrow> 'a list \<Rightarrow> 'a list" where
  [js_defs]: "js_add_all ys xs = foldl (\<lambda>acc y. js_add y acc) xs ys"

lemma js_add_all_simps [simp]:
  "js_add_all [] xs = xs"
  "js_add_all (y # ys) xs = js_add_all ys (js_add y xs)"
  by (simp_all add: js_add_all_def)

lemma js_add_all_append: "js_add_all (ys @ zs) xs = js_add_all zs (js_add_all ys xs)"
  by (simp add: js_add_all_def)

lemma set_js_add_all [simp]: "set (js_add_all ys xs) = set ys \<union> set xs"
  by (induction ys arbitrary: xs) auto

lemma distinct_js_add_all [simp, intro]: "distinct xs \<Longrightarrow> distinct (js_add_all ys xs)"
  by (induction ys arbitrary: xs) auto

lemma js_add_all_distinct: "distinct (xs @ ys) \<Longrightarrow> js_add_all ys xs = xs @ ys"
  by (induction ys arbitrary: xs) (auto simp: js_add_def)

subsection \<open>Lists and options\<close>

definition or_else :: "'a option \<Rightarrow> 'a \<Rightarrow> 'a" where
  [js_defs]: "or_else x d = (case x of None \<Rightarrow> d | Some v \<Rightarrow> v)"

lemma or_else_simps [simp]: "or_else None d = d" "or_else (Some v) d = v"
  by (simp_all add: or_else_def)

fun joined :: "string \<Rightarrow> string list \<Rightarrow> string" where
  "joined sep [] = []"
| "joined sep [x] = x"
| "joined sep (x # xs) = x @ sep @ joined sep xs"

definition starts_with :: "string \<Rightarrow> string \<Rightarrow> bool" where
  [js_defs]: "starts_with s p = (take (length p) s = p)"

lemma starts_with_iff: "starts_with s p \<longleftrightarrow> (\<exists>r. s = p @ r)"
  by (metis append_eq_conv_conj append_take_drop_id starts_with_def)

lemma starts_with_prefix: "starts_with s p \<longleftrightarrow> prefix p s"
  by (auto simp: starts_with_iff prefix_def)

lemma find_Some_set: "find P xs = Some x \<Longrightarrow> x \<in> set xs \<and> P x"
  by (auto simp: find_Some_iff)

lemma distinct_map_inj_on: "distinct (map f xs) \<Longrightarrow> x \<in> set xs \<Longrightarrow> y \<in> set xs \<Longrightarrow> f x = f y \<Longrightarrow> x = y"
  by (auto simp: distinct_map inj_on_def)

lemma foldl_invariant:
  assumes "P s" and "\<And>s x. x \<in> set xs \<Longrightarrow> P s \<Longrightarrow> P (f s x)"
  shows "P (foldl f s xs)"
  using assms by (induction xs arbitrary: s) auto

lemma mem_map_filter: "y \<in> set (List.map_filter f xs) \<longleftrightarrow> (\<exists>x\<in>set xs. f x = Some y)"
  by (induction xs) (auto split: option.split)

lemma jm_get_key: "jm_get m k = Some v \<Longrightarrow> k \<in> fst ` set m"
  by (auto dest!: map_of_SomeD intro: rev_image_eqI)

lemma distinct_of_map: "distinct (map f xs) \<Longrightarrow> distinct xs"
  by (simp add: distinct_map)

text \<open>Object spread and \<open>Object.assign\<close>: the entries of the second object are set on the first.\<close>

definition jm_merge :: "('k, 'v) jmap \<Rightarrow> ('k, 'v) jmap \<Rightarrow> ('k, 'v) jmap" where
  [js_defs]: "jm_merge a b = foldl (\<lambda>m (k, v). jm_set k v m) a b"

lemma jm_merge_simps [simp]:
  "jm_merge a [] = a"
  "jm_merge a ((k, v) # b) = jm_merge (jm_set k v a) b"
  by (simp_all add: jm_merge_def)

lemma jm_get_merge: "jm_wf b \<Longrightarrow> jm_get (jm_merge a b) k = (case jm_get b k of Some v \<Rightarrow> Some v | None \<Rightarrow> jm_get a k)"
  by (induction b arbitrary: a) (auto simp: map_of_eq_None_iff rev_image_eqI split: option.split)

lemma jm_wf_merge [simp, intro]: "jm_wf a \<Longrightarrow> jm_wf (jm_merge a b)"
proof (induction b arbitrary: a)
  case (Cons e b)
  then show ?case by (cases e) (simp only: jm_merge_simps jm_wf_set)
qed simp

lemma mem_concat_map: "x \<in> set (concat (map f xs)) \<longleftrightarrow> (\<exists>y\<in>set xs. x \<in> set (f y))"
  by auto

lemma foldl_map_of_keys:
  "distinct (map f xs) \<Longrightarrow> foldl (\<lambda>m x. jm_set (f x) (g x) m) [] xs = map (\<lambda>x. (f x, g x)) xs"
proof (induction xs rule: rev_induct)
  case (snoc x xs)
  then show ?case by (simp add: jm_set_snoc image_image)
qed simp

lemma map_of_map_keys:
  "distinct (map f xs) \<Longrightarrow> x \<in> set xs \<Longrightarrow> map_of (map (\<lambda>x. (f x, g x)) xs) (f x) = Some (g x)"
  by (rule map_of_is_SomeI) (auto simp: comp_def)

lemma map_of_map_keys_None: "n \<notin> f ` set xs \<Longrightarrow> map_of (map (\<lambda>x. (f x, g x)) xs) n = None"
  by (auto simp: map_of_eq_None_iff image_image)

lemma jm_set_map_snoc:
  "k \<notin> f ` set xs \<Longrightarrow> jm_set k v (map (\<lambda>x. (f x, g x)) xs) = map (\<lambda>x. (f x, g x)) xs @ [(k, v)]"
  by (rule jm_set_snoc) (auto simp: image_image)

lemma jm_keys_js_add: "jm_keys (jm_set k v m) = js_add k (jm_keys m)"
  by (induction m) (auto simp: js_add_def)

text \<open>A map whose keys are computed from its values, as the collections of the store are.\<close>

definition keyed_by :: "('v \<Rightarrow> 'k) \<Rightarrow> ('k, 'v) jmap \<Rightarrow> bool" where
  "keyed_by f m \<longleftrightarrow> jm_wf m \<and> (\<forall>(k, v)\<in>set m. f v = k)"

lemma keyed_by_set: "keyed_by f m \<Longrightarrow> f v = k \<Longrightarrow> keyed_by f (jm_set k v m)"
proof -
  assume m: "keyed_by f m" and v: "f v = k"
  have "set (jm_set k v m) \<subseteq> insert (k, v) (set m)" by (induction m) auto
  then show "keyed_by f (jm_set k v m)" using m v unfolding keyed_by_def by fastforce
qed

lemma keyed_by_delete: "keyed_by f m \<Longrightarrow> keyed_by f (jm_delete k m)"
  unfolding keyed_by_def by (auto simp: AList.delete_eq distinct_map_filter)

lemma keyed_by_get: "keyed_by f m \<Longrightarrow> jm_get m k = Some v \<Longrightarrow> f v = k"
  by (auto simp: keyed_by_def dest!: map_of_SomeD)

lemma keyed_by_empty [simp]: "keyed_by f []"
  by (simp add: keyed_by_def)

lemma jm_set_same: "jm_get m k = Some v \<Longrightarrow> jm_set k v m = m"
  by (induction m) (auto split: if_splits)

lemma jm_merge_same: "(\<And>k v. (k, v) \<in> set b \<Longrightarrow> jm_get a k = Some v) \<Longrightarrow> jm_merge a b = a"
  by (induction b) (auto simp: jm_set_same)

lemma jm_merge_twice: "jm_wf b \<Longrightarrow> jm_merge (jm_merge a b) b = jm_merge a b"
  by (rule jm_merge_same) (simp add: jm_get_merge)

end
