(* ===== verification/JsText.thy ===== *)
theory JsText
  imports Prelude
begin

text \<open>
  JavaScript strings and their order (\<open>packages/plugin-handlers-utils/src/compare-text.ts\<close> and
  \<open>compareByteOrder\<close> of \<open>packages/store/src/common/pagination.ts\<close>), and the stable
  \<open>Array.prototype.sort\<close> with a comparison function. A string is a list of UTF-16 code units
  (\<open>16 word\<close>). Elsewhere names are HOL strings: a \<open>char\<close> is a code unit below 256.
\<close>

type_synonym js_text = "16 word list"

definition units :: "string \<Rightarrow> js_text" where
  "units = map of_char"

subsection \<open>The two comparison functions\<close>

text \<open>JavaScript numbers: the rank is a number, not a code unit, so it does not wrap.\<close>

definition code_point_rank :: "16 word \<Rightarrow> nat" where
  "code_point_rank unit = (if 0xe000 \<le> unit then unat unit - 0x800 else unat unit + 0x2000)"

fun compare_text :: "js_text \<Rightarrow> js_text \<Rightarrow> int" where
  "compare_text [] [] = 0"
| "compare_text [] (y # ys) = - 1"
| "compare_text (x # xs) [] = 1"
| "compare_text (x # xs) (y # ys) =
     (if x = y then compare_text xs ys
      else let (left, right) =
                 (if 0xd800 \<le> x \<and> 0xd800 \<le> y then (code_point_rank x, code_point_rank y)
                  else (unat x, unat y))
           in if left < right then - 1 else 1)"

definition is_surrogate :: "16 word \<Rightarrow> bool" where
  "is_surrogate x \<longleftrightarrow> 0xd800 \<le> x \<and> x \<le> 0xdfff"

fun compare_byte_order :: "js_text \<Rightarrow> js_text \<Rightarrow> int" where
  "compare_byte_order (x # xs) (y # ys) =
     (if x = y then compare_byte_order xs ys
      else if is_surrogate x \<noteq> is_surrogate y then (if is_surrogate x then 1 else - 1)
      else if x < y then - 1 else 1)"
| "compare_byte_order xs ys = int (length xs) - int (length ys)"

subsection \<open>Both are the lexicographic order of one key\<close>

definition unit_key :: "16 word \<Rightarrow> nat" where
  "unit_key x = (if 0xd800 \<le> x then code_point_rank x else unat x)"

lemma unat_cmp:
  "(0xd800 \<le> x) = (55296 \<le> unat (x :: 16 word))"
  "(0xe000 \<le> x) = (57344 \<le> unat (x :: 16 word))"
  "(x \<le> 0xdfff) = (unat (x :: 16 word) \<le> 57343)"
  "(x < y) = (unat x < unat (y :: 16 word))"
  "(x = y) = (unat x = unat (y :: 16 word))"
  by (simp_all add: word_le_nat_alt word_less_nat_alt word_unat_eq_iff)

lemma unat_lt16: "unat (x :: 16 word) < 65536"
  using unsigned_less[of x] by simp

lemma unit_key_eq: "unit_key x = unit_key y \<longleftrightarrow> x = y"
  using unat_lt16[of x] unat_lt16[of y]
  by (auto simp: unit_key_def code_point_rank_def unat_cmp split: if_splits)

fun lex_cmp :: "'a::linorder list \<Rightarrow> 'a list \<Rightarrow> int" where
  "lex_cmp [] [] = 0"
| "lex_cmp [] (y # ys) = - 1"
| "lex_cmp (x # xs) [] = 1"
| "lex_cmp (x # xs) (y # ys) = (if x = y then lex_cmp xs ys else if x < y then - 1 else 1)"

lemma lex_cmp_alt: "lex_cmp xs ys = (if xs = ys then 0 else if xs < ys then - 1 else 1)"
  by (induction xs ys rule: lex_cmp.induct) auto

lemma lex_cmp_Nil: "lex_cmp [] ys = - sgn (int (length ys))" "lex_cmp ys [] = sgn (int (length ys))"
  by (cases ys; simp)+

lemma compare_text_key: "compare_text a b = lex_cmp (map unit_key a) (map unit_key b)"
proof (induction a b rule: compare_text.induct)
  case (4 x xs y ys)
  then show ?case
    using unat_lt16[of x] unat_lt16[of y]
    by (auto simp: unit_key_eq) (auto simp: unit_key_def code_point_rank_def unat_cmp split: if_splits)
qed auto

lemma compare_byte_order_key:
  "sgn (compare_byte_order a b) = lex_cmp (map unit_key a) (map unit_key b)"
proof (induction a b rule: compare_byte_order.induct)
  case (1 x xs y ys)
  then show ?case
    using unat_lt16[of x] unat_lt16[of y]
    by (auto simp: unit_key_eq)
      (auto simp: unit_key_def code_point_rank_def is_surrogate_def unat_cmp split: if_splits)
qed (simp_all add: lex_cmp_Nil)

lemma map_unit_key_eq: "map unit_key a = map unit_key b \<longleftrightarrow> a = b"
  by (rule inj_map_eq_map) (auto simp: inj_def unit_key_eq)


subsection \<open>Comparison functions and the stable sort\<close>

text \<open>\<open>Array.prototype.sort\<close>: stable, so an element goes before the first one it is not above.\<close>

fun js_insert :: "('a \<Rightarrow> 'a \<Rightarrow> int) \<Rightarrow> 'a \<Rightarrow> 'a list \<Rightarrow> 'a list" where
  "js_insert cmp x [] = [x]"
| "js_insert cmp x (y # ys) = (if cmp x y \<le> 0 then x # y # ys else y # js_insert cmp x ys)"

definition js_sort :: "('a \<Rightarrow> 'a \<Rightarrow> int) \<Rightarrow> 'a list \<Rightarrow> 'a list" where
  "js_sort cmp xs = foldr (js_insert cmp) xs []"

lemma js_sort_simps [simp]:
  "js_sort cmp [] = []"
  "js_sort cmp (x # xs) = js_insert cmp x (js_sort cmp xs)"
  by (simp_all add: js_sort_def)

lemma mset_js_insert [simp]: "mset (js_insert cmp x xs) = add_mset x (mset xs)"
  by (induction xs) auto

lemma mset_js_sort [simp]: "mset (js_sort cmp xs) = mset xs"
  by (induction xs) auto

lemma set_js_insert [simp]: "set (js_insert cmp x xs) = insert x (set xs)"
  by (induction xs) auto

lemma set_js_sort [simp]: "set (js_sort cmp xs) = set xs"
  by (induction xs) auto

lemma length_js_sort [simp]: "length (js_sort cmp xs) = length xs"
  by (metis mset_js_sort size_mset)

lemma distinct_js_sort [simp]: "distinct (js_sort cmp xs) = distinct xs"
  by (metis mset_eq_imp_distinct_iff mset_js_sort)

lemma distinct_map_js_sort [simp]: "distinct (map f (js_sort cmp xs)) = distinct (map f xs)"
  by (metis mset_eq_imp_distinct_iff mset_js_sort mset_map)

locale js_comparator =
  fixes cmp :: "'a \<Rightarrow> 'a \<Rightarrow> int"
  assumes cmp_swap: "sgn (cmp y x) = - sgn (cmp x y)"
    and cmp_trans: "cmp x y \<le> 0 \<Longrightarrow> cmp y z \<le> 0 \<Longrightarrow> cmp x z \<le> 0"
begin

lemma cmp_refl: "cmp x x = 0"
  using cmp_swap[of x x] by (simp add: sgn_if split: if_splits)

lemma cmp_total: "\<not> cmp x y \<le> 0 \<Longrightarrow> cmp y x \<le> 0"
  using cmp_swap[of y x] by (simp add: sgn_if split: if_splits)

lemma insert_sorted:
  "sorted_wrt (\<lambda>x y. cmp x y \<le> 0) ys \<Longrightarrow> sorted_wrt (\<lambda>x y. cmp x y \<le> 0) (js_insert cmp x ys)"
  by (induction ys) (auto intro: cmp_trans cmp_total)

lemma sort_sorted: "sorted_wrt (\<lambda>x y. cmp x y \<le> 0) (js_sort cmp xs)"
  by (induction xs) (auto intro: insert_sorted)

lemma insert_front:
  "(\<And>y. y \<in> set ys \<Longrightarrow> cmp x y \<le> 0) \<Longrightarrow> js_insert cmp x ys = x # ys"
  by (cases ys) auto

lemma sort_idle: "sorted_wrt (\<lambda>x y. cmp x y \<le> 0) xs \<Longrightarrow> js_sort cmp xs = xs"
  by (induction xs) (auto intro: insert_front)

lemma sorted_unique:
  assumes "mset xs = mset ys"
    and "sorted_wrt (\<lambda>x y. cmp x y \<le> 0) xs" "sorted_wrt (\<lambda>x y. cmp x y \<le> 0) ys"
    and "\<And>x y. x \<in> set xs \<Longrightarrow> y \<in> set xs \<Longrightarrow> cmp x y = 0 \<Longrightarrow> x = y"
  shows "xs = ys"
  using assms
proof (induction xs arbitrary: ys)
  case Nil
  then show ?case by simp
next
  case (Cons x xs)
  then obtain y ys' where ys: "ys = y # ys'" by (cases ys) auto
  have sets: "set (x # xs) = set (y # ys')" using Cons.prems(1) ys by (metis set_mset_mset)
  then have mem: "x \<in> set (y # ys')" "y \<in> set (x # xs)" by auto
  have xy: "cmp x y \<le> 0" using Cons.prems(2) mem(2) cmp_refl by auto
  have yx: "cmp y x \<le> 0" using Cons.prems(3) ys mem(1) cmp_refl by auto
  have "cmp x y = 0" using cmp_swap[of x y] xy yx by (simp add: sgn_if split: if_splits)
  then have "x = y" using Cons.prems(4) mem(2) by auto
  then show ?case using Cons ys by auto
qed

lemma sort_unique:
  assumes "mset xs = mset ys"
    and "\<And>x y. x \<in> set xs \<Longrightarrow> y \<in> set xs \<Longrightarrow> cmp x y = 0 \<Longrightarrow> x = y"
  shows "js_sort cmp xs = js_sort cmp ys"
  by (rule sorted_unique) (use assms sort_sorted in auto)

end

text \<open>A comparison function that separates distinct elements.\<close>

locale js_total_comparator = js_comparator +
  assumes cmp_zero: "cmp x y = 0 \<Longrightarrow> x = y"
begin

lemma sort_perm_invariant: "mset xs = mset ys \<Longrightarrow> js_sort cmp xs = js_sort cmp ys"
  by (rule sort_unique) (auto dest: cmp_zero)

end

lemma lex_cmp_laws:
  "sgn (lex_cmp y x) = - sgn (lex_cmp x y)"
  "lex_cmp x y \<le> 0 \<Longrightarrow> lex_cmp y z \<le> 0 \<Longrightarrow> lex_cmp x z \<le> 0"
  "lex_cmp x y = 0 \<longleftrightarrow> x = y"
  by (auto simp: lex_cmp_alt split: if_splits)

lemma lex_cmp_swap: "lex_cmp y x = - lex_cmp x y"
  by (induction x y rule: lex_cmp.induct) auto

lemma sgn_nonpos: "(sgn (c :: int) \<le> 0) = (c \<le> 0)"
  by (simp add: sgn_if)

interpretation text_order: js_total_comparator compare_text
proof
  fix x y z
  show "sgn (compare_text y x) = - sgn (compare_text x y)"
    unfolding compare_text_key by (rule lex_cmp_laws(1))
  show "compare_text x y \<le> 0 \<Longrightarrow> compare_text y z \<le> 0 \<Longrightarrow> compare_text x z \<le> 0"
    unfolding compare_text_key by (rule lex_cmp_laws(2))
  show "compare_text x y = 0 \<Longrightarrow> x = y"
    unfolding compare_text_key by (simp add: lex_cmp_laws map_unit_key_eq)
qed

lemma byte_order_nonpos:
  "compare_byte_order x y \<le> 0 \<longleftrightarrow> lex_cmp (map unit_key x) (map unit_key y) \<le> 0"
  by (metis compare_byte_order_key sgn_nonpos)

interpretation byte_order: js_total_comparator compare_byte_order
proof
  fix x y z
  show "sgn (compare_byte_order y x) = - sgn (compare_byte_order x y)"
    unfolding compare_byte_order_key by (rule lex_cmp_swap)
  show "compare_byte_order x y \<le> 0 \<Longrightarrow> compare_byte_order y z \<le> 0 \<Longrightarrow> compare_byte_order x z \<le> 0"
    unfolding byte_order_nonpos by (rule lex_cmp_laws(2))
  show "compare_byte_order x y = 0 \<Longrightarrow> x = y"
    using compare_byte_order_key[of x y] by (simp add: lex_cmp_laws map_unit_key_eq)
qed

subsection \<open>Sorting by a text key\<close>

definition text_key_cmp :: "('a \<Rightarrow> string) \<Rightarrow> 'a \<Rightarrow> 'a \<Rightarrow> int" where
  "text_key_cmp key a b = compare_text (units (key a)) (units (key b))"

interpretation text_key: js_comparator "text_key_cmp key" for key
proof
  fix x y z
  show "sgn (text_key_cmp key y x) = - sgn (text_key_cmp key x y)"
    unfolding text_key_cmp_def by (rule text_order.cmp_swap)
  show "text_key_cmp key x y \<le> 0 \<Longrightarrow> text_key_cmp key y z \<le> 0 \<Longrightarrow> text_key_cmp key x z \<le> 0"
    unfolding text_key_cmp_def by (rule text_order.cmp_trans)
qed

lemma of_char16_inject: "(of_char c :: 16 word) = of_char d \<longleftrightarrow> c = d"
proof -
  have "unat (of_char c :: 16 word) = of_char c" for c :: char
  proof -
    have b: "(of_char c :: nat) < 256" by simp
    have "(of_char c :: nat) < 65536" by (rule less_trans[OF b]) simp
    then have "unat (of_nat (of_char c) :: 16 word) = of_char c"
      by (subst unat_of_nat) simp
    then show ?thesis by (simp add: of_nat_of_char)
  qed
  then show ?thesis by (metis of_char_eq_iff)
qed

lemma units_eq_iff [simp]: "units a = units b \<longleftrightarrow> a = b"
  unfolding units_def by (rule inj_map_eq_map) (auto simp: inj_def of_char16_inject)

lemma text_key_cmp_zero: "text_key_cmp key a b = 0 \<longleftrightarrow> key a = key b"
  by (metis text_key_cmp_def text_order.cmp_refl text_order.cmp_zero units_eq_iff)

subsection \<open>The order is the one of the code points\<close>

definition scalar_value :: "nat \<Rightarrow> bool" where
  "scalar_value c \<longleftrightarrow> c < 0x110000 \<and> \<not> (0xd800 \<le> c \<and> c \<le> 0xdfff)"

text \<open>UTF-16 encoding of one code point.\<close>

definition utf16_char :: "nat \<Rightarrow> js_text" where
  "utf16_char c = (if c < 0x10000 then [of_nat c]
     else [of_nat (0xd800 + (c - 0x10000) div 0x400), of_nat (0xdc00 + (c - 0x10000) mod 0x400)])"

definition utf16 :: "nat list \<Rightarrow> js_text" where
  "utf16 cs = concat (map utf16_char cs)"

lemma unat_of_nat16: "n < 65536 \<Longrightarrow> unat (of_nat n :: 16 word) = n"
  by (simp add: unat_of_nat)

lemma unit_key_nat: "n < 65536 \<Longrightarrow> unit_key (of_nat n) =
   (if n < 0xd800 then n else if n < 0xe000 then n + 0x2000 else n - 0x800)"
  by (auto simp: unit_key_def code_point_rank_def unat_cmp unat_of_nat16)

lemma lex_cmp_append: "lex_cmp (ps @ xs) (ps @ ys) = lex_cmp xs ys"
  by (induction ps) auto

lemma keys_utf16_char:
  assumes "scalar_value c"
  shows "map unit_key (utf16_char c) =
    (if c < 0xd800 then [c] else if c < 0x10000 then [c - 0x800]
     else [0xf800 + (c - 0x10000) div 0x400, 0xfc00 + (c - 0x10000) mod 0x400])"
proof (cases "c < 0x10000")
  case True
  then show ?thesis using assms by (auto simp: utf16_char_def unit_key_nat scalar_value_def)
next
  case False
  let ?hi = "(c - 0x10000) div 0x400" and ?lo = "(c - 0x10000) mod 0x400"
  have "?hi < 0x400" "?lo < 0x400" using assms False by (auto simp: scalar_value_def)
  then have "unit_key (of_nat (0xd800 + ?hi)) = 0xf800 + ?hi"
    "unit_key (of_nat (0xdc00 + ?lo)) = 0xfc00 + ?lo"
    by (subst unit_key_nat; simp)+
  then show ?thesis using False by (simp add: utf16_char_def del: of_nat_add of_nat_numeral)
qed

lemma div_mod_less:
  assumes "m < (n :: nat)"
  shows "m div k < n div k \<or> m div k = n div k \<and> m mod k < n mod k"
proof -
  have "m div k \<le> n div k" using assms by (intro div_le_mono) simp
  moreover have "m mod k < n mod k" if "m div k = n div k"
  proof -
    have "n div k * k + m mod k < n div k * k + n mod k"
      using assms that div_mult_mod_eq[of m k] div_mult_mod_eq[of n k] by metis
    then show ?thesis by (simp only: nat_add_left_cancel_less)
  qed
  ultimately show ?thesis by linarith
qed

lemma key_char_less:
  assumes "scalar_value c" "scalar_value d" "c < d"
  shows "lex_cmp (map unit_key (utf16_char c) @ xs) (map unit_key (utf16_char d) @ ys) = - 1"
proof (cases "c < 0x10000")
  case True
  then show ?thesis using assms by (auto simp: keys_utf16_char scalar_value_def)
next
  case False
  then have "c - 0x10000 < d - 0x10000" using assms(3) by simp
  from div_mod_less[OF this, where k = "0x400"] show ?thesis
    using False assms by (auto simp: keys_utf16_char)
qed

lemma key_char_less':
  assumes "scalar_value c" "scalar_value d" "c < d"
  shows "lex_cmp (map unit_key (utf16_char d) @ ys) (map unit_key (utf16_char c) @ xs) = 1"
  using key_char_less[OF assms, of xs ys] lex_cmp_laws(1)[of "map unit_key (utf16_char d) @ ys"]
  by (auto simp: lex_cmp_alt split: if_splits)

lemma utf16_char_nonempty: "\<exists>x xs. utf16_char c = x # xs"
  by (simp add: utf16_char_def)

lemma compare_text_code_points_aux:
  "list_all scalar_value cs \<Longrightarrow> list_all scalar_value ds \<Longrightarrow>
     compare_text (utf16 cs) (utf16 ds) = lex_cmp cs ds"
proof (induction cs ds rule: lex_cmp.induct)
  case (2 y ys)
  then show ?case using utf16_char_nonempty[of y] by (auto simp: utf16_def)
next
  case (3 x xs)
  then show ?case using utf16_char_nonempty[of x] by (auto simp: utf16_def)
next
  case (4 x xs y ys)
  consider "x = y" | "x < y" | "y < x" by linarith
  then show ?case
    using 4 key_char_less[of x y] key_char_less'[of y x]
    by cases (auto simp: utf16_def compare_text_key lex_cmp_append)
qed (simp add: utf16_def)

subsection \<open>Properties\<close>

text \<open>The scheduler's text order and the store's byte order are one order: on all strings,
  well-formed or not, the two comparison functions have the same sign.\<close>

lemma text_orders_agree: "sgn (compare_byte_order a b) = compare_text a b"
  by (simp add: compare_byte_order_key compare_text_key)

text \<open>On UTF-16 encoded text the order is that of the Unicode code points.\<close>

lemma compare_text_code_points:
  assumes "list_all scalar_value cs" "list_all scalar_value ds"
  shows "compare_text (utf16 cs) (utf16 ds) = lex_cmp cs ds"
  by (rule compare_text_code_points_aux[OF assms])

end
