(* ===== verification/Manifest.thy ===== *)
theory Manifest
  imports JsText
begin

text \<open>
  Runtime manifests and the scheduling IR they are normalized into
  (\<open>packages/shared/src/types/runtime-scheduling.ts\<close>, \<open>packages/shared/src/types/plugin.ts\<close>,
  \<open>packages/shared/src/scheduling/normalize.ts\<close>). A manifest keeps the fields the scheduling
  code reads; an absent optional field is \<open>None\<close>. A JavaScript record object
  (\<open>inputs\<close>, export bindings) is a \<open>jmap\<close>, in the order of its entries.
\<close>

subsection \<open>Types\<close>

datatype stage = Setup | PreTurn | Narrative | PostTurn | Audit

definition stage_order :: "stage list" where
  "stage_order = [Setup, PreTurn, Narrative, PostTurn, Audit]"

datatype cardinality = One | All

datatype needs_scope = TurnScope | SessionScope

datatype dependency_ref =
    DepName string
  | DepRuntime string "needs_scope option"
  | DepCapability string "cardinality option" "needs_scope option"

datatype binding_source =
    FromRuntime string
  | FromCapability string "cardinality option"

record runtime_binding =
  bd_from :: binding_source
  bd_select :: "string option"
  bd_required :: "bool option"
  bd_accepts :: "string option"

record export_binding =
  xb_name :: string
  xb_from :: binding_source
  xb_record_as :: string
  xb_accepts :: "string option"
  xb_required :: "bool option"

type_synonym effect_resource = string

record effects_decl =
  ed_reads :: "effect_resource list option"
  ed_writes :: "effect_resource list option"
  ed_parallel_safe :: "bool option"

datatype trigger_type = TrAuto | TrManual | TrEvent

record trigger_config =
  tr_type :: trigger_type
  tr_every :: "int option"
  tr_topic :: "string option"
  tr_max_trigger_count :: "int option"
  tr_cooldown_turns :: "int option"
  tr_start_turn :: "int option"

datatype completion_mode = Await | Detached

record turn_completion_config =
  tc_mode :: "completion_mode option"
  tc_settle :: "bool option"
  tc_max_settle_wait_ms :: "int option"
  tc_max_queue_ms :: "int option"
  tc_max_execution_ms :: "int option"

datatype inject_decl = InjPluginData string | InjRuntimeExport export_binding | InjKernel string

datatype runtime_type = Agent | FunctionRuntime
datatype output_kind = Story | System
datatype execution_mode = Sync | Background
datatype dataset_tool = DsGet | DsList | DsUpsert | DsUpdate | DsOther string

record tools_config =
  tl_builtin :: "string list option"
  tl_datasets :: "(string \<times> dataset_tool list) list option"

record presentation_budget =
  pb_calls :: int
  pb_generations :: int

record presentation_decl =
  pd_calls :: "int option"
  pd_generations :: "int option"
  pd_public_asset_namespaces :: "string list option"

record manifest =
  m_name :: string
  m_plugin_id :: string
  m_version :: "string option"
  m_runtime_type :: "runtime_type option"
  m_output_kind :: "output_kind option"
  m_output_contract :: "string option"
  m_subagent_only :: bool
  m_stage :: "stage option"
  m_after :: "dependency_ref list option"
  m_needs :: "dependency_ref list option"
  m_inputs :: "(string, runtime_binding) jmap option"
  m_effects :: "effects_decl option"
  m_trigger :: "trigger_config option"
  m_execution :: "execution_mode option"
  m_turn_completion :: "turn_completion_config option"
  m_advertise_events :: "bool option"
  m_tools :: "tools_config option"
  m_inject :: "inject_decl list option"
  m_record_as :: "string option"
  m_presentation :: "presentation_decl option"

text \<open>A manifest that declares nothing but its name and plugin, and the default trigger.\<close>

definition bare_manifest :: "string \<Rightarrow> string \<Rightarrow> manifest" where
  "bare_manifest name plugin =
     \<lparr> m_name = name, m_plugin_id = plugin, m_version = None, m_runtime_type = None,
       m_output_kind = None, m_output_contract = None, m_subagent_only = False, m_stage = None,
       m_after = None, m_needs = None, m_inputs = None, m_effects = None, m_trigger = None,
       m_execution = None, m_turn_completion = None, m_advertise_events = None, m_tools = None,
       m_inject = None, m_record_as = None, m_presentation = None \<rparr>"

subsection \<open>The normalized spec\<close>

record turn_completion_policy =
  pol_mode :: completion_mode
  pol_settle :: "bool option"
  pol_max_settle_wait_ms :: "int option"
  pol_max_queue_ms :: "int option"
  pol_max_execution_ms :: "int option"

record runtime_spec =
  sp_presentation :: "(presentation_budget \<times> string list) option"
  sp_id :: string
  sp_plugin_id :: string
  sp_trigger :: trigger_config
  sp_background_when_detached :: bool
  sp_turn_completion :: turn_completion_policy
  sp_stage :: "stage option"
  sp_after :: "dependency_ref list"
  sp_needs :: "dependency_ref list"
  sp_bindings :: "(string, runtime_binding) jmap"
  sp_export_bindings :: "(string, export_binding) jmap"
  sp_effects :: "effects_decl option"

fun index_of :: "'a \<Rightarrow> 'a list \<Rightarrow> int" where
  "index_of x [] = - 1"
| "index_of x (y # ys) =
     (if x = y then 0 else let i = index_of x ys in if i < 0 then - 1 else i + 1)"

definition stage_rank :: "stage option \<Rightarrow> int" where
  "stage_rank st = (case st of None \<Rightarrow> int (length stage_order) | Some s \<Rightarrow> index_of s stage_order)"

definition stage_message_order :: "stage option \<Rightarrow> int" where
  "stage_message_order st = (case st of None \<Rightarrow> 99 | Some s \<Rightarrow> index_of s stage_order)"

definition default_trigger :: trigger_config where
  "default_trigger = \<lparr> tr_type = TrAuto, tr_every = None, tr_topic = None,
     tr_max_trigger_count = None, tr_cooldown_turns = None, tr_start_turn = None \<rparr>"

definition declared_trigger :: "manifest \<Rightarrow> trigger_config" where
  "declared_trigger m = or_else (m_trigger m) default_trigger"

definition collect_export_bindings :: "manifest \<Rightarrow> (string, export_binding) jmap" where
  "collect_export_bindings m =
     foldl (\<lambda>result inject. case inject of
              InjRuntimeExport xb \<Rightarrow> jm_set (xb_name xb) xb result
            | _ \<Rightarrow> result)
       [] (or_else (m_inject m) [])"

definition normalize_turn_completion_policy :: "manifest \<Rightarrow> turn_completion_policy" where
  "normalize_turn_completion_policy m =
     (let declared = m_turn_completion m in
      \<lparr> pol_mode = or_else (Option.bind declared tc_mode) Await,
        pol_settle = (if or_else (Option.bind declared tc_settle) False then Some True else None),
        pol_max_settle_wait_ms = Option.bind declared tc_max_settle_wait_ms,
        pol_max_queue_ms = Option.bind declared tc_max_queue_ms,
        pol_max_execution_ms = Option.bind declared tc_max_execution_ms \<rparr>)"

definition normalize_runtime_manifest :: "manifest \<Rightarrow> runtime_spec" where
  "normalize_runtime_manifest m =
     \<lparr> sp_presentation = (case m_presentation m of None \<Rightarrow> None
         | Some p \<Rightarrow> Some (\<lparr> pb_calls = or_else (pd_calls p) 0,
                              pb_generations = or_else (pd_generations p) 0 \<rparr>,
                            or_else (pd_public_asset_namespaces p) [])),
       sp_id = m_name m,
       sp_plugin_id = m_plugin_id m,
       sp_trigger = declared_trigger m,
       sp_background_when_detached = (m_execution m = Some Background),
       sp_turn_completion = normalize_turn_completion_policy m,
       sp_stage = m_stage m,
       sp_after = or_else (m_after m) [],
       sp_needs = or_else (m_needs m) [],
       sp_bindings = or_else (m_inputs m) [],
       sp_export_bindings = collect_export_bindings m,
       sp_effects = m_effects m \<rparr>"

text \<open>The cache of \<open>getRuntimeSpec\<close> returns what \<open>normalizeRuntimeManifest\<close> computed.\<close>

definition spec_cache_lookup :: "(manifest, runtime_spec) jmap \<Rightarrow> manifest \<Rightarrow>
    runtime_spec \<times> (manifest, runtime_spec) jmap" where
  "spec_cache_lookup cache m =
     (case jm_get cache m of
        Some sp \<Rightarrow> (sp, cache)
      | None \<Rightarrow> (let sp = normalize_runtime_manifest m in (sp, jm_set m sp cache)))"

abbreviation get_runtime_spec :: "manifest \<Rightarrow> runtime_spec" where
  "get_runtime_spec \<equiv> normalize_runtime_manifest"

definition is_turn_detached_runtime :: "runtime_spec \<Rightarrow> bool" where
  "is_turn_detached_runtime sp \<longleftrightarrow> pol_mode (sp_turn_completion sp) = Detached"

text \<open>The public view: \<open>None\<close> is \<open>{ mode: "await" }\<close>, otherwise the detached limits.\<close>

definition effective_turn_completion :: "manifest \<Rightarrow> turn_completion_policy option" where
  "effective_turn_completion m =
     (let policy = sp_turn_completion (get_runtime_spec m) in
      if pol_mode policy = Detached
      then Some \<lparr> pol_mode = Detached,
                  pol_settle = (if or_else (pol_settle policy) False then Some True else None),
                  pol_max_settle_wait_ms = pol_max_settle_wait_ms policy,
                  pol_max_queue_ms = pol_max_queue_ms policy,
                  pol_max_execution_ms = pol_max_execution_ms policy \<rparr>
      else None)"

definition has_illegal_detached_contract :: "manifest \<Rightarrow> bool" where
  "has_illegal_detached_contract m =
     (let sp = get_runtime_spec m;
          trigger_type = tr_type (sp_trigger sp);
          always_detached = (trigger_type = TrEvent \<or> trigger_type = TrManual)
                              \<and> sp_background_when_detached sp
      in always_detached \<and> sp_bindings sp \<noteq> [])"

subsection \<open>Facts\<close>

lemma spec_fields [simp, manifest_defs]:
  "sp_id (get_runtime_spec m) = m_name m"
  "sp_plugin_id (get_runtime_spec m) = m_plugin_id m"
  "sp_trigger (get_runtime_spec m) = declared_trigger m"
  "sp_stage (get_runtime_spec m) = m_stage m"
  "sp_after (get_runtime_spec m) = or_else (m_after m) []"
  "sp_needs (get_runtime_spec m) = or_else (m_needs m) []"
  "sp_bindings (get_runtime_spec m) = or_else (m_inputs m) []"
  "sp_effects (get_runtime_spec m) = m_effects m"
  "sp_background_when_detached (get_runtime_spec m) = (m_execution m = Some Background)"
  "sp_turn_completion (get_runtime_spec m) = normalize_turn_completion_policy m"
  by (simp_all add: normalize_runtime_manifest_def)

definition spec_cache_ok :: "(manifest, runtime_spec) jmap \<Rightarrow> bool" where
  "spec_cache_ok cache = (\<forall>(m, sp) \<in> set cache. sp = normalize_runtime_manifest m)"

lemma spec_cache_lookup_ok:
  "spec_cache_ok cache \<Longrightarrow>
     fst (spec_cache_lookup cache m) = normalize_runtime_manifest m
     \<and> spec_cache_ok (snd (spec_cache_lookup cache m))"
proof -
  assume ok: "spec_cache_ok cache"
  have upd: "spec_cache_ok (jm_set m (normalize_runtime_manifest m) cache)" for m
    using ok unfolding spec_cache_ok_def by (induction cache) auto
  show ?thesis
  proof (cases "jm_get cache m")
    case None
    then show ?thesis using upd by (simp add: spec_cache_lookup_def Let_def)
  next
    case (Some sp)
    then have "(m, sp) \<in> set cache" by (rule map_of_SomeD)
    then show ?thesis using Some ok by (auto simp: spec_cache_lookup_def spec_cache_ok_def)
  qed
qed

lemma set_stage_order [simp]: "set stage_order = UNIV"
  using stage.exhaust by (auto simp: stage_order_def)

lemma distinct_stage_order [simp]: "distinct stage_order"
  by (simp add: stage_order_def)

text \<open>Comparison of manifests by name, the order of every level and listing.\<close>

abbreviation by_name :: "manifest \<Rightarrow> manifest \<Rightarrow> int" where
  "by_name \<equiv> text_key_cmp m_name"

lemma by_name_sort_unique:
  assumes "mset xs = mset ys" and "distinct (map m_name xs)"
  shows "js_sort by_name xs = js_sort by_name ys"
  by (rule text_key.sort_unique[OF assms(1)])
    (metis assms(2) distinct_map_inj_on text_key_cmp_zero)

lemma find_by_name:
  assumes "distinct (map m_name rts)" "rt \<in> set rts"
  shows "find (\<lambda>r. m_name r = m_name rt) rts = Some rt"
  using assms by (induction rts) (auto simp: image_iff)

end
