(* ===== verification/DagScheduler.thy ===== *)
theory DagScheduler
  imports Manifest
begin

text \<open>
  Topological levels of a batch of runtimes (\<open>packages/runtime/src/schedule/dag-scheduler.ts\<close>):
  a Kahn sort over the ordering edges of the normalized specs, with OR edges for capability needs
  of cardinality one that are relaxed only when nothing else is ready. The theory shows that the
  sort always returns, that it places every runtime in one level or reports it as cyclic, and that
  the placed runtimes are exactly those an AND/OR reading of the declared edges can run.
\<close>

subsection \<open>Declared edges\<close>

datatype ref_kind = KindNeeds | KindAfter

type_synonym provider_map = "(string, string list) jmap"

definition providers_of :: "provider_map \<Rightarrow> string \<Rightarrow> string list" where
  "providers_of cp cap = or_else (jm_get cp cap) []"

fun ref_to_names :: "dependency_ref \<Rightarrow> ref_kind \<Rightarrow> provider_map \<Rightarrow> string list" where
  "ref_to_names (DepName name) kind cp = (if length name > 0 then [name] else [])"
| "ref_to_names (DepRuntime runtime scope) kind cp =
     (if kind = KindNeeds \<and> scope = Some SessionScope then []
      else if length runtime > 0 then [runtime] else [])"
| "ref_to_names (DepCapability cap cardi scope) kind cp =
     (if kind = KindNeeds \<and> scope = Some SessionScope then [] else providers_of cp cap)"

fun hard_need :: "dependency_ref \<Rightarrow> bool" where
  "hard_need (DepName name) = True"
| "hard_need (DepRuntime runtime scope) = True"
| "hard_need (DepCapability cap cardi scope) = (cardi = Some All)"

record dep_sets =
  ds_all :: "string list"
  ds_hard :: "string list"

definition add_soft :: "string \<Rightarrow> dep_sets \<Rightarrow> dep_sets" where
  "add_soft name s = s\<lparr> ds_all := js_add name (ds_all s) \<rparr>"

definition add_hard :: "string \<Rightarrow> dep_sets \<Rightarrow> dep_sets" where
  "add_hard name s = s\<lparr> ds_all := js_add name (ds_all s), ds_hard := js_add name (ds_hard s) \<rparr>"

definition binding_names :: "provider_map \<Rightarrow> binding_source \<Rightarrow> string list" where
  "binding_names cp from = (case from of
       FromRuntime runtime \<Rightarrow> (if length runtime > 0 then [runtime] else [])
     | FromCapability cap cardi \<Rightarrow> providers_of cp cap)"

definition collect_dependencies :: "manifest \<Rightarrow> provider_map \<Rightarrow> dep_sets" where
  "collect_dependencies m cp =
     (let spec = get_runtime_spec m;
          s0 = \<lparr> ds_all = [], ds_hard = [] \<rparr>;
          s1 = foldl (\<lambda>s need. foldl (\<lambda>s name. if hard_need need then add_hard name s else add_soft name s)
                        s (ref_to_names need KindNeeds cp)) s0 (sp_needs spec);
          s2 = foldl (\<lambda>s after. foldl (\<lambda>s name. add_hard name s) s (ref_to_names after KindAfter cp))
                 s1 (sp_after spec)
      in foldl (\<lambda>s (k, binding). foldl (\<lambda>s name. add_hard name s) s (binding_names cp (bd_from binding)))
           s2 (sp_bindings spec))"

fun one_provider_group :: "provider_map \<Rightarrow> dependency_ref \<Rightarrow> string list list" where
  "one_provider_group cp (DepCapability cap cardi scope) =
     (if scope = Some SessionScope \<or> cardi = Some All then []
      else let providers = providers_of cp cap in if length providers > 0 then [providers] else [])"
| "one_provider_group cp ref = []"

definition collect_one_provider_groups :: "manifest \<Rightarrow> provider_map \<Rightarrow> string list list" where
  "collect_one_provider_groups m cp = concat (map (one_provider_group cp) (sp_needs (get_runtime_spec m)))"

definition build_capability_providers :: "manifest list \<Rightarrow> provider_map" where
  "build_capability_providers runtimes =
     foldl (\<lambda>cp rt. case m_output_contract rt of
              Some cap \<Rightarrow> if cap \<noteq> [] then jm_set cap (providers_of cp cap @ [m_name rt]) cp else cp
            | None \<Rightarrow> cp) [] runtimes"

subsection \<open>The sort\<close>

record dag_env =
  de_dependents :: "(string, string list) jmap"
  de_direct :: "(string, string list) jmap"
  de_hard :: "(string, string list) jmap"
  de_one :: "(string, string list list) jmap"
  de_by_name :: "(string, manifest) jmap"

record dag_state =
  dg_degree :: "(string, int) jmap"
  dg_completed :: "string list"
  dg_levels :: "manifest list list"
  dg_stuck :: "string list option"

record dag_result =
  dr_groups :: "manifest list list"
  dr_error :: "string option"
  dr_cyclic :: "manifest list option"

definition external_runtimes :: "manifest list \<Rightarrow> manifest list \<Rightarrow> manifest list" where
  "external_runtimes runtimes satisfied =
     filter (\<lambda>rt. m_name rt \<notin> set (map m_name runtimes)) satisfied"

definition batch_providers :: "manifest list \<Rightarrow> manifest list \<Rightarrow> provider_map" where
  "batch_providers runtimes satisfied =
     build_capability_providers (runtimes @ external_runtimes runtimes satisfied)"

definition add_edge :: "string \<Rightarrow> (string, int) jmap \<times> dag_env \<Rightarrow> string \<Rightarrow> (string, int) jmap \<times> dag_env" where
  "add_edge name = (\<lambda>(degree, env) dep.
     (jm_set name (or_else (jm_get degree name) 0 + 1) degree,
      env\<lparr> de_dependents := jm_set dep (or_else (jm_get (de_dependents env) dep) [] @ [name])
                              (de_dependents env) \<rparr>))"

definition add_runtime_edges :: "manifest list \<Rightarrow> provider_map \<Rightarrow> (string, int) jmap \<times> dag_env \<Rightarrow> manifest \<Rightarrow>
    (string, int) jmap \<times> dag_env" where
  "add_runtime_edges runtimes cp = (\<lambda>(degree, env) rt.
     let deps = collect_dependencies rt cp;
         in_scope_deps = filter (\<lambda>dep. dep \<in> set (map m_name runtimes)) (ds_all deps);
         env = env\<lparr> de_hard := jm_set (m_name rt) (ds_hard deps) (de_hard env),
                    de_direct := jm_set (m_name rt) in_scope_deps (de_direct env),
                    de_one := jm_set (m_name rt) (collect_one_provider_groups rt cp) (de_one env) \<rparr>
     in foldl (add_edge (m_name rt)) (degree, env) in_scope_deps)"

definition build_dag :: "manifest list \<Rightarrow> manifest list \<Rightarrow> (string, int) jmap \<times> dag_env" where
  "build_dag runtimes satisfied =
     (let by_name = foldl (\<lambda>m rt. jm_set (m_name rt) rt m) [] runtimes;
          degree = foldl (\<lambda>m rt. jm_set (m_name rt) (0 :: int) m) [] runtimes;
          env = \<lparr> de_dependents = [], de_direct = [], de_hard = [], de_one = [], de_by_name = by_name \<rparr>
      in foldl (add_runtime_edges runtimes (batch_providers runtimes satisfied)) (degree, env) runtimes)"

definition pick_ready :: "dag_env \<Rightarrow> (string, int) jmap \<Rightarrow> manifest list" where
  "pick_ready env degree =
     js_sort by_name (concat (map (\<lambda>(name, deg). if deg = 0 then
        (case jm_get (de_by_name env) name of Some rt \<Rightarrow> [rt] | None \<Rightarrow> []) else []) degree))"

definition relax_one :: "dag_env \<Rightarrow> string list \<Rightarrow> (string, int) jmap \<Rightarrow> string \<times> string list \<Rightarrow> (string, int) jmap" where
  "relax_one env completed degree = (\<lambda>(name, deps).
     if \<not> jm_has degree name then degree
     else let remaining = filter (jm_has degree) deps in
       if length remaining = 0 then degree
       else let groups = or_else (jm_get (de_one env) name) [];
                satisfied_groups = filter (list_ex (\<lambda>p. p \<in> set completed)) groups in
         if length satisfied_groups = 0 then degree
         else let relaxable = concat satisfied_groups;
                  has_unsatisfied_group =
                    list_ex (\<lambda>g. list_ex (jm_has degree) g \<and> \<not> list_ex (\<lambda>p. p \<in> set completed) g) groups in
           if \<not> has_unsatisfied_group
              \<and> list_all (\<lambda>dep. dep \<in> set relaxable \<and> dep \<notin> set (or_else (jm_get (de_hard env) name) [])) remaining
           then jm_set name 0 degree else degree)"

definition relax :: "dag_env \<Rightarrow> string list \<Rightarrow> (string, int) jmap \<Rightarrow> (string, int) jmap" where
  "relax env completed degree = foldl (relax_one env completed) degree (de_direct env)"

definition release :: "(string, int) jmap \<Rightarrow> string \<Rightarrow> (string, int) jmap" where
  "release degree down = (if \<not> jm_has degree down then degree
     else jm_set down (or_else (jm_get degree down) 0 - 1) degree)"

definition complete_one :: "dag_env \<Rightarrow> (string, int) jmap \<times> string list \<Rightarrow> manifest \<Rightarrow> (string, int) jmap \<times> string list" where
  "complete_one env = (\<lambda>(degree, completed) rt.
     (foldl release (jm_delete (m_name rt) degree) (or_else (jm_get (de_dependents env) (m_name rt)) []),
      js_add (m_name rt) completed))"

definition dag_step :: "dag_env \<Rightarrow> dag_state \<Rightarrow> dag_state" where
  "dag_step env s =
     (let ready = pick_ready env (dg_degree s);
          degree = (if length ready = 0 then relax env (dg_completed s) (dg_degree s) else dg_degree s);
          ready = (if length ready = 0 then pick_ready env degree else ready)
      in if length ready = 0 then s\<lparr> dg_degree := degree, dg_stuck := Some (jm_keys degree) \<rparr>
         else let (degree, completed) = foldl (complete_one env) (degree, dg_completed s) ready
              in s\<lparr> dg_degree := degree, dg_completed := completed, dg_levels := dg_levels s @ [ready] \<rparr>)"

definition dag_initial :: "manifest list \<Rightarrow> manifest list \<Rightarrow> dag_state" where
  "dag_initial runtimes satisfied =
     \<lparr> dg_degree = fst (build_dag runtimes satisfied),
       dg_completed = js_add_all (map m_name (external_runtimes runtimes satisfied)) [],
       dg_levels = [], dg_stuck = None \<rparr>"

definition dag_run :: "manifest list \<Rightarrow> manifest list \<Rightarrow> dag_state option" where
  "dag_run runtimes satisfied =
     while_option (\<lambda>s. dg_degree s \<noteq> [] \<and> dg_stuck s = None)
       (dag_step (snd (build_dag runtimes satisfied))) (dag_initial runtimes satisfied)"

definition schedule_by_dag :: "manifest list \<Rightarrow> manifest list \<Rightarrow> dag_result option" where
  "schedule_by_dag runtimes satisfied =
     (if length runtimes = 0 then Some \<lparr> dr_groups = [], dr_error = None, dr_cyclic = None \<rparr>
      else map_option (\<lambda>s. case dg_stuck s of
          None \<Rightarrow> \<lparr> dr_groups = dg_levels s, dr_error = None, dr_cyclic = None \<rparr>
        | Some stuck \<Rightarrow>
            \<lparr> dr_groups = dg_levels s,
              dr_error = Some (''cycle detected among runtimes: '' @ joined '', '' stuck),
              dr_cyclic = Some (List.map_filter (jm_get (de_by_name (snd (build_dag runtimes satisfied)))) stuck) \<rparr>)
        (dag_run runtimes satisfied))"

subsection \<open>What the collected edges are\<close>

definition provides :: "manifest list \<Rightarrow> string \<Rightarrow> string \<Rightarrow> bool" where
  "provides available cap name =
     (cap \<noteq> [] \<and> (\<exists>rt\<in>set available. m_output_contract rt = Some cap \<and> m_name rt = name))"

lemma providers_of_set:
  "providers_of (jm_set cap ps cp) cap' = (if cap = cap' then ps else providers_of cp cap')"
  by (simp add: providers_of_def)

lemma build_capability_providers_snoc:
  "build_capability_providers (rts @ [rt]) = (case m_output_contract rt of
      Some cap \<Rightarrow> if cap \<noteq> [] then jm_set cap (providers_of (build_capability_providers rts) cap @ [m_name rt])
                                  (build_capability_providers rts)
                  else build_capability_providers rts
    | None \<Rightarrow> build_capability_providers rts)"
  by (simp add: build_capability_providers_def split: option.split)

lemma set_providers_of:
  "p \<in> set (providers_of (build_capability_providers rts) cap) \<longleftrightarrow> provides rts cap p"
proof (induction rts rule: rev_induct)
  case Nil
  then show ?case by (simp add: build_capability_providers_def providers_of_def provides_def)
next
  case (snoc rt rts)
  then show ?case
    by (auto simp: build_capability_providers_snoc providers_of_set provides_def split: option.split)
qed

lemma dep_sets_folds:
  "foldl (\<lambda>s name. add_hard name s) s names =
     s\<lparr> ds_all := js_add_all names (ds_all s), ds_hard := js_add_all names (ds_hard s) \<rparr>"
  "foldl (\<lambda>s name. if h then add_hard name s else add_soft name s) s names =
     s\<lparr> ds_all := js_add_all names (ds_all s),
        ds_hard := js_add_all (if h then names else []) (ds_hard s) \<rparr>"
  by (induction names arbitrary: s) (auto simp: add_hard_def add_soft_def)

lemma foldl_js_add_all:
  "foldl (\<lambda>s x. s\<lparr> ds_all := js_add_all (f x) (ds_all s), ds_hard := js_add_all (g x) (ds_hard s) \<rparr>) s xs =
     s\<lparr> ds_all := js_add_all (concat (map f xs)) (ds_all s),
        ds_hard := js_add_all (concat (map g xs)) (ds_hard s) \<rparr>"
  by (induction xs arbitrary: s) (auto simp: js_add_all_append)

definition needs_names :: "provider_map \<Rightarrow> manifest \<Rightarrow> string list" where
  "needs_names cp m = concat (map (\<lambda>need. ref_to_names need KindNeeds cp) (or_else (m_needs m) []))"

definition order_names :: "provider_map \<Rightarrow> manifest \<Rightarrow> string list" where
  "order_names cp m =
     concat (map (\<lambda>need. if hard_need need then ref_to_names need KindNeeds cp else []) (or_else (m_needs m) []))"

definition follow_names :: "provider_map \<Rightarrow> manifest \<Rightarrow> string list" where
  "follow_names cp m =
     concat (map (\<lambda>after. ref_to_names after KindAfter cp) (or_else (m_after m) []))
     @ concat (map (\<lambda>(k, b). binding_names cp (bd_from b)) (or_else (m_inputs m) []))"

lemma collect_dependencies_eq:
  "collect_dependencies m cp =
     \<lparr> ds_all = js_add_all (needs_names cp m @ follow_names cp m) [],
       ds_hard = js_add_all (order_names cp m @ follow_names cp m) [] \<rparr>"
proof -
  have pair: "(\<lambda>s (k, b). s\<lparr> ds_all := js_add_all (binding_names cp (bd_from b)) (ds_all s),
                ds_hard := js_add_all (binding_names cp (bd_from b)) (ds_hard s) \<rparr>)
       = (\<lambda>s x. s\<lparr> ds_all := js_add_all (case x of (k, b) \<Rightarrow> binding_names cp (bd_from b)) (ds_all s),
                ds_hard := js_add_all (case x of (k, b) \<Rightarrow> binding_names cp (bd_from b)) (ds_hard s) \<rparr>)"
    by (intro ext) (auto split: prod.split)
  show ?thesis
    by (simp add: collect_dependencies_def Let_def dep_sets_folds foldl_js_add_all pair
        needs_names_def order_names_def follow_names_def js_add_all_append)
qed

lemma distinct_ds_all: "distinct (ds_all (collect_dependencies m cp))"
  by (simp add: collect_dependencies_eq)

text \<open>The declarative reading of the declared edges.\<close>

definition turn_scoped :: "needs_scope option \<Rightarrow> bool" where
  "turn_scoped scope = (scope \<noteq> Some SessionScope)"

definition ordered_after :: "manifest list \<Rightarrow> manifest \<Rightarrow> string \<Rightarrow> bool" where
  "ordered_after available m name =
     ((\<exists>ref\<in>set (or_else (m_after m) []). case ref of
         DepName n \<Rightarrow> n = name \<and> n \<noteq> []
       | DepRuntime n scope \<Rightarrow> n = name \<and> n \<noteq> []
       | DepCapability cap cardi scope \<Rightarrow> provides available cap name)
      \<or> (\<exists>b\<in>snd ` set (or_else (m_inputs m) []). case bd_from b of
         FromRuntime n \<Rightarrow> n = name \<and> n \<noteq> []
       | FromCapability cap cardi \<Rightarrow> provides available cap name))"

definition hard_before :: "manifest list \<Rightarrow> manifest \<Rightarrow> string \<Rightarrow> bool" where
  "hard_before available m name =
     (ordered_after available m name
      \<or> (\<exists>ref\<in>set (or_else (m_needs m) []). case ref of
         DepName n \<Rightarrow> n = name \<and> n \<noteq> []
       | DepRuntime n scope \<Rightarrow> n = name \<and> n \<noteq> [] \<and> turn_scoped scope
       | DepCapability cap cardi scope \<Rightarrow> cardi = Some All \<and> turn_scoped scope \<and> provides available cap name))"

definition one_need :: "manifest \<Rightarrow> string \<Rightarrow> bool" where
  "one_need m cap = (\<exists>cardi scope. DepCapability cap cardi scope \<in> set (or_else (m_needs m) [])
                       \<and> cardi \<noteq> Some All \<and> turn_scoped scope)"

abbreviation "collected available m \<equiv> collect_dependencies m (build_capability_providers available)"
abbreviation "one_groups available m \<equiv> collect_one_provider_groups m (build_capability_providers available)"

lemma mem_after_names:
  "n \<in> set (ref_to_names ref KindAfter (build_capability_providers available)) \<longleftrightarrow>
     (case ref of DepName n' \<Rightarrow> n' = n \<and> n' \<noteq> []
       | DepRuntime n' scope \<Rightarrow> n' = n \<and> n' \<noteq> []
       | DepCapability cap cardi scope \<Rightarrow> provides available cap n)"
  by (cases ref) (auto simp: set_providers_of)

lemma mem_hard_names:
  "n \<in> set (if hard_need ref then ref_to_names ref KindNeeds (build_capability_providers available) else []) \<longleftrightarrow>
     (case ref of DepName n' \<Rightarrow> n' = n \<and> n' \<noteq> []
       | DepRuntime n' scope \<Rightarrow> n' = n \<and> n' \<noteq> [] \<and> turn_scoped scope
       | DepCapability cap cardi scope \<Rightarrow> cardi = Some All \<and> turn_scoped scope \<and> provides available cap n)"
  by (cases ref) (auto simp: set_providers_of turn_scoped_def)

lemma mem_binding_names:
  "n \<in> set (binding_names (build_capability_providers available) src) \<longleftrightarrow>
     (case src of FromRuntime n' \<Rightarrow> n' = n \<and> n' \<noteq> []
       | FromCapability cap cardi \<Rightarrow> provides available cap n)"
  by (cases src) (auto simp: set_providers_of binding_names_def)

lemma set_follow_names:
  "n \<in> set (follow_names (build_capability_providers available) m) \<longleftrightarrow> ordered_after available m n"
  unfolding follow_names_def ordered_after_def set_append Un_iff mem_concat_map mem_after_names
    case_prod_beta mem_binding_names bex_simps(7) ..

lemma set_ds_hard: "n \<in> set (ds_hard (collected available m)) \<longleftrightarrow> hard_before available m n"
  unfolding collect_dependencies_eq hard_before_def order_names_def dep_sets.simps set_js_add_all
    set_append Un_iff mem_concat_map mem_hard_names set_follow_names
  by (simp only: list.set empty_iff HOL.disj_commute HOL.simp_thms)

lemma mem_one_group:
  "g \<in> set (one_provider_group cp ref) \<longleftrightarrow> g \<noteq> [] \<and>
     (\<exists>cap cardi scope. ref = DepCapability cap cardi scope \<and> cardi \<noteq> Some All \<and> turn_scoped scope
        \<and> g = providers_of cp cap)"
  by (cases ref) (auto simp: turn_scoped_def Let_def)

lemma set_one_groups:
  "g \<in> set (one_groups available m) \<longleftrightarrow>
     g \<noteq> [] \<and> (\<exists>cap. one_need m cap \<and> g = providers_of (build_capability_providers available) cap)"
  unfolding collect_one_provider_groups_def mem_concat_map mem_one_group one_need_def spec_fields
  by blast

lemma mem_needs_names:
  "n \<in> set (ref_to_names ref KindNeeds cp) \<longleftrightarrow>
     n \<in> set (if hard_need ref then ref_to_names ref KindNeeds cp else [])
     \<or> (\<exists>g\<in>set (one_provider_group cp ref). n \<in> set g)"
  by (cases ref) (auto simp: Let_def)

lemma set_ds_all:
  "n \<in> set (ds_all (collected available m)) \<longleftrightarrow>
     hard_before available m n \<or> (\<exists>g\<in>set (one_groups available m). n \<in> set g)"
proof -
  let ?cp = "build_capability_providers available"
  have "n \<in> set (needs_names ?cp m) \<longleftrightarrow> n \<in> set (order_names ?cp m) \<or> (\<exists>g\<in>set (one_groups available m). n \<in> set g)"
    unfolding needs_names_def order_names_def collect_one_provider_groups_def mem_concat_map spec_fields
    by (simp only: mem_needs_names[of n _ ?cp] bex_disj_distrib set_concat set_map) blast
  moreover have "hard_before available m n \<longleftrightarrow> n \<in> set (order_names ?cp m) \<or> n \<in> set (follow_names ?cp m)"
    unfolding set_ds_hard[symmetric] by (simp add: collect_dependencies_eq)
  ultimately show ?thesis by (auto simp: collect_dependencies_eq)
qed

lemma one_group_provides:
  "g \<in> set (one_groups available m) \<Longrightarrow> p \<in> set g \<Longrightarrow> p \<in> m_name ` set available"
  by (auto simp: set_one_groups set_providers_of provides_def)

subsection \<open>The edge maps of a batch\<close>

definition available_runtimes :: "manifest list \<Rightarrow> manifest list \<Rightarrow> manifest list" where
  "available_runtimes runtimes satisfied = runtimes @ external_runtimes runtimes satisfied"

definition direct_deps :: "manifest list \<Rightarrow> manifest list \<Rightarrow> manifest \<Rightarrow> string list" where
  "direct_deps runtimes satisfied rt =
     filter (\<lambda>dep. dep \<in> set (map m_name runtimes)) (ds_all (collected (available_runtimes runtimes satisfied) rt))"

definition deps_in :: "(string, 'a list) jmap \<Rightarrow> string \<Rightarrow> 'a list" where
  "deps_in m n = or_else (jm_get m n) []"

lemma deps_in_set [simp]: "deps_in (jm_set k v m) n = (if n = k then v else deps_in m n)"
  by (simp add: deps_in_def)

lemma add_edge_fold:
  assumes "distinct deps" "foldl (add_edge name) (degree, env) deps = (degree', env')"
  shows "degree' = (if deps = [] then degree
            else jm_set name (or_else (jm_get degree name) 0 + int (length deps)) degree)
    \<and> de_hard env' = de_hard env \<and> de_direct env' = de_direct env \<and> de_one env' = de_one env
    \<and> de_by_name env' = de_by_name env
    \<and> (\<forall>d. deps_in (de_dependents env') d = deps_in (de_dependents env) d @ (if d \<in> set deps then [name] else []))"
  using assms
proof (induction deps arbitrary: degree env)
  case Nil
  then show ?case by simp
next
  case (Cons d deps)
  let ?degree = "jm_set name (or_else (jm_get degree name) 0 + 1) degree"
  let ?env = "env\<lparr> de_dependents := jm_set d (deps_in (de_dependents env) d @ [name]) (de_dependents env) \<rparr>"
  have "foldl (add_edge name) (?degree, ?env) deps = (degree', env')"
    using Cons.prems(2) by (simp add: add_edge_def deps_in_def)
  note IH = Cons.IH[OF _ this]
  have "jm_set name (or_else (jm_get ?degree name) 0 + x) ?degree =
        jm_set name (or_else (jm_get degree name) 0 + 1 + x) degree" for x :: int
    by (simp add: algebra_simps)
  then show ?case using IH Cons.prems(1) by (auto simp: algebra_simps)
qed

definition dag_edges_ok :: "manifest list \<Rightarrow> manifest list \<Rightarrow> manifest list \<Rightarrow> (string, int) jmap \<times> dag_env \<Rightarrow> bool" where
  "dag_edges_ok runtimes satisfied visited = (\<lambda>(degree, env).
     let available = available_runtimes runtimes satisfied in
     jm_keys degree = map m_name runtimes
     \<and> de_by_name env = map (\<lambda>rt. (m_name rt, rt)) runtimes
     \<and> de_hard env = map (\<lambda>rt. (m_name rt, ds_hard (collected available rt))) visited
     \<and> de_direct env = map (\<lambda>rt. (m_name rt, direct_deps runtimes satisfied rt)) visited
     \<and> de_one env = map (\<lambda>rt. (m_name rt, one_groups available rt)) visited
     \<and> (\<forall>rt\<in>set runtimes. jm_get degree (m_name rt) =
          Some (if rt \<in> set visited then int (length (direct_deps runtimes satisfied rt)) else 0))
     \<and> (\<forall>d. deps_in (de_dependents env) d =
          map m_name (filter (\<lambda>rt. d \<in> set (direct_deps runtimes satisfied rt)) visited)))"

lemma distinct_direct_deps: "distinct (direct_deps runtimes satisfied rt)"
  by (simp add: direct_deps_def distinct_ds_all)

lemma add_runtime_edges_ok:
  assumes dist: "distinct (map m_name runtimes)"
    and sub: "set visited \<subseteq> set runtimes" "rt \<in> set runtimes" "m_name rt \<notin> m_name ` set visited"
    and ok: "dag_edges_ok runtimes satisfied visited (degree, env)"
  shows "dag_edges_ok runtimes satisfied (visited @ [rt])
           (add_runtime_edges runtimes (batch_providers runtimes satisfied) (degree, env) rt)"
proof -
  let ?deps = "direct_deps runtimes satisfied rt"
  let ?c = "collected (available_runtimes runtimes satisfied) rt"
  let ?env = "env\<lparr> de_hard := jm_set (m_name rt) (ds_hard ?c) (de_hard env),
                    de_direct := jm_set (m_name rt) ?deps (de_direct env),
                    de_one := jm_set (m_name rt) (one_groups (available_runtimes runtimes satisfied) rt) (de_one env) \<rparr>"
  obtain degree' env' where res: "foldl (add_edge (m_name rt)) (degree, ?env) ?deps = (degree', env')"
    by (cases "foldl (add_edge (m_name rt)) (degree, ?env) ?deps") auto
  have step: "add_runtime_edges runtimes (batch_providers runtimes satisfied) (degree, env) rt = (degree', env')"
    using res unfolding add_runtime_edges_def batch_providers_def available_runtimes_def direct_deps_def
    by (simp add: Let_def)
  note fold = add_edge_fold[OF distinct_direct_deps res]
  note snoc = jm_set_map_snoc[OF sub(3)]
  have deg0: "jm_get degree (m_name rt) = Some 0"
    using ok sub(2,3) by (auto simp: dag_edges_ok_def Let_def)
  have key: "m_name rt \<in> fst ` set degree" using deg0 by (auto simp: weak_map_of_SomeI dest: map_of_SomeD intro: rev_image_eqI)
  have others: "m_name r = m_name rt \<Longrightarrow> r \<in> set runtimes \<Longrightarrow> r = rt" for r
    using dist sub(2) by (auto dest: distinct_map_inj_on)
  have keys': "jm_keys degree' = jm_keys degree" using fold key by (simp add: jm_keys_set)
  have get': "jm_get degree' (m_name r) = (if r = rt then Some (int (length ?deps)) else jm_get degree (m_name r))"
    if "r \<in> set runtimes" for r
    using fold deg0 others[OF _ that] by (cases "?deps = []") auto
  show ?thesis
    unfolding step using ok fold sub keys' get'
    by (auto simp: dag_edges_ok_def Let_def snoc simp del: update.simps)
qed

lemma build_dag_ok:
  assumes "distinct (map m_name runtimes)"
  shows "dag_edges_ok runtimes satisfied runtimes (build_dag runtimes satisfied)"
proof -
  let ?step = "add_runtime_edges runtimes (batch_providers runtimes satisfied)"
  have ind: "dag_edges_ok runtimes satisfied (visited @ rest) (foldl ?step s rest)"
    if "dag_edges_ok runtimes satisfied visited s" "runtimes = visited @ rest" for visited rest s
    using that
  proof (induction rest arbitrary: visited s)
    case (Cons rt rest)
    obtain degree env where s: "s = (degree, env)" by (cases s)
    have "dag_edges_ok runtimes satisfied (visited @ [rt]) (?step s rt)"
      unfolding s by (rule add_runtime_edges_ok) (use Cons.prems assms s in auto)
    then show ?case using Cons.IH[of "visited @ [rt]"] Cons.prems by simp
  qed simp
  show ?thesis
    unfolding build_dag_def Let_def
    by (rule ind[of "[]", simplified])
      (use assms in \<open>auto simp: dag_edges_ok_def Let_def foldl_map_of_keys deps_in_def map_of_map_keys comp_def\<close>)
qed

subsection \<open>One round of the sort\<close>

abbreviation direct_of :: "dag_env \<Rightarrow> string \<Rightarrow> string list" where
  "direct_of env n \<equiv> deps_in (de_direct env) n"

abbreviation hard_of :: "dag_env \<Rightarrow> string \<Rightarrow> string list" where
  "hard_of env n \<equiv> deps_in (de_hard env) n"

abbreviation one_of :: "dag_env \<Rightarrow> string \<Rightarrow> string list list" where
  "one_of env n \<equiv> deps_in (de_one env) n"

definition can_run :: "dag_env \<Rightarrow> string set \<Rightarrow> string set \<Rightarrow> string \<Rightarrow> bool" where
  "can_run env names done n \<longleftrightarrow>
     (\<forall>d\<in>set (hard_of env n). d \<in> names \<longrightarrow> d \<in> done) \<and> (\<forall>g\<in>set (one_of env n). \<exists>p\<in>set g. p \<in> done)"

definition dag_env_ok :: "dag_env \<Rightarrow> manifest list \<Rightarrow> string set \<Rightarrow> bool" where
  "dag_env_ok env rts ext \<longleftrightarrow>
     distinct (map m_name rts) \<and> de_by_name env = map (\<lambda>rt. (m_name rt, rt)) rts
     \<and> jm_keys (de_direct env) = map m_name rts
     \<and> (\<forall>n. distinct (direct_of env n))
     \<and> (\<forall>n\<in>m_name ` set rts. set (direct_of env n) =
          {d \<in> m_name ` set rts. d \<in> set (hard_of env n) \<or> (\<exists>g\<in>set (one_of env n). d \<in> set g)})
     \<and> (\<forall>n. \<forall>g\<in>set (one_of env n). g \<noteq> [] \<and> set g \<subseteq> m_name ` set rts \<union> ext)
     \<and> (\<forall>r. \<forall>n\<in>m_name ` set rts. count_list (deps_in (de_dependents env) r) n =
          (if r \<in> set (direct_of env n) then 1 else 0))"

lemma dag_env_okD:
  assumes "dag_env_ok env rts ext"
  shows "distinct (map m_name rts)" "de_by_name env = map (\<lambda>rt. (m_name rt, rt)) rts"
    "jm_keys (de_direct env) = map m_name rts" "distinct (direct_of env n)"
    "n \<in> m_name ` set rts \<Longrightarrow> set (direct_of env n) =
       {d \<in> m_name ` set rts. d \<in> set (hard_of env n) \<or> (\<exists>g\<in>set (one_of env n). d \<in> set g)}"
    "g \<in> set (one_of env n) \<Longrightarrow> g \<noteq> [] \<and> set g \<subseteq> m_name ` set rts \<union> ext"
    "n \<in> m_name ` set rts \<Longrightarrow> count_list (deps_in (de_dependents env) r) n =
       (if r \<in> set (direct_of env n) then 1 else 0)"
proof -
  note ok = assms[unfolded dag_env_ok_def]
  show "distinct (map m_name rts)" using ok by (elim conjE)
  show "de_by_name env = map (\<lambda>rt. (m_name rt, rt)) rts" using ok by (elim conjE)
  show "jm_keys (de_direct env) = map m_name rts" using ok by (elim conjE)
  show "distinct (direct_of env n)" using ok by (elim conjE) (erule spec)
  show "n \<in> m_name ` set rts \<Longrightarrow> set (direct_of env n) =
       {d \<in> m_name ` set rts. d \<in> set (hard_of env n) \<or> (\<exists>g\<in>set (one_of env n). d \<in> set g)}"
    using ok by (elim conjE) (drule (1) bspec, assumption)
  show "g \<in> set (one_of env n) \<Longrightarrow> g \<noteq> [] \<and> set g \<subseteq> m_name ` set rts \<union> ext"
    using ok by (elim conjE) (drule spec, drule (1) bspec, assumption)
  show "n \<in> m_name ` set rts \<Longrightarrow> count_list (deps_in (de_dependents env) r) n =
       (if r \<in> set (direct_of env n) then 1 else 0)"
    using ok by (elim conjE) (drule spec, drule (1) bspec, assumption)
qed

definition degree_ok :: "dag_env \<Rightarrow> string set \<Rightarrow> (string, int) jmap \<Rightarrow> bool" where
  "degree_ok env except degree \<longleftrightarrow>
     (\<forall>n\<in>fst ` set degree - except.
        jm_get degree n = Some (int (length (filter (jm_has degree) (direct_of env n)))))"

lemma degree_okD:
  "degree_ok env except degree \<Longrightarrow> n \<in> fst ` set degree \<Longrightarrow> n \<notin> except \<Longrightarrow>
     jm_get degree n = Some (int (length (filter (jm_has degree) (direct_of env n))))"
  unfolding degree_ok_def by (drule bspec[of _ _ n]) blast+

lemma keys_release [simp]: "jm_keys (foldl release degree downs) = jm_keys degree"
  by (induction downs arbitrary: degree) (auto simp: release_def jm_keys_set)

lemma jm_has_keys: "jm_keys m = jm_keys m' \<Longrightarrow> jm_has m = jm_has m'"
  by (intro ext) (metis jm_has_iff list.set_map)

lemma get_release:
  "jm_get degree n = Some v \<Longrightarrow> jm_get (foldl release degree downs) n = Some (v - int (count_list downs n))"
proof (induction downs arbitrary: degree v)
  case (Cons d downs)
  have "jm_has degree n" using Cons.prems by (auto dest: map_of_SomeD intro: rev_image_eqI)
  then show ?case
    using Cons.IH[of "release degree d" "if d = n then v - 1 else v"] Cons.prems
    by (auto simp: release_def)
qed simp

lemma keys_jm_delete: "jm_keys (jm_delete k m) = filter (\<lambda>x. x \<noteq> k) (jm_keys m)"
  by (induction m) auto

lemma length_filter_remove:
  "distinct xs \<Longrightarrow> P k \<Longrightarrow>
     int (length (filter (\<lambda>x. P x \<and> x \<noteq> k) xs)) = int (length (filter P xs)) - (if k \<in> set xs then 1 else 0)"
  by (induction xs) (auto cong: filter_cong)

lemma complete_one_ok:
  assumes env: "dag_env_ok env rts ext" and keys: "fst ` set degree \<subseteq> m_name ` set rts"
    and has: "jm_has degree (m_name rt)" and wf: "jm_wf degree"
    and ok: "degree_ok env X degree"
    and res: "complete_one env (degree, completed) rt = (degree', completed')"
  shows "jm_keys degree' = filter (\<lambda>x. x \<noteq> m_name rt) (jm_keys degree)"
    and "degree_ok env X degree'" and "set completed' = insert (m_name rt) (set completed)"
proof -
  let ?r = "m_name rt"
  let ?downs = "deps_in (de_dependents env) ?r"
  have d': "degree' = foldl release (jm_delete ?r degree) ?downs" and c': "completed' = js_add ?r completed"
    using res by (auto simp: complete_one_def deps_in_def)
  show keys': "jm_keys degree' = filter (\<lambda>x. x \<noteq> ?r) (jm_keys degree)"
    by (simp add: d' keys_jm_delete)
  have has': "jm_has degree' x \<longleftrightarrow> jm_has degree x \<and> x \<noteq> ?r" for x
    using arg_cong[OF keys', of set] by (auto simp: set_eq_iff)
  show "set completed' = insert ?r (set completed)" by (simp add: c')
  show "degree_ok env X degree'"
    unfolding degree_ok_def
  proof
    fix n assume "n \<in> fst ` set degree' - X"
    then have n: "n \<in> fst ` set degree - X" "n \<noteq> ?r" using has'[of n] by auto
    have get: "jm_get degree n = Some (int (length (filter (jm_has degree) (direct_of env n))))"
      using ok n by (simp add: degree_ok_def)
    have nr: "n \<in> m_name ` set rts" using n keys by auto
    have "jm_get degree' n = Some (int (length (filter (jm_has degree) (direct_of env n))) - int (count_list ?downs n))"
      unfolding d' by (rule get_release) (use get n in simp)
    also have "int (count_list ?downs n) = (if ?r \<in> set (direct_of env n) then 1 else 0)"
      using dag_env_okD(7)[OF env nr] by simp
    also have "int (length (filter (jm_has degree) (direct_of env n))) - (if ?r \<in> set (direct_of env n) then 1 else 0)
        = int (length (filter (jm_has degree') (direct_of env n)))"
      using length_filter_remove[of "direct_of env n" "jm_has degree" ?r] dag_env_okD(4)[OF env, of n] has
      by (simp add: has'[unfolded jm_has_iff] cong: filter_cong)
    finally show "jm_get degree' n = Some (int (length (filter (jm_has degree') (direct_of env n))))" .
  qed
qed

lemma complete_all_ok:
  assumes env: "dag_env_ok env rts ext" and keys: "fst ` set degree \<subseteq> m_name ` set rts" and wf: "jm_wf degree"
    and ready: "m_name ` set ready \<subseteq> fst ` set degree" "distinct (map m_name ready)"
    and ok: "degree_ok env X degree"
    and res: "foldl (complete_one env) (degree, completed) ready = (degree', completed')"
  shows "jm_keys degree' = filter (\<lambda>x. x \<notin> m_name ` set ready) (jm_keys degree) \<and> degree_ok env X degree'
    \<and> set completed' = m_name ` set ready \<union> set completed"
  using keys wf ready ok res
proof (induction ready arbitrary: degree completed)
  case Nil
  then show ?case by simp
next
  case (Cons rt ready)
  obtain d1 c1 where one: "complete_one env (degree, completed) rt = (d1, c1)"
    by (cases "complete_one env (degree, completed) rt")
  note step = complete_one_ok[OF env Cons.prems(1) _ Cons.prems(2) Cons.prems(5) one]
  have has: "jm_has degree (m_name rt)" using Cons.prems(3) by simp
  have k1: "fst ` set d1 = fst ` set degree - {m_name rt}"
    using arg_cong[OF step(1)[OF has], of set] by auto
  have wf1: "jm_wf d1" using step(1)[OF has] Cons.prems(2) by simp
  have fold1: "foldl (complete_one env) (d1, c1) ready = (degree', completed')"
    using Cons.prems(6) one by simp
  have sub1: "fst ` set d1 \<subseteq> m_name ` set rts" "m_name ` set ready \<subseteq> fst ` set d1"
    using k1 Cons.prems(1,3,4) by (auto simp: image_iff)
  note IH = Cons.IH[OF sub1(1) wf1 sub1(2) _ step(2)[OF has] fold1]
  have "filter (\<lambda>x. x \<notin> m_name ` set ready) (jm_keys d1) =
        filter (\<lambda>x. x \<notin> m_name ` set (rt # ready)) (jm_keys degree)"
    unfolding step(1)[OF has] by (simp add: conj_commute)
  then show ?case using IH step(3)[OF has] Cons.prems(4) by simp
qed

definition relax_cond :: "dag_env \<Rightarrow> string list \<Rightarrow> string set \<Rightarrow> string \<Rightarrow> string list \<Rightarrow> bool" where
  "relax_cond env completed keys n deps \<longleftrightarrow>
     (\<exists>d\<in>set deps. d \<in> keys)
     \<and> (\<exists>g\<in>set (one_of env n). set g \<inter> set completed \<noteq> {})
     \<and> (\<forall>g\<in>set (one_of env n). set g \<inter> keys \<noteq> {} \<longrightarrow> set g \<inter> set completed \<noteq> {})
     \<and> (\<forall>d\<in>set deps. d \<in> keys \<longrightarrow>
          (\<exists>g\<in>set (one_of env n). set g \<inter> set completed \<noteq> {} \<and> d \<in> set g) \<and> d \<notin> set (hard_of env n))"

lemma relax_one_eq:
  "relax_one env completed degree (n, deps) =
     (if n \<in> fst ` set degree \<and> relax_cond env completed (fst ` set degree) n deps
      then jm_set n 0 degree else degree)"
proof -
  have sat: "filter (list_ex (\<lambda>p. p \<in> set completed)) gs \<noteq> [] \<longleftrightarrow> (\<exists>g\<in>set gs. set g \<inter> set completed \<noteq> {})" for gs
    by (auto simp: filter_empty_conv list_ex_iff)
  have rel: "d \<in> set (concat (filter (list_ex (\<lambda>p. p \<in> set completed)) gs)) \<longleftrightarrow>
      (\<exists>g\<in>set gs. set g \<inter> set completed \<noteq> {} \<and> d \<in> set g)" for d gs
    by (auto simp: list_ex_iff)
  have unsat: "list_ex (\<lambda>g. list_ex (jm_has degree) g \<and> \<not> list_ex (\<lambda>p. p \<in> set completed) g) gs \<longleftrightarrow>
      \<not> (\<forall>g\<in>set gs. set g \<inter> fst ` set degree \<noteq> {} \<longrightarrow> set g \<inter> set completed \<noteq> {})" for gs
    by (auto simp: list_ex_iff)
  have rem: "filter (jm_has degree) deps \<noteq> [] \<longleftrightarrow> (\<exists>d\<in>set deps. d \<in> fst ` set degree)"
    by (auto simp: filter_empty_conv)
  show ?thesis
    unfolding relax_one_def relax_cond_def Let_def prod.case unsat length_0_conv deps_in_def rel list_all_iff
    using sat[of "or_else (jm_get (de_one env) n) []"] rem by (simp add: conj_ac) blast
qed

lemma keys_relax_one [simp]: "jm_keys (relax_one env completed degree x) = jm_keys degree"
  by (cases x) (auto simp: relax_one_eq jm_keys_set)

lemma keys_relax [simp]: "jm_keys (relax env completed degree) = jm_keys degree"
  unfolding relax_def by (rule foldl_invariant) (auto simp del: list.set_map)

lemma get_relax_fold:
  "distinct (map fst ds) \<Longrightarrow> n \<in> fst ` set degree \<Longrightarrow>
     jm_get (foldl (relax_one env completed) degree ds) n =
       (if \<exists>deps. (n, deps) \<in> set ds \<and> relax_cond env completed (fst ` set degree) n deps
        then Some 0 else jm_get degree n)"
proof (induction ds arbitrary: degree)
  case (Cons x ds)
  obtain n' deps where x: "x = (n', deps)" by (cases x)
  have keys: "fst ` set (relax_one env completed degree x) = fst ` set degree"
    by (metis keys_relax_one list.set_map)
  have "(n, d) \<notin> set ds" if "n = n'" for d
    using Cons.prems(1) x that by (auto simp: rev_image_eqI)
  then show ?case
    using Cons.IH[of "relax_one env completed degree x"] Cons.prems keys by (auto simp: x relax_one_eq)
qed simp

lemma get_relax:
  assumes "dag_env_ok env rts ext" "n \<in> fst ` set degree" "n \<in> m_name ` set rts"
  shows "jm_get (relax env completed degree) n =
    (if relax_cond env completed (fst ` set degree) n (direct_of env n) then Some 0 else jm_get degree n)"
proof -
  have keys: "jm_keys (de_direct env) = map m_name rts" and dist: "distinct (map m_name rts)"
    using dag_env_okD(1,3)[OF assms(1)] by auto
  have wf: "jm_wf (de_direct env)" using keys dist by simp
  have "n \<in> set (jm_keys (de_direct env))" using keys assms(3) by simp
  then obtain deps where mem: "(n, deps) \<in> set (de_direct env)" by auto
  have get: "deps_in (de_direct env) n = deps"
    using wf mem by (simp add: deps_in_def)
  have uniq: "(n, d) \<in> set (de_direct env) \<longleftrightarrow> d = deps" for d
    using wf mem by (auto dest: eq_key_imp_eq_value)
  show ?thesis
    unfolding relax_def by (simp add: get_relax_fold[OF wf assms(2)] uniq get)
qed

lemma concat_map_ready:
  "concat (map (\<lambda>(name, deg). if deg = 0 then (case f name of Some rt \<Rightarrow> [rt] | None \<Rightarrow> []) else []) degree)
     = List.map_filter f (map fst (filter (\<lambda>p. snd p = (0 :: int)) degree))"
  by (induction degree) (auto simp: split: option.split)

lemma map_of_by_name:
  "distinct (map m_name rts) \<Longrightarrow>
     map_of (map (\<lambda>rt. (m_name rt, rt)) rts) n = Some rt \<longleftrightarrow> rt \<in> set rts \<and> m_name rt = n"
  by (induction rts) (auto simp: image_iff)

lemma map_filter_names:
  "(\<And>n. n \<in> set ns \<Longrightarrow> \<exists>rt. f n = Some rt \<and> m_name rt = n) \<Longrightarrow> map m_name (List.map_filter f ns) = ns"
  by (induction ns) force+

lemma pick_ready_facts:
  assumes env: "dag_env_ok env rts ext" and wf: "jm_wf degree" and keys: "fst ` set degree \<subseteq> m_name ` set rts"
  shows "set (pick_ready env degree) = {rt \<in> set rts. jm_get degree (m_name rt) = Some 0}"
    and "distinct (map m_name (pick_ready env degree))"
    and "sorted_wrt (\<lambda>x y. by_name x y \<le> 0) (pick_ready env degree)"
proof -
  let ?f = "map_of (map (\<lambda>rt. (m_name rt, rt)) rts)"
  let ?zero = "map fst (filter (\<lambda>p. snd p = (0 :: int)) degree)"
  note dist = dag_env_okD(1)[OF env]
  have eq: "pick_ready env degree = js_sort by_name (List.map_filter ?f ?zero)"
    unfolding pick_ready_def concat_map_ready dag_env_okD(2)[OF env] ..
  have zero: "n \<in> set ?zero \<longleftrightarrow> jm_get degree n = Some 0" for n
    using wf by (auto simp: image_iff intro!: bexI[of _ "(n, 0)"] dest: map_of_SomeD)
  have sub: "set ?zero \<subseteq> m_name ` set rts" using keys by auto
  have names: "map m_name (List.map_filter ?f ?zero) = ?zero"
    by (rule map_filter_names) (use sub in \<open>auto simp: map_of_by_name[OF dist] image_subset_iff image_iff\<close>)
  show "set (pick_ready env degree) = {rt \<in> set rts. jm_get degree (m_name rt) = Some 0}"
  proof -
    have "rt \<in> set (pick_ready env degree) \<longleftrightarrow> rt \<in> set rts \<and> m_name rt \<in> set ?zero" for rt
      unfolding eq set_js_sort mem_map_filter map_of_by_name[OF dist] by blast
    then show ?thesis unfolding zero by blast
  qed
  have "distinct ?zero" using wf by (simp add: distinct_map_filter)
  then show "distinct (map m_name (pick_ready env degree))" by (simp add: eq names)
  show "sorted_wrt (\<lambda>x y. by_name x y \<le> 0) (pick_ready env degree)"
    unfolding eq by (rule text_key.sort_sorted)
qed

subsection \<open>The loop invariant\<close>

fun levels_sound :: "dag_env \<Rightarrow> string set \<Rightarrow> string set \<Rightarrow> manifest list list \<Rightarrow> bool" where
  "levels_sound env names done [] = True"
| "levels_sound env names done (level # levels) =
     ((\<forall>rt\<in>set level. can_run env names done (m_name rt))
      \<and> levels_sound env names (done \<union> m_name ` set level) levels)"

lemma levels_sound_snoc:
  "levels_sound env names done (levels @ [level]) \<longleftrightarrow> levels_sound env names done levels
     \<and> (\<forall>rt\<in>set level. can_run env names (done \<union> m_name ` set (concat levels)) (m_name rt))"
  by (induction levels arbitrary: "done") (auto simp: Un_assoc image_Un)

definition dag_loop_inv :: "dag_env \<Rightarrow> manifest list \<Rightarrow> string set \<Rightarrow> dag_state \<Rightarrow> bool" where
  "dag_loop_inv env rts ext s \<longleftrightarrow>
     jm_wf (dg_degree s) \<and> fst ` set (dg_degree s) \<subseteq> m_name ` set rts
     \<and> set (dg_completed s) = ext \<union> m_name ` set (concat (dg_levels s))
     \<and> m_name ` set (concat (dg_levels s)) = m_name ` set rts - fst ` set (dg_degree s)
     \<and> distinct (map m_name (concat (dg_levels s))) \<and> set (concat (dg_levels s)) \<subseteq> set rts
     \<and> (\<forall>level\<in>set (dg_levels s). level \<noteq> [] \<and> sorted_wrt (\<lambda>x y. by_name x y \<le> 0) level)
     \<and> levels_sound env (m_name ` set rts) ext (dg_levels s)
     \<and> (case dg_stuck s of None \<Rightarrow> degree_ok env {} (dg_degree s)
        | Some stuck \<Rightarrow> stuck = jm_keys (dg_degree s) \<and> stuck \<noteq> []
            \<and> (\<forall>n\<in>set stuck. \<not> can_run env (m_name ` set rts) (set (dg_completed s)) n))"

text \<open>A node of degree zero, and a relaxed node, can run; a node that stays blocked cannot.\<close>

lemma can_run_of_degree_zero:
  assumes env: "dag_env_ok env rts ext" and n: "n \<in> m_name ` set rts"
    and none: "\<And>d. d \<in> set (direct_of env n) \<Longrightarrow> d \<in> completed" and ext: "ext \<subseteq> completed"
  shows "can_run env (m_name ` set rts) completed n"
  unfolding can_run_def
proof (intro conjI ballI impI)
  fix d assume "d \<in> set (hard_of env n)" "d \<in> m_name ` set rts"
  then show "d \<in> completed" using dag_env_okD(5)[OF env n] none by blast
next
  fix g assume g: "g \<in> set (one_of env n)"
  have gs: "g \<noteq> []" "set g \<subseteq> m_name ` set rts \<union> ext" using dag_env_okD(6)[OF env g] by auto
  then obtain p where p: "p \<in> set g" by (cases g) auto
  have "p \<in> completed"
  proof (cases "p \<in> ext")
    case False
    then have "p \<in> set (direct_of env n)" using p g gs dag_env_okD(5)[OF env n] by blast
    then show ?thesis by (rule none)
  qed (use ext in auto)
  then show "\<exists>p\<in>set g. p \<in> completed" using p by auto
qed

lemma can_run_of_relaxed:
  assumes env: "dag_env_ok env rts ext" and n: "n \<in> m_name ` set rts"
    and relax: "relax_cond env completed keys n (direct_of env n)"
    and part: "m_name ` set rts \<subseteq> keys \<union> set completed" and ext: "ext \<subseteq> set completed"
  shows "can_run env (m_name ` set rts) (set completed) n"
  unfolding can_run_def
proof (intro conjI ballI impI)
  fix d assume d: "d \<in> set (hard_of env n)" "d \<in> m_name ` set rts"
  then have "d \<in> set (direct_of env n)" using dag_env_okD(5)[OF env n] by blast
  then have "d \<notin> keys" using relax d(1) by (auto simp: relax_cond_def)
  then show "d \<in> set completed" using part d(2) by auto
next
  fix g assume g: "g \<in> set (one_of env n)"
  have gs: "g \<noteq> []" "set g \<subseteq> m_name ` set rts \<union> ext" using dag_env_okD(6)[OF env g] by auto
  then obtain p where p: "p \<in> set g" by (cases g) auto
  show "\<exists>p\<in>set g. p \<in> set completed"
  proof (cases "set g \<inter> keys = {}")
    case True
    then have "p \<in> set completed" using p gs part ext by blast
    then show ?thesis using p by auto
  next
    case False
    then show ?thesis using relax g by (auto simp: relax_cond_def)
  qed
qed

lemma blocked_cannot_run:
  assumes env: "dag_env_ok env rts ext" and n: "n \<in> m_name ` set rts"
    and block: "\<not> relax_cond env completed keys n (direct_of env n)"
    and rem: "\<exists>d\<in>set (direct_of env n). d \<in> keys" and disj: "keys \<inter> set completed = {}"
  shows "\<not> can_run env (m_name ` set rts) (set completed) n"
proof
  assume run: "can_run env (m_name ` set rts) (set completed) n"
  note direct = dag_env_okD(5)[OF env n]
  have groups: "\<And>g. g \<in> set (one_of env n) \<Longrightarrow> set g \<inter> set completed \<noteq> {}"
    using run by (auto simp: can_run_def)
  have soft: "d \<notin> set (hard_of env n) \<and> (\<exists>g\<in>set (one_of env n). d \<in> set g)"
    if "d \<in> set (direct_of env n)" "d \<in> keys" for d
    using run that direct disj by (auto simp: can_run_def)
  have "relax_cond env completed keys n (direct_of env n)"
    unfolding relax_cond_def using rem groups soft by blast
  then show False using block by simp
qed

definition ready_degree :: "dag_env \<Rightarrow> dag_state \<Rightarrow> (string, int) jmap" where
  "ready_degree env s = (if pick_ready env (dg_degree s) = [] then relax env (dg_completed s) (dg_degree s)
                         else dg_degree s)"

lemma dag_step_eq:
  "dag_step env s =
     (let degree = ready_degree env s; ready = pick_ready env degree in
      if ready = [] then s\<lparr> dg_degree := degree, dg_stuck := Some (jm_keys degree) \<rparr>
      else let (degree', completed) = foldl (complete_one env) (degree, dg_completed s) ready
           in s\<lparr> dg_degree := degree', dg_completed := completed, dg_levels := dg_levels s @ [ready] \<rparr>)"
  by (simp add: dag_step_def ready_degree_def Let_def)

lemma keys_ready_degree: "jm_keys (ready_degree env s) = jm_keys (dg_degree s)"
  by (simp add: ready_degree_def)

lemma set_keys_ready_degree: "fst ` set (ready_degree env s) = fst ` set (dg_degree s)"
  by (metis keys_ready_degree list.set_map)

lemma degree_zero_iff:
  assumes "degree_ok env {} degree" "n \<in> fst ` set degree"
  shows "jm_get degree n = Some 0 \<longleftrightarrow> (\<forall>d\<in>set (direct_of env n). d \<notin> fst ` set degree)"
proof -
  have "jm_get degree n = Some (int (length (filter (jm_has degree) (direct_of env n))))"
    using degree_okD[OF assms] by simp
  then show ?thesis by (simp add: filter_empty_conv)
qed

lemma ready_round:
  assumes env: "dag_env_ok env rts ext" and inv: "dag_loop_inv env rts ext s"
    and go: "dg_stuck s = None" and disj: "ext \<inter> m_name ` set rts = {}"
  defines "ready \<equiv> pick_ready env (ready_degree env s)" and "K \<equiv> fst ` set (dg_degree s)"
  shows "set ready \<subseteq> set rts" and "m_name ` set ready \<subseteq> K" and "distinct (map m_name ready)"
    and "sorted_wrt (\<lambda>x y. by_name x y \<le> 0) ready"
    and "degree_ok env (m_name ` set ready) (ready_degree env s)"
    and "\<And>rt. rt \<in> set ready \<Longrightarrow> can_run env (m_name ` set rts) (set (dg_completed s)) (m_name rt)"
    and "\<And>n. ready = [] \<Longrightarrow> n \<in> K \<Longrightarrow> \<not> can_run env (m_name ` set rts) (set (dg_completed s)) n"
proof -
  have wf: "jm_wf (dg_degree s)" and sub: "K \<subseteq> m_name ` set rts" and ok: "degree_ok env {} (dg_degree s)"
    and comp: "set (dg_completed s) = ext \<union> (m_name ` set rts - K)"
    using inv go by (auto simp: dag_loop_inv_def K_def)
  have wf': "jm_wf (ready_degree env s)" using wf keys_ready_degree by metis
  note keys = set_keys_ready_degree[of env s]
  have part: "m_name ` set rts \<subseteq> K \<union> set (dg_completed s)" and ext: "ext \<subseteq> set (dg_completed s)"
    and off: "K \<inter> set (dg_completed s) = {}" using comp sub disj by auto
  note pick0 = pick_ready_facts[OF env wf sub[unfolded K_def]]
  note pick = pick_ready_facts[OF env wf' sub[folded keys, unfolded K_def, folded keys]]
  have setr: "set ready = {rt \<in> set rts. jm_get (ready_degree env s) (m_name rt) = Some 0}"
    unfolding ready_def by (rule pick(1))
  show "set ready \<subseteq> set rts" "distinct (map m_name ready)" "sorted_wrt (\<lambda>x y. by_name x y \<le> 0) ready"
    using pick by (auto simp: ready_def)
  show inK: "m_name ` set ready \<subseteq> K"
    using setr keys unfolding K_def by (auto dest!: jm_get_key)
  have get: "jm_get (ready_degree env s) n =
      (if pick_ready env (dg_degree s) = [] \<and> relax_cond env (dg_completed s) K n (direct_of env n)
       then Some 0 else jm_get (dg_degree s) n)" if "n \<in> K" for n
    using that sub get_relax[OF env, of n "dg_degree s" "dg_completed s"]
    unfolding ready_degree_def K_def by auto
  have zero: "jm_get (dg_degree s) n = Some 0 \<longleftrightarrow> (\<forall>d\<in>set (direct_of env n). d \<notin> K)" if "n \<in> K" for n
    using degree_zero_iff[OF ok] that unfolding K_def by blast
  have in_ready: "n \<in> m_name ` set ready \<longleftrightarrow> jm_get (ready_degree env s) n = Some 0" if "n \<in> K" for n
    using that sub setr by auto
  show "degree_ok env (m_name ` set ready) (ready_degree env s)"
    unfolding degree_ok_def keys
  proof
    fix n assume n: "n \<in> fst ` set (dg_degree s) - m_name ` set ready"
    then have "jm_get (ready_degree env s) n = jm_get (dg_degree s) n"
      using in_ready[of n] get[of n] unfolding K_def by (auto split: if_splits)
    moreover have "jm_has (ready_degree env s) = jm_has (dg_degree s)"
      by (rule jm_has_keys[OF keys_ready_degree])
    ultimately show "jm_get (ready_degree env s) n
        = Some (int (length (filter (jm_has (ready_degree env s)) (direct_of env n))))"
      using degree_okD[OF ok, of n] n by simp
  qed
  show "can_run env (m_name ` set rts) (set (dg_completed s)) (m_name rt)" if rt: "rt \<in> set ready" for rt
  proof -
    have n: "m_name rt \<in> K" "m_name rt \<in> m_name ` set rts" using rt inK setr by auto
    have g0: "jm_get (ready_degree env s) (m_name rt) = Some 0" using rt setr by auto
    show ?thesis
    proof (cases "jm_get (dg_degree s) (m_name rt) = Some 0")
      case True
      have "d \<in> set (dg_completed s)" if "d \<in> set (direct_of env (m_name rt))" for d
        using zero[OF n(1)] True that part dag_env_okD(5)[OF env n(2)] by blast
      then show ?thesis by (rule can_run_of_degree_zero[OF env n(2) _ ext])
    next
      case False
      then have "relax_cond env (dg_completed s) K (m_name rt) (direct_of env (m_name rt))"
        using g0 get[OF n(1)] by (auto split: if_splits)
      then show ?thesis by (rule can_run_of_relaxed[OF env n(2) _ part ext])
    qed
  qed
  show "\<not> can_run env (m_name ` set rts) (set (dg_completed s)) n" if none: "ready = []" and n: "n \<in> K" for n
  proof -
    have nr: "n \<in> m_name ` set rts" using n sub by auto
    have g: "jm_get (ready_degree env s) n \<noteq> Some 0" using in_ready[OF n] none by auto
    have none0: "pick_ready env (dg_degree s) = []"
      using none unfolding ready_def ready_degree_def by (auto split: if_splits)
    then have "jm_get (dg_degree s) n \<noteq> Some 0" using pick0(1) nr by auto
    then have "\<exists>d\<in>set (direct_of env n). d \<in> K" using zero[OF n] by auto
    moreover have "\<not> relax_cond env (dg_completed s) K n (direct_of env n)"
      using g get[OF n] none0 by auto
    ultimately show ?thesis using blocked_cannot_run[OF env nr _ _ off] by blast
  qed
qed

lemma dag_step_inv:
  assumes env: "dag_env_ok env rts ext" and inv: "dag_loop_inv env rts ext s"
    and go: "dg_stuck s = None" "dg_degree s \<noteq> []" and disj: "ext \<inter> m_name ` set rts = {}"
  shows "dag_loop_inv env rts ext (dag_step env s)
    \<and> (dg_stuck (dag_step env s) = None \<longrightarrow> length (dg_degree (dag_step env s)) < length (dg_degree s))"
proof -
  define ready where "ready = pick_ready env (ready_degree env s)"
  note round = ready_round[OF env inv go(1) disj, folded ready_def]
  show ?thesis
  proof (cases "ready = []")
    case True
    have "dag_step env s = s\<lparr> dg_degree := ready_degree env s, dg_stuck := Some (jm_keys (dg_degree s)) \<rparr>"
      using True by (simp add: dag_step_eq ready_def[symmetric] keys_ready_degree)
    then show ?thesis
      using inv round(7)[OF True] go
      by (simp add: dag_loop_inv_def keys_ready_degree set_keys_ready_degree)
  next
    case False
    obtain d' c' where fold: "foldl (complete_one env) (ready_degree env s, dg_completed s) ready = (d', c')"
      by (cases "foldl (complete_one env) (ready_degree env s, dg_completed s) ready") auto
    have step: "dag_step env s = s\<lparr> dg_degree := d', dg_completed := c', dg_levels := dg_levels s @ [ready] \<rparr>"
      using False fold by (simp add: dag_step_eq ready_def[symmetric])
    have sub: "fst ` set (ready_degree env s) \<subseteq> m_name ` set rts"
      and wf: "jm_wf (ready_degree env s)"
      using inv by (simp_all add: set_keys_ready_degree keys_ready_degree dag_loop_inv_def)
    have sub2: "m_name ` set ready \<subseteq> fst ` set (ready_degree env s)"
      using round(2) by (simp add: set_keys_ready_degree)
    note all = complete_all_ok[OF env sub wf sub2 round(3,5) fold, unfolded keys_ready_degree]
    have k': "fst ` set d' = fst ` set (dg_degree s) - m_name ` set ready"
      using arg_cong[OF conjunct1[OF all], of set] by auto
    have ok': "degree_ok env {} d'"
      using all unfolding degree_ok_def k' by auto
    have wf': "jm_wf d'" using all wf by (simp add: keys_ready_degree[of env s])
    have disjoint: "m_name ` set (concat (dg_levels s)) \<inter> m_name ` set ready = {}"
      using inv round(2) by (auto simp: dag_loop_inv_def)
    have less: "length d' < length (dg_degree s)"
    proof -
      obtain rt where "rt \<in> set ready" using False by (cases ready) auto
      then have "m_name rt \<in> set (jm_keys (dg_degree s))" "m_name rt \<in> m_name ` set ready" using round(2) by auto
      then have "length (filter (\<lambda>x. x \<notin> m_name ` set ready) (jm_keys (dg_degree s))) < length (jm_keys (dg_degree s))"
        by (intro length_filter_less[of "m_name rt"]) auto
      then show ?thesis using all by (metis length_map)
    qed
    have "dag_loop_inv env rts ext (dag_step env s)"
    proof -
      have levels: "set (dg_completed s) = ext \<union> m_name ` set (concat (dg_levels s))"
        using inv by (simp add: dag_loop_inv_def)
      have "levels_sound env (m_name ` set rts) ext (dg_levels s @ [ready])"
        using inv round(6) unfolding levels_sound_snoc levels by (simp add: dag_loop_inv_def)
      moreover have "m_name ` set (concat (dg_levels s @ [ready])) = m_name ` set rts - fst ` set d'"
        using inv round(1,2) by (auto simp: dag_loop_inv_def k' image_Un)
      moreover have "set c' = ext \<union> m_name ` set (concat (dg_levels s @ [ready]))"
        using all levels by (auto simp: image_Un)
      moreover have "distinct (map m_name (concat (dg_levels s @ [ready])))"
        using inv round(3) disjoint by (auto simp: dag_loop_inv_def)
      ultimately show ?thesis
        using inv round(1,4) False wf' ok' k' go by (auto simp: dag_loop_inv_def step)
    qed
    then show ?thesis using less by (simp add: step)
  qed
qed

subsection \<open>The whole sort\<close>

lemma deps_in_map:
  "distinct (map f xs) \<Longrightarrow> x \<in> set xs \<Longrightarrow> deps_in (map (\<lambda>x. (f x, g x)) xs) (f x) = g x"
  "n \<notin> f ` set xs \<Longrightarrow> deps_in (map (\<lambda>x. (f x, g x)) xs) n = []"
  by (simp_all add: deps_in_def map_of_map_keys map_of_map_keys_None)

lemma count_list_map_filter:
  "distinct (map f xs) \<Longrightarrow> x \<in> set xs \<Longrightarrow> count_list (map f (filter P xs)) (f x) = (if P x then 1 else 0)"
  by (induction xs) (auto simp: count_list_0_iff image_iff)

definition external_names :: "manifest list \<Rightarrow> manifest list \<Rightarrow> string set" where
  "external_names runtimes satisfied = m_name ` set (external_runtimes runtimes satisfied)"

lemma external_disjoint: "external_names runtimes satisfied \<inter> m_name ` set runtimes = {}"
  by (auto simp: external_names_def external_runtimes_def)

lemma available_names:
  "m_name ` set (available_runtimes runtimes satisfied) = m_name ` set runtimes \<union> external_names runtimes satisfied"
  by (simp add: available_runtimes_def external_names_def image_Un)

lemma build_dag_env_facts:
  fixes runtimes satisfied
  assumes "distinct (map m_name runtimes)"
  defines "available \<equiv> available_runtimes runtimes satisfied" and "env \<equiv> snd (build_dag runtimes satisfied)"
  shows "rt \<in> set runtimes \<Longrightarrow> hard_of env (m_name rt) = ds_hard (collected available rt)"
    and "rt \<in> set runtimes \<Longrightarrow> one_of env (m_name rt) = one_groups available rt"
    and "rt \<in> set runtimes \<Longrightarrow> direct_of env (m_name rt) = direct_deps runtimes satisfied rt"
    and "n \<notin> m_name ` set runtimes \<Longrightarrow> one_of env n = [] \<and> direct_of env n = []"
    and "de_by_name env = map (\<lambda>rt. (m_name rt, rt)) runtimes"
    and "jm_keys (de_direct env) = map m_name runtimes"
    and "deps_in (de_dependents env) d =
      map m_name (filter (\<lambda>rt. d \<in> set (direct_deps runtimes satisfied rt)) runtimes)"
    and "jm_keys (fst (build_dag runtimes satisfied)) = map m_name runtimes"
    and "rt \<in> set runtimes \<Longrightarrow> jm_get (fst (build_dag runtimes satisfied)) (m_name rt) =
      Some (int (length (direct_deps runtimes satisfied rt)))"
proof -
  obtain degree where bd: "build_dag runtimes satisfied = (degree, env)"
    unfolding env_def by (cases "build_dag runtimes satisfied") auto
  note ok = build_dag_ok[OF assms(1), of satisfied, unfolded bd, unfolded dag_edges_ok_def, simplified Let_def prod.case,
      folded available_def]
  note maps = deps_in_map(1)[OF assms(1)] deps_in_map(2)
  show "rt \<in> set runtimes \<Longrightarrow> hard_of env (m_name rt) = ds_hard (collected available rt)"
    "rt \<in> set runtimes \<Longrightarrow> one_of env (m_name rt) = one_groups available rt"
    "rt \<in> set runtimes \<Longrightarrow> direct_of env (m_name rt) = direct_deps runtimes satisfied rt"
    "n \<notin> m_name ` set runtimes \<Longrightarrow> one_of env n = [] \<and> direct_of env n = []"
    "de_by_name env = map (\<lambda>rt. (m_name rt, rt)) runtimes"
    "jm_keys (de_direct env) = map m_name runtimes"
    "deps_in (de_dependents env) d =
      map m_name (filter (\<lambda>rt. d \<in> set (direct_deps runtimes satisfied rt)) runtimes)"
    "jm_keys (fst (build_dag runtimes satisfied)) = map m_name runtimes"
    "rt \<in> set runtimes \<Longrightarrow> jm_get (fst (build_dag runtimes satisfied)) (m_name rt) =
      Some (int (length (direct_deps runtimes satisfied rt)))"
    using ok by (simp_all add: bd maps comp_def)
qed

lemma build_dag_env_ok:
  assumes "distinct (map m_name runtimes)"
  shows "dag_env_ok (snd (build_dag runtimes satisfied)) runtimes (external_names runtimes satisfied)"
proof -
  note facts = build_dag_env_facts[where satisfied = satisfied, OF assms]
  let ?env = "snd (build_dag runtimes satisfied)"
  have one: "g \<noteq> [] \<and> set g \<subseteq> m_name ` set runtimes \<union> external_names runtimes satisfied"
    if g0: "g \<in> set (one_of ?env n)" for g n
  proof -
    obtain rt where rt: "rt \<in> set runtimes" "n = m_name rt"
      using g0 build_dag_env_facts(4)[where satisfied = satisfied, OF assms, of n] by (cases "n \<in> m_name ` set runtimes") auto
    then have g: "g \<in> set (one_groups (available_runtimes runtimes satisfied) rt)" using g0 facts(2) by simp
    then show ?thesis
      using one_group_provides[OF g] unfolding available_names[symmetric] by (auto simp: set_one_groups)
  qed
  have direct: "distinct (direct_of ?env n)" for n
    using facts(3) build_dag_env_facts(4)[where satisfied = satisfied, OF assms, of n]
    by (cases "n \<in> m_name ` set runtimes") (auto simp: distinct_direct_deps)
  show ?thesis
    unfolding dag_env_ok_def
    using assms one direct facts(5,6)
    by (auto simp: facts(1,2,3,7) direct_deps_def set_ds_all set_ds_hard count_list_map_filter)
qed

text \<open>Termination: every round of any batch removes a node or reports the cycle.\<close>

lemma length_release [simp]: "length (foldl release degree downs) = length degree"
  by (metis keys_release length_map)

lemma length_complete_one_le: "length (fst (complete_one env (degree, completed) rt)) \<le> length degree"
  using length_jm_delete_le[of "m_name rt" degree] by (simp add: complete_one_def)

lemma length_complete_all_le: "length (fst (foldl (complete_one env) s ready)) \<le> length (fst s)"
proof (induction ready arbitrary: s)
  case (Cons rt ready)
  show ?case
    using Cons[of "complete_one env s rt"] length_complete_one_le[of env "fst s" "snd s" rt] by simp
qed simp

definition names_by_key :: "dag_env \<Rightarrow> bool" where
  "names_by_key env = (\<forall>(k, rt)\<in>set (de_by_name env). m_name rt = k)"

lemma pick_ready_in_degree:
  assumes "names_by_key env" "rt \<in> set (pick_ready env degree)"
  shows "m_name rt \<in> fst ` set degree"
proof -
  obtain n where "(n, 0) \<in> set degree" "jm_get (de_by_name env) n = Some rt"
    using assms(2) unfolding pick_ready_def concat_map_ready set_js_sort mem_map_filter by auto
  then show ?thesis using assms(1) by (force simp: names_by_key_def dest: map_of_SomeD)
qed

lemma dag_step_decreases:
  assumes "names_by_key env" "dg_stuck s = None"
  shows "dg_stuck (dag_step env s) \<noteq> None \<or> length (dg_degree (dag_step env s)) < length (dg_degree s)"
proof (cases "pick_ready env (ready_degree env s)")
  case Nil
  then show ?thesis by (simp add: dag_step_eq Let_def)
next
  case (Cons rt ready)
  let ?d = "ready_degree env s"
  have "m_name rt \<in> fst ` set ?d" by (rule pick_ready_in_degree[OF assms(1)]) (simp add: Cons)
  then have less: "length (jm_delete (m_name rt) ?d) < length ?d" by (rule length_jm_delete_less)
  have "length (fst (foldl (complete_one env) (?d, dg_completed s) (rt # ready)))
        \<le> length (fst (complete_one env (?d, dg_completed s) rt))"
    using length_complete_all_le by simp
  also have "\<dots> < length ?d" using less by (simp add: complete_one_def)
  also have "length ?d = length (dg_degree s)" by (metis keys_ready_degree length_map)
  finally show ?thesis by (auto simp: dag_step_eq Cons Let_def split: prod.split)
qed

lemma de_by_name_add_edges:
  "de_by_name (snd (foldl (add_edge name) s deps)) = de_by_name (snd s)"
  by (induction deps arbitrary: s) (auto simp: add_edge_def split: prod.splits)

lemma de_by_name_build:
  "de_by_name (snd (foldl (add_runtime_edges runtimes cp) s rts)) = de_by_name (snd s)"
proof (induction rts arbitrary: s)
  case (Cons rt rts)
  show ?case unfolding foldl_Cons Cons
    by (simp add: add_runtime_edges_def Let_def de_by_name_add_edges split: prod.splits)
qed simp

lemma names_by_key_build: "names_by_key (snd (build_dag runtimes satisfied))"
proof -
  have "set (jm_set k v m) \<subseteq> insert (k, v) (set m)" for k v and m :: "(string, manifest) jmap"
    by (induction m) auto
  then have step: "\<forall>(k, rt)\<in>set (jm_set (m_name x) x m). m_name rt = k"
    if "\<forall>(k, rt)\<in>set m. m_name rt = k" for x and m :: "(string, manifest) jmap"
    using that by blast
  have "\<forall>(k, rt)\<in>set (foldl (\<lambda>m rt. jm_set (m_name rt) rt m) [] runtimes). m_name rt = k"
    by (rule foldl_invariant[where P = "\<lambda>m. \<forall>(k, rt)\<in>set m. m_name rt = k"]) (simp, rule step)
  then show ?thesis by (simp add: build_dag_def Let_def names_by_key_def de_by_name_build)
qed

lemma dag_run_total: "\<exists>s. dag_run runtimes satisfied = Some s"
  unfolding dag_run_def
proof (rule measure_while_option_Some[where P = "\<lambda>s. True"
      and f = "\<lambda>s. 2 * length (dg_degree s) + (if dg_stuck s = None then 1 else 0)"])
  let ?env = "snd (build_dag runtimes satisfied)"
  fix s :: dag_state assume go: "dg_degree s \<noteq> [] \<and> dg_stuck s = None"
  have "length (dg_degree (dag_step ?env s)) = length (dg_degree s)" if "dg_stuck (dag_step ?env s) \<noteq> None"
    using that go keys_ready_degree[of ?env s, THEN map_eq_imp_length_eq]
    by (auto simp: dag_step_eq Let_def split: if_splits prod.splits)
  then show "True \<and> 2 * length (dg_degree (dag_step ?env s)) + (if dg_stuck (dag_step ?env s) = None then 1 else 0)
      < 2 * length (dg_degree s) + (if dg_stuck s = None then 1 else 0)"
    using dag_step_decreases[OF names_by_key_build, of s runtimes satisfied] go by (auto split: if_splits)
qed simp

lemma dag_initial_inv:
  assumes "distinct (map m_name runtimes)"
  shows "dag_loop_inv (snd (build_dag runtimes satisfied)) runtimes (external_names runtimes satisfied)
           (dag_initial runtimes satisfied)"
proof -
  note facts = build_dag_env_facts[where satisfied = satisfied, OF assms]
  let ?deg = "fst (build_dag runtimes satisfied)"
  have keys: "fst ` set ?deg = m_name ` set runtimes" using facts(8) by (metis list.set_map)
  have "degree_ok (snd (build_dag runtimes satisfied)) {} ?deg"
    unfolding degree_ok_def keys
  proof
    fix n assume "n \<in> m_name ` set runtimes - {}"
    then obtain rt where rt: "rt \<in> set runtimes" "n = m_name rt" by auto
    have "filter (jm_has ?deg) (direct_deps runtimes satisfied rt) = direct_deps runtimes satisfied rt"
      using keys by (auto simp: direct_deps_def filter_id_conv)
    then show "jm_get ?deg n = Some (int (length (filter (jm_has ?deg) (direct_of (snd (build_dag runtimes satisfied)) n))))"
      using facts(3,9) rt by simp
  qed
  then show ?thesis
    using assms keys facts(8) by (simp add: dag_loop_inv_def dag_initial_def external_names_def)
qed

lemma dag_run_inv:
  assumes "distinct (map m_name runtimes)" and run: "dag_run runtimes satisfied = Some s"
  shows "dag_loop_inv (snd (build_dag runtimes satisfied)) runtimes (external_names runtimes satisfied) s"
    and "dg_stuck s = None \<Longrightarrow> dg_degree s = []"
proof -
  show "dag_loop_inv (snd (build_dag runtimes satisfied)) runtimes (external_names runtimes satisfied) s"
    by (rule while_option_rule[where P = "dag_loop_inv (snd (build_dag runtimes satisfied)) runtimes
            (external_names runtimes satisfied)", OF _ run[unfolded dag_run_def]])
      (simp_all add: dag_step_inv[OF build_dag_env_ok[OF assms(1)]] external_disjoint dag_initial_inv[OF assms(1)])
  show "dg_stuck s = None \<Longrightarrow> dg_degree s = []"
    using while_option_stop[OF run[unfolded dag_run_def]] by auto
qed

definition level_names :: "manifest list list \<Rightarrow> string set" where
  "level_names levels = m_name ` set (concat levels)"

lemma levels_sound_nth:
  "levels_sound env names done levels \<Longrightarrow> i < length levels \<Longrightarrow> rt \<in> set (levels ! i) \<Longrightarrow>
     can_run env names (done \<union> level_names (take i levels)) (m_name rt)"
proof (induction levels arbitrary: i "done")
  case (Cons level levels)
  then show ?case
    using Cons.IH[of "done \<union> m_name ` set level"]
    by (cases i) (auto simp: level_names_def Un_assoc image_Un)
qed simp

text \<open>What a level has to wait for, on the declared edges.\<close>

definition edges_met :: "manifest list \<Rightarrow> manifest list \<Rightarrow> string set \<Rightarrow> manifest \<Rightarrow> bool" where
  "edges_met runtimes satisfied done rt =
     (let available = available_runtimes runtimes satisfied in
      (\<forall>d. hard_before available rt d \<and> d \<in> m_name ` set runtimes \<longrightarrow> d \<in> done)
      \<and> (\<forall>cap. one_need rt cap \<and> (\<exists>p. provides available cap p) \<longrightarrow>
            (\<exists>p. provides available cap p \<and> p \<in> external_names runtimes satisfied \<union> done)))"

lemma can_run_edges_met:
  assumes "distinct (map m_name runtimes)" "rt \<in> set runtimes"
  shows "can_run (snd (build_dag runtimes satisfied)) (m_name ` set runtimes)
           (external_names runtimes satisfied \<union> done) (m_name rt) \<longleftrightarrow> edges_met runtimes satisfied done rt"
proof -
  let ?av = "available_runtimes runtimes satisfied"
  have hard: "(\<forall>d\<in>set (ds_hard (collected ?av rt)). d \<in> m_name ` set runtimes \<longrightarrow>
        d \<in> external_names runtimes satisfied \<union> done) \<longleftrightarrow>
      (\<forall>d. hard_before ?av rt d \<and> d \<in> m_name ` set runtimes \<longrightarrow> d \<in> done)"
    using external_disjoint[of runtimes satisfied] unfolding Ball_def set_ds_hard by blast
  have one: "(\<forall>g\<in>set (one_groups ?av rt). \<exists>p\<in>set g. p \<in> D) \<longleftrightarrow>
      (\<forall>cap. one_need rt cap \<and> (\<exists>p. provides ?av cap p) \<longrightarrow> (\<exists>p. provides ?av cap p \<and> p \<in> D))" for D
  proof -
    have ne: "providers_of (build_capability_providers ?av) cap \<noteq> [] \<longleftrightarrow> (\<exists>p. provides ?av cap p)" for cap
      unfolding set_providers_of[symmetric] by (cases "providers_of (build_capability_providers ?av) cap") auto
    have "(\<forall>g\<in>set (one_groups ?av rt). Q g) \<longleftrightarrow> (\<forall>cap. one_need rt cap
        \<and> providers_of (build_capability_providers ?av) cap \<noteq> [] \<longrightarrow>
        Q (providers_of (build_capability_providers ?av) cap))" for Q
      by (auto simp: set_one_groups dest!: bspec)
    from this[of "\<lambda>g. \<exists>p\<in>set g. p \<in> D"] show ?thesis unfolding ne Bex_def set_providers_of .
  qed
  show ?thesis
    unfolding can_run_def edges_met_def Let_def
      build_dag_env_facts(1,2)[where satisfied = satisfied, OF assms] hard one ..
qed

text \<open>The runtimes an AND/OR reading of the declared edges can ever run.\<close>

inductive dag_runnable :: "manifest list \<Rightarrow> manifest list \<Rightarrow> string \<Rightarrow> bool"
  for runtimes satisfied where
  dag_external: "name \<in> external_names runtimes satisfied \<Longrightarrow> dag_runnable runtimes satisfied name"
| dag_internal: "rt \<in> set runtimes \<Longrightarrow>
     (\<And>d. hard_before (available_runtimes runtimes satisfied) rt d \<Longrightarrow> d \<in> m_name ` set runtimes \<Longrightarrow>
        dag_runnable runtimes satisfied d) \<Longrightarrow>
     (\<And>cap p. one_need rt cap \<Longrightarrow> provides (available_runtimes runtimes satisfied) cap p \<Longrightarrow>
        \<exists>q. provides (available_runtimes runtimes satisfied) cap q \<and> dag_runnable runtimes satisfied q) \<Longrightarrow>
     dag_runnable runtimes satisfied (m_name rt)"

lemma levels_runnable:
  assumes dist: "distinct (map m_name runtimes)"
    and "levels_sound (snd (build_dag runtimes satisfied)) (m_name ` set runtimes)
           (external_names runtimes satisfied \<union> done) levels"
    and "set (concat levels) \<subseteq> set runtimes" and "\<And>n. n \<in> done \<Longrightarrow> dag_runnable runtimes satisfied n"
    and "rt \<in> set (concat levels)"
  shows "dag_runnable runtimes satisfied (m_name rt)"
  using assms(2-)
proof (induction levels arbitrary: "done")
  case (Cons level levels)
  have level: "dag_runnable runtimes satisfied (m_name r)" if r: "r \<in> set level" for r
  proof -
    have rr: "r \<in> set runtimes" using Cons.prems(2) r by auto
    have met: "edges_met runtimes satisfied done r"
      using Cons.prems(1) r can_run_edges_met[OF dist rr] by auto
    show ?thesis
    proof (rule dag_internal[OF rr])
      fix cap p assume "one_need r cap" "provides (available_runtimes runtimes satisfied) cap p"
      then obtain q where "provides (available_runtimes runtimes satisfied) cap q"
          "q \<in> external_names runtimes satisfied \<union> done"
        using met unfolding edges_met_def Let_def by blast
      then show "\<exists>q. provides (available_runtimes runtimes satisfied) cap q \<and> dag_runnable runtimes satisfied q"
        using Cons.prems(3) dag_external by blast
    qed (use met Cons.prems(3) in \<open>auto simp: edges_met_def Let_def\<close>)
  qed
  have "dag_runnable runtimes satisfied n" if "n \<in> done \<union> m_name ` set level" for n
    using that level Cons.prems(3) by auto
  then show ?case
    using Cons.IH[of "done \<union> m_name ` set level"] Cons.prems(1,2,4) level by (auto simp: Un_assoc)
qed simp

text \<open>A blocked set of nodes stays out: no runnable node is in it.\<close>

lemma blocked_not_runnable:
  assumes dist: "distinct (map m_name runtimes)"
    and blocked: "\<And>n. n \<in> stuck \<Longrightarrow> \<not> can_run (snd (build_dag runtimes satisfied)) (m_name ` set runtimes)
           (external_names runtimes satisfied \<union> (m_name ` set runtimes - stuck)) n"
    and sub: "stuck \<subseteq> m_name ` set runtimes" and run: "dag_runnable runtimes satisfied n"
  shows "n \<notin> stuck"
  using run
proof induction
  case (dag_external name)
  then show ?case using external_disjoint[of runtimes satisfied] sub by blast
next
  case (dag_internal rt)
  have "edges_met runtimes satisfied (m_name ` set runtimes - stuck) rt"
    unfolding edges_met_def Let_def
  proof (intro conjI allI impI; elim conjE exE)
    fix cap p assume "one_need rt cap" "provides (available_runtimes runtimes satisfied) cap p"
    then obtain q where q: "provides (available_runtimes runtimes satisfied) cap q" "q \<notin> stuck"
      using dag_internal.IH(2) by blast
    then have "q \<in> m_name ` set runtimes \<union> external_names runtimes satisfied"
      unfolding available_names[symmetric] by (auto simp: provides_def)
    then show "\<exists>p. provides (available_runtimes runtimes satisfied) cap p
        \<and> p \<in> external_names runtimes satisfied \<union> (m_name ` set runtimes - stuck)" using q by blast
  qed (use dag_internal.IH(1) in auto)
  then show ?case
    using blocked can_run_edges_met[OF dist dag_internal.hyps(1)] by blast
qed

definition result_cyclic :: "dag_result \<Rightarrow> manifest list" where
  "result_cyclic r = or_else (dr_cyclic r) []"

lemma stuck_complement:
  assumes dist: "distinct (map m_name runtimes)" and placed: "set placed \<subseteq> set runtimes"
    and pdist: "distinct (map m_name placed)" and sdist: "distinct stuck"
    and stuck: "set stuck = m_name ` set runtimes - m_name ` set placed"
  defines "cyc \<equiv> List.map_filter (map_of (map (\<lambda>rt. (m_name rt, rt)) runtimes)) stuck"
  shows "mset (placed @ cyc) = mset runtimes" and "map m_name cyc = stuck"
proof -
  have set_cyc: "rt \<in> set cyc \<longleftrightarrow> rt \<in> set runtimes \<and> m_name rt \<in> set stuck" for rt
    unfolding cyc_def mem_map_filter map_of_by_name[OF dist] by blast
  show names: "map m_name cyc = stuck"
    unfolding cyc_def by (rule map_filter_names) (use stuck map_of_by_name[OF dist] in fastforce)
  have "distinct (map m_name (placed @ cyc))" using pdist sdist stuck names by auto
  then have dpc: "distinct (placed @ cyc)" by (rule distinct_of_map)
  have "rt \<in> set (placed @ cyc)" if rt: "rt \<in> set runtimes" for rt
  proof (cases "m_name rt \<in> m_name ` set placed")
    case True
    then obtain r where "r \<in> set placed" "m_name r = m_name rt" by auto
    then show ?thesis using distinct_map_inj_on[OF dist, of r rt] rt placed by auto
  qed (use rt set_cyc stuck in auto)
  then have "set (placed @ cyc) = set runtimes" using placed set_cyc by auto
  then show "mset (placed @ cyc) = mset runtimes"
    by (metis dpc dist distinct_of_map set_eq_iff_mset_eq_distinct)
qed

lemma schedule_facts:
  assumes dist: "distinct (map m_name runtimes)"
  obtains r where "schedule_by_dag runtimes satisfied = Some r"
    and "mset (concat (dr_groups r) @ result_cyclic r) = mset runtimes"
    and "dr_error r = None \<longleftrightarrow> result_cyclic r = []"
    and "\<And>level. level \<in> set (dr_groups r) \<Longrightarrow> level \<noteq> [] \<and> sorted_wrt (\<lambda>x y. by_name x y \<le> 0) level"
    and "levels_sound (snd (build_dag runtimes satisfied)) (m_name ` set runtimes)
           (external_names runtimes satisfied) (dr_groups r)"
    and "\<And>rt. rt \<in> set (result_cyclic r) \<Longrightarrow> \<not> dag_runnable runtimes satisfied (m_name rt)"
proof (cases "runtimes = []")
  case True
  show thesis
    by (rule that[of "\<lparr> dr_groups = [], dr_error = None, dr_cyclic = None \<rparr>"])
      (simp_all add: True schedule_by_dag_def result_cyclic_def)
next
  case False
  let ?env = "snd (build_dag runtimes satisfied)"
  obtain s where run: "dag_run runtimes satisfied = Some s" using dag_run_total by auto
  note inv = dag_run_inv(1)[OF dist run] and finished = dag_run_inv(2)[OF dist run]
  let ?stuck = "or_else (dg_stuck s) []"
  define cyc where "cyc = List.map_filter (map_of (map (\<lambda>rt. (m_name rt, rt)) runtimes)) ?stuck"
  have by_name: "de_by_name ?env = map (\<lambda>rt. (m_name rt, rt)) runtimes"
    by (rule build_dag_env_facts(5)[where satisfied = satisfied, OF dist])
  have stuck: "set ?stuck = m_name ` set runtimes - m_name ` set (concat (dg_levels s))" "distinct ?stuck"
      "\<And>n. n \<in> set ?stuck \<Longrightarrow> \<not> can_run ?env (m_name ` set runtimes) (set (dg_completed s)) n"
    using inv finished by (auto simp: dag_loop_inv_def or_else_def split: option.splits)
  have placed: "set (concat (dg_levels s)) \<subseteq> set runtimes" "distinct (map m_name (concat (dg_levels s)))"
    using inv by (simp_all add: dag_loop_inv_def)
  note mset = stuck_complement(1)[OF dist placed stuck(2,1), folded cyc_def]
    and names_cyc = stuck_complement(2)[OF dist placed stuck(2,1), folded cyc_def]
  have blocked: "\<not> dag_runnable runtimes satisfied (m_name rt)" if "rt \<in> set cyc" for rt
  proof
    assume run: "dag_runnable runtimes satisfied (m_name rt)"
    have comp: "set (dg_completed s) = external_names runtimes satisfied \<union> (m_name ` set runtimes - set ?stuck)"
      using inv unfolding stuck(1) by (auto simp: dag_loop_inv_def)
    have "m_name rt \<notin> set ?stuck"
      by (rule blocked_not_runnable[OF dist _ _ run]) (use stuck(1,3) comp in auto)
    then show False using that names_cyc by (metis image_eqI list.set_map)
  qed
  have nonempty: "dg_stuck s \<noteq> Some []"
    using inv by (auto simp: dag_loop_inv_def)
  let ?r = "case dg_stuck s of
      None \<Rightarrow> \<lparr> dr_groups = dg_levels s, dr_error = None, dr_cyclic = None \<rparr>
    | Some stuck \<Rightarrow> \<lparr> dr_groups = dg_levels s,
        dr_error = Some (''cycle detected among runtimes: '' @ joined '', '' stuck),
        dr_cyclic = Some cyc \<rparr>"
  show thesis
  proof (rule that[of ?r])
    show "schedule_by_dag runtimes satisfied = Some ?r"
      using False run by_name by (simp add: schedule_by_dag_def cyc_def split: option.split)
    show "mset (concat (dr_groups ?r) @ result_cyclic ?r) = mset runtimes"
      using mset by (cases "dg_stuck s") (simp_all add: result_cyclic_def cyc_def)
    show "dr_error ?r = None \<longleftrightarrow> result_cyclic ?r = []"
      using nonempty names_cyc by (cases "dg_stuck s") (auto simp: result_cyclic_def)
    show "levels_sound ?env (m_name ` set runtimes) (external_names runtimes satisfied) (dr_groups ?r)"
      using inv by (simp add: dag_loop_inv_def split: option.split)
    show "level \<noteq> [] \<and> sorted_wrt (\<lambda>x y. by_name x y \<le> 0) level" if "level \<in> set (dr_groups ?r)" for level
      using inv that by (auto simp: dag_loop_inv_def split: option.splits)
    show "\<not> dag_runnable runtimes satisfied (m_name rt)" if "rt \<in> set (result_cyclic ?r)" for rt
      using blocked that by (auto simp: result_cyclic_def cyc_def split: option.splits)
  qed
qed

subsection \<open>Properties\<close>

text \<open>The sort returns for every batch, whatever cycles, duplicate names or OR edges it has.\<close>

lemma schedule_by_dag_total: "\<exists>r. schedule_by_dag runtimes satisfied = Some r"
  using dag_run_total[of runtimes satisfied] by (auto simp: schedule_by_dag_def)

text \<open>C3: every runtime of the batch is in exactly one level or in the cyclic list, nothing else is
  in either, and an error is reported exactly when the cyclic list is not empty.\<close>

theorem schedule_by_dag_partition:
  assumes "distinct (map m_name runtimes)"
  shows "\<exists>r. schedule_by_dag runtimes satisfied = Some r
    \<and> mset (concat (dr_groups r)) + mset (result_cyclic r) = mset runtimes
    \<and> (dr_error r = None \<longleftrightarrow> result_cyclic r = [])
    \<and> (\<forall>level\<in>set (dr_groups r). level \<noteq> [] \<and> sorted_wrt (\<lambda>x y. by_name x y \<le> 0) level)"
  by (rule schedule_facts[OF assms, of satisfied]) auto

text \<open>C2: In a batch of distinct names, a runtime of level i has all its hard in-batch dependencies in earlier
  levels, and for each turn-scoped capability need of cardinality one that has some provider, an external one or
  a provider in an earlier level. A need that nothing provides orders nothing.\<close>

theorem schedule_by_dag_order:
  assumes "distinct (map m_name runtimes)"
  shows "\<exists>r. schedule_by_dag runtimes satisfied = Some r
    \<and> (\<forall>i < length (dr_groups r). \<forall>rt \<in> set (dr_groups r ! i).
         edges_met runtimes satisfied (level_names (take i (dr_groups r))) rt)"
proof -
  obtain r where r: "schedule_by_dag runtimes satisfied = Some r"
    and mset: "mset (concat (dr_groups r) @ result_cyclic r) = mset runtimes"
    and sound: "levels_sound (snd (build_dag runtimes satisfied)) (m_name ` set runtimes)
           (external_names runtimes satisfied) (dr_groups r)"
    by (rule schedule_facts[OF assms]) blast
  have "edges_met runtimes satisfied (level_names (take i (dr_groups r))) rt"
    if "i < length (dr_groups r)" "rt \<in> set (dr_groups r ! i)" for i rt
  proof -
    have "rt \<in> set (concat (dr_groups r))" using that nth_mem[of i "dr_groups r"] by auto
    then have "rt \<in> set runtimes" using mset_eq_setD[OF mset] by auto
    then show ?thesis using levels_sound_nth[OF sound that] can_run_edges_met[OF assms] by simp
  qed
  then show ?thesis using r by blast
qed

text \<open>C1: the placed runtimes are exactly those that an AND/OR reading of the declared edges can run;
  a runtime reported as cyclic is one no order of execution can satisfy.\<close>

theorem schedule_by_dag_exact:
  assumes "distinct (map m_name runtimes)" and "rt \<in> set runtimes"
  shows "\<exists>r. schedule_by_dag runtimes satisfied = Some r
    \<and> (rt \<in> set (concat (dr_groups r)) \<longleftrightarrow> dag_runnable runtimes satisfied (m_name rt))
    \<and> (rt \<in> set (result_cyclic r) \<longleftrightarrow> \<not> dag_runnable runtimes satisfied (m_name rt))"
proof -
  obtain r where r: "schedule_by_dag runtimes satisfied = Some r"
    and mset: "mset (concat (dr_groups r) @ result_cyclic r) = mset runtimes"
    and sound: "levels_sound (snd (build_dag runtimes satisfied)) (m_name ` set runtimes)
           (external_names runtimes satisfied) (dr_groups r)"
    and cyc: "\<And>rt. rt \<in> set (result_cyclic r) \<Longrightarrow> \<not> dag_runnable runtimes satisfied (m_name rt)"
    by (rule schedule_facts[OF assms(1)]) blast
  have sub: "set (concat (dr_groups r)) \<union> set (result_cyclic r) = set runtimes"
    using mset_eq_setD[OF mset] by simp
  have "dag_runnable runtimes satisfied (m_name rt)" if "rt \<in> set (concat (dr_groups r))"
    using levels_runnable[OF assms(1), of satisfied "{}" "dr_groups r"] sound sub that by auto
  then show ?thesis using r cyc sub assms(2) by blast
qed

subsection \<open>Witnesses\<close>

definition dag_sample :: "manifest list" where
  "dag_sample = [(bare_manifest ''b'' ''p'')\<lparr> m_needs := Some [DepName ''a''] \<rparr>, bare_manifest ''a'' ''p'',
     (bare_manifest ''c'' ''p'')\<lparr> m_needs := Some [DepName ''c''] \<rparr>]"

lemma dag_sample_distinct: "distinct (map m_name dag_sample)"
  by (simp add: dag_sample_def bare_manifest_def)

lemma schedule_by_dag_partition_witness:
  "\<exists>r. schedule_by_dag dag_sample [] = Some r
    \<and> mset (concat (dr_groups r)) + mset (result_cyclic r) = mset dag_sample
    \<and> (dr_error r = None \<longleftrightarrow> result_cyclic r = [])
    \<and> (\<forall>level\<in>set (dr_groups r). level \<noteq> [] \<and> sorted_wrt (\<lambda>x y. by_name x y \<le> 0) level)"
  by (rule schedule_by_dag_partition[OF dag_sample_distinct])

lemma schedule_by_dag_order_witness:
  "\<exists>r. schedule_by_dag dag_sample [] = Some r
    \<and> (\<forall>i < length (dr_groups r). \<forall>rt \<in> set (dr_groups r ! i).
         edges_met dag_sample [] (level_names (take i (dr_groups r))) rt)"
  by (rule schedule_by_dag_order[OF dag_sample_distinct])

lemma schedule_by_dag_exact_witness:
  "\<exists>r. schedule_by_dag dag_sample [] = Some r
    \<and> (dag_sample ! 0 \<in> set (concat (dr_groups r)) \<longleftrightarrow> dag_runnable dag_sample [] (m_name (dag_sample ! 0)))
    \<and> (dag_sample ! 0 \<in> set (result_cyclic r) \<longleftrightarrow> \<not> dag_runnable dag_sample [] (m_name (dag_sample ! 0)))"
  by (rule schedule_by_dag_exact[OF dag_sample_distinct]) (simp add: dag_sample_def)

end
