(* ===== verification/Effects.thy ===== *)
theory Effects
  imports DagScheduler
begin

text \<open>
  Read/write effects of runtimes and the hazard policy of a parallel level
  (\<open>packages/runtime/src/schedule/effects.ts\<close>). A resource is a string; \<open>ns:*\<close> stands for a whole
  namespace and \<open>unknown:*\<close> for everything. The theory shows that the string tests never miss a real
  overlap, that a declaration can only add effects, and that the strict policy separates every
  hazard pair of a level in name order and loses no runtime.
\<close>

subsection \<open>Derivation\<close>

record run_effects =
  rf_reads :: "effect_resource list"
  rf_writes :: "effect_resource list"
  rf_parallel_safe :: bool

definition builtin_write :: "(string, effect_resource) jmap" where
  "builtin_write = [(''sync-characters'', ''characters:*''), (''render-ui'', ''ui:*''),
     (''create-notification'', ''ui:*''), (''create-form'', ''interaction:*''),
     (''create-choices'', ''interaction:*'')]"

definition builtin_read :: "(string, effect_resource) jmap" where
  "builtin_read = [(''list-characters'', ''characters:*''), (''get-character'', ''characters:*''),
     (''sync-characters'', ''characters:*'')]"

definition add_read :: "effect_resource \<Rightarrow> run_effects \<Rightarrow> run_effects" where
  "add_read r e = e\<lparr> rf_reads := js_add r (rf_reads e) \<rparr>"

definition add_write :: "effect_resource \<Rightarrow> run_effects \<Rightarrow> run_effects" where
  "add_write w e = e\<lparr> rf_writes := js_add w (rf_writes e) \<rparr>"

definition add_builtin :: "run_effects \<Rightarrow> string \<Rightarrow> run_effects" where
  "add_builtin e t =
     (let e = (case jm_get builtin_write t of Some w \<Rightarrow> add_write w e | None \<Rightarrow> e)
      in case jm_get builtin_read t of Some r \<Rightarrow> add_read r e | None \<Rightarrow> e)"

definition add_dataset :: "run_effects \<Rightarrow> string \<times> dataset_tool list \<Rightarrow> run_effects" where
  "add_dataset e = (\<lambda>(dataset, tools).
     let key = ''plugin-data:self:'' @ dataset;
         e = (if DsGet \<in> set tools \<or> DsList \<in> set tools then add_read key e else e)
     in if DsUpsert \<in> set tools \<or> DsUpdate \<in> set tools then add_write key e else e)"

definition derive_effects :: "manifest \<Rightarrow> run_effects" where
  "derive_effects m =
     (let builtin_tools = or_else (Option.bind (m_tools m) tl_builtin) [];
          e = \<lparr> rf_reads = [], rf_writes = [], rf_parallel_safe = False \<rparr>;
          e = foldl add_builtin e builtin_tools;
          e = foldl add_dataset e (or_else (Option.bind (m_tools m) tl_datasets) []);
          e = (if ''emit-event'' \<in> set builtin_tools then add_write ''event:*'' e else e);
          e = (if m_output_kind m = Some Story then add_write ''narrative:*'' e else e);
          decl = sp_effects (get_runtime_spec m);
          e = foldl (\<lambda>e r. add_read r e) e (or_else (Option.bind decl ed_reads) []);
          e = foldl (\<lambda>e w. add_write w e) e (or_else (Option.bind decl ed_writes) [])
      in e\<lparr> rf_parallel_safe := or_else (Option.bind decl ed_parallel_safe) False \<rparr>)"

subsection \<open>Hazards\<close>

definition ends_with :: "string \<Rightarrow> string \<Rightarrow> bool" where
  "ends_with s p = (length p \<le> length s \<and> drop (length s - length p) s = p)"

definition resources_intersect :: "effect_resource \<Rightarrow> effect_resource \<Rightarrow> bool" where
  "resources_intersect a b =
     (if a = b then True
      else if a = ''unknown:*'' \<or> b = ''unknown:*'' then True
      else if ends_with a '':*'' \<and> starts_with b (butlast a) then True
      else if ends_with b '':*'' \<and> starts_with a (butlast b) then True
      else False)"

definition intersects_sets :: "effect_resource list \<Rightarrow> effect_resource list \<Rightarrow> bool" where
  "intersects_sets left right = list_ex (\<lambda>a. list_ex (\<lambda>b. resources_intersect a b) right) left"

definition effects_hazard :: "run_effects \<Rightarrow> run_effects \<Rightarrow> bool" where
  "effects_hazard a b =
     (let a_rw = js_add_all (rf_reads a @ rf_writes a) [];
          b_rw = js_add_all (rf_reads b @ rf_writes b) [];
          hazard = intersects_sets (rf_writes a) b_rw \<or> intersects_sets (rf_writes b) a_rw
      in if \<not> hazard then False
         else let exempt = rf_parallel_safe a \<and> rf_parallel_safe b
                \<and> \<not> intersects_sets (rf_writes a) (rf_reads b)
                \<and> \<not> intersects_sets (rf_writes b) (rf_reads a)
                \<and> ''unknown:*'' \<notin> set (rf_writes a) \<and> ''unknown:*'' \<notin> set (rf_writes b)
              in \<not> exempt)"

subsection \<open>Policy\<close>

datatype effects_policy = WarnPolicy | StrictPolicy

text \<open>The environment is the value of \<open>COVEL_EFFECTS_POLICY\<close>.\<close>

definition resolve_effects_policy :: "string option \<Rightarrow> effects_policy" where
  "resolve_effects_policy env = (if env = Some ''strict'' then StrictPolicy else WarnPolicy)"

record hazard_diagnostic =
  hd_a :: string
  hd_b :: string
  hd_policy :: effects_policy

type_synonym effects_map = "(string, run_effects) jmap"

definition hazard_named :: "effects_map \<Rightarrow> string \<Rightarrow> string \<Rightarrow> bool" where
  "hazard_named effects x y = (case (jm_get effects x, jm_get effects y) of
       (Some a, Some b) \<Rightarrow> effects_hazard a b | _ \<Rightarrow> False)"

text \<open>The level of each node is one above the highest earlier node it conflicts with.\<close>

fun assign_levels :: "(string \<Rightarrow> string \<Rightarrow> bool) \<Rightarrow> string list \<Rightarrow> (string, nat) jmap \<Rightarrow> string list \<Rightarrow> (string, nat) jmap" where
  "assign_levels hazard prior levels [] = levels"
| "assign_levels hazard prior levels (x # rest) =
     (let lvl = foldl (\<lambda>lvl p. if hazard x p then max lvl (or_else (jm_get levels p) 0 + 1) else lvl) 0 prior
      in assign_levels hazard (prior @ [x]) (jm_set x lvl levels) rest)"

definition strict_serialize :: "manifest list \<Rightarrow> effects_map \<Rightarrow> manifest list list" where
  "strict_serialize ordered effects =
     (let level_of = assign_levels (hazard_named effects) [] [] (map m_name ordered);
          max_level = foldl max 0 (map snd level_of)
      in map (\<lambda>i. filter (\<lambda>rt. jm_get level_of (m_name rt) = Some i) ordered) [0 ..< max_level + 1])"

fun hazard_pairs :: "effects_map \<Rightarrow> string list \<Rightarrow> (string \<times> string) list" where
  "hazard_pairs effects [] = []"
| "hazard_pairs effects (x # xs) =
     map (\<lambda>y. (x, y)) (filter (hazard_named effects x) xs) @ hazard_pairs effects xs"

definition group_effects :: "manifest list \<Rightarrow> effects_map" where
  "group_effects ordered = foldl (\<lambda>m rt. jm_set (m_name rt) (derive_effects rt) m) [] ordered"

definition group_policy :: "effects_policy \<Rightarrow> manifest list \<Rightarrow> manifest list list \<times> hazard_diagnostic list" where
  "group_policy policy grp =
     (if length grp < 2 then ([grp], [])
      else let ordered = js_sort by_name grp;
               effects = group_effects ordered;
               pairs = hazard_pairs effects (map m_name ordered)
           in if length pairs = 0 then ([grp], [])
              else (if policy = WarnPolicy then [grp] else strict_serialize ordered effects,
                    map (\<lambda>(x, y). \<lparr> hd_a = x, hd_b = y, hd_policy = policy \<rparr>) pairs))"

definition apply_hazard_policy ::
    "manifest list list \<Rightarrow> effects_policy \<Rightarrow> manifest list list \<times> hazard_diagnostic list" where
  "apply_hazard_policy groups policy =
     foldl (\<lambda>(out, diagnostics) grp. let (gs, ds) = group_policy policy grp in (out @ gs, diagnostics @ ds))
       ([], []) groups"

subsection \<open>Facts on resources and derivation\<close>

text \<open>The concrete resources a resource pattern stands for.\<close>

definition denotes :: "effect_resource \<Rightarrow> string \<Rightarrow> bool" where
  "denotes r s = (r = ''unknown:*'' \<or> (if ends_with r '':*'' then starts_with s (butlast r) else s = r))"

lemma resources_intersect_commute: "resources_intersect a b = resources_intersect b a"
  by (auto simp: resources_intersect_def)

lemma intersects_sets_iff:
  "intersects_sets xs ys \<longleftrightarrow> (\<exists>a\<in>set xs. \<exists>b\<in>set ys. resources_intersect a b)"
  by (auto simp: intersects_sets_def list_ex_iff)

lemma intersects_sets_commute: "intersects_sets xs ys = intersects_sets ys xs"
  unfolding intersects_sets_iff using resources_intersect_commute by blast

lemma effects_hazard_iff:
  "effects_hazard a b \<longleftrightarrow>
     (intersects_sets (rf_writes a) (rf_reads b) \<or> intersects_sets (rf_writes b) (rf_reads a)
      \<or> intersects_sets (rf_writes a) (rf_writes b))
     \<and> \<not> (rf_parallel_safe a \<and> rf_parallel_safe b
          \<and> \<not> intersects_sets (rf_writes a) (rf_reads b) \<and> \<not> intersects_sets (rf_writes b) (rf_reads a)
          \<and> ''unknown:*'' \<notin> set (rf_writes a) \<and> ''unknown:*'' \<notin> set (rf_writes b))"
proof -
  have "intersects_sets xs (js_add_all (ys @ zs) []) \<longleftrightarrow> intersects_sets xs ys \<or> intersects_sets xs zs" for xs ys zs
    by (auto simp: intersects_sets_iff)
  then show ?thesis
    using intersects_sets_commute[of "rf_writes a" "rf_writes b"] unfolding effects_hazard_def Let_def by auto
qed

lemma hazard_commute: "effects_hazard a b = effects_hazard b a"
  using intersects_sets_commute unfolding effects_hazard_iff by blast

lemma shared_resource_intersects:
  assumes "denotes a s" "denotes b s"
  shows "resources_intersect a b"
proof -
  have pre: "starts_with s (butlast a) \<Longrightarrow> starts_with s (butlast b) \<Longrightarrow>
      length (butlast a) \<le> length (butlast b) \<Longrightarrow> prefix (butlast a) b" for a b
    by (metis prefix_length_prefix prefix_order.trans prefixeq_butlast starts_with_prefix)
  show ?thesis
  proof (cases "a = ''unknown:*'' \<or> b = ''unknown:*''")
    case True
    then show ?thesis by (auto simp: resources_intersect_def)
  next
    case False
    then show ?thesis
      using assms pre[of a b] pre[of b a] nat_le_linear[of "length a - Suc 0" "length b - Suc 0"]
      by (auto simp: denotes_def starts_with_prefix resources_intersect_commute split: if_splits)
        (auto simp: resources_intersect_def starts_with_prefix)
  qed
qed

lemma derive_folds:
  "foldl (\<lambda>e r. add_read r e) e rs = e\<lparr> rf_reads := js_add_all rs (rf_reads e) \<rparr>"
  "foldl (\<lambda>e w. add_write w e) e ws = e\<lparr> rf_writes := js_add_all ws (rf_writes e) \<rparr>"
  by (induction rs arbitrary: e) (auto simp: add_read_def, induction ws arbitrary: e, auto simp: add_write_def)

definition effects_le :: "run_effects \<Rightarrow> run_effects \<Rightarrow> bool" where
  "effects_le a b \<longleftrightarrow> set (rf_reads a) \<subseteq> set (rf_reads b) \<and> set (rf_writes a) \<subseteq> set (rf_writes b)"

lemma intersects_sets_mono:
  "set xs \<subseteq> set xs' \<Longrightarrow> set ys \<subseteq> set ys' \<Longrightarrow> intersects_sets xs ys \<Longrightarrow> intersects_sets xs' ys'"
  unfolding intersects_sets_iff by blast

lemma hazard_mono:
  assumes "effects_le a a'" "effects_hazard a b" "\<not> (rf_parallel_safe a' \<and> rf_parallel_safe b)"
  shows "effects_hazard a' b"
proof -
  have "intersects_sets (rf_writes a') (rf_reads b) \<or> intersects_sets (rf_writes b) (rf_reads a')
      \<or> intersects_sets (rf_writes a') (rf_writes b)"
    using assms(1,2) intersects_sets_mono[of "rf_writes a" "rf_writes a'" "rf_reads b" "rf_reads b"]
      intersects_sets_mono[of "rf_writes b" "rf_writes b" "rf_reads a" "rf_reads a'"]
      intersects_sets_mono[of "rf_writes a" "rf_writes a'" "rf_writes b" "rf_writes b"]
    unfolding effects_hazard_iff effects_le_def by auto
  then show ?thesis using assms(3) unfolding effects_hazard_iff by auto
qed

lemma derive_effects_decl:
  "derive_effects m = (derive_effects (m\<lparr> m_effects := None \<rparr>))
     \<lparr> rf_reads := js_add_all (or_else (Option.bind (m_effects m) ed_reads) [])
                    (rf_reads (derive_effects (m\<lparr> m_effects := None \<rparr>))),
       rf_writes := js_add_all (or_else (Option.bind (m_effects m) ed_writes) [])
                    (rf_writes (derive_effects (m\<lparr> m_effects := None \<rparr>))),
       rf_parallel_safe := or_else (Option.bind (m_effects m) ed_parallel_safe) False \<rparr>"
  by (simp add: derive_effects_def Let_def derive_folds)

lemma derive_effects_le: "effects_le (derive_effects (m\<lparr> m_effects := None \<rparr>)) (derive_effects m)"
  by (subst (2) derive_effects_decl) (auto simp: effects_le_def)

subsection \<open>The greedy levels of a symmetric conflict\<close>

lemma foldl_max_ge:
  "(lvl :: nat) \<le> foldl (\<lambda>l p. if c p then max l (f p + 1) else l) lvl ps"
  "p \<in> set ps \<Longrightarrow> c p \<Longrightarrow> f p < foldl (\<lambda>l p. if c p then max l (f p + 1) else l) lvl ps"
proof (induction ps arbitrary: lvl)
  case (Cons q ps)
  {
    case 1
    show ?case using Cons(1)[of "if c q then max lvl (f q + 1) else lvl"] by (auto split: if_splits)
  next
    case 2
    show ?case
    proof (cases "p = q")
      case True
      then show ?thesis using 2 Cons(1)[of "max lvl (f q + 1)"] by auto
    next
      case False
      then show ?thesis using 2 Cons(2) by auto
    qed
  }
qed auto

locale symmetric_conflict =
  fixes conflict :: "string \<Rightarrow> string \<Rightarrow> bool"
  assumes conflict_commute: "conflict x y = conflict y x"
begin

lemma assign_levels_prior:
  "jm_keys lv = prior \<Longrightarrow> distinct (prior @ rest) \<Longrightarrow>
     jm_keys (assign_levels conflict prior lv rest) = prior @ rest
     \<and> (\<forall>p\<in>set prior. jm_get (assign_levels conflict prior lv rest) p = jm_get lv p)"
proof (induction rest arbitrary: prior lv)
  case (Cons x rest)
  have "x \<notin> set prior" using Cons.prems(2) by simp
  then have "jm_keys (jm_set x v lv) = prior @ [x]" for v
    using Cons.prems(1) by (auto simp: jm_keys_set simp flip: list.set_map)
  then show ?case
    using Cons.IH[of "jm_set x v lv" "prior @ [x]" for v] Cons.prems(2) by (auto simp: Let_def)
qed simp

lemma assign_levels_sound:
  "jm_keys lv = prior \<Longrightarrow> distinct (prior @ rest) \<Longrightarrow> i < j \<Longrightarrow> j < length (prior @ rest) \<Longrightarrow>
     length prior \<le> j \<Longrightarrow> conflict ((prior @ rest) ! i) ((prior @ rest) ! j) \<Longrightarrow>
      or_else (jm_get (assign_levels conflict prior lv rest) ((prior @ rest) ! i)) 0
      < or_else (jm_get (assign_levels conflict prior lv rest) ((prior @ rest) ! j)) 0"
proof (induction rest arbitrary: prior lv)
  case (Cons x rest)
  let ?f = "\<lambda>p. or_else (jm_get lv p) 0"
  let ?lvl = "foldl (\<lambda>l p. if conflict x p then max l (?f p + 1) else l) 0 prior"
  let ?lv = "jm_set x ?lvl lv"
  have step: "assign_levels conflict prior lv (x # rest) = assign_levels conflict (prior @ [x]) ?lv rest"
    by simp
  have fresh: "x \<notin> set prior" and dist: "distinct ((prior @ [x]) @ rest)" using Cons.prems(2) by auto
  have keys: "jm_keys ?lv = prior @ [x]"
    using Cons.prems(1) fresh by (auto simp: jm_keys_set simp flip: list.set_map)
  show ?case
  proof (cases "j = length prior")
    case True
    let ?p = "prior ! i"
    have i: "i < length prior" using Cons.prems(3) True by simp
    have p: "?p \<in> set prior" using i by simp
    have "conflict x ?p" using Cons.prems(6) True i conflict_commute by (simp add: nth_append)
    then have "?f ?p < ?lvl" by (rule foldl_max_ge(2)[OF p])
    then show ?thesis
      using assign_levels_prior[OF keys dist] p i True fresh unfolding step by (auto simp: nth_append)
  next
    case False
    then show ?thesis unfolding step using Cons.IH[OF keys dist] Cons.prems by simp
  qed
qed simp

lemma levels_separate:
  assumes "distinct xs" "i < j" "j < length xs" "conflict (xs ! i) (xs ! j)"
  shows "or_else (jm_get (assign_levels conflict [] [] xs) (xs ! i)) 0
         < or_else (jm_get (assign_levels conflict [] [] xs) (xs ! j)) 0"
  using assign_levels_sound[of "[]" "[]" xs i j] assms by simp

end

lemma hazard_named_commute: "hazard_named effects x y = hazard_named effects y x"
  by (auto simp: hazard_named_def hazard_commute split: option.splits)

interpretation hazard: symmetric_conflict "hazard_named effects" for effects
  by unfold_locales (rule hazard_named_commute)

subsection \<open>The strict split of one level\<close>

definition conflicting :: "manifest \<Rightarrow> manifest \<Rightarrow> bool" where
  "conflicting x y = effects_hazard (derive_effects x) (derive_effects y)"

lemma conflicting_commute: "conflicting x y = conflicting y x"
  by (simp add: conflicting_def hazard_commute)

lemma hazard_named_group:
  assumes "distinct (map m_name rts)" "x \<in> set rts" "y \<in> set rts"
  shows "hazard_named (group_effects rts) (m_name x) (m_name y) = conflicting x y"
proof -
  have eq: "group_effects rts = map (\<lambda>rt. (m_name rt, derive_effects rt)) rts"
    unfolding group_effects_def by (rule foldl_map_of_keys[OF assms(1)])
  note get = map_of_map_keys[OF assms(1), of _ derive_effects]
  show ?thesis by (simp add: hazard_named_def eq get[OF assms(2)] get[OF assms(3)] conflicting_def)
qed

lemma mset_buckets:
  "mset (concat (map (\<lambda>i. filter (\<lambda>x. f x = i) xs) [0 ..< n])) = mset (filter (\<lambda>x. f x < (n :: nat)) xs)"
proof (induction n)
  case (Suc n)
  have "mset (filter (\<lambda>x. f x < Suc n) xs) = mset (filter (\<lambda>x. f x < n) xs) + mset (filter (\<lambda>x. f x = n) xs)"
    by (induction xs) auto
  then show ?case using Suc by simp
qed simp

lemma foldl_max_bounds: "(a :: nat) \<le> foldl max a xs \<and> (\<forall>x\<in>set xs. x \<le> foldl max a xs)"
proof (induction xs arbitrary: a)
  case (Cons y xs)
  have "a \<le> max a y" "y \<le> max a y" by simp_all
  then show ?case using Cons[of "max a y"] by (auto intro: order_trans)
qed simp

lemma le_foldl_max: "x \<in> set xs \<Longrightarrow> (x :: nat) \<le> foldl max a xs"
  using foldl_max_bounds by blast

definition strict_level :: "manifest list \<Rightarrow> effects_map \<Rightarrow> manifest \<Rightarrow> nat" where
  "strict_level ordered effects rt =
     or_else (jm_get (assign_levels (hazard_named effects) [] [] (map m_name ordered)) (m_name rt)) 0"

lemma strict_serialize_eq:
  assumes "distinct (map m_name ordered)"
  obtains n where "strict_serialize ordered effects =
      map (\<lambda>i. filter (\<lambda>rt. strict_level ordered effects rt = i) ordered) [0 ..< n]"
    and "\<And>rt. rt \<in> set ordered \<Longrightarrow> strict_level ordered effects rt < n"
proof -
  let ?lv = "assign_levels (hazard_named effects) [] [] (map m_name ordered)"
  have keys: "jm_keys ?lv = map m_name ordered"
    using hazard.assign_levels_prior[of "[]" "[]" "map m_name ordered" effects] assms by simp
  have has: "\<exists>v. jm_get ?lv (m_name rt) = Some v" if "rt \<in> set ordered" for rt
  proof -
    have "m_name rt \<in> set (jm_keys ?lv)" using keys that by simp
    then show ?thesis by (metis list.set_map map_of_eq_None_iff option.exhaust)
  qed
  have eq: "jm_get ?lv (m_name rt) = Some i \<longleftrightarrow> strict_level ordered effects rt = i" if "rt \<in> set ordered" for rt i
    using has[OF that] by (auto simp: strict_level_def)
  have "strict_level ordered effects rt < foldl max 0 (map snd ?lv) + 1" if rt: "rt \<in> set ordered" for rt
  proof -
    have "(m_name rt, strict_level ordered effects rt) \<in> set ?lv"
      using has[OF rt] by (auto simp: strict_level_def dest: map_of_SomeD)
    then have "strict_level ordered effects rt \<in> set (map snd ?lv)" by force
    then show ?thesis using le_foldl_max by (metis less_add_one order_le_less_trans)
  qed
  moreover have "strict_serialize ordered effects =
      map (\<lambda>i. filter (\<lambda>rt. strict_level ordered effects rt = i) ordered) [0 ..< foldl max 0 (map snd ?lv) + 1]"
    unfolding strict_serialize_def Let_def by (intro map_cong filter_cong refl eq)
  ultimately show thesis by (rule that[rotated])
qed

lemma mset_strict_serialize:
  "distinct (map m_name ordered) \<Longrightarrow> mset (concat (strict_serialize ordered effects)) = mset ordered"
proof -
  assume "distinct (map m_name ordered)"
  then obtain n where n: "strict_serialize ordered effects =
      map (\<lambda>i. filter (\<lambda>rt. strict_level ordered effects rt = i) ordered) [0 ..< n]"
    "\<And>rt. rt \<in> set ordered \<Longrightarrow> strict_level ordered effects rt < n"
    using strict_serialize_eq by blast
  have "filter (\<lambda>rt. strict_level ordered effects rt < n) ordered = ordered"
    using n(2) by (simp add: filter_id_conv)
  then show ?thesis unfolding n(1) mset_buckets by simp
qed

lemma strict_level_separates:
  assumes dist: "distinct (map m_name ordered)" and ij: "i < j" "j < length ordered"
    and conf: "conflicting (ordered ! i) (ordered ! j)"
  shows "strict_level ordered (group_effects ordered) (ordered ! i)
         < strict_level ordered (group_effects ordered) (ordered ! j)"
proof -
  have "hazard_named (group_effects ordered) (m_name (ordered ! i)) (m_name (ordered ! j))"
    using hazard_named_group[OF dist] ij conf by simp
  then show ?thesis
    using hazard.levels_separate[of "map m_name ordered" i j "group_effects ordered"] dist ij
    by (simp add: strict_level_def)
qed

lemma strict_same_level:
  assumes "distinct (map m_name ordered)" "level \<in> set (strict_serialize ordered (group_effects ordered))"
    "x \<in> set level" "y \<in> set level" "x \<noteq> y"
  shows "\<not> conflicting x y"
proof
  assume conf: "conflicting x y"
  have same: "x \<in> set ordered" "y \<in> set ordered"
    "strict_level ordered (group_effects ordered) x = strict_level ordered (group_effects ordered) y"
    using assms by (auto elim!: strict_serialize_eq[where effects = "group_effects ordered"])
  then obtain i j where ij: "i < length ordered" "j < length ordered" "ordered ! i = x" "ordered ! j = y"
    by (auto simp: in_set_conv_nth)
  then have "i \<noteq> j" using assms(5) by auto
  then show False
    using ij same(3) conf conflicting_commute strict_level_separates[OF assms(1), of i j]
      strict_level_separates[OF assms(1), of j i] by (metis less_irrefl linorder_neqE_nat)
qed

subsection \<open>The policy on a schedule\<close>

lemma hazard_pairs_iff:
  "(x, y) \<in> set (hazard_pairs effects xs) \<longleftrightarrow>
     (\<exists>i j. i < j \<and> j < length xs \<and> xs ! i = x \<and> xs ! j = y \<and> hazard_named effects x y)"
proof (induction xs)
  case (Cons a xs)
  have "(\<exists>i j. i < j \<and> j < length (a # xs) \<and> (a # xs) ! i = x \<and> (a # xs) ! j = y \<and> P) \<longleftrightarrow>
      (a = x \<and> y \<in> set xs \<and> P) \<or> (\<exists>i j. i < j \<and> j < length xs \<and> xs ! i = x \<and> xs ! j = y \<and> P)"
    (is "?L \<longleftrightarrow> ?R") for P
  proof
    assume ?L
    then obtain i j where ij: "i < j" "j < length (a # xs)" "(a # xs) ! i = x" "(a # xs) ! j = y" P by auto
    then show ?R by (cases i; cases j) (auto simp: in_set_conv_nth)
  next
    assume ?R
    then show ?L
    proof
      assume "a = x \<and> y \<in> set xs \<and> P"
      then obtain j where "j < length xs" "xs ! j = y" "a = x" P by (auto simp: in_set_conv_nth)
      then show ?L by (intro exI[of _ 0] exI[of _ "Suc j"]) simp
    next
      assume "\<exists>i j. i < j \<and> j < length xs \<and> xs ! i = x \<and> xs ! j = y \<and> P"
      then obtain i j where "i < j" "j < length xs" "xs ! i = x" "xs ! j = y" P by auto
      then show ?L by (intro exI[of _ "Suc i"] exI[of _ "Suc j"]) simp
    qed
  qed
  then show ?case using Cons by auto
qed simp

lemma hazard_pairs_empty:
  assumes "distinct (map m_name rts)" "hazard_pairs (group_effects rts) (map m_name rts) = []"
    "x \<in> set rts" "y \<in> set rts" "x \<noteq> y"
  shows "\<not> conflicting x y"
proof -
  obtain i j where ij: "i < length rts" "j < length rts" "rts ! i = x" "rts ! j = y" "i \<noteq> j"
    using assms(3-5) by (metis in_set_conv_nth)
  have no: "\<not> hazard_named (group_effects rts) (m_name (rts ! a)) (m_name (rts ! b))" if "a < b" "b < length rts" for a b
  proof
    assume h: "hazard_named (group_effects rts) (m_name (rts ! a)) (m_name (rts ! b))"
    have "(m_name (rts ! a), m_name (rts ! b)) \<in> set (hazard_pairs (group_effects rts) (map m_name rts))"
      unfolding hazard_pairs_iff using that h by (intro exI[of _ a] exI[of _ b]) simp
    then show False by (simp add: assms(2))
  qed
  show ?thesis
    using no[of i j] no[of j i] ij hazard_named_group[OF assms(1,3,4)] hazard_named_commute
    by (metis linorder_neqE_nat)
qed

lemma apply_hazard_policy_eq:
  "apply_hazard_policy groups policy =
     (concat (map (\<lambda>g. fst (group_policy policy g)) groups), concat (map (\<lambda>g. snd (group_policy policy g)) groups))"
proof -
  have "foldl (\<lambda>(out, diagnostics) g. let (gs, ds) = group_policy policy g in (out @ gs, diagnostics @ ds)) s groups =
      (fst s @ concat (map (\<lambda>g. fst (group_policy policy g)) groups),
       snd s @ concat (map (\<lambda>g. snd (group_policy policy g)) groups))" for s
    by (induction groups arbitrary: s) (auto split: prod.split)
  then show ?thesis by (simp add: apply_hazard_policy_def)
qed

lemma group_policy_cases:
  obtains (kept) "group_policy policy g = ([g], [])"
      "length g < 2 \<or> hazard_pairs (group_effects (js_sort by_name g)) (map m_name (js_sort by_name g)) = []"
  | (split) ds where "group_policy policy g =
      (if policy = WarnPolicy then [g] else strict_serialize (js_sort by_name g) (group_effects (js_sort by_name g)), ds)"
  by (cases "length g < 2"; cases "hazard_pairs (group_effects (js_sort by_name g)) (map m_name (js_sort by_name g)) = []")
    (auto simp: group_policy_def Let_def)

lemma strict_group_clean:
  assumes dist: "distinct (map m_name g)" and "out \<in> set (fst (group_policy StrictPolicy g))"
    "x \<in> set out" "y \<in> set out" "x \<noteq> y"
  shows "\<not> conflicting x y"
proof (cases rule: group_policy_cases[of StrictPolicy g])
  case kept
  have "distinct (map m_name (js_sort by_name g))" using dist by simp
  moreover have "\<not> length g < 2" if "x \<in> set g" "y \<in> set g"
    using that assms(5) by (cases g; cases "tl g") auto
  ultimately show ?thesis
    using kept assms(2-) hazard_pairs_empty[of "js_sort by_name g" x y] by auto
next
  case (split ds)
  then show ?thesis using strict_same_level[of "js_sort by_name g" out x y] assms by simp
qed

lemma mset_group_policy:
  "distinct (map m_name g) \<Longrightarrow> mset (concat (fst (group_policy policy g))) = mset g"
  by (cases rule: group_policy_cases[of policy g]) (simp_all add: mset_strict_serialize)

subsection \<open>Properties\<close>

text \<open>Two resource patterns that stand for a common concrete resource are reported as
  intersecting, so the string comparison never misses an overlap.\<close>

lemma overlap_detected:
  assumes "denotes a s" "denotes b s"
  shows "resources_intersect a b"
  using assms by (rule shared_resource_intersects)

text \<open>An effects declaration can never hide a hazard the derived surfaces have, unless both
  authors opted into parallelSafe.\<close>

lemma declaration_cannot_hide_hazard:
  assumes "effects_hazard (derive_effects (m\<lparr> m_effects := None \<rparr>)) (derive_effects other)"
    and "\<not> (rf_parallel_safe (derive_effects m) \<and> rf_parallel_safe (derive_effects other))"
  shows "effects_hazard (derive_effects m) (derive_effects other)"
  using hazard_mono[OF derive_effects_le assms] .

text \<open>Under either policy no runtime of the schedule is lost or run twice.\<close>

lemma hazard_policy_keeps_runtimes:
  assumes "\<And>g. g \<in> set groups \<Longrightarrow> distinct (map m_name g)"
  shows "mset (concat (fst (apply_hazard_policy groups policy))) = mset (concat groups)"
  using assms by (induction groups) (simp_all add: apply_hazard_policy_eq mset_group_policy)

text \<open>C23: under the strict policy no two runtimes of one output level have an effects hazard.\<close>

theorem strict_policy_separates:
  assumes "\<And>g. g \<in> set groups \<Longrightarrow> distinct (map m_name g)"
    and "out \<in> set (fst (apply_hazard_policy groups StrictPolicy))" "x \<in> set out" "y \<in> set out" "x \<noteq> y"
  shows "\<not> effects_hazard (derive_effects x) (derive_effects y)"
proof -
  obtain g where "g \<in> set groups" "out \<in> set (fst (group_policy StrictPolicy g))"
    using assms(2) by (auto simp: apply_hazard_policy_eq)
  then show ?thesis using strict_group_clean[OF assms(1)] assms(3-) unfolding conflicting_def by blast
qed

text \<open>The warn policy returns the schedule unchanged.\<close>

lemma warn_policy_keeps_groups: "fst (apply_hazard_policy groups WarnPolicy) = groups"
proof -
  have "fst (group_policy WarnPolicy g) = [g]" for g
    by (cases rule: group_policy_cases[of WarnPolicy g]) simp_all
  then show ?thesis by (induction groups) (simp_all add: apply_hazard_policy_eq)
qed

text \<open>Two runtimes exempted by parallelSafe stay in one level even under the strict policy.\<close>

lemma strict_keeps_exempted_pair:
  assumes "distinct (map m_name [x, y])" and "\<not> effects_hazard (derive_effects x) (derive_effects y)"
  shows "fst (apply_hazard_policy [[x, y]] StrictPolicy) = [[x, y]]"
proof -
  define g where "g = js_sort by_name [x, y]"
  have dist: "distinct (map m_name g)" and set_g: "set g = {x, y}" using assms(1) by (auto simp: g_def)
  have "hazard_pairs (group_effects g) (map m_name g) = []"
  proof (rule ccontr)
    assume "hazard_pairs (group_effects g) (map m_name g) \<noteq> []"
    then obtain n n' where "(n, n') \<in> set (hazard_pairs (group_effects g) (map m_name g))"
      by (metis list.set_intros(1) neq_Nil_conv surj_pair)
    then obtain i j where ij: "i < j" "j < length g"
        "hazard_named (group_effects g) (m_name (g ! i)) (m_name (g ! j))"
      unfolding hazard_pairs_iff by auto
    have mem: "g ! i \<in> set g" "g ! j \<in> set g" using ij nth_mem by (meson less_trans)+
    have "conflicting (g ! i) (g ! j)" using ij(3) hazard_named_group[OF dist mem] by simp
    moreover have "g ! i \<noteq> g ! j"
      using nth_eq_iff_index_eq[OF distinct_of_map[OF dist], of i j] ij by auto
    ultimately show False
      using mem assms(2) conflicting_commute unfolding conflicting_def set_g by auto
  qed
  then show ?thesis unfolding g_def by (simp add: apply_hazard_policy_eq group_policy_def)
qed

subsection \<open>Witnesses\<close>

definition form_runtime :: "string \<Rightarrow> manifest" where
  "form_runtime n = (bare_manifest n ''p'')\<lparr> m_effects := Some \<lparr> ed_reads = None, ed_writes = Some [''ui:*''], ed_parallel_safe = None \<rparr> \<rparr>"

lemma derive_form: "derive_effects (form_runtime n) = \<lparr> rf_reads = [], rf_writes = [''ui:*''], rf_parallel_safe = False \<rparr>"
  by (simp add: derive_effects_def form_runtime_def bare_manifest_def add_write_def js_add_def Let_def)

lemma form_hazard: "effects_hazard (derive_effects (form_runtime a)) (derive_effects (form_runtime b))"
  by (simp add: derive_form effects_hazard_iff intersects_sets_def resources_intersect_def)

lemma form_names: "m_name (form_runtime n) = n"
  by (simp add: form_runtime_def bare_manifest_def)

definition form_group :: "manifest list" where
  "form_group = [form_runtime ''b'', form_runtime ''a'', bare_manifest ''c'' ''p'']"

lemma form_group_distinct: "g \<in> set [form_group] \<Longrightarrow> distinct (map m_name g)"
  by (simp add: form_group_def form_names bare_manifest_def)

lemma strict_policy_separates_witness:
  "list_all (\<lambda>out. \<not> (form_runtime ''a'' \<in> set out \<and> form_runtime ''b'' \<in> set out))
     (fst (apply_hazard_policy [form_group] StrictPolicy))"
  unfolding list_all_iff
proof (intro ballI notI; elim conjE)
  fix out assume out: "out \<in> set (fst (apply_hazard_policy [form_group] StrictPolicy))"
    and mem: "form_runtime ''a'' \<in> set out" "form_runtime ''b'' \<in> set out"
  have "m_name (form_runtime ''a'') \<noteq> m_name (form_runtime ''b'')" by (simp add: form_names)
  then have "form_runtime ''a'' \<noteq> form_runtime ''b''" by metis
  from strict_policy_separates[OF form_group_distinct out mem this] show False using form_hazard by simp
qed

end
