(* ===== verification/Results.thy ===== *)
theory Results
  imports Manifest Complex_Main
begin

text \<open>
  JSON values and the result of one runtime (\<open>packages/shared/src/types/execution.ts\<close>,
  \<open>packages/plugin-handlers-utils/src/handler-result.ts\<close>). A JSON number is a rational: JSON text has
  no NaN and no infinity. An object is an association list in the order of its properties. A result
  keeps the fields that scheduling, event dispatch, setup completion and input bindings read.
\<close>

datatype json =
    JNull
  | JBool bool
  | JNum rat
  | JStr string
  | JArr "json list"
  | JObj "(string \<times> json) list"

fun json_property :: "json \<Rightarrow> string \<Rightarrow> json option" where
  "json_property (JObj ps) k = map_of ps k"
| "json_property j k = None"

text \<open>\<open>Number.isSafeInteger\<close>, and the integer.\<close>

definition safe_integer :: "json option \<Rightarrow> int option" where
  "safe_integer v = (case v of
     Some (JNum q) \<Rightarrow> (let (n, d) = quotient_of q in if d = 1 \<and> \<bar>n\<bar> \<le> 2 ^ 53 - 1 then Some n else None)
   | _ \<Rightarrow> None)"

datatype runtime_status = RsPending | RsRunning | RsSuccess | RsFailed | RsSkipped | RsSuspended

datatype completion_signal = SignalDone | SignalPending

datatype result_fault = FaultRuntime | FaultTimeout

text \<open>\<open>rr_canonical\<close> is \<open>canonicalValue\<close>: \<open>None\<close> absent, \<open>Some None\<close> an object without \<open>value\<close>.\<close>

record runtime_result =
  rr_plugin_id :: string
  rr_runtime_id :: string
  rr_run_id :: string
  rr_turn_id :: string
  rr_status :: runtime_status
  rr_output :: "(string \<times> json) list option"
  rr_events :: "json list option"
  rr_completion :: "completion_signal option"
  rr_canonical :: "json option option"
  rr_error :: "string option"
  rr_fault :: "result_fault option"
  rr_timestamp :: string

definition output_flag :: "runtime_result \<Rightarrow> string \<Rightarrow> bool" where
  "output_flag r k = (Option.bind (rr_output r) (\<lambda>ps. map_of ps k) = Some (JBool True))"

text \<open>A truthy optional string: present and not empty.\<close>

definition truthy :: "string option \<Rightarrow> string option" where
  "truthy s = (if s = Some [] then None else s)"

lemma truthy_simps [simp]: "truthy None = None" "truthy (Some []) = None" "truthy (Some (c # cs)) = Some (c # cs)"
  by (simp_all add: truthy_def)

lemma truthy_idem [simp]: "truthy (truthy s) = truthy s"
  by (simp add: truthy_def)

end
