(* ===== verification/SetupState.thy ===== *)
theory SetupState
  imports Results
begin

text \<open>
  The setup-runtime state machine (\<open>packages/shared/src/scheduling/setup-state.ts\<close>,
  \<open>packages/shared/src/scheduling/session-clock.ts\<close>,
  \<open>packages/shared/src/types/runtime-lifecycle.ts\<close>): pending, done or blocked mirrors, the retry
  budget, versions and generations, and the player's retry and waive controls. The theory shows that
  the controls are idempotent and touch blocked runtimes only, and that along every sequence of
  transitions of one runtime the generation never goes down.
\<close>

subsection \<open>Types\<close>

datatype resolution = Completed | Waived

datatype setup_state =
    StPending (st_version: string) (st_generation: int) (st_attempts: int) (st_last_error: "string option")
  | StDone (st_resolution: resolution) (st_generation: int) (st_attempts: int) (st_completed_at: string)
      (st_version: string) (st_warning: "string option")
  | StBlocked (st_version: string) (st_generation: int) (st_attempts: int) (st_reason: string)
      (st_blocked_at: string) (st_last_error: "string option")

datatype attempt_state = AtStarted | AtSuccess | AtFailed | AtSkipped | AtSuspended

record setup_attempt =
  sa_session :: string
  sa_runtime :: string
  sa_version :: string
  sa_generation :: int
  sa_execution :: string
  sa_state :: attempt_state
  sa_started_at :: string
  sa_finished_at :: "string option"
  sa_error :: "string option"

text \<open>\<open>ledgerState\<close> ranges over the states other than \<open>started\<close>.\<close>

record ran_setup =
  rn_runtime :: string
  rn_version :: string
  rn_generation :: int
  rn_execution :: string
  rn_started_at :: string
  rn_done_signal :: bool
  rn_ledger_state :: attempt_state
  rn_budget :: "int option"
  rn_error :: "string option"

type_synonym setup_mirror = "(string, setup_state) jmap"

datatype phase = SetupPhase | PlayingPhase

record session_clock =
  sc_phase :: phase
  sc_completed_turns :: int
  sc_setup :: setup_mirror

subsection \<open>Derivations\<close>

definition is_setup_runtime :: "manifest \<Rightarrow> bool" where
  "is_setup_runtime m = (sp_stage (get_runtime_spec m) = Some Setup)"

definition is_main_loop_runtime :: "manifest \<Rightarrow> bool" where
  "is_main_loop_runtime m =
     (let stage = sp_stage (get_runtime_spec m) in stage \<noteq> None \<and> stage \<noteq> Some Setup)"

definition setup_retry_budget :: "manifest \<Rightarrow> int option" where
  "setup_retry_budget m = tr_max_trigger_count (sp_trigger (get_runtime_spec m))"

definition is_budgeted_attempt :: "attempt_state \<Rightarrow> bool" where
  "is_budgeted_attempt s = (s = AtSuccess \<or> s = AtFailed \<or> s = AtSkipped)"

text \<open>\<open>budget_reason\<close> is the text of the blocked state; \<open>show\<close> prints a number.\<close>

definition budget_reason :: "(int \<Rightarrow> string) \<Rightarrow> int \<Rightarrow> int \<Rightarrow> string" where
  "budget_reason show attempts budget =
     ''setup exhausted its retry budget ('' @ show attempts @ ''/'' @ show budget @ '' attempts, never completed)''"

definition resolve_pending_or_blocked ::
    "(int \<Rightarrow> string) \<Rightarrow> int \<Rightarrow> int option \<Rightarrow> string \<Rightarrow> int \<Rightarrow> string \<Rightarrow> string option \<Rightarrow> setup_state" where
  "resolve_pending_or_blocked show attempts budget version generation now last_error =
     (case budget of
        Some b \<Rightarrow> if attempts \<ge> b
                  then StBlocked version generation attempts (budget_reason show attempts b) now (truthy last_error)
                  else StPending version generation attempts (truthy last_error)
      | None \<Rightarrow> StPending version generation attempts (truthy last_error))"

definition is_setup_satisfied :: "setup_state option \<Rightarrow> bool" where
  "is_setup_satisfied s = (case s of Some (StDone r g a c v w) \<Rightarrow> True | _ \<Rightarrow> False)"

definition version_or_default :: "string option \<Rightarrow> string" where
  "version_or_default v = or_else v ''0.0.0''"

definition is_setup_done_for_version :: "setup_state option \<Rightarrow> string option \<Rightarrow> bool" where
  "is_setup_done_for_version s manifest_version =
     (case s of Some (StDone r g a c v w) \<Rightarrow> v = version_or_default manifest_version | _ \<Rightarrow> False)"

definition resolve_setup_generation :: "string option \<Rightarrow> setup_state option \<Rightarrow> int" where
  "resolve_setup_generation manifest_version prior = (case prior of
       None \<Rightarrow> 1
     | Some p \<Rightarrow> if st_version p = version_or_default manifest_version then st_generation p
                 else st_generation p + 1)"

subsection \<open>Player controls\<close>

datatype control_result =
    Accepted setup_state bool
  | Rejected string

definition state_name :: "setup_state option \<Rightarrow> string" where
  "state_name s = (case s of None \<Rightarrow> ''unknown'' | Some (StPending v g a e) \<Rightarrow> ''pending''
     | Some (StDone r g a c v w) \<Rightarrow> ''done'' | Some (StBlocked v g a r b e) \<Rightarrow> ''blocked'')"

definition retry_setup :: "setup_state option \<Rightarrow> control_result" where
  "retry_setup current = (case current of
       Some (StPending v g a e) \<Rightarrow> Accepted (StPending v g a e) True
     | Some (StBlocked v g a r b e) \<Rightarrow> Accepted (StPending v (g + 1) 0 None) False
     | _ \<Rightarrow> Rejected (''setup runtime is not blocked (state: '' @ state_name current
              @ ''); only a blocked setup runtime can be retried''))"

definition waive_setup :: "setup_state option \<Rightarrow> string \<Rightarrow> string \<Rightarrow> control_result" where
  "waive_setup current now warning = (case current of
       Some (StDone Waived g a c v w) \<Rightarrow> Accepted (StDone Waived g a c v w) True
     | Some (StBlocked v g a r b e) \<Rightarrow> Accepted (StDone Waived g a now v (Some warning)) False
     | _ \<Rightarrow> Rejected (''setup runtime is not blocked (state: '' @ state_name current
              @ ''); only a blocked setup runtime can be waived''))"

definition mirror_setup_done :: "string \<Rightarrow> string \<Rightarrow> int \<Rightarrow> int \<Rightarrow> setup_state" where
  "mirror_setup_done version completed_at generation attempts =
     StDone Completed generation attempts completed_at version None"

subsection \<open>Facts\<close>

lemma resolve_cases:
  "resolve_pending_or_blocked show attempts budget version generation now err =
     (if \<exists>b. budget = Some b \<and> b \<le> attempts
      then StBlocked version generation attempts (budget_reason show attempts (the budget)) now (truthy err)
      else StPending version generation attempts (truthy err))"
  by (auto simp: resolve_pending_or_blocked_def split: option.split)

lemma retry_setup_iff:
  "retry_setup s = Accepted s' noop \<longleftrightarrow>
     (\<exists>v g a e. s = Some (StPending v g a e) \<and> s' = StPending v g a e \<and> noop)
     \<or> (\<exists>v g a r b e. s = Some (StBlocked v g a r b e) \<and> s' = StPending v (g + 1) 0 None \<and> \<not> noop)"
  by (auto simp: retry_setup_def split: option.split setup_state.split)

lemma waive_setup_iff:
  "waive_setup s now warning = Accepted s' noop \<longleftrightarrow>
     (\<exists>g a c v w. s = Some (StDone Waived g a c v w) \<and> s' = StDone Waived g a c v w \<and> noop)
     \<or> (\<exists>v g a r b e. s = Some (StBlocked v g a r b e) \<and> s' = StDone Waived g a now v (Some warning) \<and> \<not> noop)"
  by (auto simp: waive_setup_def split: option.split setup_state.split resolution.split)

lemma resolve_generation_le:
  "st_generation p \<le> resolve_setup_generation v (Some p)"
  by (simp add: resolve_setup_generation_def)

lemma done_version_generation:
  "is_setup_done_for_version (Some s) v \<Longrightarrow> resolve_setup_generation v (Some s) = st_generation s"
  by (cases s) (auto simp: is_setup_done_for_version_def resolve_setup_generation_def)

subsection \<open>The life of one setup runtime\<close>

text \<open>
  The writes to one runtime's mirror: a run of the current manifest version that completes or not
  (its generation by \<open>resolveSetupGeneration\<close>), the player's controls, and the executor's block of a
  session-needs cycle (\<open>blockSessionCycles\<close> in
  \<open>packages/runtime/src/turn-executor/setup-completion-tracker.ts\<close>).
\<close>

definition cycle_block :: "string option \<Rightarrow> setup_state option \<Rightarrow> string \<Rightarrow> string \<Rightarrow> setup_state" where
  "cycle_block version prev reason blocked_at =
     StBlocked (version_or_default version)
       (case prev of Some p \<Rightarrow> st_generation p | None \<Rightarrow> 1) (case prev of Some p \<Rightarrow> st_attempts p | None \<Rightarrow> 0)
       reason blocked_at None"

inductive setup_step :: "setup_state option \<Rightarrow> setup_state \<Rightarrow> bool" where
  step_done: "setup_step s (mirror_setup_done (version_or_default v) now (resolve_setup_generation v s) attempts)"
| step_unfinished: "setup_step s (resolve_pending_or_blocked show attempts budget (version_or_default v)
     (resolve_setup_generation v s) now err)"
| step_retry: "retry_setup s = Accepted s' noop \<Longrightarrow> setup_step s s'"
| step_waive: "waive_setup s now warning = Accepted s' noop \<Longrightarrow> setup_step s s'"
| step_cycle: "setup_step s (cycle_block v s reason now)"

inductive setup_path :: "setup_state option \<Rightarrow> setup_state option \<Rightarrow> bool" where
  path_refl: "setup_path s s"
| path_step: "setup_path s t \<Longrightarrow> setup_step t u \<Longrightarrow> setup_path s (Some u)"

inductive_cases setup_step_cases: "setup_step s t"

lemma setup_step_generation: "setup_step (Some s) t \<Longrightarrow> st_generation s \<le> st_generation t"
  by (erule setup_step_cases)
    (auto simp: mirror_setup_done_def resolve_cases resolve_generation_le retry_setup_iff waive_setup_iff cycle_block_def)

text \<open>A step that stays in one generation keeps the version, unless it is a cycle block.\<close>

lemma setup_step_same_generation:
  "setup_step (Some s) t \<Longrightarrow> st_generation t = st_generation s \<Longrightarrow>
     st_version t = st_version s \<or> (\<exists>v reason now. t = cycle_block v (Some s) reason now)"
  by (erule setup_step_cases)
    (auto simp: mirror_setup_done_def resolve_cases resolve_setup_generation_def retry_setup_iff waive_setup_iff
      split: if_splits)

lemma setup_path_generation:
  "setup_path s t \<Longrightarrow> s = Some a \<Longrightarrow> \<exists>b. t = Some b \<and> st_generation a \<le> st_generation b"
proof (induction rule: setup_path.induct)
  case (path_step s t u)
  then show ?case using setup_step_generation[of _ u] by (auto intro: order_trans)
qed simp

subsection \<open>Properties\<close>

text \<open>Along every sequence of runs, retries, waives and cycle blocks of one setup runtime the
  generation never goes down.\<close>

lemma setup_generation_monotone:
  assumes "setup_path (Some a) (Some b)"
  shows "st_generation a \<le> st_generation b"
  using setup_path_generation[OF assms] by simp

text \<open>A run, a retry or a waive that stays in the generation keeps the plugin version; only a cycle
  block can pair a new version with the old generation and its spent attempts.\<close>

lemma version_change_needs_generation:
  assumes "setup_step (Some s) t" "st_generation t = st_generation s" "st_version t \<noteq> st_version s"
  shows "\<exists>v reason now. t = cycle_block v (Some s) reason now \<and> st_attempts t = st_attempts s"
  using setup_step_same_generation[OF assms(1,2)] assms(3) by (auto simp: cycle_block_def)

text \<open>Retry and waive are idempotent: repeating an accepted call is accepted, changes nothing
  and says so. They are accepted from blocked, or as such a repetition.\<close>

lemma setup_controls_idempotent:
  "(retry_setup s = Accepted s' noop \<longrightarrow> retry_setup (Some s') = Accepted s' True)
   \<and> (waive_setup s now warning = Accepted s' noop \<longrightarrow> waive_setup (Some s') now' warning' = Accepted s' True)"
  by (auto simp: retry_setup_iff waive_setup_iff)

end
