(* ===== verification/SetupRun.thy ===== *)
theory SetupRun
  imports SetupState
begin

text \<open>
  Setup runtimes inside one execution: classification of their results, the ledger entries of the
  runs, the per-plugin session gate, session-needs cycles
  (\<open>packages/runtime/src/turn-executor/setup-run.ts\<close>), completion
  (\<open>packages/runtime/src/turn-executor/pre-game-completion.ts\<close>) and the tracker that owns this state
  (\<open>packages/runtime/src/turn-executor/setup-completion-tracker.ts\<close>). The theory shows that exactly
  the runtimes no order of completion can release are blocked as a cycle, and that the completion
  passes are idempotent and keep the mirror, the live set and the delta together.
\<close>

type_synonym result_map = "(string, runtime_result) jmap"

subsection \<open>Results of setup runtimes\<close>

record setup_class =
  cl_ran :: bool
  cl_done_signal :: bool
  cl_ledger_state :: attempt_state
  cl_error :: "string option"

definition classify_setup_result :: "runtime_result \<Rightarrow> setup_class" where
  "classify_setup_result r =
     (if rr_status r = RsSkipped \<and> output_flag r ''skipped''
      then \<lparr> cl_ran = False, cl_done_signal = False, cl_ledger_state = AtSkipped, cl_error = None \<rparr>
      else if rr_status r = RsSkipped \<and> output_flag r ''skip''
      then \<lparr> cl_ran = True, cl_done_signal = True, cl_ledger_state = AtSkipped, cl_error = None \<rparr>
      else if rr_status r = RsFailed
      then \<lparr> cl_ran = True, cl_done_signal = False, cl_ledger_state = AtFailed, cl_error = truthy (rr_error r) \<rparr>
      else if rr_status r = RsSuspended
      then \<lparr> cl_ran = True, cl_done_signal = False, cl_ledger_state = AtSuspended, cl_error = None \<rparr>
      else \<lparr> cl_ran = True, cl_done_signal = (rr_completion r = Some SignalDone),
             cl_ledger_state = AtSuccess, cl_error = None \<rparr>)"

definition collect_setup_ran :: "manifest list \<Rightarrow> result_map \<Rightarrow> setup_mirror \<Rightarrow> string \<Rightarrow> ran_setup list" where
  "collect_setup_ran active results mirror execution_id =
     (let by_name = foldl (\<lambda>m rt. jm_set (m_name rt) rt m) [] active in
      concat (map (\<lambda>(name, result). case jm_get by_name name of
          None \<Rightarrow> []
        | Some m \<Rightarrow>
            if \<not> is_setup_runtime m then []
            else let cls = classify_setup_result result in
              if \<not> cl_ran cls then []
              else [\<lparr> rn_runtime = name, rn_version = version_or_default (m_version m),
                      rn_generation = resolve_setup_generation (m_version m) (jm_get mirror name),
                      rn_execution = execution_id, rn_started_at = rr_timestamp result,
                      rn_done_signal = cl_done_signal cls, rn_ledger_state = cl_ledger_state cls,
                      rn_budget = setup_retry_budget m, rn_error = truthy (cl_error cls) \<rparr>]) results))"

definition initial_done_setup :: "manifest list \<Rightarrow> setup_mirror \<Rightarrow> string list" where
  "initial_done_setup active mirror =
     foldl (\<lambda>done_set rt. if jm_has mirror (m_name rt)
                \<and> is_setup_done_for_version (jm_get mirror (m_name rt)) (m_version rt)
              then js_add (m_name rt) done_set else done_set) [] active"

definition plugin_setup_ready :: "manifest list \<Rightarrow> string list \<Rightarrow> string \<Rightarrow> bool" where
  "plugin_setup_ready active live_done plugin =
     (let by_plugin = foldl (\<lambda>m rt. jm_set (m_plugin_id rt)
             (or_else (jm_get m (m_plugin_id rt)) [] @ [m_name rt]) m) [] active
      in list_all (\<lambda>name. name \<in> set live_done) (or_else (jm_get by_plugin plugin) []))"

subsection \<open>Session-needs cycles\<close>

definition setup_is_pending :: "setup_mirror \<Rightarrow> manifest \<Rightarrow> bool" where
  "setup_is_pending mirror rt =
     (let s = jm_get mirror (m_name rt) in
      (case s of Some (StBlocked v g a r b e) \<Rightarrow> False | _ \<Rightarrow> True)
      \<and> \<not> is_setup_done_for_version s (m_version rt))"

fun session_wait_groups :: "manifest list \<Rightarrow> setup_mirror \<Rightarrow> dependency_ref \<Rightarrow> string list list" where
  "session_wait_groups active mirror (DepName n) = []"
| "session_wait_groups active mirror (DepRuntime r scope) =
     (if scope \<noteq> Some SessionScope then []
      else if r \<in> set (map m_name (filter (setup_is_pending mirror) active)) then [[r]] else [])"
| "session_wait_groups active mirror (DepCapability cap cardi scope) =
     (if scope \<noteq> Some SessionScope then []
      else let providers = filter (\<lambda>p. m_output_contract p = Some cap) active;
               pending_providers = map m_name (filter (setup_is_pending mirror) providers)
           in if or_else cardi One = All then map (\<lambda>n. [n]) pending_providers
              else if length pending_providers > 0 \<and> length pending_providers = length providers
              then [pending_providers] else [])"

definition session_waits :: "manifest list \<Rightarrow> setup_mirror \<Rightarrow> (string, string list list) jmap" where
  "session_waits active mirror =
     foldl (\<lambda>w rt. jm_set (m_name rt)
         (concat (map (session_wait_groups active mirror) (sp_needs (get_runtime_spec rt)))) w)
       [] (filter (setup_is_pending mirror) active)"

definition releasable_now :: "(string, string list list) jmap \<Rightarrow> string list \<Rightarrow> manifest \<Rightarrow> bool" where
  "releasable_now waits released rt \<longleftrightarrow>
     m_name rt \<notin> set released
     \<and> list_all (list_ex (\<lambda>name. name \<in> set released)) (or_else (jm_get waits (m_name rt)) [])"

function release_loop :: "(string, string list list) jmap \<Rightarrow> manifest list \<Rightarrow> string list \<Rightarrow> string list" where
  "release_loop waits pending released =
     (let ready = filter (releasable_now waits released) pending
      in if length ready = 0 then released
         else release_loop waits pending (js_add_all (map m_name ready) released))"
  by auto

termination
proof (relation "measure (\<lambda>(waits, pending, released). length (filter (\<lambda>rt. m_name rt \<notin> set released) pending))")
  fix waits :: "(string, string list list) jmap" and pending released and ready
  assume ready: "ready = filter (releasable_now waits released) pending" and ne: "\<not> length ready = 0"
  obtain rt where rt: "rt \<in> set ready" using ne by (cases ready) auto
  have "length (filter (\<lambda>x. m_name x \<notin> set (map m_name ready)) (filter (\<lambda>x. m_name x \<notin> set released) pending))
      < length (filter (\<lambda>x. m_name x \<notin> set released) pending)"
    using rt ready by (intro length_filter_less[of rt]) (auto simp: releasable_now_def)
  then show "((waits, pending, js_add_all (map m_name ready) released), waits, pending, released)
      \<in> measure (\<lambda>(waits, pending, released). length (filter (\<lambda>rt. m_name rt \<notin> set released) pending))"
    by (simp add: conj_commute)
qed simp

declare release_loop.simps [simp del]

definition detect_setup_session_cycles :: "manifest list \<Rightarrow> setup_mirror \<Rightarrow> (string, string list) jmap" where
  "detect_setup_session_cycles active mirror =
     (let pending = filter (setup_is_pending mirror) active;
          released = release_loop (session_waits active mirror) pending [];
          stuck = filter (\<lambda>n. n \<notin> set released) (map m_name pending)
      in foldl (\<lambda>c name. jm_set name stuck c) [] stuck)"

subsection \<open>Pre-game completion\<close>

definition setup_result_is_done :: "runtime_result \<Rightarrow> bool" where
  "setup_result_is_done r =
     ((rr_status r = RsSuccess \<and> rr_completion r = Some SignalDone)
      \<or> (rr_status r = RsSkipped \<and> output_flag r ''skip''))"

definition next_attempts :: "setup_state option \<Rightarrow> int \<Rightarrow> int" where
  "next_attempts previous generation =
     (case previous of Some p \<Rightarrow> if st_generation p = generation then st_attempts p + 1 else 1 | None \<Rightarrow> 1)"

definition newly_done_entry :: "string \<Rightarrow> result_map \<Rightarrow> setup_mirror \<Rightarrow> setup_mirror \<Rightarrow> manifest \<Rightarrow> setup_mirror" where
  "newly_done_entry now results mirror newly rt =
     (let previous = jm_get mirror (m_name rt) in
      if is_setup_done_for_version previous (m_version rt) then newly
      else case jm_get results (m_name rt) of
        Some result \<Rightarrow>
          if setup_result_is_done result
          then let generation = resolve_setup_generation (m_version rt) previous
               in jm_set (m_name rt) (mirror_setup_done (version_or_default (m_version rt)) now generation
                    (next_attempts previous generation)) newly
          else newly
      | None \<Rightarrow> newly)"

definition mark_pre_game_completion ::
    "string \<Rightarrow> result_map \<Rightarrow> bool \<Rightarrow> bool \<Rightarrow> manifest list \<Rightarrow> setup_mirror \<Rightarrow> bool \<times> setup_mirror" where
  "mark_pre_game_completion now results pre_game_pending manual_trigger pre_game mirror =
     (if \<not> pre_game_pending \<or> manual_trigger then (\<not> pre_game_pending, [])
      else let newly_done = foldl (newly_done_entry now results mirror) [] pre_game;
               updated = jm_merge mirror newly_done
           in (list_all (\<lambda>rt. is_setup_done_for_version (jm_get updated (m_name rt)) (m_version rt)) pre_game,
               newly_done))"

subsection \<open>The tracker\<close>

record tracker_args =
  ta_active :: "manifest list"
  ta_setup :: setup_mirror
  ta_pre_game :: "manifest list"
  ta_pending :: bool
  ta_manual :: bool

record tracker =
  tk_args :: tracker_args
  tk_mirror :: setup_mirror
  tk_live_done :: "string list"
  tk_newly_done :: setup_mirror
  tk_all_done :: bool
  tk_observed :: bool

definition new_tracker :: "tracker_args \<Rightarrow> tracker" where
  "new_tracker args = \<lparr> tk_args = args, tk_mirror = ta_setup args,
     tk_live_done = initial_done_setup (ta_active args) (ta_setup args),
     tk_newly_done = [], tk_all_done = False, tk_observed = False \<rparr>"

definition tracker_plugin_ready :: "tracker \<Rightarrow> string \<Rightarrow> bool" where
  "tracker_plugin_ready t plugin = plugin_setup_ready (ta_active (tk_args t)) (tk_live_done t) plugin"

text \<open>The separator of the reason is an arrow in the source, here the characters of \<open>->\<close>.\<close>

definition block_session_cycles :: "(string, string list) jmap \<Rightarrow> string \<Rightarrow> tracker \<Rightarrow> setup_mirror \<times> tracker" where
  "block_session_cycles cycles blocked_at t =
     (let blocked = foldl (\<lambda>b (name, path).
            jm_set name (cycle_block (Option.bind (find (\<lambda>r. m_name r = name) (ta_active (tk_args t))) m_version)
              (jm_get (tk_mirror t) name) (''setup-session-cycle: '' @ joined '' -> '' path) blocked_at) b) [] cycles
      in (blocked, t\<lparr> tk_mirror := jm_merge (tk_mirror t) blocked \<rparr>))"

definition is_setup_runtime_done :: "tracker \<Rightarrow> string \<Rightarrow> bool" where
  "is_setup_runtime_done t runtime_id \<longleftrightarrow> runtime_id \<in> set (tk_live_done t)"

definition sync_one :: "result_map \<Rightarrow> string list \<Rightarrow> manifest \<Rightarrow> string list" where
  "sync_one results live rt =
     (if m_name rt \<in> set live then live
      else case jm_get results (m_name rt) of
        Some result \<Rightarrow> if cl_done_signal (classify_setup_result result) then js_add (m_name rt) live else live
      | None \<Rightarrow> live)"

definition sync_live_done :: "result_map \<Rightarrow> tracker \<Rightarrow> tracker" where
  "sync_live_done results t =
     t\<lparr> tk_live_done := foldl (sync_one results) (tk_live_done t) (ta_active (tk_args t)) \<rparr>"

definition record_pre_game_completion :: "string \<Rightarrow> result_map \<Rightarrow> tracker \<Rightarrow> bool \<times> tracker" where
  "record_pre_game_completion now results t =
     (let args = tk_args t;
          (all_done, newly) = mark_pre_game_completion now results (ta_pending args) (ta_manual args)
                                (ta_pre_game args) (tk_mirror t);
          t = (if ta_pending args \<and> \<not> ta_manual args
               then t\<lparr> tk_observed := True, tk_newly_done := jm_merge (tk_newly_done t) newly,
                       tk_mirror := jm_merge (tk_mirror t) newly, tk_all_done := all_done \<rparr>
               else t)
      in (all_done, sync_live_done results t))"

definition fold_one_setup_ran :: "tracker \<Rightarrow> ran_setup \<Rightarrow> tracker" where
  "fold_one_setup_ran t r =
     (if rn_done_signal r \<and> \<not> jm_has (tk_newly_done t) (rn_runtime r)
      then t\<lparr> tk_newly_done := jm_set (rn_runtime r)
                (mirror_setup_done (rn_version r) (rn_started_at r) (rn_generation r)
                  (next_attempts (jm_get (tk_mirror t) (rn_runtime r)) (rn_generation r))) (tk_newly_done t) \<rparr>
      else t)"

definition fold_setup_ran :: "ran_setup list \<Rightarrow> tracker \<Rightarrow> tracker" where
  "fold_setup_ran runs t =
     (let t = foldl fold_one_setup_ran t runs
      in if length runs > 0 then t\<lparr> tk_observed := True \<rparr> else t)"

text \<open>The payload: the delta and whether every setup is done, when any was observed.\<close>

definition setup_completion :: "tracker \<Rightarrow> (setup_mirror \<times> bool) option" where
  "setup_completion t = (if \<not> tk_observed t then None else Some (tk_newly_done t, tk_all_done t))"

subsection \<open>Exactness of the cycle detection\<close>

text \<open>The runtimes that can complete in some order: each group it waits for has a releasable member.\<close>

inductive setup_releasable :: "manifest list \<Rightarrow> setup_mirror \<Rightarrow> string \<Rightarrow> bool" for active mirror where
  "rt \<in> set active \<Longrightarrow> setup_is_pending mirror rt \<Longrightarrow>
     (\<And>need g. need \<in> set (or_else (m_needs rt) []) \<Longrightarrow> g \<in> set (session_wait_groups active mirror need) \<Longrightarrow>
        \<exists>n\<in>set g. setup_releasable active mirror n) \<Longrightarrow>
     setup_releasable active mirror (m_name rt)"

lemma session_waits_get:
  assumes "distinct (map m_name active)" "rt \<in> set active" "setup_is_pending mirror rt"
  shows "jm_get (session_waits active mirror) (m_name rt) =
    Some (concat (map (session_wait_groups active mirror) (or_else (m_needs rt) [])))"
proof -
  have dist: "distinct (map m_name (filter (setup_is_pending mirror) active))"
    using assms(1) by (rule distinct_map_filter)
  have eq: "session_waits active mirror =
      map (\<lambda>rt. (m_name rt, concat (map (session_wait_groups active mirror) (sp_needs (get_runtime_spec rt)))))
        (filter (setup_is_pending mirror) active)"
    unfolding session_waits_def by (rule foldl_map_of_keys[OF dist])
  show ?thesis
    unfolding eq using map_of_map_keys[OF dist, of rt] assms(2,3) by simp
qed

lemma releasable_now_iff:
  assumes "distinct (map m_name active)" "rt \<in> set active" "setup_is_pending mirror rt"
  shows "releasable_now (session_waits active mirror) released rt \<longleftrightarrow> m_name rt \<notin> set released
    \<and> (\<forall>need\<in>set (or_else (m_needs rt) []). \<forall>g\<in>set (session_wait_groups active mirror need). \<exists>n\<in>set g. n \<in> set released)"
  by (auto simp: releasable_now_def session_waits_get[OF assms] list_all_iff list_ex_iff)

lemma release_loop_superset: "set released \<subseteq> set (release_loop waits pending released)"
proof (induction waits pending released rule: release_loop.induct)
  case (1 waits pending released)
  then show ?case by (subst release_loop.simps) (auto simp: Let_def)
qed

lemma release_loop_closed: "filter (releasable_now waits (release_loop waits pending released)) pending = []"
proof (induction waits pending released rule: release_loop.induct)
  case (1 waits pending released)
  show ?case
  proof (cases "filter (releasable_now waits released) pending = []")
    case True
    then show ?thesis by (simp add: release_loop.simps[of waits pending released])
  next
    case False
    have step: "release_loop waits pending released = release_loop waits pending
        (js_add_all (map m_name (filter (releasable_now waits released) pending)) released)"
      using False by (subst release_loop.simps) (simp add: Let_def)
    show ?thesis unfolding step by (rule 1[OF refl]) (use False in simp)
  qed
qed

lemma release_loop_sound:
  assumes dist: "distinct (map m_name active)"
  shows "waits = session_waits active mirror \<Longrightarrow> pending = filter (setup_is_pending mirror) active \<Longrightarrow>
    (\<And>n. n \<in> set released \<Longrightarrow> setup_releasable active mirror n) \<Longrightarrow>
    n \<in> set (release_loop waits pending released) \<Longrightarrow> setup_releasable active mirror n"
proof (induction waits pending released rule: release_loop.induct)
  case (1 waits pending released)
  let ?ready = "filter (releasable_now waits released) pending"
  have ready: "setup_releasable active mirror (m_name rt)" if rt: "rt \<in> set ?ready" for rt
  proof -
    have act: "rt \<in> set active" "setup_is_pending mirror rt" using rt 1(3) by auto
    have "releasable_now (session_waits active mirror) released rt" using rt 1(2) by simp
    then show ?thesis
      unfolding releasable_now_iff[OF dist act]
      by (intro setup_releasable.intros[OF act]) (use 1(4) in blast)
  qed
  show ?case
  proof (cases "?ready = []")
    case True
    then show ?thesis using 1(4,5) by (simp add: release_loop.simps[of waits pending released])
  next
    case False
    have all: "\<And>n. n \<in> set (js_add_all (map m_name ?ready) released) \<Longrightarrow> setup_releasable active mirror n"
      using ready 1(4) by auto
    have mem: "n \<in> set (release_loop waits pending (js_add_all (map m_name ?ready) released))"
      using 1(5) False by (simp add: release_loop.simps[of waits pending released] Let_def)
    show ?thesis by (rule 1(1)[OF refl _ 1(2,3) all mem]) (use False in simp)
  qed
qed

lemma release_loop_complete:
  assumes dist: "distinct (map m_name active)" and "setup_releasable active mirror n"
  shows "n \<in> set (release_loop (session_waits active mirror) (filter (setup_is_pending mirror) active) released)"
  using assms(2)
proof induction
  case (1 rt)
  let ?res = "release_loop (session_waits active mirror) (filter (setup_is_pending mirror) active) released"
  have "\<not> releasable_now (session_waits active mirror) ?res rt"
    using release_loop_closed[of "session_waits active mirror" "filter (setup_is_pending mirror) active" released] 1(1,2)
    by (auto simp: filter_empty_conv)
  then show ?case unfolding releasable_now_iff[OF dist 1(1,2)] using 1(3) by blast
qed

lemma detect_cycles_get:
  "jm_keys (detect_setup_session_cycles active mirror) =
     js_add_all (filter (\<lambda>n. n \<notin> set (release_loop (session_waits active mirror)
         (filter (setup_is_pending mirror) active) [])) (map m_name (filter (setup_is_pending mirror) active))) []"
proof -
  have "jm_keys (foldl (\<lambda>c name. jm_set name v c) m ns) = js_add_all ns (jm_keys m)" for v ns and m :: "(string, string list) jmap"
    by (induction ns arbitrary: m) (simp_all add: jm_keys_js_add)
  then show ?thesis by (simp add: detect_setup_session_cycles_def Let_def)
qed

lemma detect_cycles_iff:
  assumes "distinct (map m_name active)" "rt \<in> set active"
  shows "jm_has (detect_setup_session_cycles active mirror) (m_name rt) \<longleftrightarrow>
    setup_is_pending mirror rt \<and> \<not> setup_releasable active mirror (m_name rt)"
proof -
  let ?res = "release_loop (session_waits active mirror) (filter (setup_is_pending mirror) active) []"
  have "m_name rt \<in> set ?res \<longleftrightarrow> setup_releasable active mirror (m_name rt)"
    using release_loop_complete[OF assms(1), of mirror "m_name rt" "[]"]
      release_loop_sound[OF assms(1) refl refl, of "[]" mirror "m_name rt"] by auto
  moreover have "jm_has (detect_setup_session_cycles active mirror) (m_name rt) \<longleftrightarrow>
      m_name rt \<notin> set ?res \<and> (\<exists>r\<in>set active. setup_is_pending mirror r \<and> m_name r = m_name rt)"
    unfolding jm_has_iff using arg_cong[OF detect_cycles_get[of active mirror], of set] by (auto simp: image_iff)
  ultimately show ?thesis
    using assms distinct_map_inj_on[OF assms(1)] by metis
qed

text \<open>C4: the setup runtimes blocked as a session-needs cycle are exactly the pending ones that no
  order of completion can release.\<close>

theorem session_cycles_exact:
  assumes "distinct (map m_name active)" "rt \<in> set active"
  shows "jm_has (detect_setup_session_cycles active mirror) (m_name rt) \<longleftrightarrow>
    setup_is_pending mirror rt \<and> \<not> setup_releasable active mirror (m_name rt)"
  by (rule detect_cycles_iff[OF assms])

subsection \<open>The gate and the completion passes\<close>

lemma plugin_setup_ready_iff:
  "plugin_setup_ready active live plugin \<longleftrightarrow>
     (\<forall>rt\<in>set active. m_plugin_id rt = plugin \<longrightarrow> m_name rt \<in> set live)"
proof -
  have "or_else (jm_get (foldl (\<lambda>m rt. jm_set (m_plugin_id rt)
          (or_else (jm_get m (m_plugin_id rt)) [] @ [m_name rt]) m) m0 active) plugin) []
      = or_else (jm_get m0 plugin) [] @ map m_name (filter (\<lambda>rt. m_plugin_id rt = plugin) active)" for m0
    by (induction active arbitrary: m0) auto
  from this[of "[]"] show ?thesis by (auto simp: plugin_setup_ready_def list_all_iff)
qed

lemma sync_live_done_fields [simp]:
  "tk_args (sync_live_done results t) = tk_args t" "tk_mirror (sync_live_done results t) = tk_mirror t"
  "tk_newly_done (sync_live_done results t) = tk_newly_done t"
  by (simp_all add: sync_live_done_def)

definition reports_done :: "result_map \<Rightarrow> string \<Rightarrow> bool" where
  "reports_done results n = (\<exists>r. jm_get results n = Some r \<and> cl_done_signal (classify_setup_result r))"

lemma set_sync_one: "set (sync_one results live rt) = set live \<union> (if reports_done results (m_name rt) then {m_name rt} else {})"
  by (auto simp: sync_one_def reports_done_def split: option.split)

lemma sync_live_done_set:
  "set (tk_live_done (sync_live_done results t)) = set (tk_live_done t) \<union>
     {n \<in> m_name ` set (ta_active (tk_args t)). reports_done results n}"
proof -
  have "set (foldl (sync_one results) live rts) = set live \<union> {n \<in> m_name ` set rts. reports_done results n}" for live rts
    by (induction rts arbitrary: live) (auto simp: set_sync_one)
  then show ?thesis by (simp add: sync_live_done_def)
qed

lemma sync_live_done_idem: "sync_live_done results (sync_live_done results t) = sync_live_done results t"
proof -
  have keep: "foldl (sync_one results) live rts = live"
    if "\<And>rt. rt \<in> set rts \<Longrightarrow> reports_done results (m_name rt) \<Longrightarrow> m_name rt \<in> set live" for live rts
    using that by (induction rts) (auto simp: sync_one_def reports_done_def split: option.split)
  have "foldl (sync_one results) (tk_live_done (sync_live_done results t)) (ta_active (tk_args t))
      = tk_live_done (sync_live_done results t)"
    by (rule keep) (auto simp: sync_live_done_set)
  then show ?thesis by (simp add: sync_live_done_def)
qed

lemma newly_done_fold_get:
  assumes "distinct (map m_name rts)"
  shows "jm_get (foldl (newly_done_entry now results mirror) newly rts) n =
    (case find (\<lambda>rt. m_name rt = n) rts of
       None \<Rightarrow> jm_get newly n
     | Some rt \<Rightarrow> jm_get (newly_done_entry now results mirror newly rt) n)"
  using assms
proof (induction rts arbitrary: newly)
  case (Cons rt rts)
  have other: "jm_get (newly_done_entry now results mirror m r) n = jm_get m n" if "m_name r \<noteq> n" for r m
    using that by (auto simp: newly_done_entry_def Let_def split: option.split)
  have local: "jm_get (newly_done_entry now results mirror m r) n = jm_get (newly_done_entry now results mirror m' r) n"
    if "jm_get m n = jm_get m' n" for r m m'
    using that by (auto simp: newly_done_entry_def Let_def split: option.split)
  show ?case
  proof (cases "m_name rt = n")
    case True
    then have "find (\<lambda>r. m_name r = n) rts = None" using Cons.prems by (auto simp: find_None_iff image_iff)
    then show ?thesis using Cons True by simp
  next
    case False
    then show ?thesis
      using Cons other[OF False] by (auto split: option.split intro: local)
  qed
qed simp

lemma wf_newly_done: "jm_wf newly \<Longrightarrow> jm_wf (foldl (newly_done_entry now results mirror) newly rts)"
  by (rule foldl_invariant) (auto simp: newly_done_entry_def Let_def split: option.split)

lemma mark_done_or_no_signal:
  fixes now results mirror
  assumes "distinct (map m_name pre_game)" "rt \<in> set pre_game"
  defines "newly \<equiv> foldl (newly_done_entry now results mirror) [] pre_game"
  shows "is_setup_done_for_version (jm_get (jm_merge mirror newly) (m_name rt)) (m_version rt)
    \<or> \<not> (\<exists>r. jm_get results (m_name rt) = Some r \<and> setup_result_is_done r)"
proof -
  have wf: "jm_wf newly" unfolding newly_def by (rule wf_newly_done) simp
  have find: "find (\<lambda>r. m_name r = m_name rt) pre_game = Some rt" by (rule find_by_name[OF assms(1,2)])
  have get: "jm_get newly (m_name rt) = jm_get (newly_done_entry now results mirror [] rt) (m_name rt)"
    unfolding newly_def newly_done_fold_get[OF assms(1)] find by simp
  show ?thesis
    unfolding jm_get_merge[OF wf] get
    by (auto simp: newly_done_entry_def Let_def is_setup_done_for_version_def mirror_setup_done_def split: option.split)
qed

lemma mark_again_empty:
  assumes "\<And>rt. rt \<in> set pre_game \<Longrightarrow> is_setup_done_for_version (jm_get mirror (m_name rt)) (m_version rt)
    \<or> \<not> (\<exists>r. jm_get results (m_name rt) = Some r \<and> setup_result_is_done r)"
  shows "foldl (newly_done_entry now results mirror) [] pre_game = []"
proof -
  have "newly_done_entry now results mirror m rt = m" if "rt \<in> set pre_game" for rt m
    using assms[OF that] by (auto simp: newly_done_entry_def Let_def split: option.split)
  then show ?thesis by (induction pre_game) auto
qed

text \<open>The completion pass is idempotent: running it again on the same results, at any later time,
  changes neither the mirror, nor the delta, nor the live set, and reports the same all-done flag.\<close>

lemma record_completion_idempotent:
  assumes "distinct (map m_name (ta_pre_game (tk_args t)))"
  shows "record_pre_game_completion later results (snd (record_pre_game_completion now results t))
    = record_pre_game_completion now results t"
proof (cases "ta_pending (tk_args t) \<and> \<not> ta_manual (tk_args t)")
  case False
  then have eq: "record_pre_game_completion now' results u = (\<not> ta_pending (tk_args t), sync_live_done results u)"
    if "tk_args u = tk_args t" for now' u
    using that by (auto simp: record_pre_game_completion_def mark_pre_game_completion_def Let_def)
  show ?thesis by (simp add: eq sync_live_done_idem)
next
  case True
  let ?pre = "ta_pre_game (tk_args t)"
  define newly where "newly = foldl (newly_done_entry now results (tk_mirror t)) [] ?pre"
  define mirror where "mirror = jm_merge (tk_mirror t) newly"
  define all_done where
    "all_done = list_all (\<lambda>rt. is_setup_done_for_version (jm_get mirror (m_name rt)) (m_version rt)) ?pre"
  define u where "u = t\<lparr> tk_observed := True, tk_newly_done := jm_merge (tk_newly_done t) newly,
      tk_mirror := mirror, tk_all_done := all_done \<rparr>"
  have first: "record_pre_game_completion now results t = (all_done, sync_live_done results u)"
    using True by (simp add: record_pre_game_completion_def mark_pre_game_completion_def Let_def
        newly_def mirror_def all_done_def u_def)
  have again: "foldl (newly_done_entry later results mirror) [] ?pre = []"
    by (rule mark_again_empty) (use mark_done_or_no_signal[OF assms] in \<open>simp add: mirror_def newly_def\<close>)
  have v: "tk_args (sync_live_done results u) = tk_args t" "tk_mirror (sync_live_done results u) = mirror"
      "(sync_live_done results u)\<lparr> tk_observed := True, tk_newly_done := tk_newly_done u, tk_mirror := mirror,
         tk_all_done := all_done \<rparr> = sync_live_done results u"
    by (simp_all add: u_def sync_live_done_def)
  have "record_pre_game_completion later results (sync_live_done results u)
      = (all_done, sync_live_done results (sync_live_done results u))"
    using True again v
    by (simp add: record_pre_game_completion_def mark_pre_game_completion_def Let_def all_done_def)
  then show ?thesis by (simp add: first sync_live_done_idem)
qed

text \<open>The live gate of a plugin opens exactly when each of its active setup runtimes was done at
  the start or reported completion in this execution.\<close>

lemma plugin_gate_exact:
  "tracker_plugin_ready (sync_live_done results (new_tracker args)) plugin \<longleftrightarrow>
     (\<forall>rt\<in>set (ta_active args). m_plugin_id rt = plugin \<longrightarrow>
        m_name rt \<in> set (initial_done_setup (ta_active args) (ta_setup args)) \<or> reports_done results (m_name rt))"
proof -
  have live: "tk_live_done (new_tracker args) = initial_done_setup (ta_active args) (ta_setup args)"
    and ta: "tk_args (new_tracker args) = args" by (simp_all add: new_tracker_def)
  show ?thesis
    unfolding tracker_plugin_ready_def plugin_setup_ready_iff sync_live_done_fields sync_live_done_set live ta by auto
qed

definition cyclic_pair :: "manifest list" where
  "cyclic_pair = [(bare_manifest ''a'' ''p'')\<lparr> m_stage := Some Setup, m_needs := Some [DepRuntime ''b'' (Some SessionScope)] \<rparr>,
     (bare_manifest ''b'' ''p'')\<lparr> m_stage := Some Setup, m_needs := Some [DepRuntime ''a'' (Some SessionScope)] \<rparr>]"

lemma session_cycles_exact_witness:
  "jm_has (detect_setup_session_cycles cyclic_pair []) (m_name (cyclic_pair ! 0)) \<longleftrightarrow>
    setup_is_pending [] (cyclic_pair ! 0) \<and> \<not> setup_releasable cyclic_pair [] (m_name (cyclic_pair ! 0))"
  by (rule session_cycles_exact) (simp_all add: cyclic_pair_def bare_manifest_def)

end
