(* ===== verification/Pagination.thy ===== *)
theory Pagination
  imports JsText
begin

text \<open>
  Pages of stored rows (\<open>packages/store/src/common/pagination.ts\<close>): offset pages, keyset pages over
  \<open>(createdAt, id)\<close> and pages of a write-order log. The theory shows that a client that follows the
  cursors from the newest page back sees every row exactly once, in order.
\<close>

subsection \<open>Rows and slices\<close>

record keyed =
  k_created :: string
  k_id :: string

text \<open>The JavaScript \<open><\<close> on strings compares code units.\<close>

definition unit_cmp :: "string \<Rightarrow> string \<Rightarrow> int" where
  "unit_cmp a b = lex_cmp (units a) (units b)"

definition js_less :: "string \<Rightarrow> string \<Rightarrow> bool" where
  "js_less a b \<longleftrightarrow> unit_cmp a b < 0"

definition slice_index :: "int \<Rightarrow> nat \<Rightarrow> nat" where
  "slice_index i n = (if i < 0 then nat (int n + i) else min (nat i) n)"

definition js_slice :: "'a list \<Rightarrow> int \<Rightarrow> int \<Rightarrow> 'a list" where
  "js_slice xs start stop =
     (let s = slice_index start (length xs); e = slice_index stop (length xs) in take (e - s) (drop s xs))"

definition js_slice_from :: "'a list \<Rightarrow> int \<Rightarrow> 'a list" where
  "js_slice_from xs start = drop (slice_index start (length xs)) xs"

record pagination_opts =
  po_offset :: "int option"
  po_limit :: "int option"

definition apply_pagination :: "'a list \<Rightarrow> pagination_opts option \<Rightarrow> 'a list" where
  "apply_pagination items pagination = (case pagination of
       None \<Rightarrow> items
     | Some p \<Rightarrow>
         (let offset = or_else (po_offset p) 0 in
          case po_limit p of
            Some limit \<Rightarrow> js_slice items offset (offset + limit)
          | None \<Rightarrow> if offset > 0 then js_slice_from items offset else items))"

subsection \<open>Orders and pages\<close>

definition cursor_cmp :: "'a keyed_scheme \<Rightarrow> 'a keyed_scheme \<Rightarrow> int" where
  "cursor_cmp a b =
     (if k_created a \<noteq> k_created b then (if js_less (k_created a) (k_created b) then - 1 else 1)
      else compare_byte_order (units (k_id a)) (units (k_id b)))"

definition sort_by_cursor_asc :: "'a keyed_scheme list \<Rightarrow> 'a keyed_scheme list" where
  "sort_by_cursor_asc rows = js_sort cursor_cmp rows"

record cursor_page_opts =
  cp_limit :: int
  cp_before :: "keyed option"

definition apply_cursor_page :: "'a keyed_scheme list \<Rightarrow> cursor_page_opts \<Rightarrow> 'a keyed_scheme list" where
  "apply_cursor_page rows opts =
     (if cp_limit opts \<le> 0 then []
      else let older = (case cp_before opts of
               Some before \<Rightarrow> filter (\<lambda>r. js_less (k_created r) (k_created before)
                   \<or> (k_created r = k_created before
                      \<and> compare_byte_order (units (k_id r)) (units (k_id before)) < 0)) rows
             | None \<Rightarrow> rows)
           in js_slice_from older (- cp_limit opts))"

definition write_order_cmp :: "'a keyed_scheme \<Rightarrow> 'a keyed_scheme \<Rightarrow> int" where
  "write_order_cmp a b =
     (if k_created a = k_created b then 0 else if js_less (k_created a) (k_created b) then - 1 else 1)"

definition sort_by_write_order :: "'a keyed_scheme list \<Rightarrow> 'a keyed_scheme list" where
  "sort_by_write_order rows = js_sort write_order_cmp rows"

fun find_index :: "('a \<Rightarrow> bool) \<Rightarrow> 'a list \<Rightarrow> int" where
  "find_index P [] = - 1"
| "find_index P (x # xs) = (if P x then 0 else let i = find_index P xs in if i < 0 then - 1 else i + 1)"

definition apply_write_order_page :: "'a keyed_scheme list \<Rightarrow> cursor_page_opts \<Rightarrow> 'a keyed_scheme list" where
  "apply_write_order_page rows opts =
     (if cp_limit opts \<le> 0 then []
      else case cp_before opts of
        None \<Rightarrow> js_slice_from rows (- cp_limit opts)
      | Some before \<Rightarrow>
          (let cursor_at = find_index (\<lambda>r. k_id r = k_id before \<and> k_created r = k_created before) rows;
               older = map snd (filter (\<lambda>(index, r). js_less (k_created r) (k_created before)
                   \<or> (k_created r = k_created before \<and> cursor_at \<noteq> - 1 \<and> int index < cursor_at))
                 (enumerate 0 rows))
           in js_slice_from older (- cp_limit opts)))"

subsection \<open>The orders are comparators\<close>

lemma unit_cmp_zero: "unit_cmp a b = 0 \<longleftrightarrow> a = b"
  by (simp add: unit_cmp_def lex_cmp_laws)

definition then_cmp :: "('a \<Rightarrow> 'a \<Rightarrow> int) \<Rightarrow> ('a \<Rightarrow> 'a \<Rightarrow> int) \<Rightarrow> 'a \<Rightarrow> 'a \<Rightarrow> int" where
  "then_cmp c d a b = (if c a b \<noteq> 0 then c a b else d a b)"

lemma then_cmp_comparator:
  assumes "js_comparator c" "js_comparator d"
  shows "js_comparator (then_cmp c d)"
proof
  fix x y z
  note cs = js_comparator.cmp_swap[OF assms(1)] and ds = js_comparator.cmp_swap[OF assms(2)]
  show "sgn (then_cmp c d y x) = - sgn (then_cmp c d x y)"
    using cs[of y x] ds[of y x] by (auto simp: then_cmp_def sgn_if split: if_splits)
  show "then_cmp c d x z \<le> 0" if "then_cmp c d x y \<le> 0" "then_cmp c d y z \<le> 0"
  proof -
    have c: "c x y \<le> 0" "c y z \<le> 0" using that by (auto simp: then_cmp_def split: if_splits)
    then have xz: "c x z \<le> 0" by (rule js_comparator.cmp_trans[OF assms(1)])
    show ?thesis
    proof (cases "c x z = 0")
      case True
      have "c z x \<le> 0" using cs[of x z] True by (simp add: sgn_if split: if_splits)
      then have "c z y \<le> 0" "c y x \<le> 0"
        using c js_comparator.cmp_trans[OF assms(1)] by blast+
      then have "c x y = 0" "c y z = 0" using c cs[of x y] cs[of y z] by (simp_all add: sgn_if split: if_splits)
      then have "d x y \<le> 0" "d y z \<le> 0" using that by (simp_all add: then_cmp_def)
      then show ?thesis using True js_comparator.cmp_trans[OF assms(2)] by (auto simp: then_cmp_def)
    qed (use xz in \<open>simp add: then_cmp_def\<close>)
  qed
qed

lemma write_order_cmp_eq: "write_order_cmp a b = unit_cmp (k_created a) (k_created b)"
  by (auto simp: write_order_cmp_def js_less_def unit_cmp_def lex_cmp_alt)

lemma cursor_cmp_eq:
  "cursor_cmp = then_cmp write_order_cmp (\<lambda>a b. compare_byte_order (units (k_id a)) (units (k_id b)))"
  by (intro ext) (auto simp: cursor_cmp_def then_cmp_def write_order_cmp_def)

interpretation write_order: js_comparator write_order_cmp
proof
  fix x y z :: "'a keyed_scheme"
  show "sgn (write_order_cmp y x) = - sgn (write_order_cmp x y)"
    unfolding write_order_cmp_eq unit_cmp_def by (rule lex_cmp_laws(1))
  show "write_order_cmp x y \<le> 0 \<Longrightarrow> write_order_cmp y z \<le> 0 \<Longrightarrow> write_order_cmp x z \<le> 0"
    unfolding write_order_cmp_eq unit_cmp_def by (rule lex_cmp_laws(2))
qed

interpretation cursor_order: js_comparator cursor_cmp
  unfolding cursor_cmp_eq
  by (rule then_cmp_comparator[OF write_order.js_comparator_axioms])
    (unfold_locales; use byte_order.cmp_swap byte_order.cmp_trans in blast)

subsection \<open>Walking the pages\<close>

definition last_rows :: "int \<Rightarrow> 'a list \<Rightarrow> 'a list" where
  "last_rows limit rows = drop (length rows - nat limit) rows"

lemma slice_last: "limit > 0 \<Longrightarrow> js_slice_from rows (- limit) = last_rows limit rows"
  by (simp add: js_slice_from_def slice_index_def last_rows_def nat_diff_distrib')

text \<open>A client that asks for the rows before the first row it has, until a page is empty.\<close>

fun walk_pages :: "(keyed option \<Rightarrow> 'a keyed_scheme list) \<Rightarrow> nat \<Rightarrow> keyed option \<Rightarrow> 'a keyed_scheme list" where
  "walk_pages page 0 before = []"
| "walk_pages page (Suc n) before =
     (let p = page before in if p = [] then [] else walk_pages page n (Some (keyed.truncate (hd p))) @ p)"

locale keyset_pages =
  fixes page :: "'a keyed_scheme list \<Rightarrow> int \<Rightarrow> keyed option \<Rightarrow> 'a keyed_scheme list"
    and in_order :: "'a keyed_scheme list \<Rightarrow> bool"
  assumes page_first: "limit > 0 \<Longrightarrow> page rows limit None = last_rows limit rows"
    and page_before: "limit > 0 \<Longrightarrow> in_order rows \<Longrightarrow> i < length rows \<Longrightarrow>
      page rows limit (Some (keyed.truncate (rows ! i))) = last_rows limit (take i rows)"
begin

lemma walk_prefix:
  assumes "limit > 0" "in_order rows"
  shows "i \<le> length rows \<Longrightarrow> i < n \<Longrightarrow> page rows limit before = last_rows limit (take i rows) \<Longrightarrow>
     walk_pages (page rows limit) n before = take i rows"
proof (induction n arbitrary: i before)
  case (Suc n)
  let ?k = "i - nat limit"
  have len: "length (take i rows) = i" using Suc.prems(1) by simp
  have p: "page rows limit before = drop ?k (take i rows)"
    using Suc.prems(3) by (simp add: last_rows_def len min_absorb2 Suc.prems(1))
  show ?case
  proof (cases "i = 0")
    case True
    then show ?thesis using Suc.prems(3) by (simp add: last_rows_def)
  next
    case False
    then have k: "?k < i" using assms(1) by simp
    then have hd: "hd (page rows limit before) = rows ! ?k" "page rows limit before \<noteq> []"
      using p Suc.prems(1) by (simp_all add: hd_drop_conv_nth)
    have "walk_pages (page rows limit) n (Some (keyed.truncate (rows ! ?k))) = take ?k rows"
      using Suc.IH[of ?k] k Suc.prems(1,2) page_before[OF assms, of ?k] by simp
    then show ?thesis
      using hd p k append_take_drop_id[of ?k "take i rows"] by (simp add: min_absorb1)
  qed
qed simp

lemma walk_all:
  "limit > 0 \<Longrightarrow> in_order rows \<Longrightarrow> length rows < n \<Longrightarrow> walk_pages (page rows limit) n None = rows"
  using walk_prefix[of limit rows "length rows" n None] page_first[of limit rows] by simp

end

lemma filter_below_take:
  assumes "sorted_wrt (\<lambda>x y. P x y) xs" "i < length xs"
    and "\<And>x y. P x y \<Longrightarrow> \<not> P y x" and "\<And>x. \<not> P x x"
  shows "filter (\<lambda>x. P x (xs ! i)) xs = take i xs"
proof -
  have "filter (\<lambda>x. P x (xs ! i)) (take i xs) = take i xs"
    using assms(1,2) by (auto simp: filter_id_conv in_set_conv_nth sorted_wrt_iff_nth_less)
  moreover have "filter (\<lambda>x. P x (xs ! i)) (drop i xs) = []"
  proof -
    have "\<not> P (xs ! j) (xs ! i)" if "i \<le> j" "j < length xs" for j
      using assms(1,3,4) that by (cases "i = j") (auto simp: sorted_wrt_iff_nth_less)
    then show ?thesis by (fastforce simp: filter_empty_conv in_set_conv_nth)
  qed
  ultimately show ?thesis by (metis append_Nil2 append_take_drop_id filter_append)
qed

definition row_key :: "'a keyed_scheme \<Rightarrow> string \<times> string" where
  "row_key r = (k_created r, k_id r)"

lemma cursor_cmp_zero: "cursor_cmp a b = 0 \<longleftrightarrow> row_key a = row_key b"
  using byte_order.cmp_zero[of "units (k_id a)" "units (k_id b)"] byte_order.cmp_refl[of "units (k_id a)"]
  by (auto simp: cursor_cmp_def row_key_def)

lemma cursor_less_truncate:
  "(js_less (k_created r) (k_created (keyed.truncate b)) \<or> (k_created r = k_created (keyed.truncate b)
      \<and> compare_byte_order (units (k_id r)) (units (k_id (keyed.truncate b))) < 0)) \<longleftrightarrow> cursor_cmp r b < 0"
  using unit_cmp_zero[of "k_created b" "k_created b"]
  by (auto simp: cursor_cmp_def keyed.truncate_def js_less_def)

lemma cursor_strict:
  assumes "distinct (map row_key rows)"
  shows "sorted_wrt (\<lambda>x y. cursor_cmp x y < 0) (sort_by_cursor_asc rows)"
proof -
  let ?xs = "sort_by_cursor_asc rows"
  have "distinct (map row_key ?xs)" using assms by (simp add: sort_by_cursor_asc_def)
  then have "cursor_cmp (?xs ! i) (?xs ! j) \<noteq> 0" if "i < j" "j < length ?xs" for i j
    using that nth_eq_iff_index_eq[of "map row_key ?xs" i j] by (simp add: cursor_cmp_zero)
  then show ?thesis
    using cursor_order.sort_sorted[of rows] unfolding sorted_wrt_iff_nth_less sort_by_cursor_asc_def
    by (metis order_le_less)
qed

lemma cursor_cmp_asym: "cursor_cmp x y < 0 \<Longrightarrow> \<not> cursor_cmp y x < 0"
  using cursor_order.cmp_swap[of y x] by (auto simp: sgn_if split: if_splits)

interpretation cursor_pages: keyset_pages "\<lambda>rows limit before. apply_cursor_page rows \<lparr> cp_limit = limit, cp_before = before \<rparr>"
  "sorted_wrt (\<lambda>x y. cursor_cmp x y < 0)"
proof
  fix limit :: int and rows :: "'a keyed_scheme list" and i
  assume limit: "limit > 0"
  then show "apply_cursor_page rows \<lparr> cp_limit = limit, cp_before = None \<rparr> = last_rows limit rows"
    by (simp add: apply_cursor_page_def slice_last)
  assume order: "sorted_wrt (\<lambda>x y. cursor_cmp x y < 0) rows" and i: "i < length rows"
  have "filter (\<lambda>r. cursor_cmp r (rows ! i) < 0) rows = take i rows"
    by (rule filter_below_take[OF order i]) (auto simp: cursor_order.cmp_refl dest: cursor_cmp_asym)
  then show "apply_cursor_page rows \<lparr> cp_limit = limit, cp_before = Some (keyed.truncate (rows ! i)) \<rparr> =
      last_rows limit (take i rows)"
    using limit by (simp add: apply_cursor_page_def slice_last cursor_less_truncate)
qed

lemma filter_enumerate_take:
  assumes "\<And>j. j < length xs \<Longrightarrow> Q j (xs ! j) \<longleftrightarrow> j < i"
  shows "map snd (filter (\<lambda>(j, x). Q j x) (enumerate 0 xs)) = take i xs"
proof -
  have "filter (\<lambda>(j, x). Q j x) (enumerate 0 xs) = filter (\<lambda>(j, x). j < i) (enumerate 0 xs)"
    using assms by (intro filter_cong) (auto simp: in_set_enumerate_eq)
  also have "map snd \<dots> = take i xs"
    by (induction xs rule: rev_induct) (auto simp: enumerate_append_eq)
  finally show ?thesis .
qed

lemma find_index_nth:
  "i < length xs \<Longrightarrow> P (xs ! i) \<Longrightarrow> (\<And>j. j < i \<Longrightarrow> \<not> P (xs ! j)) \<Longrightarrow> find_index P xs = int i"
proof (induction xs arbitrary: i)
  case (Cons x xs)
  show ?case
  proof (cases i)
    case (Suc k)
    have "\<not> P x" using Cons.prems(3)[of 0] Suc by simp
    moreover have "\<not> P (xs ! j)" if "j < k" for j using Cons.prems(3)[of "Suc j"] Suc that by simp
    moreover have "find_index P xs = int k" by (rule Cons.IH) (use Cons.prems Suc calculation in auto)
    ultimately show ?thesis using Suc by simp
  qed (use Cons.prems in simp)
qed simp

definition write_ordered :: "'a keyed_scheme list \<Rightarrow> bool" where
  "write_ordered rows \<longleftrightarrow> sorted_wrt (\<lambda>x y. write_order_cmp x y \<le> 0) rows \<and> distinct (map row_key rows)"

interpretation write_order_pages: keyset_pages
  "\<lambda>rows limit before. apply_write_order_page rows \<lparr> cp_limit = limit, cp_before = before \<rparr>" write_ordered
proof
  fix limit :: int and rows :: "'a keyed_scheme list" and i
  assume limit: "limit > 0"
  then show "apply_write_order_page rows \<lparr> cp_limit = limit, cp_before = None \<rparr> = last_rows limit rows"
    by (simp add: apply_write_order_page_def slice_last)
  assume order: "write_ordered rows" and i: "i < length rows"
  let ?b = "rows ! i"
  have key: "row_key (rows ! j) \<noteq> row_key ?b" if "j < i" for j
    using order that i nth_eq_iff_index_eq[of "map row_key rows" j i] by (simp add: write_ordered_def)
  have at: "find_index (\<lambda>r. k_id r = k_id ?b \<and> k_created r = k_created ?b) rows = int i"
    by (rule find_index_nth[OF i]) (use key in \<open>auto simp: row_key_def\<close>)
  have "(js_less (k_created (rows ! j)) (k_created ?b) \<or> (k_created (rows ! j) = k_created ?b \<and> int i \<noteq> - 1 \<and> int j < int i))
      \<longleftrightarrow> j < i" if j: "j < length rows" for j
  proof (cases "j < i")
    case True
    then have "write_order_cmp (rows ! j) ?b \<le> 0"
      using order i unfolding write_ordered_def sorted_wrt_iff_nth_less by blast
    then show ?thesis using True by (auto simp: write_order_cmp_def split: if_splits)
  next
    case False
    then have "write_order_cmp ?b (rows ! j) \<le> 0"
      using order j write_order.cmp_refl[of ?b] unfolding write_ordered_def sorted_wrt_iff_nth_less
      by (cases "i = j") auto
    then have "\<not> write_order_cmp (rows ! j) ?b < 0"
      using write_order.cmp_swap[of "rows ! j" ?b] by (auto simp: sgn_if split: if_splits)
    then show ?thesis using False unit_cmp_zero by (auto simp: write_order_cmp_eq js_less_def)
  qed
  then show "apply_write_order_page rows \<lparr> cp_limit = limit, cp_before = Some (keyed.truncate (rows ! i)) \<rparr> =
      last_rows limit (take i rows)"
    using limit at by (simp add: apply_write_order_page_def slice_last keyed.truncate_def filter_enumerate_take)
qed

subsection \<open>Properties\<close>

text \<open>C38: a client that follows the cursors of (createdAt, id) pages back from the newest one
  sees every row exactly once, oldest first, whatever the page size.\<close>

theorem cursor_pages_complete:
  assumes "distinct (map row_key rows)" "limit > 0" "length rows < n"
  shows "walk_pages (\<lambda>before. apply_cursor_page (sort_by_cursor_asc rows) \<lparr> cp_limit = limit, cp_before = before \<rparr>) n None
    = sort_by_cursor_asc rows"
  by (rule cursor_pages.walk_all[OF assms(2) cursor_strict[OF assms(1)]])
    (use assms(3) in \<open>simp add: sort_by_cursor_asc_def\<close>)

text \<open>The same for the pages of a write-order log, whose rows of one timestamp keep their
  write order.\<close>

lemma write_order_pages_complete:
  assumes "distinct (map row_key rows)" "limit > 0" "length rows < n"
  shows "walk_pages (\<lambda>before. apply_write_order_page (sort_by_write_order rows) \<lparr> cp_limit = limit, cp_before = before \<rparr>) n None
    = sort_by_write_order rows"
  by (rule write_order_pages.walk_all[OF assms(2)])
    (use assms write_order.sort_sorted in \<open>auto simp: write_ordered_def sort_by_write_order_def\<close>)

definition sample_rows :: "keyed list" where
  "sample_rows = [\<lparr> k_created = ''2'', k_id = ''a'' \<rparr>, \<lparr> k_created = ''1'', k_id = ''b'' \<rparr>, \<lparr> k_created = ''1'', k_id = ''a'' \<rparr>]"

lemma cursor_pages_complete_witness:
  "walk_pages (\<lambda>before. apply_cursor_page (sort_by_cursor_asc sample_rows) \<lparr> cp_limit = 2, cp_before = before \<rparr>) 4 None
    = sort_by_cursor_asc sample_rows"
  by (rule cursor_pages_complete) (simp_all add: sample_rows_def row_key_def)

end
