(* ===== verification/LifecycleStore.thy ===== *)
theory LifecycleStore
  imports SetupState Pagination
begin

text \<open>
  The lifecycle collections of the memory store
  (\<open>packages/store/src/memory/lifecycle-methods.ts\<close>): the logical-turn ledger, the setup-attempt ledger
  and the job-status log. Each is a \<open>Map\<close> keyed by the JSON text of a tuple of identifiers; the key
  here is the tuple, since \<open>JSON.stringify\<close> of an array of strings and numbers is injective. The
  canonical form drops null optional fields (\<open>packages/store/src/common/mappers/lifecycle-mappers.ts\<close>).
\<close>

subsection \<open>Records and state\<close>

record ledger_record =
  lr_session :: string
  lr_logical_turn :: string
  lr_execution :: string
  lr_completed_at :: string

record job_status =
  js_session :: string
  js_scope :: string
  js_plugin :: string
  js_runtime :: string
  js_job :: string
  js_state :: string
  js_progress :: "rat option"
  js_message :: "string option"
  js_data :: "json option"
  js_sequence :: int
  js_created_at :: string

type_synonym ledger_key = "string \<times> string"
type_synonym attempt_key = "string \<times> string \<times> int \<times> string"
type_synonym job_key = "string \<times> string \<times> string \<times> string \<times> string \<times> int"

record lifecycle_state =
  lf_ledger :: "(ledger_key, ledger_record) jmap"
  lf_attempts :: "(attempt_key, setup_attempt) jmap"
  lf_jobs :: "(job_key, job_status) jmap"

definition ledger_key_of :: "ledger_record \<Rightarrow> ledger_key" where
  "ledger_key_of r = (lr_session r, lr_logical_turn r)"

definition attempt_key_of :: "setup_attempt \<Rightarrow> attempt_key" where
  "attempt_key_of r = (sa_session r, sa_runtime r, sa_generation r, sa_execution r)"

definition job_key_of :: "job_status \<Rightarrow> job_key" where
  "job_key_of r = (js_session r, js_scope r, js_plugin r, js_runtime r, js_job r, js_sequence r)"

subsection \<open>Operations\<close>

definition insert_logical_turn :: "ledger_record \<Rightarrow> lifecycle_state \<Rightarrow> bool \<times> lifecycle_state" where
  "insert_logical_turn record s =
     (let key = ledger_key_of record in
      if jm_has (lf_ledger s) key then (False, s)
      else (True, s\<lparr> lf_ledger := jm_set key record (lf_ledger s) \<rparr>))"

definition get_logical_turn :: "string \<Rightarrow> string \<Rightarrow> lifecycle_state \<Rightarrow> ledger_record option" where
  "get_logical_turn session turn s = jm_get (lf_ledger s) (session, turn)"

definition list_logical_turns :: "string \<Rightarrow> lifecycle_state \<Rightarrow> ledger_record list" where
  "list_logical_turns session s =
     js_sort (then_cmp (text_key_cmp lr_completed_at)
                (\<lambda>a b. compare_byte_order (units (lr_logical_turn a)) (units (lr_logical_turn b))))
       (filter (\<lambda>r. lr_session r = session) (map snd (lf_ledger s)))"

definition canonical_setup_attempt :: "setup_attempt \<Rightarrow> setup_attempt" where
  "canonical_setup_attempt r =
     \<lparr> sa_session = sa_session r, sa_runtime = sa_runtime r, sa_version = sa_version r,
       sa_generation = sa_generation r, sa_execution = sa_execution r, sa_state = sa_state r,
       sa_started_at = sa_started_at r,
       sa_finished_at = (case sa_finished_at r of Some t \<Rightarrow> Some t | None \<Rightarrow> None),
       sa_error = (case sa_error r of Some e \<Rightarrow> Some e | None \<Rightarrow> None) \<rparr>"

definition insert_setup_attempt :: "setup_attempt \<Rightarrow> lifecycle_state \<Rightarrow> bool \<times> lifecycle_state" where
  "insert_setup_attempt record s =
     (let key = attempt_key_of record in
      if jm_has (lf_attempts s) key then (False, s)
      else (True, s\<lparr> lf_attempts := jm_set key (canonical_setup_attempt record) (lf_attempts s) \<rparr>))"

text \<open>A patch names its state; \<open>None\<close> is a key that is not in the patch, \<open>Some None\<close> a null one.\<close>

record attempt_patch =
  ap_state :: attempt_state
  ap_finished_at :: "string option option"
  ap_error :: "string option option"

definition update_setup_attempt ::
    "string \<Rightarrow> string \<Rightarrow> int \<Rightarrow> string \<Rightarrow> attempt_patch \<Rightarrow> lifecycle_state \<Rightarrow> lifecycle_state" where
  "update_setup_attempt session runtime generation execution patch s =
     (let key = (session, runtime, generation, execution) in
      case jm_get (lf_attempts s) key of
        None \<Rightarrow> s
      | Some existing \<Rightarrow>
          s\<lparr> lf_attempts := jm_set key (canonical_setup_attempt (existing\<lparr> sa_state := ap_state patch,
               sa_finished_at := or_else (ap_finished_at patch) (sa_finished_at existing),
               sa_error := or_else (ap_error patch) (sa_error existing) \<rparr>)) (lf_attempts s) \<rparr>)"

definition list_setup_attempts ::
    "string \<Rightarrow> string option \<Rightarrow> int option \<Rightarrow> lifecycle_state \<Rightarrow> setup_attempt list" where
  "list_setup_attempts session runtime generation s =
     js_sort (then_cmp (text_key_cmp sa_started_at)
                (\<lambda>a b. compare_byte_order (units (sa_execution a)) (units (sa_execution b))))
       (filter (\<lambda>r. sa_session r = session
            \<and> (runtime = None \<or> Some (sa_runtime r) = runtime)
            \<and> (generation = None \<or> Some (sa_generation r) = generation)) (map snd (lf_attempts s)))"

definition delete_job_status :: "string \<Rightarrow> string list \<Rightarrow> lifecycle_state \<Rightarrow> lifecycle_state" where
  "delete_job_status session job_ids s =
     s\<lparr> lf_jobs := foldl (\<lambda>jobs (key, record).
          if js_session record = session \<and> js_job record \<in> set job_ids then jm_delete key jobs else jobs)
        (lf_jobs s) (lf_jobs s) \<rparr>"

definition canonical_job_status :: "job_status \<Rightarrow> job_status" where
  "canonical_job_status r = r\<lparr> js_data := (case js_data r of Some JNull \<Rightarrow> None | d \<Rightarrow> d) \<rparr>"

definition append_job_status :: "job_status \<Rightarrow> lifecycle_state \<Rightarrow> bool \<times> lifecycle_state" where
  "append_job_status record s =
     (let key = job_key_of record in
      if jm_has (lf_jobs s) key then (False, s)
      else (True, s\<lparr> lf_jobs := jm_set key (canonical_job_status record) (lf_jobs s) \<rparr>))"

definition list_job_status :: "string \<Rightarrow> string option \<Rightarrow> string option \<Rightarrow> lifecycle_state \<Rightarrow> job_status list" where
  "list_job_status session progress_scope job s =
     js_sort (then_cmp (\<lambda>a b. compare_byte_order (units (js_job a)) (units (js_job b)))
                (\<lambda>a b. js_sequence a - js_sequence b))
       (filter (\<lambda>r. js_session r = session
            \<and> (progress_scope = None \<or> Some (js_scope r) = progress_scope)
            \<and> (job = None \<or> Some (js_job r) = job)) (map snd (lf_jobs s)))"

subsection \<open>The store invariant\<close>

definition lifecycle_wf :: "lifecycle_state \<Rightarrow> bool" where
  "lifecycle_wf s \<longleftrightarrow> keyed_by ledger_key_of (lf_ledger s) \<and> keyed_by attempt_key_of (lf_attempts s)
     \<and> keyed_by job_key_of (lf_jobs s)"

lemma canonical_setup_attempt_id [simp]: "canonical_setup_attempt r = r"
  by (simp add: canonical_setup_attempt_def split: option.split)

lemma job_key_canonical [simp]: "job_key_of (canonical_job_status r) = job_key_of r"
  by (simp add: job_key_of_def canonical_job_status_def)

lemma insert_logical_turn_wf: "lifecycle_wf s \<Longrightarrow> lifecycle_wf (snd (insert_logical_turn r s))"
  by (simp add: insert_logical_turn_def lifecycle_wf_def Let_def keyed_by_set)

lemma insert_setup_attempt_wf: "lifecycle_wf s \<Longrightarrow> lifecycle_wf (snd (insert_setup_attempt r s))"
  by (simp add: insert_setup_attempt_def lifecycle_wf_def Let_def keyed_by_set)

lemma append_job_status_wf: "lifecycle_wf s \<Longrightarrow> lifecycle_wf (snd (append_job_status r s))"
  by (simp add: append_job_status_def lifecycle_wf_def Let_def keyed_by_set)

lemma attempt_key_update [simp]:
  "attempt_key_of (r\<lparr> sa_state := x, sa_finished_at := y, sa_error := z \<rparr>) = attempt_key_of r"
  by (simp add: attempt_key_of_def)

lemma update_setup_attempt_wf:
  assumes "lifecycle_wf s"
  shows "lifecycle_wf (update_setup_attempt session runtime generation execution patch s)"
  using assms keyed_by_get[of attempt_key_of "lf_attempts s" "(session, runtime, generation, execution)"]
  by (auto simp: update_setup_attempt_def lifecycle_wf_def Let_def keyed_by_set split: option.split)

lemma delete_job_status_wf:
  assumes "lifecycle_wf s"
  shows "lifecycle_wf (delete_job_status session job_ids s)"
proof -
  have "keyed_by job_key_of (foldl (\<lambda>jobs (key, record).
      if js_session record = session \<and> js_job record \<in> set job_ids then jm_delete key jobs else jobs) m ys)"
    if "keyed_by job_key_of m" for m and ys :: "(job_key \<times> job_status) list"
    using that by (induction ys arbitrary: m) (auto simp: keyed_by_delete)
  then show ?thesis using assms by (simp add: delete_job_status_def lifecycle_wf_def)
qed

subsection \<open>Properties\<close>

text \<open>The first write of a ledger row, an attempt or a job event wins: once an insert has been
  made, every insert of the same key is refused and leaves the store unchanged.\<close>

lemma lifecycle_inserts_idempotent:
  "(ledger_key_of r' = ledger_key_of r \<longrightarrow>
      insert_logical_turn r' (snd (insert_logical_turn r s)) = (False, snd (insert_logical_turn r s)))
   \<and> (attempt_key_of a' = attempt_key_of a \<longrightarrow>
      insert_setup_attempt a' (snd (insert_setup_attempt a s)) = (False, snd (insert_setup_attempt a s)))
   \<and> (job_key_of j' = job_key_of j \<longrightarrow>
      append_job_status j' (snd (append_job_status j s)) = (False, snd (append_job_status j s)))"
  by (simp add: insert_logical_turn_def insert_setup_attempt_def append_job_status_def Let_def)

end
