(* ===== verification/Settle.thy ===== *)
theory Settle
  imports SetupRun LifecycleStore
begin

text \<open>
  The writes of one execution to the session clock and to the setup ledger:
  \<open>applySessionClockTx\<close> and \<open>updateSetupRuntimeStates\<close>
  (\<open>packages/runtime/src/commit/session-clock.ts\<close>) and \<open>settleSetupRuntimes\<close>
  (\<open>packages/runtime/src/commit/setup-settle.ts\<close>), on the memory store's collections. The theory shows
  that a logical turn is counted at most once, that the session never returns to setup, and that
  settling is idempotent and burns exactly one attempt per execution.
\<close>

subsection \<open>The session row\<close>

record session_row =
  se_phase :: phase
  se_turns :: int
  se_setup :: setup_mirror
  se_updated_at :: string

record clock_store =
  cs_sessions :: "(string, session_row) jmap"
  cs_life :: lifecycle_state

datatype count_policy = CountNone | CompletePlayerTurn

record exec_context =
  ec_execution :: string
  ec_logical_turn :: "string option"
  ec_policy :: count_policy

record clock_update =
  cu_now :: string
  cu_completion :: "(setup_mirror \<times> bool) option"

definition needs_session_clock_write :: "exec_context \<Rightarrow> clock_update option \<Rightarrow> bool" where
  "needs_session_clock_write ctx upd =
     (ec_policy ctx = CompletePlayerTurn \<or> Option.bind upd cu_completion \<noteq> None)"

definition count_turn :: "string \<Rightarrow> exec_context \<Rightarrow> string \<Rightarrow> int \<Rightarrow> lifecycle_state \<Rightarrow> int \<times> lifecycle_state" where
  "count_turn session ctx now turns life =
     (case truthy (ec_logical_turn ctx) of
        Some turn \<Rightarrow>
          if ec_policy ctx = CompletePlayerTurn
          then let (inserted, life) = insert_logical_turn \<lparr> lr_session = session, lr_logical_turn = turn,
                       lr_execution = ec_execution ctx, lr_completed_at = now \<rparr> life
               in (if inserted then turns + 1 else turns, life)
          else (turns, life)
      | None \<Rightarrow> (turns, life))"

definition apply_session_clock :: "string \<Rightarrow> exec_context \<Rightarrow> clock_update \<Rightarrow> clock_store \<Rightarrow> clock_store" where
  "apply_session_clock session ctx upd store =
     (case jm_get (cs_sessions store) session of
        None \<Rightarrow> store
      | Some row \<Rightarrow>
          (let (turns, life) = count_turn session ctx (cu_now upd) (se_turns row) (cs_life store);
               setup = jm_merge (se_setup row) (case cu_completion upd of Some (newly, all_done) \<Rightarrow> newly | None \<Rightarrow> []);
               phase = (if se_phase row = SetupPhase
                          \<and> (case cu_completion upd of Some (newly, all_done) \<Rightarrow> all_done | None \<Rightarrow> False)
                        then PlayingPhase else se_phase row)
           in store\<lparr> cs_life := life,
                cs_sessions := jm_set session \<lparr> se_phase = phase, se_turns = turns, se_setup = setup,
                                 se_updated_at = cu_now upd \<rparr> (cs_sessions store) \<rparr>))"

definition update_setup_runtime_states ::
    "string \<Rightarrow> string \<Rightarrow> (setup_mirror \<Rightarrow> setup_mirror) \<Rightarrow> clock_store \<Rightarrow> clock_store" where
  "update_setup_runtime_states session now resolve store =
     (case jm_get (cs_sessions store) session of
        None \<Rightarrow> store
      | Some row \<Rightarrow>
          (let entries = resolve (se_setup row) in
           if length entries = 0 then store
           else store\<lparr> cs_sessions := jm_set session
                  (row\<lparr> se_setup := jm_merge (se_setup row) entries, se_updated_at := now \<rparr>) (cs_sessions store) \<rparr>))"

subsection \<open>Settlement\<close>

definition rolled_back :: "bool \<Rightarrow> ran_setup \<Rightarrow> bool" where
  "rolled_back committed r = ((rn_done_signal r \<or> rn_ledger_state r = AtSuspended) \<and> \<not> committed)"

definition settled_state :: "bool \<Rightarrow> ran_setup \<Rightarrow> attempt_state" where
  "settled_state committed r = (if rolled_back committed r then AtFailed else rn_ledger_state r)"

definition settled_error :: "bool \<Rightarrow> ran_setup \<Rightarrow> string option" where
  "settled_error committed r =
     (if rolled_back committed r then Some (or_else (rn_error r) ''proposal commit rolled back'') else rn_error r)"

definition settle_attempt :: "string \<Rightarrow> bool \<Rightarrow> string \<Rightarrow> lifecycle_state \<Rightarrow> ran_setup \<Rightarrow> lifecycle_state" where
  "settle_attempt session committed now life r =
     (let life = snd (insert_setup_attempt \<lparr> sa_session = session, sa_runtime = rn_runtime r,
            sa_version = rn_version r, sa_generation = rn_generation r, sa_execution = rn_execution r,
            sa_state = AtStarted, sa_started_at = rn_started_at r, sa_finished_at = None, sa_error = None \<rparr> life)
      in update_setup_attempt session (rn_runtime r) (rn_generation r) (rn_execution r)
           \<lparr> ap_state = settled_state committed r, ap_finished_at = Some (Some now),
             ap_error = (case truthy (settled_error committed r) of Some e \<Rightarrow> Some (Some e) | None \<Rightarrow> None) \<rparr> life)"

definition terminal_attempts :: "string \<Rightarrow> lifecycle_state \<Rightarrow> ran_setup \<Rightarrow> int" where
  "terminal_attempts session life r =
     int (length (filter (\<lambda>a. is_budgeted_attempt (sa_state a))
       (list_setup_attempts session (Some (rn_runtime r)) (Some (rn_generation r)) life)))"

definition settle_entry :: "(int \<Rightarrow> string) \<Rightarrow> bool \<Rightarrow> string \<Rightarrow> (string, int) jmap \<Rightarrow> setup_mirror \<Rightarrow> ran_setup \<Rightarrow> setup_state" where
  "settle_entry show committed now terminal current r =
     (let attempts = or_else (jm_get terminal (rn_runtime r)) 0 in
      if rn_done_signal r \<and> committed
      then mirror_setup_done (rn_version r)
             (case jm_get current (rn_runtime r) of Some (StDone res g a c v w) \<Rightarrow> c | _ \<Rightarrow> now)
             (rn_generation r) attempts
      else let waiting = rn_ledger_state r = AtSuspended \<and> committed
           in resolve_pending_or_blocked show attempts (if waiting then None else rn_budget r)
                (rn_version r) (rn_generation r) now (settled_error committed r))"

definition settle_setup_runtimes ::
    "(int \<Rightarrow> string) \<Rightarrow> string \<Rightarrow> ran_setup list \<Rightarrow> bool \<Rightarrow> string \<Rightarrow> clock_store \<Rightarrow> clock_store" where
  "settle_setup_runtimes show session runs committed now store =
     (if length runs = 0 then store
      else let life = foldl (settle_attempt session committed now) (cs_life store) runs;
               terminal = foldl (\<lambda>m r. jm_set (rn_runtime r) (terminal_attempts session life r) m) [] runs
           in update_setup_runtime_states session now
                (\<lambda>current. foldl (\<lambda>entries r. jm_set (rn_runtime r)
                     (settle_entry show committed now terminal current r) entries) [] runs)
                (store\<lparr> cs_life := life \<rparr>))"

subsection \<open>Settling is idempotent\<close>

definition ran_key :: "string \<Rightarrow> ran_setup \<Rightarrow> attempt_key" where
  "ran_key session r = (session, rn_runtime r, rn_generation r, rn_execution r)"

definition is_settled :: "string \<Rightarrow> bool \<Rightarrow> string \<Rightarrow> lifecycle_state \<Rightarrow> ran_setup \<Rightarrow> bool" where
  "is_settled session committed now life r \<longleftrightarrow>
     (\<exists>a. jm_get (lf_attempts life) (ran_key session r) = Some a \<and> sa_state a = settled_state committed r
        \<and> sa_finished_at a = Some now
        \<and> (\<forall>e. truthy (settled_error committed r) = Some e \<longrightarrow> sa_error a = Some e))"

lemma settle_attempt_get:
  "jm_get (lf_attempts (settle_attempt session committed now life r)) k =
     (if k = ran_key session r
      then Some ((case jm_get (lf_attempts life) k of Some a \<Rightarrow> a
          | None \<Rightarrow> \<lparr> sa_session = session, sa_runtime = rn_runtime r, sa_version = rn_version r,
              sa_generation = rn_generation r, sa_execution = rn_execution r, sa_state = AtStarted,
              sa_started_at = rn_started_at r, sa_finished_at = None, sa_error = None \<rparr>)
        \<lparr> sa_state := settled_state committed r, sa_finished_at := Some now,
          sa_error := (case truthy (settled_error committed r) of Some e \<Rightarrow> Some e
             | None \<Rightarrow> Option.bind (jm_get (lf_attempts life) k) sa_error) \<rparr>)
      else jm_get (lf_attempts life) k)"
proof (cases "jm_get (lf_attempts life) (ran_key session r)")
  case None
  then have "\<not> jm_has (lf_attempts life) (ran_key session r)" by (simp add: map_of_eq_None_iff)
  then show ?thesis
    using None by (auto simp: settle_attempt_def insert_setup_attempt_def attempt_key_of_def
        update_setup_attempt_def ran_key_def[symmetric] Let_def split: option.split)
next
  case (Some a)
  then have "jm_has (lf_attempts life) (ran_key session r)" by (auto dest: jm_get_key)
  then show ?thesis
    using Some by (auto simp: settle_attempt_def insert_setup_attempt_def attempt_key_of_def
        update_setup_attempt_def ran_key_def[symmetric] Let_def split: option.split)
qed

lemma settle_attempt_settled: "is_settled session committed now (settle_attempt session committed now life r) r"
  by (simp add: is_settled_def settle_attempt_get)

lemma settle_attempt_other:
  "ran_key session r \<noteq> ran_key session r' \<Longrightarrow> is_settled session committed now life r \<Longrightarrow>
     is_settled session committed now (settle_attempt session committed now life r') r"
  by (simp add: is_settled_def settle_attempt_get)

lemma settle_attempt_idle:
  assumes "is_settled session committed now life r"
  shows "settle_attempt session committed now life r = life"
proof -
  obtain a where a: "jm_get (lf_attempts life) (ran_key session r) = Some a" "sa_state a = settled_state committed r"
      "sa_finished_at a = Some now" "\<And>e. truthy (settled_error committed r) = Some e \<Longrightarrow> sa_error a = Some e"
    using assms by (auto simp: is_settled_def)
  have has: "jm_has (lf_attempts life) (ran_key session r)" using a(1) by (auto dest: jm_get_key)
  have same: "a\<lparr> sa_state := settled_state committed r, sa_finished_at := Some now,
      sa_error := or_else (case truthy (settled_error committed r) of Some e \<Rightarrow> Some (Some e) | None \<Rightarrow> None) (sa_error a) \<rparr> = a"
    using a(2,3,4) by (cases a) (auto split: option.split)
  show ?thesis
    using a(1) has same by (simp add: settle_attempt_def insert_setup_attempt_def attempt_key_of_def
        update_setup_attempt_def ran_key_def[symmetric] Let_def jm_set_same)
qed

lemma settle_all_settled:
  "distinct (map rn_runtime runs) \<Longrightarrow> r \<in> set runs \<Longrightarrow>
     is_settled session committed now (foldl (settle_attempt session committed now) life runs) r"
proof (induction runs rule: rev_induct)
  case (snoc x runs)
  show ?case
  proof (cases "r = x")
    case False
    then have r: "r \<in> set runs" using snoc.prems(2) by auto
    then have "rn_runtime r \<noteq> rn_runtime x" using snoc.prems(1) by (auto simp: image_iff)
    then show ?thesis using snoc r settle_attempt_other[of session r x] by (simp add: ran_key_def)
  qed (simp add: settle_attempt_settled)
qed simp

lemma settle_all_idle:
  "(\<And>r. r \<in> set runs \<Longrightarrow> is_settled session committed now life r) \<Longrightarrow>
     foldl (settle_attempt session committed now) life runs = life"
  by (induction runs) (simp_all add: settle_attempt_idle)

lemma settle_entry_again:
  "settle_entry show committed now terminal current r = e \<Longrightarrow> jm_get current' (rn_runtime r) = Some e \<Longrightarrow>
     settle_entry show committed now terminal current' r = e"
  by (auto simp: settle_entry_def mirror_setup_done_def Let_def split: if_splits)

definition settle_entries ::
    "(int \<Rightarrow> string) \<Rightarrow> bool \<Rightarrow> string \<Rightarrow> (string, int) jmap \<Rightarrow> ran_setup list \<Rightarrow> setup_mirror \<Rightarrow> setup_mirror" where
  "settle_entries show committed now terminal runs current =
     map (\<lambda>r. (rn_runtime r, settle_entry show committed now terminal current r)) runs"

lemma settle_setup_runtimes_eq:
  assumes "distinct (map rn_runtime runs)" "runs \<noteq> []"
    and "foldl (settle_attempt session committed now) (cs_life s) runs = life"
  shows "settle_setup_runtimes show session runs committed now s =
    update_setup_runtime_states session now
      (settle_entries show committed now
         (foldl (\<lambda>m r. jm_set (rn_runtime r) (terminal_attempts session life r) m) [] runs) runs)
      (s\<lparr> cs_life := life \<rparr>)"
proof -
  have "foldl (\<lambda>es r. jm_set (rn_runtime r) (settle_entry show committed now t current r) es) [] runs
      = settle_entries show committed now t runs current" for t current
    unfolding settle_entries_def by (rule foldl_map_of_keys[OF assms(1)])
  then show ?thesis using assms(2,3) by (simp add: settle_setup_runtimes_def Let_def)
qed

lemma settle_entries_again:
  assumes "distinct (map rn_runtime runs)"
  shows "settle_entries show committed now t runs (jm_merge current (settle_entries show committed now t runs current))
    = settle_entries show committed now t runs current"
proof -
  let ?es = "settle_entries show committed now t runs current"
  have wf: "jm_wf ?es" using assms by (simp add: settle_entries_def comp_def)
  have "settle_entry show committed now t (jm_merge current ?es) r = settle_entry show committed now t current r"
    if "r \<in> set runs" for r
  proof (rule settle_entry_again[OF refl])
    have "jm_get ?es (rn_runtime r) = Some (settle_entry show committed now t current r)"
      unfolding settle_entries_def by (rule map_of_map_keys[OF assms that])
    then show "jm_get (jm_merge current ?es) (rn_runtime r) = Some (settle_entry show committed now t current r)"
      by (simp add: jm_get_merge[OF wf])
  qed
  then show ?thesis by (simp add: settle_entries_def)
qed

lemma update_states_again:
  assumes "\<And>current. entries (jm_merge current (entries current)) = entries current" and "\<And>current. jm_wf (entries current)"
  shows "update_setup_runtime_states session now entries (update_setup_runtime_states session now entries s)
    = update_setup_runtime_states session now entries s"
  using assms by (auto simp: update_setup_runtime_states_def Let_def jm_merge_twice split: option.split)

lemma update_states_life [simp]:
  "cs_life (update_setup_runtime_states session now entries s) = cs_life s"
  by (simp add: update_setup_runtime_states_def Let_def split: option.split)

definition attempt_counts :: "string \<Rightarrow> ran_setup \<Rightarrow> setup_attempt \<Rightarrow> bool" where
  "attempt_counts session r a \<longleftrightarrow> sa_session a = session \<and> sa_runtime a = rn_runtime r
     \<and> sa_generation a = rn_generation r \<and> is_budgeted_attempt (sa_state a)"

lemma terminal_attempts_eq:
  "terminal_attempts session life r = int (length (filter (\<lambda>p. attempt_counts session r (snd p)) (lf_attempts life)))"
proof -
  let ?P = "\<lambda>a. sa_session a = session \<and> Some (sa_runtime a) = Some (rn_runtime r) \<and> Some (sa_generation a) = Some (rn_generation r)"
  have "mset (filter (\<lambda>a. is_budgeted_attempt (sa_state a)) (list_setup_attempts session (Some (rn_runtime r)) (Some (rn_generation r)) life))
      = filter_mset (\<lambda>a. is_budgeted_attempt (sa_state a)) (filter_mset ?P (mset (map snd (lf_attempts life))))"
    by (simp add: list_setup_attempts_def mset_filter)
  also have "\<dots> = filter_mset (attempt_counts session r) (mset (map snd (lf_attempts life)))"
    by (simp add: filter_filter_mset attempt_counts_def conj_ac cong: filter_mset_cong)
  finally have "length (filter (\<lambda>a. is_budgeted_attempt (sa_state a))
      (list_setup_attempts session (Some (rn_runtime r)) (Some (rn_generation r)) life))
      = length (filter (attempt_counts session r) (map snd (lf_attempts life)))"
    by (metis mset_filter size_mset)
  then show ?thesis by (simp add: terminal_attempts_def filter_map comp_def)
qed

subsection \<open>Settling again at another time\<close>

text \<open>A store without the times that a settlement writes: the end of an attempt, the time of a block, the time of the
  session row's update. The completion time of a finished setup runtime stays.\<close>

definition map_vals :: "('v \<Rightarrow> 'w) \<Rightarrow> ('k, 'v) jmap \<Rightarrow> ('k, 'w) jmap" where
  "map_vals f m = map (\<lambda>(k, v). (k, f v)) m"

fun untimed_state :: "setup_state \<Rightarrow> setup_state" where
  "untimed_state (StBlocked v g a why since e) = StBlocked v g a why [] e"
| "untimed_state s = s"

definition untimed_row :: "session_row \<Rightarrow> session_row" where
  "untimed_row row = row\<lparr> se_setup := map_vals untimed_state (se_setup row), se_updated_at := [] \<rparr>"

definition untimed_attempt :: "setup_attempt \<Rightarrow> setup_attempt" where
  "untimed_attempt a = a\<lparr> sa_finished_at := None \<rparr>"

definition without_times :: "clock_store \<Rightarrow> clock_store" where
  "without_times s = s\<lparr> cs_sessions := map_vals untimed_row (cs_sessions s),
     cs_life := (cs_life s)\<lparr> lf_attempts := map_vals untimed_attempt (lf_attempts (cs_life s)) \<rparr> \<rparr>"

lemma map_vals_set: "map_vals f (jm_set k v m) = jm_set k (f v) (map_vals f m)"
  by (induction m) (auto simp: map_vals_def)

lemma map_vals_get: "jm_get (map_vals f m) k = map_option f (jm_get m k)"
  by (induction m) (auto simp: map_vals_def)

lemma map_vals_merge: "map_vals f (jm_merge a b) = jm_merge (map_vals f a) (map_vals f b)"
proof (induction b arbitrary: a)
  case (Cons p b)
  have "map_vals f (p # b) = (fst p, f (snd p)) # map_vals f b" by (simp add: map_vals_def case_prod_beta)
  then show ?case using Cons[of "jm_set (fst p) (snd p) a"] by (cases p) (simp add: map_vals_set)
qed (simp add: map_vals_def)

lemma map_vals_wf: "jm_wf (map_vals f m) = jm_wf m"
  by (simp add: map_vals_def comp_def case_prod_beta)

lemma untimed_again:
  assumes "is_settled session committed t life r"
  shows "map_vals untimed_attempt (lf_attempts (settle_attempt session committed now life r)) = map_vals untimed_attempt (lf_attempts life)"
    and "settle_attempt session committed now life r = life\<lparr> lf_attempts := lf_attempts (settle_attempt session committed now life r) \<rparr>"
proof -
  obtain a where a: "jm_get (lf_attempts life) (ran_key session r) = Some a" "sa_state a = settled_state committed r"
      "\<And>e. truthy (settled_error committed r) = Some e \<Longrightarrow> sa_error a = Some e"
    using assms by (auto simp: is_settled_def)
  have has: "jm_has (lf_attempts life) (ran_key session r)" using a(1) by (auto dest: jm_get_key)
  have after: "settle_attempt session committed now life r = life\<lparr> lf_attempts := jm_set (ran_key session r)
      (a\<lparr> sa_state := settled_state committed r, sa_finished_at := Some now,
         sa_error := or_else (case truthy (settled_error committed r) of Some e \<Rightarrow> Some (Some e) | None \<Rightarrow> None) (sa_error a) \<rparr>)
      (lf_attempts life) \<rparr>"
    using a(1) has by (simp add: settle_attempt_def insert_setup_attempt_def attempt_key_of_def
        update_setup_attempt_def ran_key_def[symmetric] Let_def)
  have same: "untimed_attempt (a\<lparr> sa_state := settled_state committed r, sa_finished_at := Some now,
      sa_error := or_else (case truthy (settled_error committed r) of Some e \<Rightarrow> Some (Some e) | None \<Rightarrow> None) (sa_error a) \<rparr>)
      = untimed_attempt a"
    using a(2,3) by (cases a) (auto simp: untimed_attempt_def split: option.split)
  show "map_vals untimed_attempt (lf_attempts (settle_attempt session committed now life r)) = map_vals untimed_attempt (lf_attempts life)"
    unfolding after by (simp add: map_vals_set same jm_set_same map_vals_get a(1))
  show "settle_attempt session committed now life r = life\<lparr> lf_attempts := lf_attempts (settle_attempt session committed now life r) \<rparr>"
    unfolding after by simp
qed

lemma untimed_all_again:
  assumes "distinct (map rn_runtime runs)" "\<And>r. r \<in> set runs \<Longrightarrow> \<exists>t. is_settled session committed t life r"
  shows "map_vals untimed_attempt (lf_attempts (foldl (settle_attempt session committed now) life runs)) = map_vals untimed_attempt (lf_attempts life)
    \<and> foldl (settle_attempt session committed now) life runs
        = life\<lparr> lf_attempts := lf_attempts (foldl (settle_attempt session committed now) life runs) \<rparr>"
  using assms
proof (induction runs arbitrary: life)
  case (Cons r runs)
  let ?life = "settle_attempt session committed now life r"
  obtain t where t: "is_settled session committed t life r" using Cons.prems(2) by auto
  have rest: "\<exists>t. is_settled session committed t ?life r'" if "r' \<in> set runs" for r'
  proof -
    have "rn_runtime r' \<noteq> rn_runtime r" using Cons.prems(1) that by (metis distinct.simps(2) image_eqI list.map(2) set_map)
    then have "ran_key session r' \<noteq> ran_key session r" by (simp add: ran_key_def)
    moreover have "\<exists>t. is_settled session committed t life r'" using Cons.prems(2)[of r'] that by simp
    ultimately show ?thesis by (simp add: is_settled_def settle_attempt_get)
  qed
  have d: "distinct (map rn_runtime runs)" using Cons.prems(1) by simp
  let ?all = "foldl (settle_attempt session committed now) ?life runs"
  note one = untimed_again[OF t, of now] and more = Cons.IH[OF d rest]
  have chain: "y = s\<lparr> lf_attempts := lf_attempts y \<rparr>" if "x = s\<lparr> lf_attempts := lf_attempts x \<rparr>" "y = x\<lparr> lf_attempts := lf_attempts y \<rparr>"
    for x y s :: lifecycle_state
    by (subst that(2), subst that(1)) simp
  have "?all = life\<lparr> lf_attempts := lf_attempts ?all \<rparr>" by (rule chain[OF one(2) conjunct2[OF more]])
  then show ?case using conjunct1[OF more] one(1) by simp
qed simp

lemma terminal_attempts_untimed:
  assumes "map_vals untimed_attempt (lf_attempts life') = map_vals untimed_attempt (lf_attempts life)"
  shows "terminal_attempts session life' r = terminal_attempts session life r"
proof -
  have "length (filter (\<lambda>p. attempt_counts session r (snd p)) m) = length (filter (\<lambda>p. attempt_counts session r (snd p)) (map_vals untimed_attempt m))"
    for m by (induction m) (auto simp: map_vals_def untimed_attempt_def attempt_counts_def)
  then show ?thesis using assms unfolding terminal_attempts_eq by metis
qed

lemma settle_entry_untimed:
  assumes "jm_get current' (rn_runtime r) = Some (settle_entry show committed now terminal current r)"
  shows "untimed_state (settle_entry show committed now' terminal current' r) = untimed_state (settle_entry show committed now terminal current r)"
  using assms by (auto simp: settle_entry_def mirror_setup_done_def resolve_cases Let_def)

lemma settle_entries_untimed:
  assumes "distinct (map rn_runtime runs)"
  shows "map_vals untimed_state (settle_entries show committed now' t runs (jm_merge current (settle_entries show committed now t runs current)))
    = map_vals untimed_state (settle_entries show committed now t runs current)"
proof -
  let ?es = "settle_entries show committed now t runs current"
  have wf: "jm_wf ?es" using assms by (simp add: settle_entries_def comp_def)
  have "jm_get (jm_merge current ?es) (rn_runtime r) = Some (settle_entry show committed now t current r)" if "r \<in> set runs" for r
  proof -
    have "jm_get ?es (rn_runtime r) = Some (settle_entry show committed now t current r)"
      unfolding settle_entries_def by (rule map_of_map_keys[OF assms that])
    then show ?thesis by (simp add: jm_get_merge[OF wf])
  qed
  from settle_entry_untimed[OF this] show ?thesis
    by (simp add: map_vals_def settle_entries_def)
qed

lemma update_states_untimed:
  assumes same: "\<And>current. map_vals untimed_state (entries' (jm_merge current (entries current))) = map_vals untimed_state (entries current)"
    and wf: "\<And>current. jm_wf (entries current)"
    and lens: "\<And>current. entries current \<noteq> []" "\<And>current. entries' current \<noteq> []"
  shows "map_vals untimed_row (cs_sessions (update_setup_runtime_states session now' entries' (update_setup_runtime_states session now entries s)))
    = map_vals untimed_row (cs_sessions (update_setup_runtime_states session now entries s))"
proof (cases "jm_get (cs_sessions s) session")
  case (Some row)
  let ?m = "jm_merge (se_setup row) (entries (se_setup row))"
  have "map_vals untimed_state (jm_merge ?m (entries' ?m)) = map_vals untimed_state ?m"
    using wf same by (simp add: map_vals_merge jm_merge_twice map_vals_wf)
  then have "untimed_row (row\<lparr> se_setup := jm_merge ?m (entries' ?m), se_updated_at := now' \<rparr>)
      = untimed_row (row\<lparr> se_setup := ?m, se_updated_at := now \<rparr>)" by (simp add: untimed_row_def)
  then show ?thesis using Some lens
    by (simp add: update_setup_runtime_states_def Let_def map_vals_set jm_set_same)
qed (simp add: update_setup_runtime_states_def)

lemma without_times_eqI:
  assumes "map_vals untimed_row (cs_sessions a) = map_vals untimed_row (cs_sessions b)"
    and "map_vals untimed_attempt (lf_attempts (cs_life a)) = map_vals untimed_attempt (lf_attempts (cs_life b))"
    and "cs_life a = (cs_life b)\<lparr> lf_attempts := lf_attempts (cs_life a) \<rparr>"
  shows "without_times a = without_times b"
proof -
  have "(cs_life a)\<lparr> lf_attempts := m \<rparr> = (cs_life b)\<lparr> lf_attempts := m \<rparr>" for m
    by (subst assms(3)) simp
  then show ?thesis using assms(1,2) by (simp add: without_times_def)
qed

lemma update_states_sessions:
  "cs_sessions (update_setup_runtime_states session now es (s\<lparr> cs_life := l \<rparr>)) = cs_sessions (update_setup_runtime_states session now es s)"
  by (simp add: update_setup_runtime_states_def Let_def split: option.split)

text \<open>C12: Settling the setup runs of an execution again with the same outcome changes nothing but times: neither the
  attempt ledger nor the session's mirror, apart from the end of an attempt, the time of a block and the update
  time of the row, which take the second time. A finished setup runtime keeps its completion time, and at the
  same time nothing changes at all.\<close>

theorem settle_idempotent:
  assumes "distinct (map rn_runtime runs)"
  shows "without_times (settle_setup_runtimes show session runs committed later
           (settle_setup_runtimes show session runs committed now store))
         = without_times (settle_setup_runtimes show session runs committed now store)
    \<and> settle_setup_runtimes show session runs committed now
           (settle_setup_runtimes show session runs committed now store)
         = settle_setup_runtimes show session runs committed now store"
proof (cases "runs = []")
  case False
  define life where "life = foldl (settle_attempt session committed now) (cs_life store) runs"
  define life2 where "life2 = foldl (settle_attempt session committed later) life runs"
  define terminal where "terminal = foldl (\<lambda>m r. jm_set (rn_runtime r) (terminal_attempts session life r) m) [] runs"
  let ?es = "settle_entries show committed now terminal runs" and ?es' = "settle_entries show committed later terminal runs"
  let ?s = "update_setup_runtime_states session now ?es (store\<lparr> cs_life := life \<rparr>)"
  have settled: "is_settled session committed now life r" if "r \<in> set runs" for r
    using that unfolding life_def by (rule settle_all_settled[OF assms])
  have one: "settle_setup_runtimes show session runs committed now store = ?s"
    unfolding terminal_def by (rule settle_setup_runtimes_eq[OF assms False life_def[symmetric]])
  have wf: "jm_wf (?es c)" "?es c \<noteq> []" "?es' c \<noteq> []" for c
    using assms False by (simp_all add: settle_entries_def comp_def)
  have "foldl (settle_attempt session committed now) (cs_life ?s) runs = life"
    by (simp, rule settle_all_idle) (rule settled)
  then have "settle_setup_runtimes show session runs committed now ?s
      = update_setup_runtime_states session now ?es (?s\<lparr> cs_life := life \<rparr>)"
    unfolding terminal_def by (rule settle_setup_runtimes_eq[OF assms False])
  moreover have "?s\<lparr> cs_life := life \<rparr> = ?s"
    by (rule clock_store.equality) simp_all
  moreover have "update_setup_runtime_states session now ?es ?s = ?s"
    by (rule update_states_again[OF settle_entries_again[OF assms] wf(1)])
  ultimately have same: "settle_setup_runtimes show session runs committed now ?s = ?s" by simp
  have u: "map_vals untimed_attempt (lf_attempts life2) = map_vals untimed_attempt (lf_attempts life)"
    "life2 = life\<lparr> lf_attempts := lf_attempts life2 \<rparr>"
    using untimed_all_again[OF assms, of session committed life later] settled unfolding life2_def by blast+
  have "foldl (\<lambda>m r. jm_set (rn_runtime r) (terminal_attempts session life2 r) m) [] runs = terminal"
    unfolding terminal_def using terminal_attempts_untimed[OF u(1)] by simp
  then have two: "settle_setup_runtimes show session runs committed later ?s
      = update_setup_runtime_states session later ?es' (?s\<lparr> cs_life := life2 \<rparr>)"
    using settle_setup_runtimes_eq[OF assms False, of session committed later ?s life2 "show"] by (simp add: life2_def)
  have "without_times (update_setup_runtime_states session later ?es' (?s\<lparr> cs_life := life2 \<rparr>)) = without_times ?s"
  proof (rule without_times_eqI)
    show "map_vals untimed_row (cs_sessions (update_setup_runtime_states session later ?es' (?s\<lparr> cs_life := life2 \<rparr>)))
        = map_vals untimed_row (cs_sessions ?s)"
      unfolding update_states_sessions[of session later] by (rule update_states_untimed[where entries = ?es and entries' = ?es'])
        (use settle_entries_untimed[OF assms] wf in simp_all)
  qed (use u in simp_all)
  then show ?thesis using one two same by simp
qed (simp add: settle_setup_runtimes_def)

definition sample_run :: "bool \<Rightarrow> attempt_state \<Rightarrow> ran_setup" where
  "sample_run signal state = \<lparr> rn_runtime = ''world'', rn_version = ''1.0.0'', rn_generation = 1, rn_execution = ''e1'',
     rn_started_at = ''t0'', rn_done_signal = signal, rn_ledger_state = state, rn_budget = Some 1, rn_error = None \<rparr>"

definition sample_store :: clock_store where
  "sample_store = \<lparr> cs_sessions = [(''s'', \<lparr> se_phase = SetupPhase, se_turns = 0, se_setup = [], se_updated_at = [] \<rparr>)],
     cs_life = \<lparr> lf_ledger = [], lf_attempts = [], lf_jobs = [] \<rparr> \<rparr>"

lemma settle_idempotent_witness:
  "without_times (settle_setup_runtimes (\<lambda>n. []) ''s'' [sample_run False AtFailed] True ''t2''
     (settle_setup_runtimes (\<lambda>n. []) ''s'' [sample_run False AtFailed] True ''t1'' sample_store))
   = without_times (settle_setup_runtimes (\<lambda>n. []) ''s'' [sample_run False AtFailed] True ''t1'' sample_store)"
  by (rule settle_idempotent[THEN conjunct1]) simp

subsection \<open>Every execution burns its attempt\<close>

lemma settle_fresh_attempt:
  assumes "\<not> jm_has (lf_attempts life) (ran_key session r)"
  shows "lf_attempts (settle_attempt session committed now life r) = lf_attempts life @
    [(ran_key session r, \<lparr> sa_session = session, sa_runtime = rn_runtime r, sa_version = rn_version r,
        sa_generation = rn_generation r, sa_execution = rn_execution r, sa_state = settled_state committed r,
        sa_started_at = rn_started_at r, sa_finished_at = Some now,
        sa_error = truthy (settled_error committed r) \<rparr>)]"
proof -
  have upd: "jm_set k v (m @ [(k, v')]) = m @ [(k, v)]" if "k \<notin> fst ` set m" for k v v' and m :: "(attempt_key, setup_attempt) jmap"
    using that by (induction m) auto
  have new: "ran_key session r \<notin> fst ` set (lf_attempts life)" using assms by simp
  have none: "map_of (lf_attempts life) (ran_key session r) = None" using new by (simp add: map_of_eq_None_iff)
  show ?thesis
    using new none by (simp add: settle_attempt_def insert_setup_attempt_def attempt_key_of_def update_setup_attempt_def
        ran_key_def[symmetric] Let_def jm_set_snoc upd map_add_def split: option.split)
qed

text \<open>The first settlement of an execution burns exactly one attempt of its generation when the
  run ended, whether its commit succeeded or rolled back, and none when it waits suspended.\<close>

lemma settlement_burns_one_attempt:
  assumes "\<not> jm_has (lf_attempts life) (ran_key session r)" and "rn_ledger_state r \<noteq> AtStarted"
  shows "terminal_attempts session (settle_attempt session committed now life r) r =
    terminal_attempts session life r + (if rn_ledger_state r = AtSuspended \<and> committed then 0 else 1)"
proof -
  have "is_budgeted_attempt (settled_state committed r) \<longleftrightarrow> \<not> (rn_ledger_state r = AtSuspended \<and> committed)"
    using assms(2) by (cases "rn_ledger_state r") (auto simp: settled_state_def rolled_back_def is_budgeted_attempt_def)
  then show ?thesis
    unfolding terminal_attempts_eq settle_fresh_attempt[OF assms(1)] by (simp add: attempt_counts_def)
qed

text \<open>A settled runtime is blocked exactly when it did not complete, is not a saved suspension,
  and its generation's ended attempts have reached the retry budget.\<close>

lemma settle_blocks_iff_exhausted:
  "(\<exists>v g a why since e. settle_entry show committed now terminal current r = StBlocked v g a why since e) \<longleftrightarrow>
     \<not> (rn_done_signal r \<and> committed) \<and> \<not> (rn_ledger_state r = AtSuspended \<and> committed)
     \<and> (\<exists>b. rn_budget r = Some b \<and> b \<le> or_else (jm_get terminal (rn_runtime r)) 0)"
  by (auto simp: settle_entry_def mirror_setup_done_def resolve_cases Let_def)

subsection \<open>The session clock\<close>

definition counted_turn :: "exec_context \<Rightarrow> string option" where
  "counted_turn ctx = (if ec_policy ctx = CompletePlayerTurn then truthy (ec_logical_turn ctx) else None)"

lemma count_turn_eq:
  "count_turn session ctx now turns life =
     (case counted_turn ctx of
        None \<Rightarrow> (turns, life)
      | Some turn \<Rightarrow>
          if jm_has (lf_ledger life) (session, turn) then (turns, life)
          else (turns + 1, life\<lparr> lf_ledger := jm_set (session, turn) \<lparr> lr_session = session, lr_logical_turn = turn,
                  lr_execution = ec_execution ctx, lr_completed_at = now \<rparr> (lf_ledger life) \<rparr>))"
  by (auto simp: count_turn_def counted_turn_def insert_logical_turn_def ledger_key_of_def Let_def split: option.split)

definition ledger_turns :: "string \<Rightarrow> clock_store \<Rightarrow> string set" where
  "ledger_turns session store = {turn. (session, turn) \<in> fst ` set (lf_ledger (cs_life store))}"

lemma finite_ledger_turns [simp]: "finite (ledger_turns session store)"
proof -
  have "ledger_turns session store = snd ` {k \<in> fst ` set (lf_ledger (cs_life store)). fst k = session}"
    by (force simp: ledger_turns_def)
  then show ?thesis by simp
qed

lemma apply_clock_step:
  assumes "jm_get (cs_sessions store) session = Some row"
  shows "\<exists>row'. jm_get (cs_sessions (apply_session_clock session ctx upd store)) session = Some row'
    \<and> se_turns row' = se_turns row + (case counted_turn ctx of Some turn \<Rightarrow>
          if turn \<in> ledger_turns session store then 0 else 1 | None \<Rightarrow> 0)
    \<and> ledger_turns session (apply_session_clock session ctx upd store)
        = ledger_turns session store \<union> set_option (counted_turn ctx)
    \<and> (se_phase row = PlayingPhase \<longrightarrow> se_phase row' = PlayingPhase)"
  using assms by (auto simp: apply_session_clock_def count_turn_eq ledger_turns_def Let_def split: option.split prod.split)

text \<open>C13: however often and in whatever order the executions of a session are finalized, each logical
  turn adds one to the completed player turns at most once, and a playing session stays playing.\<close>

theorem logical_turns_counted_once:
  fixes runs :: "(exec_context \<times> clock_update) list"
  assumes "jm_get (cs_sessions store) session = Some row"
  defines "final \<equiv> foldl (\<lambda>s (ctx, upd). apply_session_clock session ctx upd s) store runs"
  shows "\<exists>row'. jm_get (cs_sessions final) session = Some row'
    \<and> se_turns row' = se_turns row
        + int (card ((\<Union>(ctx, upd)\<in>set runs. set_option (counted_turn ctx)) - ledger_turns session store))
    \<and> (se_phase row = PlayingPhase \<longrightarrow> se_phase row' = PlayingPhase)"
  using assms(1) unfolding final_def
proof (induction runs arbitrary: store row)
  case (Cons x runs)
  obtain ctx upd where x: "x = (ctx, upd)" by (cases x)
  let ?s = "apply_session_clock session ctx upd store"
  let ?rest = "\<Union>(ctx, upd)\<in>set runs. set_option (counted_turn ctx)"
  obtain row1 where r1: "jm_get (cs_sessions ?s) session = Some row1"
      "se_turns row1 = se_turns row + (case counted_turn ctx of Some turn \<Rightarrow>
          if turn \<in> ledger_turns session store then 0 else 1 | None \<Rightarrow> 0)"
      "ledger_turns session ?s = ledger_turns session store \<union> set_option (counted_turn ctx)"
      "se_phase row = PlayingPhase \<longrightarrow> se_phase row1 = PlayingPhase"
    using apply_clock_step[OF Cons.prems, of ctx upd] by blast
  have fin: "finite ?rest" by (auto split: prod.split)
  have "int (card ((set_option (counted_turn ctx) \<union> ?rest) - ledger_turns session store))
      = (case counted_turn ctx of Some turn \<Rightarrow> if turn \<in> ledger_turns session store then 0 else 1 | None \<Rightarrow> 0)
        + int (card (?rest - ledger_turns session ?s))"
  proof (cases "counted_turn ctx")
    case (Some turn)
    show ?thesis
    proof (cases "turn \<in> ledger_turns session store")
      case True
      then show ?thesis using r1(3) Some by (simp add: insert_absorb)
    next
      case False
      have "(set_option (counted_turn ctx) \<union> ?rest) - ledger_turns session store
          = insert turn (?rest - (ledger_turns session store \<union> {turn}))" using Some False by auto
      then show ?thesis using r1(3) Some False fin by simp
    qed
  qed (use r1(3) in simp)
  then show ?case using Cons.IH[OF r1(1)] r1(2,4) x by auto
qed simp

definition sample_turn :: "string \<Rightarrow> exec_context \<times> clock_update" where
  "sample_turn e = (\<lparr> ec_execution = e, ec_logical_turn = Some ''turn-1'', ec_policy = CompletePlayerTurn \<rparr>,
     \<lparr> cu_now = ''t1'', cu_completion = None \<rparr>)"

lemma logical_turns_counted_once_witness:
  "\<exists>row'. jm_get (cs_sessions (foldl (\<lambda>s (ctx, upd). apply_session_clock ''s'' ctx upd s) sample_store
       [sample_turn ''e1'', sample_turn ''e2''])) ''s'' = Some row' \<and> se_turns row' = 1"
proof -
  have row: "jm_get (cs_sessions sample_store) ''s'' =
      Some \<lparr> se_phase = SetupPhase, se_turns = 0, se_setup = [], se_updated_at = [] \<rparr>"
    by (simp add: sample_store_def)
  have "(\<Union>(ctx, upd)\<in>set [sample_turn ''e1'', sample_turn ''e2'']. set_option (counted_turn ctx)) = {''turn-1''}"
    "ledger_turns ''s'' sample_store = {}"
    by (simp_all add: sample_turn_def counted_turn_def ledger_turns_def sample_store_def)
  then show ?thesis
    using logical_turns_counted_once[OF row, of "[sample_turn ''e1'', sample_turn ''e2'']"] by simp
qed

end
