(* ===== verification/RingBuffer.thy ===== *)
theory RingBuffer
  imports Prelude
begin

text \<open>
  The fixed-capacity FIFO ring of the event bus (\<open>packages/events/src/ring-buffer.ts\<close>) and the
  contract its client relies on: a bounded queue that drops its oldest entry. The locale states the
  contract, the ring provides it.
\<close>

subsection \<open>The ring\<close>

record 'a ring =
  rb_capacity :: nat
  rb_items :: "'a option list"
  rb_head :: nat
  rb_count :: nat

text \<open>The constructor throws (\<open>None\<close>) unless the capacity is a positive integer.\<close>

definition new_ring :: "int \<Rightarrow> 'a ring option" where
  "new_ring capacity =
     (if capacity \<le> 0 then None
      else Some \<lparr> rb_capacity = nat capacity, rb_items = replicate (nat capacity) None, rb_head = 0, rb_count = 0 \<rparr>)"

definition ring_push :: "'a \<Rightarrow> 'a ring \<Rightarrow> 'a option \<times> 'a ring" where
  "ring_push item r =
     (let evicted = (if rb_count r = rb_capacity r then rb_items r ! rb_head r else None);
          r' = r\<lparr> rb_items := (rb_items r)[(rb_head r + rb_count r) mod rb_capacity r := Some item] \<rparr>
      in (evicted,
          if rb_count r < rb_capacity r then r'\<lparr> rb_count := rb_count r + 1 \<rparr>
          else r'\<lparr> rb_head := (rb_head r + 1) mod rb_capacity r \<rparr>))"

definition ring_slots :: "'a ring \<Rightarrow> 'a option list" where
  "ring_slots r = map (\<lambda>i. rb_items r ! ((rb_head r + i) mod rb_capacity r)) [0 ..< rb_count r]"

definition ring_to_array :: "'a ring \<Rightarrow> 'a list" where
  "ring_to_array r = map the (ring_slots r)"

definition ring_wf :: "'a ring \<Rightarrow> bool" where
  "ring_wf r \<longleftrightarrow> 0 < rb_capacity r \<and> length (rb_items r) = rb_capacity r \<and> rb_head r < rb_capacity r
     \<and> rb_count r \<le> rb_capacity r \<and> None \<notin> set (ring_slots r)"

subsection \<open>A bounded log\<close>

definition bounded_append :: "nat \<Rightarrow> 'a list \<Rightarrow> 'a \<Rightarrow> 'a list" where
  "bounded_append cap xs x = (if length xs < cap then xs @ [x] else tl xs @ [x])"

locale replay_log =
  fixes good :: "'b \<Rightarrow> bool" and capacity :: "'b \<Rightarrow> nat"
    and push :: "'a \<Rightarrow> 'b \<Rightarrow> 'a option \<times> 'b" and contents :: "'b \<Rightarrow> 'a list"
  assumes capacity_pos: "good b \<Longrightarrow> 0 < capacity b"
    and contents_le: "good b \<Longrightarrow> length (contents b) \<le> capacity b"
    and push_good: "good b \<Longrightarrow> good (snd (push x b)) \<and> capacity (snd (push x b)) = capacity b"
    and push_contents: "good b \<Longrightarrow> contents (snd (push x b)) = bounded_append (capacity b) (contents b) x"
    and push_evicted: "good b \<Longrightarrow>
      fst (push x b) = (if length (contents b) < capacity b then None else Some (hd (contents b)))"
begin

definition push_all :: "'a list \<Rightarrow> 'b \<Rightarrow> 'b" where
  "push_all xs b = foldl (\<lambda>b x. snd (push x b)) b xs"

lemma push_all_good: "good b \<Longrightarrow> good (push_all xs b) \<and> capacity (push_all xs b) = capacity b"
  unfolding push_all_def using push_good by (induction xs rule: rev_induct) auto

text \<open>The log holds the last \<open>capacity\<close> entries of everything ever pushed.\<close>

lemma push_last:
  assumes "good b" "contents b = drop (length all - capacity b) all"
  shows "contents (snd (push x b)) = drop (length (all @ [x]) - capacity b) (all @ [x])"
proof (cases "length all < capacity b")
  case True
  then show ?thesis using push_contents[OF assms(1)] assms(2) by (simp add: bounded_append_def)
next
  case False
  then have "length (contents b) = capacity b" using assms(2) by simp
  moreover have "drop (Suc (length all) - capacity b) all = tl (drop (length all - capacity b) all)"
    using False by (simp add: Suc_diff_le drop_Suc tl_drop)
  ultimately show ?thesis using push_contents[OF assms(1), of x] assms(2) False capacity_pos[OF assms(1)]
    by (simp add: bounded_append_def Suc_diff_le)
qed

lemma push_all_last:
  "good b \<Longrightarrow> contents b = [] \<Longrightarrow> contents (push_all xs b) = drop (length xs - capacity b) xs"
proof (induction xs rule: rev_induct)
  case (snoc x xs)
  have step: "push_all (xs @ [x]) b = snd (push x (push_all xs b))" by (simp add: push_all_def)
  show ?case
    unfolding step using push_last[of "push_all xs b" xs x] push_all_good[OF snoc.prems(1), of xs] snoc by simp
qed (simp add: push_all_def)

text \<open>The entry a push evicts is the one just before the entries that stay.\<close>

lemma push_evicts_next:
  assumes "good b" "contents b = drop (length all - capacity b) all"
  shows "fst (push x b) = (if length all < capacity b then None else Some (all ! (length all - capacity b)))"
proof (cases "length all < capacity b")
  case True
  then show ?thesis using push_evicted[OF assms(1)] assms(2) by simp
next
  case False
  then have "hd (contents b) = all ! (length all - capacity b)"
    unfolding assms(2) using capacity_pos[OF assms(1)] by (simp add: hd_drop_conv_nth)
  then show ?thesis using False push_evicted[OF assms(1)] assms(2) by simp
qed

end

subsection \<open>The ring is a bounded log\<close>

lemma ring_slots_push:
  assumes "ring_wf r"
  shows "ring_slots (snd (ring_push x r)) = bounded_append (rb_capacity r) (ring_slots r) (Some x)"
proof (cases "rb_count r < rb_capacity r")
  case True
  have ne: "(rb_head r + i) mod rb_capacity r \<noteq> (rb_head r + rb_count r) mod rb_capacity r" if "i < rb_count r" for i
  proof
    assume eq: "(rb_head r + i) mod rb_capacity r = (rb_head r + rb_count r) mod rb_capacity r"
    then have "rb_capacity r dvd (rb_head r + rb_count r) - (rb_head r + i)"
      using that by (metis add_le_cancel_left less_imp_le mod_eq_dvd_iff_nat)
    then show False using that True by (auto dest!: dvd_imp_le)
  qed
  have len: "(rb_head r + rb_count r) mod rb_capacity r < length (rb_items r)"
    using assms by (auto simp: ring_wf_def)
  show ?thesis
    using True ne ne[symmetric] len by (auto simp: ring_push_def ring_slots_def bounded_append_def Let_def nth_list_update)
next
  case False
  then have full: "rb_count r = rb_capacity r" "0 < rb_capacity r" "rb_head r < rb_capacity r"
      "length (rb_items r) = rb_capacity r" using assms by (auto simp: ring_wf_def)
  let ?n = "rb_capacity r"
  have slot: "(rb_head r + ?n) mod ?n = rb_head r" using full by simp
  have shift: "((rb_head r + 1) mod ?n + i) mod ?n = (rb_head r + Suc i) mod ?n" for i
    by (simp add: mod_add_left_eq)
  have ne: "(rb_head r + Suc i) mod ?n \<noteq> rb_head r" if "Suc i < ?n" for i
  proof
    assume "(rb_head r + Suc i) mod ?n = rb_head r"
    then have "(rb_head r + Suc i) mod ?n = (rb_head r + 0) mod ?n" using full by simp
    then have "?n dvd (rb_head r + Suc i) - (rb_head r + 0)" by (metis le_add1 add_0_right mod_eq_dvd_iff_nat)
    then show False using that by (auto dest!: dvd_imp_le)
  qed
  obtain m where m: "?n = Suc m" using full by (cases ?n) auto
  have "ring_slots (snd (ring_push x r)) =
      map (\<lambda>i. ((rb_items r)[rb_head r := Some x]) ! ((rb_head r + Suc i) mod ?n)) [0 ..< ?n]"
    using full slot shift by (simp add: ring_push_def ring_slots_def Let_def)
  also have "\<dots> = map (\<lambda>i. rb_items r ! ((rb_head r + Suc i) mod ?n)) [0 ..< m] @ [Some x]"
    using m ne ne[symmetric] full slot by (auto simp: nth_list_update)
  also have "map (\<lambda>i. rb_items r ! ((rb_head r + Suc i) mod ?n)) [0 ..< m] = tl (ring_slots r)"
    unfolding ring_slots_def full(1) m by (simp add: map_tl[symmetric] upt_rec[of 0] map_Suc_upt[symmetric] del: upt_Suc)
  finally show ?thesis using full by (simp add: bounded_append_def ring_slots_def)
qed

lemma ring_push_wf: "ring_wf r \<Longrightarrow> ring_wf (snd (ring_push x r)) \<and> rb_capacity (snd (ring_push x r)) = rb_capacity r"
proof -
  assume wf: "ring_wf r"
  have "None \<notin> set (bounded_append (rb_capacity r) (ring_slots r) (Some x))"
    using wf by (auto simp: ring_wf_def bounded_append_def dest: list.set_sel(2) split: if_splits)
      (metis list.sel(2) list.set_sel(2) list.set_cases)
  then have "None \<notin> set (ring_slots (snd (ring_push x r)))" by (simp add: ring_slots_push[OF wf])
  then show ?thesis
    using wf by (auto simp: ring_wf_def ring_push_def Let_def)
qed

lemma length_ring_slots [simp]: "length (ring_slots r) = rb_count r"
  by (simp add: ring_slots_def)

lemma map_the_append: "map the (bounded_append n xs (Some x)) = bounded_append n (map the xs) x"
  by (simp add: bounded_append_def map_tl)

interpretation ring: replay_log ring_wf rb_capacity ring_push ring_to_array
proof
  fix r :: "'a ring" and x
  assume wf: "ring_wf r"
  show "0 < rb_capacity r" "length (ring_to_array r) \<le> rb_capacity r"
    using wf by (auto simp: ring_wf_def ring_to_array_def)
  show "ring_wf (snd (ring_push x r)) \<and> rb_capacity (snd (ring_push x r)) = rb_capacity r"
    by (rule ring_push_wf[OF wf])
  show "ring_to_array (snd (ring_push x r)) = bounded_append (rb_capacity r) (ring_to_array r) x"
    by (simp add: ring_to_array_def ring_slots_push[OF wf] map_the_append)
  show "fst (ring_push x r) = (if length (ring_to_array r) < rb_capacity r then None else Some (hd (ring_to_array r)))"
  proof (cases "rb_count r < rb_capacity r")
    case True
    then show ?thesis by (simp add: ring_push_def ring_to_array_def Let_def)
  next
    case False
    then have full: "rb_count r = rb_capacity r" "0 < rb_count r" "rb_head r < rb_capacity r"
      using wf by (auto simp: ring_wf_def)
    then have hd: "hd (ring_slots r) = rb_items r ! rb_head r" "ring_slots r \<noteq> []"
      by (auto simp: ring_slots_def hd_map upt_rec)
    then have "rb_items r ! rb_head r \<noteq> None"
      using wf by (metis hd_in_set ring_wf_def)
    then show ?thesis using full hd by (simp add: ring_push_def ring_to_array_def hd_map Let_def)
  qed
qed

lemma new_ring_facts:
  assumes "new_ring capacity = Some r"
  shows "ring_wf r \<and> ring_to_array r = [] \<and> int (rb_capacity r) = capacity"
  using assms by (auto simp: new_ring_def ring_wf_def ring_to_array_def ring_slots_def split: if_splits)

text \<open>After any pushes, the ring holds exactly the last pushed items, as many as its capacity, oldest first.\<close>

lemma ring_holds_last_items:
  assumes "new_ring capacity = Some r"
  shows "ring_to_array (foldl (\<lambda>r x. snd (ring_push x r)) r xs) = drop (length xs - nat capacity) xs"
proof -
  have "nat capacity = rb_capacity r" using new_ring_facts[OF assms] by auto
  then show ?thesis using ring.push_all_last[of r xs] new_ring_facts[OF assms] by (simp add: ring.push_all_def)
qed

end
