(* ===== verification/Digits.thy ===== *)
theory Digits
  imports Prelude
begin

text \<open>
  Decimal text of natural numbers, as template literals print integers, and the text around the last
  colon of an identifier of the form \<open>epoch:seq\<close>.
\<close>

fun show_nat :: "nat \<Rightarrow> string" where
  "show_nat n = (if n < 10 then [char_of (48 + n)] else show_nat (n div 10) @ [char_of (48 + n mod 10)])"

declare show_nat.simps [simp del]

definition is_digit :: "char \<Rightarrow> bool" where
  "is_digit c = (48 \<le> (of_char c :: nat) \<and> (of_char c :: nat) \<le> 57)"

text \<open>\<open>Number\<close> on a text of decimal digits; \<open>None\<close> for any other text.\<close>

definition read_nat :: "string \<Rightarrow> nat option" where
  "read_nat s = (if s \<noteq> [] \<and> list_all is_digit s
     then Some (foldl (\<lambda>acc c. acc * 10 + (of_char c - 48)) 0 s) else None)"

lemma digit_char: "n < 10 \<Longrightarrow> is_digit (char_of (48 + n)) \<and> (of_char (char_of (48 + n) :: char) :: nat) = 48 + n"
  by (simp add: is_digit_def of_char_of)

lemma digit_char_sub: "n < 10 \<Longrightarrow> (of_char (char_of (48 + n) :: char) :: nat) - 48 = n"
  using digit_char[of n] by simp

lemma show_nat_digits: "show_nat n \<noteq> [] \<and> list_all is_digit (show_nat n)"
proof (induction n rule: show_nat.induct)
  case (1 n)
  show ?case
  proof (cases "n < 10")
    case True
    then show ?thesis using digit_char[of n] by (subst (1 2) show_nat.simps) simp
  next
    case False
    then show ?thesis using 1 digit_char[of "n mod 10"] by (subst (1 2) show_nat.simps) simp
  qed
qed

lemma read_show_fold: "foldl (\<lambda>acc c. acc * 10 + (of_char c - 48)) 0 (show_nat n) = n"
proof (induction n rule: show_nat.induct)
  case (1 n)
  show ?case
  proof (cases "n < 10")
    case True
    then show ?thesis using digit_char_sub[of n] by (subst show_nat.simps) simp
  next
    case False
    then show ?thesis using 1 digit_char_sub[of "n mod 10"] by (subst show_nat.simps) simp
  qed
qed

lemma read_show [simp]: "read_nat (show_nat n) = Some n"
  using show_nat_digits[of n] read_show_fold[of n] by (simp add: read_nat_def)

lemma show_nat_inject [simp]: "show_nat m = show_nat n \<longleftrightarrow> m = n"
  by (metis option.inject read_show)

lemma show_nat_no_char: "\<not> is_digit c \<Longrightarrow> c \<notin> set (show_nat n)"
  using show_nat_digits[of n] by (auto simp: list_all_iff)

subsection \<open>Text around the last colon\<close>

definition after_last_colon :: "string \<Rightarrow> string" where
  "after_last_colon s = rev (takeWhile (\<lambda>c. c \<noteq> CHR '':'') (rev s))"

definition before_last_colon :: "string \<Rightarrow> string" where
  "before_last_colon s = rev (tl (dropWhile (\<lambda>c. c \<noteq> CHR '':'') (rev s)))"

lemma take_to_colon: "CHR '':'' \<notin> set t \<Longrightarrow> takeWhile (\<lambda>c. c \<noteq> CHR '':'') (t @ CHR '':'' # s) = t"
  by (induction t) auto

lemma drop_to_colon: "CHR '':'' \<notin> set t \<Longrightarrow> dropWhile (\<lambda>c. c \<noteq> CHR '':'') (t @ CHR '':'' # s) = CHR '':'' # s"
  by (induction t) auto

lemma last_colon:
  assumes "CHR '':'' \<notin> set t"
  shows "after_last_colon (s @ '':'' @ t) = t" "before_last_colon (s @ '':'' @ t) = s"
  using assms take_to_colon[of "rev t" "rev s"] drop_to_colon[of "rev t" "rev s"]
  by (simp_all add: after_last_colon_def before_last_colon_def)

lemma colon_not_digit: "CHR '':'' \<notin> set (show_nat n)"
  by (rule show_nat_no_char) (simp add: is_digit_def)

end
