(* ===== verification/EventReplay.thy ===== *)
theory EventReplay
  imports RingBuffer Digits Results
begin

text \<open>
  The replay half of the event bus (\<open>packages/events/src/event-bus.ts\<close>): the session states in
  least-recently-touched order, their epochs and sequence numbers, the ring of retained events,
  eviction and pins, and the replay query. What the subscribers of the bus see is a list of outputs.

  Times are milliseconds. An event keeps the declared fields of \<open>SubscriptionEvent\<close>; the fields a
  remote frame does not validate are JSON values that may be absent.
\<close>

subsection \<open>Events\<close>

record sub_event =
  ev_id :: string
  ev_topic :: string
  ev_type :: string
  ev_session :: string
  ev_incarnation :: "json option"
  ev_timestamp :: "json option"
  ev_payload :: "json option"

datatype reset_reason = TransportGap | PublishFailed

datatype bus_output = Broadcast sub_event | ResetSignal "string option" reset_reason

definition ring_buffer_max :: int where "ring_buffer_max = 1000"
definition max_tracked_sessions :: nat where "max_tracked_sessions = 256"
definition session_idle_ttl_ms :: int where "session_idle_ttl_ms = 30 * 60000"

definition event_id :: "string \<Rightarrow> nat \<Rightarrow> string" where
  "event_id epoch n = epoch @ '':'' @ show_nat n"

text \<open>The number after the last colon of an event id; \<open>None\<close> is NaN.\<close>

definition event_seq :: "sub_event \<Rightarrow> nat option" where
  "event_seq e = read_nat (after_last_colon (ev_id e))"

definition event_epoch :: "sub_event \<Rightarrow> string" where
  "event_epoch e = before_last_colon (ev_id e)"

definition js_truthy :: "json option \<Rightarrow> bool" where
  "js_truthy v = (case v of None \<Rightarrow> False | Some JNull \<Rightarrow> False | Some (JBool b) \<Rightarrow> b | Some (JNum q) \<Rightarrow> q \<noteq> 0
     | Some (JStr s) \<Rightarrow> s \<noteq> [] | Some _ \<Rightarrow> True)"

definition string_or :: "json option \<Rightarrow> string \<Rightarrow> string" where
  "string_or v d = (case v of Some (JStr s) \<Rightarrow> s | _ \<Rightarrow> d)"

definition build_subscription_event ::
  "string \<Rightarrow> string \<Rightarrow> (string \<times> json) list \<Rightarrow> string \<Rightarrow> json option \<Rightarrow> string \<Rightarrow> nat \<Rightarrow> sub_event" where
  "build_subscription_event session_id topic raw timestamp incarnation epoch seq =
     (let sub_topic = string_or (map_of raw ''_subTopic'') topic;
          sub_type = string_or (map_of raw ''_subType'') topic;
          clean = filter (\<lambda>(k, _). k \<noteq> ''_subTopic'' \<and> k \<noteq> ''_subType'') raw
      in \<lparr> ev_id = event_id epoch seq, ev_topic = sub_topic, ev_type = sub_type, ev_session = session_id,
           ev_incarnation = (if js_truthy incarnation then incarnation else None),
           ev_timestamp = Some (JStr timestamp),
           ev_payload = Some (JObj (if sub_type = ''session.invalidated'' then [] else clean)) \<rparr>)"

subsection \<open>Session states\<close>

text \<open>
  \<open>ss_floor\<close> is the number of the newest event the ring has dropped. \<open>ss_object\<close> is the identity of
  the state object: a state that replaces an evicted one is another object.
\<close>

record session_state =
  ss_seq :: nat
  ss_floor :: "nat option"
  ss_tseq :: nat
  ss_epoch :: string
  ss_pins :: int
  ss_buffer :: "sub_event ring"
  ss_touched :: int
  ss_object :: nat

record replay =
  rp_sessions :: "(string, session_state) jmap"
  rp_prefix :: string
  rp_generation :: nat
  rp_outputs :: "bus_output list"

definition epoch_name :: "string \<Rightarrow> nat \<Rightarrow> string" where
  "epoch_name boot n = boot @ ''-'' @ show_nat n"

definition next_epoch :: "replay \<Rightarrow> string \<times> replay" where
  "next_epoch r = (epoch_name (rp_prefix r) (rp_generation r + 1), r\<lparr> rp_generation := rp_generation r + 1 \<rparr>)"

definition fresh_buffer :: "sub_event ring" where
  "fresh_buffer = the (new_ring ring_buffer_max)"

definition new_state :: "string \<Rightarrow> nat \<Rightarrow> int \<Rightarrow> session_state" where
  "new_state epoch obj now = \<lparr> ss_seq = 0, ss_floor = Some 0, ss_tseq = 0, ss_epoch = epoch, ss_pins = 0,
     ss_buffer = fresh_buffer, ss_touched = now, ss_object = obj \<rparr>"

text \<open>The sweep of idle sessions stops at the first unpinned one that is still fresh.\<close>

fun sweep_idle :: "int \<Rightarrow> (string, session_state) jmap \<Rightarrow> (string, session_state) jmap" where
  "sweep_idle now [] = []"
| "sweep_idle now ((sid, st) # m) =
     (if 0 < ss_pins st then (sid, st) # sweep_idle now m
      else if now - ss_touched st \<le> session_idle_ttl_ms then (sid, st) # m
      else sweep_idle now m)"

text \<open>The eviction over the cap; the first argument is the current number of sessions.\<close>

fun evict_over :: "nat \<Rightarrow> (string, session_state) jmap \<Rightarrow> (string, session_state) jmap" where
  "evict_over n [] = []"
| "evict_over n ((sid, st) # m) =
     (if n \<le> max_tracked_sessions then (sid, st) # m
      else if 0 < ss_pins st then (sid, st) # evict_over n m
      else evict_over (n - 1) m)"

definition touch_session :: "string \<Rightarrow> bool \<Rightarrow> int \<Rightarrow> replay \<Rightarrow> session_state \<times> replay" where
  "touch_session sid pin now r =
     (let swept = sweep_idle now (rp_sessions r);
          (st, r1) = (case jm_get swept sid of
             Some st \<Rightarrow> (st, r)
           | None \<Rightarrow> (let (epoch, r') = next_epoch r in (new_state epoch (rp_generation r') now, r')));
          st' = st\<lparr> ss_touched := now, ss_pins := (if pin then ss_pins st + 1 else ss_pins st) \<rparr>;
          m = jm_set sid st' (jm_delete sid swept)
      in (st', r1\<lparr> rp_sessions := evict_over (length m) m \<rparr>))"

text \<open>
  A caller mutates the state object it was handed. The map sees the change only when that object is
  still tracked: an eviction may have detached it.
\<close>

definition put_state :: "string \<Rightarrow> session_state \<Rightarrow> replay \<Rightarrow> replay" where
  "put_state sid st r = (if jm_has (rp_sessions r) sid then r\<lparr> rp_sessions := jm_set sid st (rp_sessions r) \<rparr> else r)"

definition add_output :: "bus_output \<Rightarrow> replay \<Rightarrow> replay" where
  "add_output out r = r\<lparr> rp_outputs := rp_outputs r @ [out] \<rparr>"

definition retain :: "sub_event \<Rightarrow> session_state \<Rightarrow> session_state" where
  "retain e st = (if ev_topic e = ''trace'' then st
     else (let (evicted, buf) = ring_push e (ss_buffer st);
               st' = st\<lparr> ss_buffer := buf \<rparr>
           in case evicted of None \<Rightarrow> st' | Some old \<Rightarrow> st'\<lparr> ss_floor := event_seq old \<rparr>))"

text \<open>
  Assigning the next number of a session to an event, keeping it for replay and handing it to the
  subscribers: the lines that \<open>emit\<close>, \<open>deliverRemote\<close> and \<open>deliverFrame\<close> share. The event is a
  function of the epoch and the number it gets.
\<close>

definition issue_event ::
  "string \<Rightarrow> (string \<Rightarrow> nat \<Rightarrow> sub_event) \<Rightarrow> int \<Rightarrow> replay \<Rightarrow> session_state \<times> sub_event \<times> replay" where
  "issue_event sid mk now r =
     (let (st, r1) = touch_session sid False now r;
          st1 = st\<lparr> ss_seq := ss_seq st + 1 \<rparr>;
          e = mk (ss_epoch st1) (ss_seq st1);
          st2 = retain e st1
      in (st2, e, add_output (Broadcast e) (put_state sid st2 r1)))"

definition deliver_remote :: "sub_event \<Rightarrow> int \<Rightarrow> replay \<Rightarrow> replay" where
  "deliver_remote remote now r =
     snd (snd (issue_event (ev_session remote) (\<lambda>epoch n. remote\<lparr> ev_id := event_id epoch n \<rparr>) now r))"

definition invalidate_replay :: "string \<Rightarrow> reset_reason \<Rightarrow> bool \<Rightarrow> int \<Rightarrow> replay \<Rightarrow> replay" where
  "invalidate_replay sid reason announce now r =
     (let (st, r1) = touch_session sid False now r;
          (epoch, r2) = next_epoch r1;
          st' = st\<lparr> ss_seq := 0, ss_tseq := 0, ss_epoch := epoch, ss_buffer := fresh_buffer, ss_floor := Some 0 \<rparr>;
          r3 = put_state sid st' r2
      in if announce then add_output (ResetSignal (Some sid) reason) r3 else r3)"

definition head_cursor :: "string \<Rightarrow> int \<Rightarrow> replay \<Rightarrow> string \<times> replay" where
  "head_cursor sid now r =
     (let (st, r') = touch_session sid False now r in (event_id (ss_epoch st) (ss_seq st), r'))"

record event_replay =
  er_events :: "sub_event list"
  er_gap :: bool
  er_epoch :: "string option"
  er_oldest :: "nat option"
  er_latest :: nat

text \<open>A comparison with NaN is false.\<close>

definition seq_above :: "int \<Rightarrow> sub_event \<Rightarrow> bool" where
  "seq_above after e = (case event_seq e of None \<Rightarrow> False | Some n \<Rightarrow> after < int n)"

definition get_events_after :: "string \<Rightarrow> int \<Rightarrow> int \<Rightarrow> replay \<Rightarrow> event_replay \<times> replay" where
  "get_events_after sid after now r = (case jm_get (rp_sessions r) sid of
     None \<Rightarrow> (\<lparr> er_events = [], er_gap = True, er_epoch = None, er_oldest = Some 0, er_latest = 0 \<rparr>, r)
   | Some st \<Rightarrow>
      (let retained = ring_to_array (ss_buffer st);
           gap = (int (ss_seq st) < after \<or> (case ss_floor st of None \<Rightarrow> False | Some f \<Rightarrow> after < int f))
       in (\<lparr> er_events = filter (seq_above after) retained, er_gap = gap, er_epoch = Some (ss_epoch st),
             er_oldest = (if retained = [] then Some 0 else event_seq (hd retained)), er_latest = ss_seq st \<rparr>,
           r\<lparr> rp_sessions := jm_set sid (st\<lparr> ss_touched := now \<rparr>) (jm_delete sid (rp_sessions r)) \<rparr>)))"

text \<open>A pin handle holds the state object it was taken on; a release acts on that object.\<close>

record session_pin =
  sp_session :: string
  sp_object :: nat
  sp_epoch :: string
  sp_released :: bool

definition pin_session :: "string \<Rightarrow> int \<Rightarrow> replay \<Rightarrow> session_pin \<times> replay" where
  "pin_session sid now r =
     (let (st, r') = touch_session sid True now r
      in (\<lparr> sp_session = sid, sp_object = ss_object st, sp_epoch = ss_epoch st, sp_released = False \<rparr>, r'))"

definition release_pin :: "session_pin \<Rightarrow> int \<Rightarrow> replay \<Rightarrow> session_pin \<times> replay" where
  "release_pin h now r = (if sp_released h then (h, r)
     else (h\<lparr> sp_released := True \<rparr>, (case jm_get (rp_sessions r) (sp_session h) of
       None \<Rightarrow> r
     | Some st \<Rightarrow> if ss_object st = sp_object h
         then put_state (sp_session h) (st\<lparr> ss_pins := ss_pins st - 1, ss_touched := now \<rparr>) r else r)))"

subsection \<open>What the outputs say about an epoch\<close>

definition broadcasts :: "bus_output list \<Rightarrow> sub_event list" where
  "broadcasts outs = concat (map (\<lambda>x. case x of Broadcast e \<Rightarrow> [e] | ResetSignal s c \<Rightarrow> []) outs)"

lemma broadcasts_simps [simp]:
  "broadcasts [] = []" "broadcasts (xs @ ys) = broadcasts xs @ broadcasts ys"
  "broadcasts [Broadcast e] = [e]" "broadcasts [ResetSignal s c] = []"
  by (simp_all add: broadcasts_def)

definition history :: "replay \<Rightarrow> string \<Rightarrow> string \<Rightarrow> sub_event list" where
  "history r sid epoch = filter (\<lambda>e. ev_session e = sid \<and> event_epoch e = epoch) (broadcasts (rp_outputs r))"

definition stored :: "replay \<Rightarrow> string \<Rightarrow> string \<Rightarrow> sub_event list" where
  "stored r sid epoch = filter (\<lambda>e. ev_topic e \<noteq> ''trace'') (history r sid epoch)"

definition used_epochs :: "replay \<Rightarrow> string set" where
  "used_epochs r = epoch_name (rp_prefix r) ` {1 .. rp_generation r}"

definition floor_of :: "sub_event list \<Rightarrow> nat option" where
  "floor_of xs = (if length xs \<le> nat ring_buffer_max then Some 0 else event_seq (xs ! (length xs - nat ring_buffer_max - 1)))"

definition state_ok :: "replay \<Rightarrow> string \<Rightarrow> session_state \<Rightarrow> bool" where
  "state_ok r sid st \<longleftrightarrow> ring_wf (ss_buffer st) \<and> rb_capacity (ss_buffer st) = nat ring_buffer_max
     \<and> ring_to_array (ss_buffer st) = drop (length (stored r sid (ss_epoch st)) - nat ring_buffer_max) (stored r sid (ss_epoch st))
     \<and> ss_floor st = floor_of (stored r sid (ss_epoch st))
     \<and> map event_seq (history r sid (ss_epoch st)) = map Some [1 ..< Suc (ss_seq st)]
     \<and> ss_epoch st \<in> used_epochs r"

definition pinned_count :: "(string, session_state) jmap \<Rightarrow> nat" where
  "pinned_count m = length (filter (\<lambda>(_, st). 0 < ss_pins st) m)"

definition replay_inv :: "replay \<Rightarrow> bool" where
  "replay_inv r \<longleftrightarrow> jm_wf (rp_sessions r) \<and> (\<forall>(sid, st)\<in>set (rp_sessions r). state_ok r sid st)
     \<and> (\<forall>e\<in>set (broadcasts (rp_outputs r)). event_epoch e \<in> used_epochs r)"

lemma event_id_parts [simp]:
  "ev_id e = event_id epoch n \<Longrightarrow> event_epoch e = epoch"
  "ev_id e = event_id epoch n \<Longrightarrow> event_seq e = Some n"
  using last_colon[OF colon_not_digit] by (simp_all add: event_id_def event_epoch_def event_seq_def)

lemma fresh_epoch_unused: "epoch_name (rp_prefix r) (rp_generation r + 1) \<notin> used_epochs r"
  by (auto simp: used_epochs_def epoch_name_def)

lemma fresh_buffer_facts: "ring_wf fresh_buffer \<and> ring_to_array fresh_buffer = [] \<and> rb_capacity fresh_buffer = nat ring_buffer_max"
proof -
  obtain b where "new_ring ring_buffer_max = Some (b :: sub_event ring)" by (auto simp: new_ring_def ring_buffer_max_def)
  then show ?thesis using new_ring_facts[of ring_buffer_max b] by (auto simp: fresh_buffer_def)
qed

lemma history_unused:
  assumes "replay_inv r" "epoch \<notin> used_epochs r"
  shows "history r sid epoch = []"
  using assms by (auto simp: history_def replay_inv_def filter_empty_conv)

subsection \<open>Eviction\<close>

lemma sweep_idle_subseq: "subseq (sweep_idle now m) m"
  by (induction m rule: sweep_idle.induct) (auto intro: subseq_order.trans)

lemma evict_over_subseq: "subseq (evict_over n m) m"
  by (induction n m rule: evict_over.induct) (auto intro: subseq_order.trans)

lemma subseq_wf: "subseq m' m \<Longrightarrow> jm_wf m \<Longrightarrow> jm_wf m'"
  by (metis distinct_map_filter distinct_nthsI subseq_conv_nths nths_map)

lemma subseq_get: "subseq m' m \<Longrightarrow> jm_wf m \<Longrightarrow> jm_get m' k = Some v \<Longrightarrow> jm_get m k = Some v"
  by (metis map_of_SomeD map_of_is_SomeI set_nths_subset subseq_conv_nths subset_iff)

lemma sweep_keeps_pinned: "(k, st) \<in> set m \<Longrightarrow> 0 < ss_pins st \<Longrightarrow> (k, st) \<in> set (sweep_idle now m)"
  by (induction m rule: sweep_idle.induct) auto

lemma evict_keeps_pinned: "(k, st) \<in> set m \<Longrightarrow> 0 < ss_pins st \<Longrightarrow> (k, st) \<in> set (evict_over n m)"
  by (induction n m rule: evict_over.induct) auto

lemma evict_over_result:
  "length m \<le> n \<Longrightarrow> n - (length m - length (evict_over n m)) \<le> max_tracked_sessions
     \<or> (\<forall>(k, st)\<in>set (evict_over n m). 0 < ss_pins st)"
proof (induction n m rule: evict_over.induct)
  case (2 n sid st m)
  have len: "length (evict_over n m) \<le> length m" "length (evict_over (n - 1) m) \<le> length m"
    using evict_over_subseq list_emb_length by blast+
  show ?case
  proof (cases "n \<le> max_tracked_sessions \<or> 0 < ss_pins st")
    case True
    then show ?thesis using 2 by auto
  next
    case False
    then show ?thesis using 2(2) 2(3) len by (auto split: if_splits)
  qed
qed simp

lemma evict_over_bound:
  "length (evict_over (length m) m) \<le> max max_tracked_sessions (pinned_count (evict_over (length m) m))"
proof -
  have len: "length (evict_over (length m) m) \<le> length m" using evict_over_subseq list_emb_length by blast
  from evict_over_result[of m "length m"] show ?thesis
  proof
    assume "\<forall>(k, st)\<in>set (evict_over (length m) m). 0 < ss_pins st"
    then have "filter (\<lambda>(_, st). 0 < ss_pins st) (evict_over (length m) m) = evict_over (length m) m"
      by (intro filter_True) auto
    then show ?thesis by (simp add: pinned_count_def)
  qed (use len in auto)
qed

subsection \<open>Touching a session\<close>

lemma used_epochs_mono:
  "rp_prefix r' = rp_prefix r \<Longrightarrow> rp_generation r \<le> rp_generation r' \<Longrightarrow> used_epochs r \<subseteq> used_epochs r'"
  by (auto simp: used_epochs_def)

lemma state_ok_cong:
  assumes "state_ok r sid st" "rp_outputs r' = rp_outputs r" "used_epochs r \<subseteq> used_epochs r'"
    "ss_seq st' = ss_seq st" "ss_floor st' = ss_floor st" "ss_epoch st' = ss_epoch st"
    "ss_buffer st' = ss_buffer st"
  shows "state_ok r' sid st'"
  using assms by (auto simp: state_ok_def stored_def history_def)

lemma new_state_ok:
  assumes "replay_inv r"
  shows "state_ok (snd (next_epoch r)) sid (new_state (fst (next_epoch r)) obj now)"
proof -
  have "history r sid (epoch_name (rp_prefix r) (rp_generation r + 1)) = []"
    by (rule history_unused[OF assms fresh_epoch_unused])
  then show ?thesis using fresh_buffer_facts
    by (simp add: state_ok_def new_state_def next_epoch_def stored_def history_def floor_of_def used_epochs_def)
qed

lemma next_epoch_fields [simp]:
  "rp_outputs (snd (next_epoch r)) = rp_outputs r" "rp_prefix (snd (next_epoch r)) = rp_prefix r"
  "rp_generation (snd (next_epoch r)) = rp_generation r + 1" "rp_sessions (snd (next_epoch r)) = rp_sessions r"
  "fst (next_epoch r) = epoch_name (rp_prefix r) (rp_generation r + 1)"
  by (simp_all add: next_epoch_def)

text \<open>
  What a touch does: the session it returns is either the tracked one or a new one under an unused
  epoch; nothing but evictions happens to the other sessions, and no pinned one is evicted.
\<close>

definition touched :: "string \<Rightarrow> replay \<Rightarrow> session_state \<Rightarrow> replay \<Rightarrow> bool" where
  "touched sid r st r' \<longleftrightarrow> replay_inv r' \<and> state_ok r' sid st
     \<and> rp_outputs r' = rp_outputs r \<and> rp_prefix r' = rp_prefix r
     \<and> rp_generation r \<le> rp_generation r'
     \<and> length (rp_sessions r') \<le> max max_tracked_sessions (pinned_count (rp_sessions r'))
     \<and> (\<forall>st'. jm_get (rp_sessions r') sid = Some st' \<longrightarrow> st' = st)
     \<and> (\<forall>k st'. k \<noteq> sid \<longrightarrow> jm_get (rp_sessions r') k = Some st' \<longrightarrow> jm_get (rp_sessions r) k = Some st')
     \<and> (\<forall>k st'. jm_get (rp_sessions r) k = Some st' \<longrightarrow> 0 < ss_pins st' \<longrightarrow>
          (if k = sid then jm_get (rp_sessions r') k = Some st \<and> ss_epoch st = ss_epoch st'
             \<and> ss_pins st' \<le> ss_pins st else jm_get (rp_sessions r') k = Some st'))
     \<and> ((\<exists>st0. jm_get (rp_sessions r) sid = Some st0 \<and> ss_epoch st = ss_epoch st0 \<and> ss_seq st = ss_seq st0)
        \<or> ss_epoch st \<notin> used_epochs r \<and> ss_seq st = 0)"

lemma swept_facts:
  assumes "replay_inv r"
  shows "jm_wf (sweep_idle now (rp_sessions r))"
    "jm_get (sweep_idle now (rp_sessions r)) k = Some s \<Longrightarrow> jm_get (rp_sessions r) k = Some s"
    "jm_get (rp_sessions r) k = Some s \<Longrightarrow> 0 < ss_pins s \<Longrightarrow> jm_get (sweep_idle now (rp_sessions r)) k = Some s"
    "jm_get (rp_sessions r) k = Some s \<Longrightarrow> state_ok r k s"
proof -
  have wf: "jm_wf (rp_sessions r)" using assms by (simp add: replay_inv_def)
  show wfs: "jm_wf (sweep_idle now (rp_sessions r))" by (rule subseq_wf[OF sweep_idle_subseq wf])
  show "jm_get (sweep_idle now (rp_sessions r)) k = Some s \<Longrightarrow> jm_get (rp_sessions r) k = Some s"
    by (rule subseq_get[OF sweep_idle_subseq wf])
  show "jm_get (rp_sessions r) k = Some s \<Longrightarrow> 0 < ss_pins s \<Longrightarrow> jm_get (sweep_idle now (rp_sessions r)) k = Some s"
    by (intro map_of_is_SomeI[OF wfs]) (auto dest: map_of_SomeD intro!: sweep_keeps_pinned)
  show "jm_get (rp_sessions r) k = Some s \<Longrightarrow> state_ok r k s"
    using assms by (auto simp: replay_inv_def dest!: map_of_SomeD)
qed

lemma touch_shape:
  assumes inv: "replay_inv r" and t: "touch_session sid pin now r = (st, r')"
  obtains st0 r0 where
    "st = st0\<lparr> ss_touched := now, ss_pins := (if pin then ss_pins st0 + 1 else ss_pins st0) \<rparr>"
    "r' = r0\<lparr> rp_sessions := evict_over (length (jm_set sid st (jm_delete sid (sweep_idle now (rp_sessions r)))))
       (jm_set sid st (jm_delete sid (sweep_idle now (rp_sessions r)))) \<rparr>"
    "rp_outputs r0 = rp_outputs r" "rp_prefix r0 = rp_prefix r" "rp_generation r \<le> rp_generation r0"
    "state_ok r0 sid st0"
    "jm_get (sweep_idle now (rp_sessions r)) sid = Some st0
      \<or> jm_get (sweep_idle now (rp_sessions r)) sid = None \<and> ss_epoch st0 \<notin> used_epochs r \<and> ss_seq st0 = 0"
proof (cases "jm_get (sweep_idle now (rp_sessions r)) sid")
  case None
  then show ?thesis
    using t new_state_ok[OF inv, of sid "rp_generation r + 1" now] fresh_epoch_unused[of r]
    by (intro that[of "new_state (fst (next_epoch r)) (rp_generation r + 1) now" "snd (next_epoch r)"])
      (auto simp: touch_session_def Let_def next_epoch_def new_state_def)
next
  case (Some s)
  then show ?thesis
    using t swept_facts(2,4)[OF inv] by (intro that[of s r]) (auto simp: touch_session_def Let_def)
qed

lemma used_epochs_sessions [simp]: "used_epochs (r\<lparr> rp_sessions := m \<rparr>) = used_epochs r"
  by (simp add: used_epochs_def)

lemma replay_inv_sessions:
  assumes inv: "replay_inv r" and out: "rp_outputs r' = rp_outputs r" and used: "used_epochs r \<subseteq> used_epochs r'"
    and wf: "jm_wf (rp_sessions r')"
    and get: "\<And>k s. jm_get (rp_sessions r') k = Some s \<Longrightarrow> jm_get (rp_sessions r) k = Some s \<or> state_ok r' k s"
  shows "replay_inv r'"
proof -
  have "state_ok r' k s" if "(k, s) \<in> set (rp_sessions r')" for k s
  proof -
    have "jm_get (rp_sessions r) k = Some s \<or> state_ok r' k s" using get[OF map_of_is_SomeI[OF wf that]] .
    then show ?thesis
      using swept_facts(4)[OF inv] state_ok_cong[OF _ out used, of k s s] by blast
  qed
  then show ?thesis using inv out used wf by (auto simp: replay_inv_def)
qed

lemma touch_session_touched:
  assumes inv: "replay_inv r" and t: "touch_session sid pin now r = (st, r')"
  shows "touched sid r st r' \<and> (0 < ss_pins st \<longrightarrow> jm_get (rp_sessions r') sid = Some st)"
proof -
  define swept where "swept = sweep_idle now (rp_sessions r)"
  define m where "m = jm_set sid st (jm_delete sid swept)"
  note sw = swept_facts(1-3)[OF inv, where now = now, folded swept_def]
  obtain st0 r0 where st: "st = st0\<lparr> ss_touched := now, ss_pins := (if pin then ss_pins st0 + 1 else ss_pins st0) \<rparr>"
    and r': "r' = r0\<lparr> rp_sessions := evict_over (length m) m \<rparr>"
    and r0: "rp_outputs r0 = rp_outputs r" "rp_prefix r0 = rp_prefix r" "rp_generation r \<le> rp_generation r0"
      "state_ok r0 sid st0"
    and src: "jm_get swept sid = Some st0 \<or> jm_get swept sid = None \<and> ss_epoch st0 \<notin> used_epochs r \<and> ss_seq st0 = 0"
    using touch_shape[OF inv t] unfolding swept_def m_def by metis
  have pins: "ss_pins st0 \<le> ss_pins st" by (simp add: st)
  have used: "used_epochs r \<subseteq> used_epochs r'" using used_epochs_mono[of r0 r] r0 by (simp add: r')
  have stok: "state_ok r' sid st" by (rule state_ok_cong[OF r0(4)]) (auto simp: st r')
  have wfm: "jm_wf m" and getm: "jm_get m = (jm_get swept)(sid \<mapsto> st)" using sw(1) by (auto simp: m_def)
  have wf': "jm_wf (rp_sessions r')" unfolding r' using subseq_wf[OF evict_over_subseq wfm] by simp
  have from_m: "jm_get (rp_sessions r') k = Some s \<Longrightarrow> jm_get m k = Some s" for k s
    unfolding r' using subseq_get[OF evict_over_subseq wfm] by simp
  have keep: "jm_get m k = Some s \<Longrightarrow> 0 < ss_pins s \<Longrightarrow> jm_get (rp_sessions r') k = Some s" for k s
    by (intro map_of_is_SomeI[OF wf']) (auto simp: r' dest: map_of_SomeD intro!: evict_keeps_pinned)
  have inv': "replay_inv r'"
    by (rule replay_inv_sessions[OF inv _ used wf'])
      (use r0 sw(2) stok from_m in \<open>force simp: r' getm split: if_splits\<close>)+
  have kept: "if k = sid then jm_get (rp_sessions r') k = Some st \<and> ss_epoch st = ss_epoch s \<and> ss_pins s \<le> ss_pins st
      else jm_get (rp_sessions r') k = Some s"
    if "jm_get (rp_sessions r) k = Some s" "0 < ss_pins s" for k s
    using sw(3)[OF that] that keep[of k s] keep[of sid st] pins src by (auto simp: getm st)
  have one: "jm_get (rp_sessions r') sid = Some s \<Longrightarrow> s = st" for s
    using from_m[of sid s] by (simp add: getm)
  have rest: "k \<noteq> sid \<Longrightarrow> jm_get (rp_sessions r') k = Some s \<Longrightarrow> jm_get (rp_sessions r) k = Some s" for k s
    using from_m[of k s] sw(2) by (simp add: getm)
  have pinned: "0 < ss_pins st \<Longrightarrow> jm_get (rp_sessions r') sid = Some st"
    using keep[of sid st] by (simp add: getm)
  have source: "(\<exists>s. jm_get (rp_sessions r) sid = Some s \<and> ss_epoch st = ss_epoch s \<and> ss_seq st = ss_seq s)
      \<or> ss_epoch st \<notin> used_epochs r \<and> ss_seq st = 0"
    using src sw(2) by (auto simp: st)
  have fields: "rp_outputs r' = rp_outputs r" "rp_prefix r' = rp_prefix r" "rp_generation r \<le> rp_generation r'"
    using r0 by (simp_all add: r')
  have bound: "length (rp_sessions r') \<le> max max_tracked_sessions (pinned_count (rp_sessions r'))"
    using evict_over_bound[of m] by (simp add: r')
  show ?thesis unfolding touched_def using inv' bound stok fields kept one rest pinned source by blast
qed

subsection \<open>The operations keep the invariant\<close>

lemma put_state_fields [simp]:
  "rp_outputs (put_state sid st r) = rp_outputs r" "rp_prefix (put_state sid st r) = rp_prefix r"
  "rp_generation (put_state sid st r) = rp_generation r"
  "jm_get (rp_sessions (put_state sid st r)) k =
     (if k = sid \<and> jm_get (rp_sessions r) sid \<noteq> None then Some st else jm_get (rp_sessions r) k)"
  by (auto simp: put_state_def map_of_eq_None_iff)

lemma put_state_wf: "jm_wf (rp_sessions r) \<Longrightarrow> jm_wf (rp_sessions (put_state sid st r))"
  by (simp add: put_state_def jm_wf_set)

lemma add_output_fields [simp]:
  "rp_outputs (add_output x r) = rp_outputs r @ [x]" "rp_prefix (add_output x r) = rp_prefix r"
  "rp_generation (add_output x r) = rp_generation r" "rp_sessions (add_output x r) = rp_sessions r"
  by (simp_all add: add_output_def)

lemma touched_getD: "touched sid r st r1 \<Longrightarrow> jm_get (rp_sessions r1) sid = None \<or> jm_get (rp_sessions r1) sid = Some st"
  by (cases "jm_get (rp_sessions r1) sid") (auto simp: touched_def)

lemma touchedD:
  assumes "touched sid r st r'"
  shows "replay_inv r'" "state_ok r' sid st" "rp_outputs r' = rp_outputs r" "rp_prefix r' = rp_prefix r"
    "rp_generation r \<le> rp_generation r'"
    "jm_get (rp_sessions r') k = Some s \<Longrightarrow> (if k = sid then s = st else jm_get (rp_sessions r) k = Some s)"
    "(\<exists>st0. jm_get (rp_sessions r) sid = Some st0 \<and> ss_epoch st = ss_epoch st0 \<and> ss_seq st = ss_seq st0)
        \<or> ss_epoch st \<notin> used_epochs r \<and> ss_seq st = 0"
    "length (rp_sessions r') \<le> max max_tracked_sessions (pinned_count (rp_sessions r'))"
    "jm_get (rp_sessions r) k = Some s \<Longrightarrow> 0 < ss_pins s \<Longrightarrow>
       (if k = sid then jm_get (rp_sessions r') k = Some st \<and> ss_epoch st = ss_epoch s \<and> ss_pins s \<le> ss_pins st
        else jm_get (rp_sessions r') k = Some s)"
  using assms unfolding touched_def by (simp_all, metis, metis)

lemma retain_fields [simp]:
  "ss_seq (retain e st) = ss_seq st" "ss_epoch (retain e st) = ss_epoch st" "ss_pins (retain e st) = ss_pins st"
  "ss_tseq (retain e st) = ss_tseq st"
  by (simp_all add: retain_def Let_def split: prod.split option.split)

lemma floor_of_push:
  assumes "ring_wf b" "rb_capacity b = nat ring_buffer_max" "ring_to_array b = drop (length xs - nat ring_buffer_max) xs"
    "f = floor_of xs"
  shows "floor_of (xs @ [e]) = (case fst (ring_push e b) of None \<Rightarrow> f | Some old \<Rightarrow> event_seq old)"
  using ring.push_evicts_next[of b xs e] assms
  by (auto simp: floor_of_def nth_append Suc_diff_le ring_buffer_max_def)

lemma retain_buffer:
  assumes "ring_wf (ss_buffer st)" "rb_capacity (ss_buffer st) = nat ring_buffer_max"
    "ring_to_array (ss_buffer st) = drop (length xs - nat ring_buffer_max) xs" "ss_floor st = floor_of xs"
    "ys = (if ev_topic e = ''trace'' then xs else xs @ [e])"
  shows "ring_wf (ss_buffer (retain e st)) \<and> rb_capacity (ss_buffer (retain e st)) = nat ring_buffer_max
    \<and> ring_to_array (ss_buffer (retain e st)) = drop (length ys - nat ring_buffer_max) ys
    \<and> ss_floor (retain e st) = floor_of ys"
proof (cases "ev_topic e = ''trace''")
  case False
  have "ring_wf (snd (ring_push e (ss_buffer st))) \<and> rb_capacity (snd (ring_push e (ss_buffer st))) = nat ring_buffer_max"
    using ring.push_good[of "ss_buffer st" e] assms by simp
  moreover have "ring_to_array (snd (ring_push e (ss_buffer st))) = drop (length ys - nat ring_buffer_max) ys"
    using ring.push_last[of "ss_buffer st" xs e] assms False by simp
  moreover have "ss_floor (retain e st) = floor_of ys"
    using floor_of_push[OF assms(1-4), of e] False assms(5)
    by (auto simp: retain_def Let_def split: prod.split option.split)
  ultimately show ?thesis using False by (auto simp: retain_def Let_def split: prod.split option.split)
qed (use assms in \<open>simp add: retain_def\<close>)

text \<open>Appending an event with the next number keeps a state in order with the outputs.\<close>

lemma state_ok_retain:
  assumes st: "state_ok r sid st" and e: "ev_id e = event_id (ss_epoch st) (Suc (ss_seq st))" "ev_session e = sid"
    and r': "rp_outputs r' = rp_outputs r @ [Broadcast e]" "used_epochs r \<subseteq> used_epochs r'"
  shows "state_ok r' sid (retain e (st\<lparr> ss_seq := ss_seq st + 1 \<rparr>))"
proof -
  have hist: "history r' sid (ss_epoch st) = history r sid (ss_epoch st) @ [e]"
    using e r' by (simp add: history_def)
  have sto: "stored r' sid (ss_epoch st) = (if ev_topic e = ''trace'' then stored r sid (ss_epoch st) else stored r sid (ss_epoch st) @ [e])"
    by (simp add: stored_def hist)
  have "map event_seq (history r' sid (ss_epoch st)) = map Some [1 ..< Suc (Suc (ss_seq st))]"
    using st e by (simp add: hist state_ok_def)
  then show ?thesis
    using retain_buffer[of "st\<lparr> ss_seq := ss_seq st + 1 \<rparr>" "stored r sid (ss_epoch st)", OF _ _ _ _ sto] st r'(2)
    by (auto simp: state_ok_def simp del: upt_Suc)
qed

text \<open>Putting back a state that is in order with the outputs keeps the invariant.\<close>

lemma replay_inv_put:
  assumes inv: "replay_inv r" and out: "rp_outputs r' = rp_outputs r @ new" and used: "used_epochs r \<subseteq> used_epochs r'"
    and sessions: "rp_sessions r' = rp_sessions (put_state sid st r)" and st: "state_ok r' sid st"
    and new: "\<And>e. e \<in> set (broadcasts new) \<Longrightarrow> ev_session e = sid \<and> event_epoch e \<in> used_epochs r'"
  shows "replay_inv r'"
proof -
  have wf: "jm_wf (rp_sessions r')" unfolding sessions using inv by (intro put_state_wf) (simp add: replay_inv_def)
  have "state_ok r' k s" if "(k, s) \<in> set (rp_sessions r')" for k s
  proof (cases "s = st \<and> k = sid")
    case False
    have get: "jm_get (rp_sessions r') k = Some s" by (rule map_of_is_SomeI[OF wf that])
    then have k: "k \<noteq> sid" "jm_get (rp_sessions r) k = Some s"
      using False unfolding sessions by (auto split: if_splits)
    have "history r' k ep = history r k ep" for ep
      using new k(1) out by (auto simp: history_def filter_empty_conv)
    then show ?thesis using swept_facts(4)[OF inv k(2)] used by (auto simp: state_ok_def stored_def)
  qed (use st in simp)
  then show ?thesis using inv wf out new used by (auto simp: replay_inv_def)
qed

text \<open>
  How a replay state advances: a session that is still under an old epoch has only issued events of
  that epoch with larger numbers; every other tracked session is under an epoch that was not in use.
\<close>

definition advances :: "replay \<Rightarrow> replay \<Rightarrow> bool" where
  "advances r r' \<longleftrightarrow> replay_inv r' \<and> used_epochs r \<subseteq> used_epochs r'
     \<and> (\<exists>new. rp_outputs r' = rp_outputs r @ new \<and> (\<forall>k st'. jm_get (rp_sessions r') k = Some st' \<longrightarrow>
          ss_epoch st' \<notin> used_epochs r
          \<or> (\<exists>st0. jm_get (rp_sessions r) k = Some st0 \<and> ss_epoch st' = ss_epoch st0 \<and> ss_seq st0 \<le> ss_seq st'
               \<and> (\<forall>x\<in>set (broadcasts new). ev_session x = k \<longrightarrow>
                    event_epoch x = ss_epoch st0 \<and> (\<exists>n. event_seq x = Some n \<and> ss_seq st0 < n)))))"

lemma advances_refl: "replay_inv r \<Longrightarrow> advances r r"
  unfolding advances_def by (auto intro!: exI[of _ "[]"])

lemma advances_inv: "advances r r' \<Longrightarrow> replay_inv r'"
  by (simp add: advances_def)

lemma advances_trans:
  assumes a: "advances r r1" and b: "advances r1 r2"
  shows "advances r r2"
proof -
  obtain new1 where 1: "rp_outputs r1 = rp_outputs r @ new1" "\<forall>k st'. jm_get (rp_sessions r1) k = Some st' \<longrightarrow>
          ss_epoch st' \<notin> used_epochs r
          \<or> (\<exists>st0. jm_get (rp_sessions r) k = Some st0 \<and> ss_epoch st' = ss_epoch st0 \<and> ss_seq st0 \<le> ss_seq st'
               \<and> (\<forall>x\<in>set (broadcasts new1). ev_session x = k \<longrightarrow>
                    event_epoch x = ss_epoch st0 \<and> (\<exists>n. event_seq x = Some n \<and> ss_seq st0 < n)))"
    using a unfolding advances_def by blast
  obtain new2 where 2: "rp_outputs r2 = rp_outputs r1 @ new2" "\<forall>k st'. jm_get (rp_sessions r2) k = Some st' \<longrightarrow>
          ss_epoch st' \<notin> used_epochs r1
          \<or> (\<exists>st0. jm_get (rp_sessions r1) k = Some st0 \<and> ss_epoch st' = ss_epoch st0 \<and> ss_seq st0 \<le> ss_seq st'
               \<and> (\<forall>x\<in>set (broadcasts new2). ev_session x = k \<longrightarrow>
                    event_epoch x = ss_epoch st0 \<and> (\<exists>n. event_seq x = Some n \<and> ss_seq st0 < n)))"
    using b unfolding advances_def by blast
  have used: "used_epochs r \<subseteq> used_epochs r1" "used_epochs r1 \<subseteq> used_epochs r2" "replay_inv r2"
    using a b by (auto simp: advances_def)
  have "ss_epoch st' \<notin> used_epochs r
          \<or> (\<exists>st0. jm_get (rp_sessions r) k = Some st0 \<and> ss_epoch st' = ss_epoch st0 \<and> ss_seq st0 \<le> ss_seq st'
               \<and> (\<forall>x\<in>set (broadcasts (new1 @ new2)). ev_session x = k \<longrightarrow>
                    event_epoch x = ss_epoch st0 \<and> (\<exists>n. event_seq x = Some n \<and> ss_seq st0 < n)))"
    if get: "jm_get (rp_sessions r2) k = Some st'" for k st'
  proof (cases "ss_epoch st' \<in> used_epochs r")
    case True
    then obtain s1 where s1: "jm_get (rp_sessions r1) k = Some s1" "ss_epoch st' = ss_epoch s1" "ss_seq s1 \<le> ss_seq st'"
        "\<forall>x\<in>set (broadcasts new2). ev_session x = k \<longrightarrow> event_epoch x = ss_epoch s1 \<and> (\<exists>n. event_seq x = Some n \<and> ss_seq s1 < n)"
      using 2(2) get used by blast
    then obtain s0 where s0: "jm_get (rp_sessions r) k = Some s0" "ss_epoch s1 = ss_epoch s0" "ss_seq s0 \<le> ss_seq s1"
        "\<forall>x\<in>set (broadcasts new1). ev_session x = k \<longrightarrow> event_epoch x = ss_epoch s0 \<and> (\<exists>n. event_seq x = Some n \<and> ss_seq s0 < n)"
      using 1(2) True by fastforce
    show ?thesis using s0 s1 by (auto intro!: disjI2 dest: le_less_trans)
  qed simp
  then show ?thesis unfolding advances_def using used 1(1) 2(1) by (intro conjI exI[of _ "new1 @ new2"]) auto
qed

lemma touched_advances: "touched sid r st r' \<Longrightarrow> advances r r'"
proof -
  assume t: "touched sid r st r'"
  have "used_epochs r \<subseteq> used_epochs r'" "replay_inv r'" "rp_outputs r' = rp_outputs r @ []"
    using touchedD(1,3-5)[OF t] used_epochs_mono[of r' r] by simp_all
  moreover have "ss_epoch st' \<notin> used_epochs r \<or> (\<exists>st0. jm_get (rp_sessions r) k = Some st0 \<and> ss_epoch st' = ss_epoch st0
      \<and> ss_seq st0 \<le> ss_seq st')" if "jm_get (rp_sessions r') k = Some st'" for k st'
    using touchedD(6)[OF t that] touchedD(7)[OF t] by (auto split: if_splits)
  ultimately show ?thesis unfolding advances_def by fastforce
qed

text \<open>Putting back the touched state with a number of the same epoch, or under a fresh epoch.\<close>

lemma put_advances:
  assumes t: "touched sid r st r1" and out: "rp_outputs r' = rp_outputs r1 @ new" and used: "used_epochs r1 \<subseteq> used_epochs r'"
    and sessions: "rp_sessions r' = rp_sessions (put_state sid st' r1)" and ok: "state_ok r' sid st'"
    and new: "\<And>e. e \<in> set (broadcasts new) \<Longrightarrow> ev_session e = sid \<and> event_epoch e \<in> used_epochs r'"
    and same: "ss_epoch st' \<notin> used_epochs r1 \<or> ss_epoch st' = ss_epoch st \<and> ss_seq st \<le> ss_seq st'
      \<and> (\<forall>e\<in>set (broadcasts new). event_epoch e = ss_epoch st \<and> (\<exists>n. event_seq e = Some n \<and> ss_seq st < n))"
  shows "advances r r'"
proof -
  have inv: "replay_inv r'" by (rule replay_inv_put[OF touchedD(1)[OF t] out used sessions ok new])
  have "advances r1 r'"
    unfolding advances_def
  proof (intro conjI exI[of _ new] allI impI)
    fix k s assume get: "jm_get (rp_sessions r') k = Some s"
    show "ss_epoch s \<notin> used_epochs r1 \<or> (\<exists>st0. jm_get (rp_sessions r1) k = Some st0 \<and> ss_epoch s = ss_epoch st0
        \<and> ss_seq st0 \<le> ss_seq s \<and> (\<forall>x\<in>set (broadcasts new). ev_session x = k \<longrightarrow>
              event_epoch x = ss_epoch st0 \<and> (\<exists>n. event_seq x = Some n \<and> ss_seq st0 < n)))"
    proof (cases "k = sid")
      case True
      then show ?thesis using get same touched_getD[OF t] by (auto simp: sessions split: if_splits)
    next
      case False
      then show ?thesis using get new by (auto simp: sessions)
    qed
  qed (use inv used out in auto)
  then show ?thesis by (rule advances_trans[OF touched_advances[OF t]])
qed

lemma issue_event_advances:
  assumes inv: "replay_inv r" and mk: "\<And>ep n. ev_id (mk ep n) = event_id ep n" "\<And>ep n. ev_session (mk ep n) = sid"
  shows "advances r (snd (snd (issue_event sid mk now r)))"
proof -
  obtain st r1 where t: "touch_session sid False now r = (st, r1)" by fastforce
  have td: "touched sid r st r1" using touch_session_touched[OF inv t] by simp
  define e where "e = mk (ss_epoch st) (Suc (ss_seq st))"
  define st2 where "st2 = retain e (st\<lparr> ss_seq := ss_seq st + 1 \<rparr>)"
  have r': "snd (snd (issue_event sid mk now r)) = add_output (Broadcast e) (put_state sid st2 r1)"
    by (simp add: issue_event_def t e_def st2_def Let_def)
  have used: "used_epochs (add_output (Broadcast e) (put_state sid st2 r1)) = used_epochs r1"
    by (simp add: used_epochs_def)
  have e: "ev_id e = event_id (ss_epoch st) (Suc (ss_seq st))" "ev_session e = sid" by (simp_all add: e_def mk)
  have ep: "ss_epoch st \<in> used_epochs r1" using touchedD(2)[OF td] by (simp add: state_ok_def)
  have ok: "state_ok (add_output (Broadcast e) (put_state sid st2 r1)) sid st2"
    unfolding st2_def by (rule state_ok_retain[OF touchedD(2)[OF td] e]) (simp_all add: used_epochs_def)
  show ?thesis
    unfolding r' by (rule put_advances[OF td _ _ _ ok, where new = "[Broadcast e]"]) (use e ep used in \<open>auto simp: st2_def\<close>)
qed

lemma build_event_fields [simp]:
  "ev_id (build_subscription_event sid topic raw ts inc ep n) = event_id ep n"
  "ev_session (build_subscription_event sid topic raw ts inc ep n) = sid"
  by (simp_all add: build_subscription_event_def Let_def)

lemma deliver_remote_advances: "replay_inv r \<Longrightarrow> advances r (deliver_remote remote now r)"
  unfolding deliver_remote_def by (rule issue_event_advances) simp_all

lemma invalidate_advances:
  assumes inv: "replay_inv r"
  shows "advances r (invalidate_replay sid reason announce now r)"
proof -
  obtain st r1 where t: "touch_session sid False now r = (st, r1)" by fastforce
  have td: "touched sid r st r1" using touch_session_touched[OF inv t] by simp
  define st' where "st' = st\<lparr> ss_seq := 0, ss_tseq := 0, ss_epoch := fst (next_epoch r1), ss_buffer := fresh_buffer, ss_floor := Some 0 \<rparr>"
  define new where "new = (if announce then [ResetSignal (Some sid) reason] else [])"
  define r' where "r' = invalidate_replay sid reason announce now r"
  have shape: "rp_outputs r' = rp_outputs r1 @ new" "rp_prefix r' = rp_prefix r1" "rp_generation r' = rp_generation r1 + 1"
      "rp_sessions r' = rp_sessions (put_state sid st' r1)"
    by (auto simp: r'_def invalidate_replay_def t new_def st'_def next_epoch_def Let_def put_state_def)
  have fresh: "ss_epoch st' \<notin> used_epochs r1" using fresh_epoch_unused[of r1] by (simp add: st'_def)
  have none: "broadcasts new = []" by (simp add: new_def)
  have "history r1 sid (ss_epoch st') = []" by (rule history_unused[OF touchedD(1)[OF td] fresh])
  then have hist: "history r' sid (ss_epoch st') = []" using shape none by (simp add: history_def)
  have "ss_epoch st' \<in> used_epochs r'" using shape by (auto simp: used_epochs_def st'_def)
  moreover have "ss_seq st' = 0" "ss_buffer st' = fresh_buffer" "ss_floor st' = Some 0"
    by (simp_all add: st'_def)
  ultimately have ok: "state_ok r' sid st'"
    using hist fresh_buffer_facts by (simp add: state_ok_def stored_def floor_of_def)
  have used: "used_epochs r1 \<subseteq> used_epochs r'" using shape by (intro used_epochs_mono) simp_all
  show ?thesis unfolding r'_def[symmetric]
    by (rule put_advances[OF td shape(1) used shape(4) ok]) (use none fresh in auto)
qed

lemma touch_advances: "replay_inv r \<Longrightarrow> advances r (snd (touch_session sid pin now r))"
  using touch_session_touched[of r sid pin now "fst (touch_session sid pin now r)" "snd (touch_session sid pin now r)"]
  by (blast intro: touched_advances surjective_pairing)

lemma head_cursor_advances: "replay_inv r \<Longrightarrow> advances r (snd (head_cursor sid now r))"
  using touch_advances[of r sid False now] by (simp add: head_cursor_def case_prod_beta)

lemma pin_session_advances: "replay_inv r \<Longrightarrow> advances r (snd (pin_session sid now r))"
  using touch_advances[of r sid True now] by (simp add: pin_session_def case_prod_beta)

text \<open>Changing only the bookkeeping of a tracked session.\<close>

definition same_replay :: "session_state \<Rightarrow> session_state \<Rightarrow> bool" where
  "same_replay st st' \<longleftrightarrow> ss_seq st' = ss_seq st \<and> ss_floor st' = ss_floor st \<and> ss_epoch st' = ss_epoch st
     \<and> ss_buffer st' = ss_buffer st"

lemma bookkeeping_advances:
  assumes inv: "replay_inv r" and out: "rp_outputs r' = rp_outputs r @ new" "broadcasts new = []"
    and used: "used_epochs r' = used_epochs r" and wf: "jm_wf (rp_sessions r')"
    and get: "\<And>k st'. jm_get (rp_sessions r') k = Some st' \<Longrightarrow> \<exists>st. jm_get (rp_sessions r) k = Some st \<and> same_replay st st'"
  shows "advances r r'"
proof -
  have "state_ok r' k s" if mem: "(k, s) \<in> set (rp_sessions r')" for k s
  proof -
    obtain s0 where s0: "jm_get (rp_sessions r) k = Some s0" "same_replay s0 s"
      using get map_of_is_SomeI[OF wf mem] by blast
    have "history r' k ep = history r k ep" for ep using out by (simp add: history_def)
    then show ?thesis
      using swept_facts(4)[OF inv s0(1)] s0(2) used by (auto simp: state_ok_def stored_def same_replay_def)
  qed
  then have "replay_inv r'" using inv wf used out by (auto simp: replay_inv_def)
  then show ?thesis unfolding advances_def using used out get by (fastforce simp: same_replay_def)
qed

lemma self_same: "replay_inv r \<Longrightarrow> jm_get (rp_sessions r) k = Some s \<Longrightarrow> same_replay s s"
  by (simp add: same_replay_def)

lemma add_reset_advances: "replay_inv r \<Longrightarrow> advances r (add_output (ResetSignal s c) r)"
proof (rule bookkeeping_advances[where new = "[ResetSignal s c]"])
  assume "replay_inv r"
  then show "jm_wf (rp_sessions (add_output (ResetSignal s c) r))" by (simp add: replay_inv_def)
qed (use self_same in \<open>auto simp: used_epochs_def\<close>)

lemma put_same_advances:
  assumes inv: "replay_inv r" and get: "jm_get (rp_sessions r) sid = Some st" and same: "same_replay st st'"
  shows "advances r (put_state sid st' r)"
proof (rule bookkeeping_advances[OF inv, where new = "[]"])
  show "jm_wf (rp_sessions (put_state sid st' r))" using inv by (intro put_state_wf) (simp add: replay_inv_def)
  fix k s assume "jm_get (rp_sessions (put_state sid st' r)) k = Some s"
  then show "\<exists>st. jm_get (rp_sessions r) k = Some st \<and> same_replay st s"
    using self_same[OF inv] get same by (cases "k = sid") (simp_all del: map_of_eq_Some_iff)
qed (simp_all add: used_epochs_def)

lemma get_events_after_advances:
  assumes inv: "replay_inv r"
  shows "advances r (snd (get_events_after sid after now r))"
proof (cases "jm_get (rp_sessions r) sid")
  case None
  then show ?thesis using advances_refl[OF inv] by (simp add: get_events_after_def)
next
  case (Some st)
  have wf: "jm_wf (rp_sessions r)" using inv by (simp add: replay_inv_def)
  have eq: "snd (get_events_after sid after now r) =
      r\<lparr> rp_sessions := jm_set sid (st\<lparr> ss_touched := now \<rparr>) (jm_delete sid (rp_sessions r)) \<rparr>"
    using Some by (simp add: get_events_after_def Let_def)
  show ?thesis unfolding eq
  proof (rule bookkeeping_advances[OF inv, where new = "[]"])
    fix k s
    assume "jm_get (rp_sessions (r\<lparr> rp_sessions := jm_set sid (st\<lparr> ss_touched := now \<rparr>) (jm_delete sid (rp_sessions r)) \<rparr>)) k = Some s"
    then show "\<exists>st. jm_get (rp_sessions r) k = Some st \<and> same_replay st s"
      using self_same[OF inv] Some by (cases "k = sid") (auto simp: same_replay_def simp del: map_of_eq_Some_iff)
  qed (use wf in auto)
qed

lemma clear_advances: "replay_inv r \<Longrightarrow> advances r (r\<lparr> rp_sessions := [] \<rparr>)"
  by (rule bookkeeping_advances[where new = "[]"]) simp_all

subsection \<open>What a replay returns\<close>

lemma seq_above_iff: "event_seq e = Some n \<Longrightarrow> seq_above after e \<longleftrightarrow> after < int n"
  by (simp add: seq_above_def)

lemma history_seqs:
  assumes ok: "state_ok r sid st"
  shows "i < length (history r sid (ss_epoch st)) \<Longrightarrow> event_seq (history r sid (ss_epoch st) ! i) = Some (Suc i)"
    "length (history r sid (ss_epoch st)) = ss_seq st"
proof -
  have m: "map event_seq (history r sid (ss_epoch st)) = map Some [1 ..< Suc (ss_seq st)]"
    using ok by (simp add: state_ok_def)
  then show len: "length (history r sid (ss_epoch st)) = ss_seq st" using map_eq_imp_length_eq[OF m] by simp
  show "event_seq (history r sid (ss_epoch st) ! i) = Some (Suc i)" if i: "i < length (history r sid (ss_epoch st))"
    using arg_cong[OF m, of "\<lambda>xs. xs ! i"] len i by (simp del: upt_Suc)
qed

lemma sorted_history:
  assumes "state_ok r sid st"
  shows "sorted_wrt (\<lambda>x y. \<exists>m n. event_seq x = Some m \<and> event_seq y = Some n \<and> m < n) (stored r sid (ss_epoch st))"
  unfolding stored_def
  by (rule sorted_wrt_filter) (use history_seqs[OF assms] in \<open>auto simp: sorted_wrt_iff_nth_less\<close>)

lemma stored_seq: "state_ok r sid st \<Longrightarrow> e \<in> set (stored r sid (ss_epoch st)) \<Longrightarrow> \<exists>n. event_seq e = Some n \<and> 0 < n"
  using history_seqs[of r sid st] by (fastforce simp: stored_def in_set_conv_nth)

lemma sorted_last_floor:
  assumes so: "sorted_wrt (\<lambda>x y. \<exists>m n. event_seq x = Some m \<and> event_seq y = Some n \<and> m < n) xs"
    and len: "nat ring_buffer_max < length xs"
    and d: "event_seq (xs ! (length xs - nat ring_buffer_max - 1)) = Some f"
    and e: "e \<in> set (take (length xs - nat ring_buffer_max) xs)"
  shows "\<exists>n. event_seq e = Some n \<and> n \<le> f"
proof -
  obtain i where i: "i < length xs - nat ring_buffer_max" "e = xs ! i" using e by (auto simp: in_set_conv_nth)
  show ?thesis
  proof (cases "i = length xs - nat ring_buffer_max - 1")
    case False
    then have "i < length xs - nat ring_buffer_max - 1" using i by simp
    then show ?thesis using so d i len by (fastforce simp: sorted_wrt_iff_nth_less)
  qed (use i d in simp)
qed

text \<open>The ring has dropped an event above the cursor exactly when the floor is above the cursor.\<close>

lemma floor_exact:
  assumes ok: "state_ok r sid st" and pos: "0 \<le> after"
  defines "xs \<equiv> stored r sid (ss_epoch st)"
  shows "(case ss_floor st of None \<Rightarrow> False | Some f \<Rightarrow> after < int f)
    \<longleftrightarrow> filter (seq_above after) (drop (length xs - nat ring_buffer_max) xs) \<noteq> filter (seq_above after) xs"
proof (cases "length xs \<le> nat ring_buffer_max")
  case True
  then show ?thesis using ok pos by (simp add: state_ok_def floor_of_def xs_def)
next
  case False
  define k where "k = length xs - nat ring_buffer_max"
  have k: "k - 1 < length xs" "0 < k" using False by (auto simp: k_def ring_buffer_max_def)
  obtain f where f: "event_seq (xs ! (k - 1)) = Some f"
    using stored_seq[OF ok] nth_mem[OF k(1)] by (auto simp: xs_def)
  then have floor: "ss_floor st = Some f" using ok False by (simp add: state_ok_def floor_of_def xs_def k_def)
  have last: "xs ! (k - 1) \<in> set (take k xs)" using k by (auto simp: in_set_conv_nth intro!: exI[of _ "k - 1"])
  have below: "\<exists>n. event_seq e = Some n \<and> n \<le> f" if "e \<in> set (take k xs)" for e
    using sorted_last_floor[OF sorted_history[OF ok]] False f that unfolding xs_def[symmetric] k_def by simp
  have eq: "filter (seq_above after) xs = filter (seq_above after) (take k xs) @ filter (seq_above after) (drop k xs)"
    by (simp flip: filter_append)
  have "filter (seq_above after) (take k xs) = [] \<longleftrightarrow> \<not> after < int f"
    using below last f by (fastforce simp: filter_empty_conv seq_above_iff)
  then show ?thesis using floor eq by (simp add: k_def)
qed

text \<open>
  A replay reports no gap exactly when the cursor is not ahead of the session and every retained event
  of the current epoch above the cursor is returned.
\<close>

lemma replay_exact:
  assumes inv: "replay_inv r" and get: "jm_get (rp_sessions r) sid = Some st" and pos: "0 \<le> after"
  shows "\<not> er_gap (fst (get_events_after sid after now r)) \<longleftrightarrow>
    after \<le> int (ss_seq st)
    \<and> er_events (fst (get_events_after sid after now r)) = filter (seq_above after) (stored r sid (ss_epoch st))"
  using floor_exact[OF swept_facts(4)[OF inv get] pos] swept_facts(4)[OF inv get] get
  by (auto simp: get_events_after_def Let_def state_ok_def)

text \<open>
  A client that reads the head cursor of a session and later replays from it, under the same epoch and
  without a gap, gets every event of the session that was broadcast in between, except diagnostics.
\<close>

lemma replay_from_head:
  assumes ok: "state_ok r0 sid st0" and inv: "replay_inv r0" and get0: "jm_get (rp_sessions r0) sid = Some st0 \<or> jm_get (rp_sessions r0) sid = None"
    and adv: "advances r0 r" and out: "rp_outputs r = rp_outputs r0 @ new"
    and get: "er_epoch (fst (get_events_after sid (int (ss_seq st0)) now r)) = Some (ss_epoch st0)"
    and gap: "\<not> er_gap (fst (get_events_after sid (int (ss_seq st0)) now r))"
  shows "er_events (fst (get_events_after sid (int (ss_seq st0)) now r))
    = filter (\<lambda>e. ev_session e = sid \<and> ev_topic e \<noteq> ''trace'') (broadcasts new)"
proof -
  obtain st where st: "jm_get (rp_sessions r) sid = Some st" "ss_epoch st = ss_epoch st0"
    using get by (auto simp: get_events_after_def Let_def split: option.splits)
  have "ss_epoch st0 \<in> used_epochs r0" using ok by (simp add: state_ok_def)
  then have new: "\<forall>x\<in>set (broadcasts new). ev_session x = sid \<longrightarrow>
      event_epoch x = ss_epoch st0 \<and> (\<exists>n. event_seq x = Some n \<and> ss_seq st0 < n)"
    using adv st out get0 unfolding advances_def by fastforce
  have old: "filter (seq_above (int (ss_seq st0))) (stored r0 sid (ss_epoch st0)) = []"
    using history_seqs[OF ok] by (fastforce simp: filter_empty_conv stored_def in_set_conv_nth seq_above_iff)
  have "stored r sid (ss_epoch st) = stored r0 sid (ss_epoch st0)
      @ filter (\<lambda>e. ev_session e = sid \<and> event_epoch e = ss_epoch st0 \<and> ev_topic e \<noteq> ''trace'') (broadcasts new)"
    using st(2) out by (auto simp: stored_def history_def conj_commute conj_left_commute intro: filter_cong)
  also have "filter (\<lambda>e. ev_session e = sid \<and> event_epoch e = ss_epoch st0 \<and> ev_topic e \<noteq> ''trace'') (broadcasts new)
      = filter (\<lambda>e. ev_session e = sid \<and> ev_topic e \<noteq> ''trace'') (broadcasts new)"
    using new by (auto intro: filter_cong)
  finally have "er_events (fst (get_events_after sid (int (ss_seq st0)) now r))
      = filter (seq_above (int (ss_seq st0))) (filter (\<lambda>e. ev_session e = sid \<and> ev_topic e \<noteq> ''trace'') (broadcasts new))"
    using replay_exact[OF advances_inv[OF adv] st(1), of "int (ss_seq st0)" now] gap old by simp
  also have "\<dots> = filter (\<lambda>e. ev_session e = sid \<and> ev_topic e \<noteq> ''trace'') (broadcasts new)"
    using new by (fastforce intro!: filter_True simp: seq_above_iff)
  finally show ?thesis .
qed

subsection \<open>Pinned sessions\<close>

text \<open>
  A session with a subscriber stays tracked; its epoch changes only together with a reset signal that
  reaches its subscribers.
\<close>

definition reset_for :: "string \<Rightarrow> bus_output \<Rightarrow> bool" where
  "reset_for sid out = (case out of Broadcast e \<Rightarrow> False | ResetSignal s c \<Rightarrow> s = None \<or> s = Some sid)"

definition guards :: "replay \<Rightarrow> replay \<Rightarrow> bool" where
  "guards r r' \<longleftrightarrow> (\<exists>new. rp_outputs r' = rp_outputs r @ new \<and> (\<forall>k st. jm_get (rp_sessions r) k = Some st \<longrightarrow> 0 < ss_pins st \<longrightarrow>
     (\<exists>st'. jm_get (rp_sessions r') k = Some st' \<and> ss_pins st \<le> ss_pins st'
        \<and> (ss_epoch st' = ss_epoch st \<or> list_ex (reset_for k) new))))"

lemma guardsI:
  assumes "rp_outputs r' = rp_outputs r @ new"
    "\<And>k st. jm_get (rp_sessions r) k = Some st \<Longrightarrow> 0 < ss_pins st \<Longrightarrow> \<exists>st'. jm_get (rp_sessions r') k = Some st'
       \<and> ss_pins st \<le> ss_pins st' \<and> (ss_epoch st' = ss_epoch st \<or> list_ex (reset_for k) new)"
  shows "guards r r'"
  using assms unfolding guards_def by blast

lemma guards_refl: "guards r r"
  by (rule guardsI[where new = "[]"]) auto

lemma guards_trans:
  assumes a: "guards r r1" and b: "guards r1 r2"
  shows "guards r r2"
proof -
  obtain new1 where 1: "rp_outputs r1 = rp_outputs r @ new1" "\<And>k st. jm_get (rp_sessions r) k = Some st \<Longrightarrow> 0 < ss_pins st \<Longrightarrow>
     \<exists>st'. jm_get (rp_sessions r1) k = Some st' \<and> ss_pins st \<le> ss_pins st' \<and> (ss_epoch st' = ss_epoch st \<or> list_ex (reset_for k) new1)"
    using a unfolding guards_def by blast
  obtain new2 where 2: "rp_outputs r2 = rp_outputs r1 @ new2" "\<And>k st. jm_get (rp_sessions r1) k = Some st \<Longrightarrow> 0 < ss_pins st \<Longrightarrow>
     \<exists>st'. jm_get (rp_sessions r2) k = Some st' \<and> ss_pins st \<le> ss_pins st' \<and> (ss_epoch st' = ss_epoch st \<or> list_ex (reset_for k) new2)"
    using b unfolding guards_def by blast
  show ?thesis
  proof (rule guardsI[where new = "new1 @ new2"])
    fix k st assume st: "jm_get (rp_sessions r) k = Some st" "0 < ss_pins st"
    obtain s1 where s1: "jm_get (rp_sessions r1) k = Some s1" "ss_pins st \<le> ss_pins s1"
        "ss_epoch s1 = ss_epoch st \<or> list_ex (reset_for k) new1" using 1(2)[OF st] by blast
    then have "0 < ss_pins s1" using st(2) by simp
    then obtain s2 where s2: "jm_get (rp_sessions r2) k = Some s2" "ss_pins s1 \<le> ss_pins s2"
        "ss_epoch s2 = ss_epoch s1 \<or> list_ex (reset_for k) new2" using 2(2)[OF s1(1)] by blast
    then show "\<exists>st'. jm_get (rp_sessions r2) k = Some st' \<and> ss_pins st \<le> ss_pins st'
        \<and> (ss_epoch st' = ss_epoch st \<or> list_ex (reset_for k) (new1 @ new2))"
      using s1 by (intro exI[of _ s2]) auto
  qed (simp add: 1 2)
qed

lemma touched_guards: "touched sid r st r' \<Longrightarrow> guards r r'"
proof (rule guardsI[where new = "[]"])
  assume t: "touched sid r st r'"
  then show "rp_outputs r' = rp_outputs r @ []" using touchedD(3) by simp
  fix k s assume "jm_get (rp_sessions r) k = Some s" "0 < ss_pins s"
  then show "\<exists>st'. jm_get (rp_sessions r') k = Some st' \<and> ss_pins s \<le> ss_pins st'
      \<and> (ss_epoch st' = ss_epoch s \<or> list_ex (reset_for k) [])"
    using touchedD(9)[OF t] by (cases "k = sid") fastforce+
qed

lemma put_guards:
  assumes t: "touched sid r st r1" and out: "rp_outputs r' = rp_outputs r1 @ new"
    and sessions: "rp_sessions r' = rp_sessions (put_state sid st' r1)"
    and same: "ss_pins st \<le> ss_pins st'" "ss_epoch st' = ss_epoch st \<or> list_ex (reset_for sid) new"
  shows "guards r r'"
proof (rule guards_trans[OF touched_guards[OF t] guardsI[OF out]])
  fix k s assume s: "jm_get (rp_sessions r1) k = Some s" "0 < ss_pins s"
  then show "\<exists>st'. jm_get (rp_sessions r') k = Some st' \<and> ss_pins s \<le> ss_pins st' \<and> (ss_epoch st' = ss_epoch s \<or> list_ex (reset_for k) new)"
    using touched_getD[OF t] same by (cases "k = sid") (auto simp: sessions)
qed

lemma issue_event_guards:
  assumes inv: "replay_inv r"
  shows "guards r (snd (snd (issue_event sid mk now r)))"
proof -
  obtain st r1 where t: "touch_session sid False now r = (st, r1)" by fastforce
  have td: "touched sid r st r1" using touch_session_touched[OF inv t] by simp
  show ?thesis
    by (rule put_guards[OF td, where new = "[Broadcast (mk (ss_epoch st) (ss_seq st + 1))]"
          and st' = "retain (mk (ss_epoch st) (ss_seq st + 1)) (st\<lparr> ss_seq := ss_seq st + 1 \<rparr>)"])
      (simp_all add: issue_event_def t Let_def)
qed

lemma deliver_remote_guards: "replay_inv r \<Longrightarrow> guards r (deliver_remote remote now r)"
  unfolding deliver_remote_def by (rule issue_event_guards)

lemma invalidate_guards:
  assumes inv: "replay_inv r"
  shows "guards r (invalidate_replay sid reason True now r)"
proof -
  obtain st r1 where t: "touch_session sid False now r = (st, r1)" by fastforce
  have td: "touched sid r st r1" using touch_session_touched[OF inv t] by simp
  show ?thesis
    by (rule put_guards[OF td, where new = "[ResetSignal (Some sid) reason]"
          and st' = "st\<lparr> ss_seq := 0, ss_tseq := 0, ss_epoch := fst (next_epoch r1), ss_buffer := fresh_buffer, ss_floor := Some 0 \<rparr>"])
      (auto simp: invalidate_replay_def t Let_def reset_for_def next_epoch_def put_state_def)
qed

lemma touch_guards: "replay_inv r \<Longrightarrow> guards r (snd (touch_session sid pin now r))"
  using touch_session_touched[of r sid pin now] by (cases "touch_session sid pin now r") (auto intro: touched_guards)

lemma head_cursor_guards: "replay_inv r \<Longrightarrow> guards r (snd (head_cursor sid now r))"
  using touch_guards[of r sid False now] by (simp add: head_cursor_def case_prod_beta)

lemma pin_session_guards: "replay_inv r \<Longrightarrow> guards r (snd (pin_session sid now r))"
  using touch_guards[of r sid True now] by (simp add: pin_session_def case_prod_beta)

lemma get_events_after_guards: "guards r (snd (get_events_after sid after now r))"
  by (rule guardsI[where new = "[]"]) (auto simp: get_events_after_def Let_def split: option.splits)

lemma put_same_guards:
  "jm_get (rp_sessions r) sid = Some st \<Longrightarrow> ss_epoch st' = ss_epoch st \<Longrightarrow> ss_pins st' = ss_pins st \<Longrightarrow> guards r (put_state sid st' r)"
  by (rule guardsI[where new = "[]"]) auto

text \<open>A silent invalidation keeps the pinned sessions tracked; the caller announces it afterwards.\<close>

definition quiet :: "replay \<Rightarrow> replay \<Rightarrow> bool" where
  "quiet r r' \<longleftrightarrow> rp_outputs r' = rp_outputs r \<and> (\<forall>k st. jm_get (rp_sessions r) k = Some st \<longrightarrow> 0 < ss_pins st \<longrightarrow>
     (\<exists>st'. jm_get (rp_sessions r') k = Some st' \<and> ss_pins st \<le> ss_pins st'))"

lemma quiet_invalidate:
  assumes inv: "replay_inv r"
  shows "quiet r (invalidate_replay sid c False now r)"
proof -
  obtain st r1 where t: "touch_session sid False now r = (st, r1)" by fastforce
  have td: "touched sid r st r1" using touch_session_touched[OF inv t] by simp
  define st' where "st' = st\<lparr> ss_seq := 0, ss_tseq := 0, ss_epoch := fst (next_epoch r1), ss_buffer := fresh_buffer, ss_floor := Some 0 \<rparr>"
  have eq: "invalidate_replay sid c False now r = put_state sid st' (snd (next_epoch r1))"
    by (simp add: invalidate_replay_def t Let_def st'_def case_prod_beta)
  have "\<exists>s'. jm_get (rp_sessions (put_state sid st' (snd (next_epoch r1)))) k = Some s' \<and> ss_pins s \<le> ss_pins s'"
    if "jm_get (rp_sessions r) k = Some s" "0 < ss_pins s" for k s
    using touchedD(9)[OF td that] by (cases "k = sid") (auto simp: st'_def)
  then show ?thesis unfolding quiet_def eq using touchedD(3)[OF td] by simp
qed

definition invalidate_all :: "string list \<Rightarrow> int \<Rightarrow> replay \<Rightarrow> replay" where
  "invalidate_all sids now r = add_output (ResetSignal None TransportGap)
     (foldl (\<lambda>r sid. invalidate_replay sid TransportGap False now r) r sids)"

lemma invalidate_all_facts:
  assumes inv: "replay_inv r"
  shows "guards r (invalidate_all sids now r)" "advances r (invalidate_all sids now r)"
proof -
  let ?f = "\<lambda>r sid. invalidate_replay sid TransportGap False now r"
  have all: "quiet r (foldl ?f r sids) \<and> advances r (foldl ?f r sids)"
  proof (induction sids rule: rev_induct)
    case Nil
    then show ?case using advances_refl[OF inv] by (auto simp: quiet_def)
  next
    case (snoc s sids)
    have i: "replay_inv (foldl ?f r sids)" using snoc advances_inv by blast
    have "quiet r (foldl ?f r (sids @ [s]))"
      using snoc quiet_invalidate[OF i, of s TransportGap now] unfolding quiet_def by simp (meson less_le_trans order_trans)
    then show ?case using snoc advances_trans[OF _ invalidate_advances[OF i]] by simp
  qed
  show "guards r (invalidate_all sids now r)" unfolding invalidate_all_def
    by (rule guardsI[where new = "[ResetSignal None TransportGap]"]) (use all in \<open>auto simp: quiet_def reset_for_def\<close>)
  show "advances r (invalidate_all sids now r)" unfolding invalidate_all_def
    using all add_reset_advances advances_trans advances_inv by blast
qed

lemma release_advances: "replay_inv r \<Longrightarrow> advances r (snd (release_pin h now r))"
  by (auto simp: release_pin_def same_replay_def advances_refl put_same_advances split: option.split)

end
