(* ===== verification/EventTransport.thy ===== *)
theory EventTransport
  imports EventReplay
begin

text \<open>
  The event bus as a whole (\<open>packages/events/src/event-bus.ts\<close>): transport frames, the receive-side
  reordering with its parked frames and delivery chains, the bounded persist queue, the per-session
  publish outbox, and the operations of the bus.

  A promise chain is a list of tasks; its head runs when the environment schedules it. A store read
  and the outcome of a save or a publish are supplied by the environment with the step that needs them.
  A timer is a flag: armed or not. The counters of the rate-limited warnings are not modelled.
\<close>

definition receive_pending_max :: nat where "receive_pending_max = 64"
definition receive_states_max :: nat where "receive_states_max = 1024"
definition persist_max_in_flight :: nat where "persist_max_in_flight = 8"
definition persist_queue_max :: nat where "persist_queue_max = 1000"
definition outbox_pending_max :: nat where "outbox_pending_max = 256"
definition max_transport_inline_bytes :: nat where "max_transport_inline_bytes = 7500"

subsection \<open>Frames\<close>

record frame_ref =
  fr_session :: string
  fr_event :: string
  fr_incarnation :: "json option"
  fr_trace :: bool

datatype frame_body = EventFrame sub_event | RefFrame frame_ref

record transport_frame =
  tf_origin :: string
  tf_stream :: string
  tf_seq :: int
  tf_body :: frame_body

definition frame_session :: "transport_frame \<Rightarrow> string" where
  "frame_session f = (case tf_body f of EventFrame e \<Rightarrow> ev_session e | RefFrame r \<Rightarrow> fr_session r)"

definition frame_incarnation :: "transport_frame \<Rightarrow> json option" where
  "frame_incarnation f = (case tf_body f of EventFrame e \<Rightarrow> ev_incarnation e | RefFrame r \<Rightarrow> fr_incarnation r)"

definition json_string :: "json option \<Rightarrow> string option" where
  "json_string v = (case v of Some (JStr s) \<Rightarrow> Some s | _ \<Rightarrow> None)"

definition parse_event :: "json \<Rightarrow> sub_event option" where
  "parse_event e = (case (json_string (json_property e ''sessionId''), json_string (json_property e ''topic''),
       json_string (json_property e ''type'')) of
     (Some sid, Some topic, Some ty) \<Rightarrow> Some \<lparr> ev_id = string_or (json_property e ''id'') [], ev_topic = topic, ev_type = ty,
       ev_session = sid, ev_incarnation = json_property e ''sessionIncarnation'',
       ev_timestamp = json_property e ''timestamp'', ev_payload = json_property e ''payload'' \<rparr>
   | _ \<Rightarrow> None)"

definition parse_ref :: "json \<Rightarrow> frame_ref option" where
  "parse_ref r = (case (json_string (json_property r ''sessionId''), json_string (json_property r ''eventId'')) of
     (Some sid, Some eid) \<Rightarrow>
       (case json_property r ''journal'' of
          None \<Rightarrow> Some \<lparr> fr_session = sid, fr_event = eid, fr_incarnation = json_property r ''sessionIncarnation'', fr_trace = False \<rparr>
        | Some j \<Rightarrow> if j = JStr ''trace'' then Some \<lparr> fr_session = sid, fr_event = eid,
            fr_incarnation = json_property r ''sessionIncarnation'', fr_trace = True \<rparr> else None)
   | _ \<Rightarrow> None)"

text \<open>The argument is the parsed JSON text of the frame; \<open>None\<close> when it does not parse.\<close>

definition parse_transport_frame :: "json option \<Rightarrow> transport_frame option" where
  "parse_transport_frame raw = (case raw of None \<Rightarrow> None | Some frame \<Rightarrow>
     (case (json_string (json_property frame ''origin''), json_string (json_property frame ''stream''),
        safe_integer (json_property frame ''seq'')) of
        (Some origin, Some stream, Some seq) \<Rightarrow>
          if stream = [] then None
          else (case json_property frame ''event'' of
            Some e \<Rightarrow> map_option (\<lambda>ev. \<lparr> tf_origin = origin, tf_stream = stream, tf_seq = seq, tf_body = EventFrame ev \<rparr>)
              (parse_event e)
          | None \<Rightarrow> (case json_property frame ''ref'' of
              Some r \<Rightarrow> map_option (\<lambda>ref. \<lparr> tf_origin = origin, tf_stream = stream, tf_seq = seq, tf_body = RefFrame ref \<rparr>)
                (parse_ref r)
            | None \<Rightarrow> None))
      | _ \<Rightarrow> None))"

subsection \<open>Receive-side ordering\<close>

text \<open>A task of a delivery chain: deliver a frame, or invalidate the replay of a session.\<close>

datatype chain_task = Deliver string transport_frame | InvalidateTask string

record receive_state =
  rs_session :: string
  rs_stream :: string
  rs_expected :: int
  rs_pending :: "(int, transport_frame) jmap"
  rs_timer :: bool
  rs_chain :: nat

definition new_receive_state :: "string \<Rightarrow> string \<Rightarrow> nat \<Rightarrow> receive_state" where
  "new_receive_state sid stream chain =
     \<lparr> rs_session = sid, rs_stream = stream, rs_expected = 1, rs_pending = [], rs_timer = False, rs_chain = chain \<rparr>"

definition flush_pending :: "receive_state \<Rightarrow> chain_task list \<times> receive_state" where
  "flush_pending rs = (let rs' = rs\<lparr> rs_timer := False \<rparr> in
     if rs_pending rs = [] then ([], rs')
     else (let seqs = sort (jm_keys (rs_pending rs)) in
       (InvalidateTask (rs_session rs) # map (\<lambda>s. Deliver (rs_session rs) (the (jm_get (rs_pending rs) s))) seqs,
        rs'\<lparr> rs_expected := last seqs + 1, rs_pending := [] \<rparr>)))"

text \<open>The parked successors that have become consecutive.\<close>

function drain_pending :: "receive_state \<Rightarrow> chain_task list \<times> receive_state" where
  "drain_pending rs = (case jm_get (rs_pending rs) (rs_expected rs) of
     None \<Rightarrow> ([], rs)
   | Some f \<Rightarrow> (let (ts, rs') = drain_pending (rs\<lparr> rs_pending := jm_delete (rs_expected rs) (rs_pending rs),
         rs_expected := rs_expected rs + 1 \<rparr>)
       in (Deliver (rs_session rs) f # ts, rs')))"
  by pat_completeness auto
termination
  by (relation "measure (\<lambda>rs. length (rs_pending rs))") (auto intro!: length_jm_delete_less dest: jm_get_key)

declare drain_pending.simps [simp del]

definition receive_frame :: "transport_frame \<Rightarrow> receive_state \<Rightarrow> chain_task list \<times> receive_state" where
  "receive_frame f rs =
     (if tf_seq f < rs_expected rs then ([], rs)
      else if tf_seq f = rs_expected rs then
        (let (ts, rs') = drain_pending (rs\<lparr> rs_expected := tf_seq f + 1 \<rparr>)
         in (Deliver (rs_session rs) f # ts, if rs_pending rs' = [] then rs'\<lparr> rs_timer := False \<rparr> else rs'))
      else (let rs' = rs\<lparr> rs_pending := jm_set (tf_seq f) f (rs_pending rs) \<rparr>
        in if receive_pending_max < length (rs_pending rs') then flush_pending rs'
           else ([], rs'\<lparr> rs_timer := True \<rparr>)))"

subsection \<open>The bus\<close>

record covel_message =
  mg_id :: string
  mg_session :: string
  mg_type :: string
  mg_topic :: string
  mg_payload :: "(string \<times> json) list"
  mg_turn :: "string option"
  mg_timestamp :: string
  mg_incarnation :: "string option"

record event_store_record =
  es_id :: string
  es_session :: string
  es_type :: string
  es_topic :: string
  es_payload :: json
  es_turn :: "string option"
  es_created :: string

record trace_record =
  tr_session :: string
  tr_turn :: string
  tr_type :: string
  tr_payload :: json
  tr_created :: string

text \<open>A save promise is named by a number; the persist queue settles it once.\<close>

record persist_item =
  pi_record :: event_store_record
  pi_save :: nat

datatype outbox_task = PublishFrame transport_frame | PublishRef nat transport_frame

record bus =
  eb_replay :: replay
  eb_origin :: string
  eb_transport :: bool
  eb_store :: bool
  eb_require_incarnation :: bool
  eb_strict :: bool
  eb_closed :: bool
  eb_pins :: "session_pin list"
  eb_receive :: "(string \<times> string, receive_state) jmap"
  eb_chains :: "nat \<Rightarrow> chain_task list"
  eb_next_chain :: nat
  eb_queue :: "persist_item list"
  eb_in_flight :: "persist_item list"
  eb_saves :: "nat \<Rightarrow> bool option"
  eb_next_save :: nat
  eb_outboxes :: "(string, outbox_task list) jmap"
  eb_wire :: "transport_frame list"

definition create_event_bus :: "string \<Rightarrow> bool \<Rightarrow> bool \<Rightarrow> bool \<Rightarrow> bool \<Rightarrow> bus" where
  "create_event_bus origin transport store require strict =
     \<lparr> eb_replay = \<lparr> rp_sessions = [], rp_prefix = take 8 origin, rp_generation = 0, rp_outputs = [] \<rparr>,
       eb_origin = origin, eb_transport = transport, eb_store = store, eb_require_incarnation = require, eb_strict = strict,
       eb_closed = False, eb_pins = [], eb_receive = [], eb_chains = (\<lambda>_. []), eb_next_chain = 0, eb_queue = [],
       eb_in_flight = [], eb_saves = (\<lambda>_. None), eb_next_save = 0, eb_outboxes = [], eb_wire = [] \<rparr>"

definition upd_replay :: "(replay \<Rightarrow> replay) \<Rightarrow> bus \<Rightarrow> bus" where
  "upd_replay f b = b\<lparr> eb_replay := f (eb_replay b) \<rparr>"

subsection \<open>Persist queue\<close>

fun pump_items :: "persist_item list \<Rightarrow> persist_item list \<Rightarrow> persist_item list \<times> persist_item list" where
  "pump_items [] fl = ([], fl)"
| "pump_items (x # q) fl = (if length fl < persist_max_in_flight then pump_items q (fl @ [x]) else (x # q, fl))"

definition pump :: "bus \<Rightarrow> bus" where
  "pump b = (let (q, fl) = pump_items (eb_queue b) (eb_in_flight b) in b\<lparr> eb_queue := q, eb_in_flight := fl \<rparr>)"

definition settle_save :: "nat \<Rightarrow> bool \<Rightarrow> bus \<Rightarrow> bus" where
  "settle_save i ok b = (if eb_saves b i = None then b\<lparr> eb_saves := (eb_saves b)(i := Some ok) \<rparr> else b)"

definition enqueue_persist :: "persist_item \<Rightarrow> bus \<Rightarrow> bus" where
  "enqueue_persist item b =
     (let b1 = (if persist_queue_max \<le> length (eb_queue b)
        then settle_save (pi_save (hd (eb_queue b))) False (b\<lparr> eb_queue := tl (eb_queue b) \<rparr>) else b)
      in pump (b1\<lparr> eb_queue := eb_queue b1 @ [item] \<rparr>))"

text \<open>A save that is in flight ends: its promise settles, its slot is free and the queue moves on.\<close>

definition persist_done :: "nat \<Rightarrow> bool \<Rightarrow> bus \<Rightarrow> bus" where
  "persist_done i ok b = (if i < length (eb_in_flight b) then
     (let item = eb_in_flight b ! i;
          b1 = settle_save (pi_save item) ok (b\<lparr> eb_in_flight := take i (eb_in_flight b) @ drop (Suc i) (eb_in_flight b) \<rparr>)
      in if eb_queue b1 = [] then b1 else pump b1) else b)"

subsection \<open>Outbox\<close>

definition enqueue_outbox :: "string \<Rightarrow> outbox_task \<Rightarrow> bus \<Rightarrow> bus" where
  "enqueue_outbox sid task b = (case jm_get (eb_outboxes b) sid of
     None \<Rightarrow> b\<lparr> eb_outboxes := jm_set sid [task] (eb_outboxes b) \<rparr>
   | Some ts \<Rightarrow> if outbox_pending_max \<le> length ts then b
       else b\<lparr> eb_outboxes := jm_set sid (ts @ [task]) (eb_outboxes b) \<rparr>)"

text \<open>The head task of an outbox ends; a task that awaits its save cannot end before it settles.\<close>

definition outbox_step :: "string \<Rightarrow> bool \<Rightarrow> bus \<Rightarrow> bus" where
  "outbox_step sid published b = (case jm_get (eb_outboxes b) sid of
     None \<Rightarrow> b
   | Some [] \<Rightarrow> b
   | Some (t # ts) \<Rightarrow>
      (let advance = (\<lambda>b. if ts = [] then b\<lparr> eb_outboxes := jm_delete sid (eb_outboxes b) \<rparr>
             else b\<lparr> eb_outboxes := jm_set sid ts (eb_outboxes b) \<rparr>);
           publish = (\<lambda>f b. if published then b\<lparr> eb_wire := eb_wire b @ [f] \<rparr> else b)
       in case t of
         PublishFrame f \<Rightarrow> advance (publish f b)
       | PublishRef i f \<Rightarrow> (case eb_saves b i of
            None \<Rightarrow> b
          | Some ok \<Rightarrow> advance (if ok then publish f b else b))))"

subsection \<open>Emitting\<close>

definition frame_of :: "bus \<Rightarrow> session_state \<Rightarrow> frame_body \<Rightarrow> transport_frame" where
  "frame_of b st body = \<lparr> tf_origin = eb_origin b, tf_stream = ss_epoch st, tf_seq = int (ss_tseq st), tf_body = body \<rparr>"

text \<open>
  The fan-out to the other processes. \<open>frame_bytes\<close> is the UTF-8 size of the JSON text of a frame.
  A frame over the inline limit is replaced by a reference that waits for the event to be saved.
\<close>

definition fan_out :: "(transport_frame \<Rightarrow> nat) \<Rightarrow> covel_message \<Rightarrow> session_state \<Rightarrow> sub_event \<Rightarrow> bus \<Rightarrow> bus" where
  "fan_out frame_bytes m st e b = (if \<not> eb_transport b then b else
     (let st' = st\<lparr> ss_tseq := ss_tseq st + 1 \<rparr>;
          b1 = upd_replay (put_state (mg_session m) st') b;
          frame = frame_of b1 st' (EventFrame e)
      in if frame_bytes frame \<le> max_transport_inline_bytes then enqueue_outbox (mg_session m) (PublishFrame frame) b1
         else if eb_store b1 then
           (let ref_frame = frame_of b1 st' (RefFrame \<lparr> fr_session = mg_session m, fr_event = mg_id m,
                  fr_incarnation = map_option JStr (mg_incarnation m), fr_trace = (mg_topic m = ''trace'') \<rparr>);
                save = eb_next_save b1;
                b2 = b1\<lparr> eb_next_save := save + 1 \<rparr>;
                b3 = (if mg_topic m = ''trace'' then settle_save save True b2 else b2);
                b4 = enqueue_outbox (mg_session m) (PublishRef save ref_frame) b3
            in if mg_topic m \<noteq> ''trace'' \<and> ev_type e \<noteq> ''session.invalidated'' then
                 enqueue_persist \<lparr> pi_record = \<lparr> es_id = mg_id m, es_session = mg_session m, es_type = mg_type m,
                   es_topic = mg_topic m, es_payload = JObj (mg_payload m), es_turn = mg_turn m, es_created = mg_timestamp m \<rparr>,
                   pi_save = save \<rparr> b4
               else b4)
         else b1))"

text \<open>\<open>Inr\<close> is the state after the emission, \<open>Inl\<close> the error that a strict bus throws.\<close>

definition emit :: "(transport_frame \<Rightarrow> nat) \<Rightarrow> int \<Rightarrow> covel_message \<Rightarrow> bus \<Rightarrow> string + bus" where
  "emit frame_bytes now m b =
     (if eb_closed b then Inr b
      else if eb_require_incarnation b \<and> truthy (mg_incarnation m) = None then
        (if eb_strict b then Inl ''Session events require a producer incarnation'' else Inr b)
      else (let (st, e, r) = issue_event (mg_session m)
              (\<lambda>epoch seq. build_subscription_event (mg_session m) (mg_topic m) (mg_payload m) (mg_timestamp m)
                 (map_option JStr (mg_incarnation m)) epoch seq) now (eb_replay b)
            in Inr (fan_out frame_bytes m st e (b\<lparr> eb_replay := r \<rparr>))))"

subsection \<open>Receiving\<close>

definition push_tasks :: "nat \<Rightarrow> chain_task list \<Rightarrow> bus \<Rightarrow> bus" where
  "push_tasks c ts b = b\<lparr> eb_chains := (eb_chains b)(c := eb_chains b c @ ts) \<rparr>"

text \<open>
  Eviction of one receive state: the least recently used one without parked frames, otherwise the least
  recently used one, flushed.
\<close>

definition evict_receive_state :: "bus \<Rightarrow> bus" where
  "evict_receive_state b =
     (let victim = (case find (\<lambda>(_, rs). rs_pending rs = []) (eb_receive b) of
          Some v \<Rightarrow> Some v
        | None \<Rightarrow> (case eb_receive b of [] \<Rightarrow> None | v # _ \<Rightarrow> Some v))
      in case victim of None \<Rightarrow> b
       | Some (key, rs) \<Rightarrow> (let (ts, _) = flush_pending rs in
           (push_tasks (rs_chain rs) ts b)\<lparr> eb_receive := jm_delete key (eb_receive b) \<rparr>))"

definition get_receive_state :: "string \<Rightarrow> string \<Rightarrow> string \<Rightarrow> bus \<Rightarrow> receive_state \<times> bus" where
  "get_receive_state origin sid stream b =
     (let key = (origin, sid) in case jm_get (eb_receive b) key of
        Some current \<Rightarrow>
          (if rs_stream current = stream
           then (current, b\<lparr> eb_receive := jm_set key current (jm_delete key (eb_receive b)) \<rparr>)
           else (let (ts, _) = flush_pending current;
                     rs = new_receive_state sid stream (rs_chain current);
                     b1 = push_tasks (rs_chain current) ts b
                 in (rs, b1\<lparr> eb_receive := jm_set key rs (jm_delete key (eb_receive b1)) \<rparr>)))
      | None \<Rightarrow>
          (let b1 = (if receive_states_max \<le> length (eb_receive b) then evict_receive_state b else b);
               rs = new_receive_state sid stream (eb_next_chain b1)
           in (rs, b1\<lparr> eb_next_chain := eb_next_chain b1 + 1, eb_receive := jm_set key rs (eb_receive b1) \<rparr>)))"

definition handle_transport_frame :: "int \<Rightarrow> json option \<Rightarrow> bus \<Rightarrow> bus" where
  "handle_transport_frame now raw b = (if eb_closed b then b else
     (case parse_transport_frame raw of
        None \<Rightarrow> b
      | Some f \<Rightarrow>
         if tf_origin f = eb_origin b then b
         else if eb_require_incarnation b \<and> truthy (json_string (frame_incarnation f)) = None
         then upd_replay (invalidate_replay (frame_session f) TransportGap True now) b
         else (let (rs, b1) = get_receive_state (tf_origin f) (frame_session f) (tf_stream f) b;
                   (ts, rs') = receive_frame f rs;
                   key = (tf_origin f, frame_session f)
               in (push_tasks (rs_chain rs) ts b1)\<lparr> eb_receive := jm_set key rs' (eb_receive b1) \<rparr>)))"

definition timer_fires :: "string \<times> string \<Rightarrow> bus \<Rightarrow> bus" where
  "timer_fires key b = (case jm_get (eb_receive b) key of
     None \<Rightarrow> b
   | Some rs \<Rightarrow> if rs_timer rs then (let (ts, rs') = flush_pending rs in
       (push_tasks (rs_chain rs) ts b)\<lparr> eb_receive := jm_set key rs' (eb_receive b) \<rparr>) else b)"

text \<open>What a read of the event store gives: it fails, or finds a row or none.\<close>

datatype 'a store_read = ReadFailed | Row "'a option"

record event_store =
  st_event :: "string \<Rightarrow> string \<Rightarrow> event_store_record store_read"
  st_trace :: "(string \<Rightarrow> string \<Rightarrow> trace_record store_read) option"

text \<open>The entries that spreading a JSON value into an object copies.\<close>

fun spread :: "json \<Rightarrow> (string \<times> json) list" where
  "spread (JObj ps) = ps"
| "spread (JArr xs) = zip (map show_nat [0 ..< length xs]) xs"
| "spread (JStr s) = zip (map show_nat [0 ..< length s]) (map (\<lambda>c. JStr [c]) s)"
| "spread j = []"

text \<open>\<open>rawPayload\<close>: only an object or an array has properties to read.\<close>

definition object_entries :: "json \<Rightarrow> (string \<times> json) list" where
  "object_entries j = (case j of JObj ps \<Rightarrow> ps | JArr xs \<Rightarrow> spread j | _ \<Rightarrow> [])"

definition trace_payload :: "trace_record \<Rightarrow> (string \<times> json) list" where
  "trace_payload t = jm_merge (spread (tr_payload t))
     [(''sessionId'', JStr (tr_session t)), (''turnId'', JStr (tr_turn t)), (''_subType'', JStr (tr_type t))]"

text \<open>The session, topic, payload and time of the stored event a reference names.\<close>

definition fetch_ref :: "event_store \<Rightarrow> frame_ref \<Rightarrow> (string \<times> string \<times> (string \<times> json) list \<times> string) option" where
  "fetch_ref store ref = (if fr_trace ref
     then (case st_trace store of None \<Rightarrow> None
       | Some get \<Rightarrow> (case get (fr_session ref) (fr_event ref) of
           Row (Some t) \<Rightarrow> Some (tr_session t, ''trace'', trace_payload t, tr_created t) | _ \<Rightarrow> None))
     else (case st_event store (fr_session ref) (fr_event ref) of
         Row (Some r) \<Rightarrow> Some (es_session r, es_topic r, object_entries (es_payload r), es_created r) | _ \<Rightarrow> None))"

text \<open>\<open>deliverFrame\<close>: \<open>None\<close> is a thrown error.\<close>

definition deliver_frame :: "event_store \<Rightarrow> int \<Rightarrow> transport_frame \<Rightarrow> bus \<Rightarrow> bus option" where
  "deliver_frame store now f b = (if eb_closed b then Some b else
     (case tf_body f of
        EventFrame e \<Rightarrow> Some (upd_replay (deliver_remote e now) b)
      | RefFrame ref \<Rightarrow> if \<not> eb_store b then None
          else (case fetch_ref store ref of
             None \<Rightarrow> None
           | Some (sid, topic, raw, created) \<Rightarrow> Some (upd_replay (\<lambda>r. snd (snd (issue_event sid
               (\<lambda>epoch seq. build_subscription_event sid topic raw created (fr_incarnation ref) epoch seq) now r))) b))))"

definition is_trace_ref :: "transport_frame \<Rightarrow> bool" where
  "is_trace_ref f = (case tf_body f of EventFrame e \<Rightarrow> False | RefFrame ref \<Rightarrow> fr_trace ref)"

definition run_task :: "event_store \<Rightarrow> int \<Rightarrow> chain_task \<Rightarrow> bus \<Rightarrow> bus" where
  "run_task store now t b = (case t of
     InvalidateTask sid \<Rightarrow> if eb_closed b then b else upd_replay (invalidate_replay sid TransportGap True now) b
   | Deliver sid f \<Rightarrow> (case deliver_frame store now f b of
        Some b' \<Rightarrow> b'
      | None \<Rightarrow> if \<not> eb_closed b \<and> \<not> is_trace_ref f
          then upd_replay (invalidate_replay sid TransportGap True now) b else b))"

definition run_chain :: "event_store \<Rightarrow> int \<Rightarrow> nat \<Rightarrow> bus \<Rightarrow> bus" where
  "run_chain store now c b = (case eb_chains b c of
     [] \<Rightarrow> b
   | t # ts \<Rightarrow> run_task store now t (b\<lparr> eb_chains := (eb_chains b)(c := ts) \<rparr>))"

subsection \<open>The other operations\<close>

definition transport_reset :: "int \<Rightarrow> bus \<Rightarrow> bus" where
  "transport_reset now b = (if eb_closed b then b
     else upd_replay (\<lambda>r. invalidate_all (jm_keys (rp_sessions r)) now r) b)"

definition bus_invalidate :: "string \<Rightarrow> reset_reason \<Rightarrow> int \<Rightarrow> bus \<Rightarrow> bus" where
  "bus_invalidate sid reason now b = (if eb_closed b then b else upd_replay (invalidate_replay sid reason True now) b)"

definition bus_pin :: "string \<Rightarrow> int \<Rightarrow> bus \<Rightarrow> bus" where
  "bus_pin sid now b = (let (h, r) = pin_session sid now (eb_replay b) in b\<lparr> eb_replay := r, eb_pins := eb_pins b @ [h] \<rparr>)"

definition bus_release :: "nat \<Rightarrow> int \<Rightarrow> bus \<Rightarrow> bus" where
  "bus_release i now b = (if i < length (eb_pins b) then
     (let (h, r) = release_pin (eb_pins b ! i) now (eb_replay b) in b\<lparr> eb_replay := r, eb_pins := (eb_pins b)[i := h] \<rparr>) else b)"

text \<open>Closing stops the intake at once; the maps are cleared when all pending work has settled.\<close>

definition begin_close :: "bus \<Rightarrow> bus" where
  "begin_close b = (if eb_closed b then b else b\<lparr> eb_closed := True,
     eb_receive := map (\<lambda>(k, rs). (k, rs\<lparr> rs_pending := [], rs_timer := False \<rparr>)) (eb_receive b) \<rparr>)"

definition drained :: "bus \<Rightarrow> bool" where
  "drained b \<longleftrightarrow> eb_queue b = [] \<and> eb_in_flight b = [] \<and> eb_outboxes b = []
     \<and> list_all (\<lambda>c. eb_chains b c = []) [0 ..< eb_next_chain b]"

definition finish_close :: "bus \<Rightarrow> bus" where
  "finish_close b = (if eb_closed b \<and> drained b
     then upd_replay (\<lambda>r. r\<lparr> rp_sessions := [] \<rparr>) (b\<lparr> eb_receive := [] \<rparr>) else b)"

datatype bus_op =
    Emit int covel_message
  | Incoming int "json option"
  | RunChain event_store int nat
  | TimerFires "string \<times> string"
  | TransportReset int
  | Invalidate string reset_reason int
  | HeadCursor string int
  | GetEventsAfter string int int
  | Pin string int
  | Release nat int
  | PersistDone nat bool
  | OutboxStep string bool
  | BeginClose
  | FinishClose

text \<open>An emission that throws leaves the bus as it was.\<close>

fun bus_step :: "(transport_frame \<Rightarrow> nat) \<Rightarrow> bus_op \<Rightarrow> bus \<Rightarrow> bus" where
  "bus_step fb (Emit now m) b = (case emit fb now m b of Inl err \<Rightarrow> b | Inr b' \<Rightarrow> b')"
| "bus_step fb (Incoming now raw) b = handle_transport_frame now raw b"
| "bus_step fb (RunChain store now c) b = run_chain store now c b"
| "bus_step fb (TimerFires key) b = timer_fires key b"
| "bus_step fb (TransportReset now) b = transport_reset now b"
| "bus_step fb (Invalidate sid reason now) b = bus_invalidate sid reason now b"
| "bus_step fb (HeadCursor sid now) b = upd_replay (\<lambda>r. snd (head_cursor sid now r)) b"
| "bus_step fb (GetEventsAfter sid after now) b = upd_replay (\<lambda>r. snd (get_events_after sid after now r)) b"
| "bus_step fb (Pin sid now) b = bus_pin sid now b"
| "bus_step fb (Release i now) b = bus_release i now b"
| "bus_step fb (PersistDone i ok) b = persist_done i ok b"
| "bus_step fb (OutboxStep sid ok) b = outbox_step sid ok b"
| "bus_step fb BeginClose b = begin_close b"
| "bus_step fb FinishClose b = finish_close b"

definition bus_run :: "(transport_frame \<Rightarrow> nat) \<Rightarrow> bus_op list \<Rightarrow> bus \<Rightarrow> bus" where
  "bus_run fb ops b = foldl (\<lambda>b op. bus_step fb op b) b ops"

end
