(* ===== verification/EventBus.thy ===== *)
theory EventBus
  imports EventTransport
begin

text \<open>
  What the operations of the event bus do to its replay half, and what a replay query and a subscriber can
  rely on whatever the bus has been through.
\<close>

subsection \<open>How the operations move the replay half\<close>

lemma upd_replay_fields [simp]:
  "eb_replay (upd_replay f b) = f (eb_replay b)" "eb_closed (upd_replay f b) = eb_closed b"
  "eb_queue (upd_replay f b) = eb_queue b" "eb_in_flight (upd_replay f b) = eb_in_flight b"
  "eb_outboxes (upd_replay f b) = eb_outboxes b" "eb_receive (upd_replay f b) = eb_receive b"
  "eb_chains (upd_replay f b) = eb_chains b" "eb_wire (upd_replay f b) = eb_wire b"
  "eb_next_chain (upd_replay f b) = eb_next_chain b" "eb_pins (upd_replay f b) = eb_pins b"
  by (simp_all add: upd_replay_def)

lemma push_tasks_fields [simp]:
  "eb_replay (push_tasks c ts b) = eb_replay b" "eb_closed (push_tasks c ts b) = eb_closed b"
  "eb_queue (push_tasks c ts b) = eb_queue b" "eb_in_flight (push_tasks c ts b) = eb_in_flight b"
  "eb_outboxes (push_tasks c ts b) = eb_outboxes b" "eb_receive (push_tasks c ts b) = eb_receive b"
  "eb_next_chain (push_tasks c ts b) = eb_next_chain b"
  by (simp_all add: push_tasks_def)

lemma settle_save_fields [simp]:
  "eb_replay (settle_save i ok b) = eb_replay b" "eb_queue (settle_save i ok b) = eb_queue b"
  "eb_in_flight (settle_save i ok b) = eb_in_flight b" "eb_outboxes (settle_save i ok b) = eb_outboxes b"
  "eb_receive (settle_save i ok b) = eb_receive b"
  by (simp_all add: settle_save_def)

lemma pump_fields [simp]:
  "eb_replay (pump b) = eb_replay b" "eb_outboxes (pump b) = eb_outboxes b" "eb_receive (pump b) = eb_receive b"
  by (simp_all add: pump_def case_prod_beta)

lemma enqueue_fields [simp]:
  "eb_replay (enqueue_persist item b) = eb_replay b" "eb_outboxes (enqueue_persist item b) = eb_outboxes b"
  "eb_receive (enqueue_persist item b) = eb_receive b"
  "eb_replay (enqueue_outbox sid t b) = eb_replay b" "eb_queue (enqueue_outbox sid t b) = eb_queue b"
  "eb_in_flight (enqueue_outbox sid t b) = eb_in_flight b" "eb_receive (enqueue_outbox sid t b) = eb_receive b"
  by (simp_all add: enqueue_persist_def enqueue_outbox_def Let_def split: option.split)

lemma get_receive_state_replay [simp]: "eb_replay (snd (get_receive_state origin sid stream b)) = eb_replay b"
  by (simp add: get_receive_state_def evict_receive_state_def Let_def case_prod_beta split: option.split list.split)

lemma persist_done_replay [simp]: "eb_replay (persist_done i ok b) = eb_replay b"
  by (simp add: persist_done_def Let_def)

lemma outbox_step_replay [simp]: "eb_replay (outbox_step sid ok b) = eb_replay b"
  by (simp add: outbox_step_def Let_def split: option.split list.split outbox_task.split)

lemma timer_fires_replay [simp]: "eb_replay (timer_fires key b) = eb_replay b"
  by (simp add: timer_fires_def Let_def case_prod_beta split: option.split)

lemma fan_out_replay:
  "eb_replay (fan_out size_of m st e b) = (if eb_transport b
     then put_state (mg_session m) (st\<lparr> ss_tseq := ss_tseq st + 1 \<rparr>) (eb_replay b) else eb_replay b)"
  by (simp add: fan_out_def Let_def)

text \<open>After an event is issued, the tracked state is the one that was returned.\<close>

lemma issue_event_state:
  assumes "replay_inv r" "issue_event sid mk now r = (st, e, r')"
  shows "jm_get (rp_sessions r') sid = None \<or> jm_get (rp_sessions r') sid = Some st"
proof -
  obtain st0 r1 where t: "touch_session sid False now r = (st0, r1)" by fastforce
  show ?thesis using touched_getD[OF touch_session_touched[OF assms(1) t, THEN conjunct1]] assms(2)
    by (auto simp: issue_event_def t Let_def)
qed

lemma put_tseq:
  assumes "replay_inv r" "jm_get (rp_sessions r) sid = None \<or> jm_get (rp_sessions r) sid = Some st"
  shows "advances r (put_state sid (st\<lparr> ss_tseq := n \<rparr>) r)" "guards r (put_state sid (st\<lparr> ss_tseq := n \<rparr>) r)"
proof -
  have "jm_get (rp_sessions r) sid = None \<Longrightarrow> put_state sid (st\<lparr> ss_tseq := n \<rparr>) r = r"
    by (simp add: put_state_def jm_has_def del: jm_has_iff)
  then show "advances r (put_state sid (st\<lparr> ss_tseq := n \<rparr>) r)" "guards r (put_state sid (st\<lparr> ss_tseq := n \<rparr>) r)"
    using assms advances_refl guards_refl put_same_advances[OF assms(1)] put_same_guards
    by (auto simp: same_replay_def)
qed

text \<open>Either nothing, or one of the moves of the replay half; every move advances it and guards its pins.\<close>

definition moves :: "replay \<Rightarrow> replay \<Rightarrow> bool" where
  "moves r r' \<longleftrightarrow> (replay_inv r \<longrightarrow> advances r r' \<and> guards r r')"

lemma moves_refl [simp, intro]: "moves r r"
  by (simp add: moves_def advances_refl guards_refl)

lemma moves_trans: "moves r r1 \<Longrightarrow> moves r1 r2 \<Longrightarrow> moves r r2"
  unfolding moves_def using advances_trans guards_trans advances_inv by blast

lemma moves_issue:
  assumes "\<And>ep n. ev_id (mk ep n) = event_id ep n" "\<And>ep n. ev_session (mk ep n) = sid"
  shows "moves r (snd (snd (issue_event sid mk now r)))"
  using issue_event_advances[OF _ assms, of r now] issue_event_guards[of r sid mk now] by (simp add: moves_def)

lemma moves_deliver_remote: "moves r (deliver_remote e now r)"
  by (simp add: moves_def deliver_remote_advances deliver_remote_guards)

lemma moves_invalidate: "moves r (invalidate_replay sid reason True now r)"
  by (simp add: moves_def invalidate_advances invalidate_guards)

lemma moves_emit: "emit fb now m b = Inr b' \<Longrightarrow> moves (eb_replay b) (eb_replay b')"
proof -
  assume em: "emit fb now m b = Inr b'"
  define mk where "mk = (\<lambda>epoch seq. build_subscription_event (mg_session m) (mg_topic m) (mg_payload m) (mg_timestamp m)
                 (map_option JStr (mg_incarnation m)) epoch seq)"
  obtain st e r where iss: "issue_event (mg_session m) mk now (eb_replay b) = (st, e, r)" by (metis prod_cases3)
  have mv: "moves (eb_replay b) r" using moves_issue[of mk "mg_session m" "eb_replay b" now] iss by (simp add: mk_def)
  have "b' = b \<or> b' = fan_out fb m st e (b\<lparr> eb_replay := r \<rparr>)"
    using em iss by (auto simp: emit_def mk_def[symmetric] split: if_splits)
  then show ?thesis
  proof
    assume b': "b' = fan_out fb m st e (b\<lparr> eb_replay := r \<rparr>)"
    have "moves r (eb_replay b')" if "replay_inv (eb_replay b)"
      using put_tseq[OF _ issue_event_state[OF that iss]] unfolding b' fan_out_replay moves_def
      by (auto simp: advances_refl guards_refl)
    then show ?thesis using mv moves_trans unfolding moves_def by blast
  qed auto
qed

lemma moves_run_task: "moves (eb_replay b) (eb_replay (run_task store now t b))"
proof -
  have "moves (eb_replay b) (eb_replay b')" if "deliver_frame store now f b = Some b'" for f b'
    using that by (auto simp: deliver_frame_def moves_deliver_remote intro!: moves_issue split: if_splits frame_body.splits option.splits)
  then show ?thesis
    by (auto simp: run_task_def moves_invalidate split: chain_task.split option.split)
qed

lemma moves_incoming: "moves (eb_replay b) (eb_replay (handle_transport_frame now raw b))"
  by (auto simp: handle_transport_frame_def moves_invalidate case_prod_beta Let_def split: option.split)

text \<open>Every operation but a release and the end of closing moves the replay half.\<close>

lemma bus_step_moves:
  assumes "\<And>i now. op \<noteq> Release i now" "op \<noteq> FinishClose"
  shows "moves (eb_replay b) (eb_replay (bus_step fb op b))"
proof (cases op)
  case (Emit now m)
  then show ?thesis using moves_emit[of fb now m b] by (auto split: sum.split)
next
  case (RunChain store now c)
  then show ?thesis using moves_run_task[of "b\<lparr> eb_chains := _ \<rparr>"] by (auto simp: run_chain_def split: list.split)
next
  case (TransportReset now)
  then show ?thesis by (simp add: transport_reset_def moves_def invalidate_all_facts advances_refl guards_refl)
next
  case (Invalidate sid reason now)
  then show ?thesis by (simp add: bus_invalidate_def moves_invalidate)
next
  case (Incoming now raw)
  then show ?thesis by (simp add: moves_incoming)
next
  case (Pin sid now)
  then show ?thesis by (simp add: bus_pin_def case_prod_beta moves_def pin_session_advances pin_session_guards)
qed (use assms in \<open>simp_all add: moves_def head_cursor_advances head_cursor_guards get_events_after_advances
      get_events_after_guards begin_close_def advances_refl guards_refl\<close>)

lemma bus_step_advances:
  assumes "replay_inv (eb_replay b)"
  shows "advances (eb_replay b) (eb_replay (bus_step fb op b))"
proof (cases "(\<exists>i now. op = Release i now) \<or> op = FinishClose")
  case True
  then show ?thesis using assms
    by (auto simp: bus_release_def finish_close_def case_prod_beta Let_def advances_refl release_advances clear_advances)
next
  case False
  then show ?thesis using bus_step_moves[of op b fb] assms by (auto simp: moves_def)
qed

lemma bus_run_advances:
  assumes "replay_inv (eb_replay b)"
  shows "advances (eb_replay b) (eb_replay (bus_run fb ops b))"
  unfolding bus_run_def
proof (induction ops rule: rev_induct)
  case (snoc op ops)
  have "foldl (\<lambda>b op. bus_step fb op b) b (ops @ [op]) = bus_step fb op (foldl (\<lambda>b op. bus_step fb op b) b ops)" by simp
  then show ?case using bus_step_advances[OF advances_inv[OF snoc.IH]] advances_trans[OF snoc.IH] by metis
qed (simp add: advances_refl assms)

lemma create_inv: "replay_inv (eb_replay (create_event_bus origin transport store require strict))"
  by (simp add: replay_inv_def create_event_bus_def)

lemma bus_run_inv: "replay_inv (eb_replay (bus_run fb ops (create_event_bus origin transport store require strict)))"
  by (rule advances_inv[OF bus_run_advances[OF create_inv]])

subsection \<open>Properties of the replay\<close>

text \<open>C8: whatever a bus has been through, a replay query on a tracked session reports no gap exactly when
the cursor is not ahead of the session and the answer is every event that was broadcast for the session
under its current epoch above the cursor, except the live-only diagnostics.\<close>

theorem replay_reports_every_gap:
  assumes "b = bus_run fb ops (create_event_bus origin transport store require strict)"
    and "jm_get (rp_sessions (eb_replay b)) sid = Some st" and "0 \<le> after"
  shows "\<not> er_gap (fst (get_events_after sid after now (eb_replay b))) \<longleftrightarrow>
    after \<le> int (ss_seq st)
    \<and> er_events (fst (get_events_after sid after now (eb_replay b)))
        = filter (\<lambda>e. ev_session e = sid \<and> event_epoch e = ss_epoch st \<and> ev_topic e \<noteq> ''trace'' \<and> seq_above after e)
            (broadcasts (rp_outputs (eb_replay b)))"
proof -
  have "replay_inv (eb_replay b)" unfolding assms(1) by (rule bus_run_inv)
  moreover have "filter (seq_above after) (stored (eb_replay b) sid (ss_epoch st))
      = filter (\<lambda>e. ev_session e = sid \<and> event_epoch e = ss_epoch st \<and> ev_topic e \<noteq> ''trace'' \<and> seq_above after e)
            (broadcasts (rp_outputs (eb_replay b)))"
    by (auto simp: stored_def history_def intro: filter_cong)
  ultimately show ?thesis using replay_exact[of "eb_replay b" sid st after now] assms(2,3) by simp
qed

text \<open>C7: a client that reads the head cursor of a session and later replays from it, under the same epoch
and without a gap, receives exactly the events of the session that were broadcast after the read,
diagnostics aside, in the order they were broadcast.\<close>

theorem head_cursor_loses_nothing:
  assumes "b = bus_run fb ops (create_event_bus origin transport store require strict)"
    and "b1 = bus_step fb (HeadCursor sid now) b" and "fst (head_cursor sid now (eb_replay b)) = event_id epoch n"
    and "b2 = bus_run fb ops' b1" and "rp_outputs (eb_replay b2) = rp_outputs (eb_replay b) @ new"
    and "er_epoch (fst (get_events_after sid (int n) now' (eb_replay b2))) = Some epoch"
    and "\<not> er_gap (fst (get_events_after sid (int n) now' (eb_replay b2)))"
  shows "er_events (fst (get_events_after sid (int n) now' (eb_replay b2)))
    = filter (\<lambda>e. ev_session e = sid \<and> ev_topic e \<noteq> ''trace'') (broadcasts new)"
proof -
  have inv: "replay_inv (eb_replay b)" unfolding assms(1) by (rule bus_run_inv)
  obtain st r where t: "touch_session sid False now (eb_replay b) = (st, r)" by fastforce
  have td: "touched sid (eb_replay b) st r" using touch_session_touched[OF inv t] by simp
  have r: "eb_replay b1 = r" by (simp add: assms(2) head_cursor_def t)
  have "event_id (ss_epoch st) (ss_seq st) = event_id epoch n" using assms(3) by (simp add: head_cursor_def t)
  then have st: "ss_epoch st = epoch" "ss_seq st = n"
    using last_colon[OF colon_not_digit] show_nat_inject unfolding event_id_def by metis+
  have "advances r (eb_replay b2)" using bus_run_advances[of b1 fb ops'] touchedD(1)[OF td] by (simp add: assms(4) r)
  moreover have "rp_outputs (eb_replay b2) = rp_outputs r @ new" using assms(5) touchedD(3)[OF td] by simp
  ultimately show ?thesis
    using replay_from_head[OF touchedD(2)[OF td] touchedD(1)[OF td] disj_commute[THEN iffD1, OF touched_getD[OF td]], of "eb_replay b2" new now']
      assms(6,7) st by simp
qed

subsection \<open>Subscribers\<close>

text \<open>The handles of a session that have been released. No operation takes a release back, and only a release of an
  unreleased handle of the session adds one.\<close>

definition released_pins :: "string \<Rightarrow> bus \<Rightarrow> nat" where
  "released_pins sid b = length (filter (\<lambda>h. sp_session h = sid \<and> sp_released h) (eb_pins b))"

lemma queue_pins [simp]:
  "eb_pins (push_tasks c ts b) = eb_pins b" "eb_pins (settle_save i ok b) = eb_pins b" "eb_pins (pump b) = eb_pins b"
  "eb_pins (enqueue_persist item b) = eb_pins b" "eb_pins (enqueue_outbox sid t b) = eb_pins b"
  "eb_pins (persist_done i ok b) = eb_pins b" "eb_pins (begin_close b) = eb_pins b"
  by (simp_all add: push_tasks_def settle_save_def pump_def enqueue_persist_def enqueue_outbox_def persist_done_def
      begin_close_def Let_def case_prod_beta split: option.split)

lemma intake_pins [simp]:
  "eb_pins (snd (get_receive_state origin sid stream b)) = eb_pins b" "eb_pins (timer_fires key b) = eb_pins b"
  "eb_pins (handle_transport_frame now raw b) = eb_pins b" "eb_pins (outbox_step sid ok b) = eb_pins b"
  by (simp_all add: get_receive_state_def evict_receive_state_def timer_fires_def handle_transport_frame_def outbox_step_def
      Let_def case_prod_beta split: option.split list.split outbox_task.split)

lemma emit_pins: "emit fb now m b = Inr b' \<Longrightarrow> eb_pins b' = eb_pins b"
  by (auto simp: emit_def fan_out_def Let_def case_prod_beta split: if_splits)

lemma run_chain_pins [simp]: "eb_pins (run_chain store now c b) = eb_pins b"
proof -
  have "eb_pins b' = eb_pins b" if "deliver_frame store now f b = Some b'" for f b b'
    using that by (auto simp: deliver_frame_def split: if_splits frame_body.splits option.splits)
  then have "eb_pins (run_task store now t b) = eb_pins b" for t b
    by (auto simp: run_task_def split: chain_task.split option.split)
  then show ?thesis by (auto simp: run_chain_def split: list.split)
qed

lemma step_released_pins:
  assumes "\<And>i now. op \<noteq> Release i now"
  shows "released_pins sid (bus_step fb op b) = released_pins sid b"
proof (cases op)
  case (Emit now m)
  then show ?thesis using emit_pins[of fb now m b] by (auto simp: released_pins_def split: sum.split)
qed (use assms in \<open>simp_all add: released_pins_def transport_reset_def bus_invalidate_def bus_pin_def pin_session_def
    finish_close_def case_prod_beta\<close>)

lemma filter_update_length:
  assumes "i < length hs"
  shows "length (filter P (hs[i := x])) + (if P (hs ! i) then 1 else 0) = length (filter P hs) + (if P x then 1 else 0)"
proof -
  have "filter P hs = filter P (take i hs) @ filter P (hs ! i # drop (Suc i) hs)"
    using id_take_nth_drop[OF assms] by (metis filter_append)
  then show ?thesis using assms by (simp add: upd_conv_take_nth_drop)
qed

lemma release_counts:
  assumes "i < length (eb_pins b)" "\<not> sp_released (eb_pins b ! i)"
  shows "released_pins sid (bus_release i now b)
    = released_pins sid b + (if sp_session (eb_pins b ! i) = sid then 1 else 0)"
proof -
  have "eb_pins (bus_release i now b) = (eb_pins b)[i := (eb_pins b ! i)\<lparr> sp_released := True \<rparr>]"
    using assms by (simp add: bus_release_def release_pin_def case_prod_beta)
  then show ?thesis
    using assms filter_update_length[OF assms(1), of "\<lambda>h. sp_session h = sid \<and> sp_released h" "(eb_pins b ! i)\<lparr> sp_released := True \<rparr>"]
    by (simp add: released_pins_def split: if_splits)
qed

lemma release_nothing:
  assumes "\<not> (i < length (eb_pins b) \<and> \<not> sp_released (eb_pins b ! i))"
  shows "bus_release i now b = b"
  using assms by (auto simp: bus_release_def release_pin_def)

lemma step_released_mono: "released_pins sid b \<le> released_pins sid (bus_step fb op b)"
proof (cases "\<exists>i now. op = Release i now")
  case True
  then obtain i now where "op = Release i now" by blast
  then show ?thesis using release_counts[of i b sid now] release_nothing[of i b now]
    by (cases "i < length (eb_pins b) \<and> \<not> sp_released (eb_pins b ! i)") simp_all
qed (use step_released_pins[of op sid fb b] in simp)

text \<open>A release changes no epoch and sends nothing; a session loses a pin only to one more released handle of its own.\<close>

lemma release_guards:
  assumes "jm_get (rp_sessions (eb_replay b)) sid = Some st"
  shows "rp_outputs (eb_replay (bus_release i now b)) = rp_outputs (eb_replay b)"
    and "\<exists>st'. jm_get (rp_sessions (eb_replay (bus_release i now b))) sid = Some st' \<and> ss_epoch st' = ss_epoch st
        \<and> ss_pins st + int (released_pins sid b) \<le> ss_pins st' + int (released_pins sid (bus_release i now b))"
proof -
  have replay: "eb_replay (bus_release i now b) = snd (release_pin (eb_pins b ! i) now (eb_replay b))"
    if "i < length (eb_pins b)"
    using that by (simp add: bus_release_def case_prod_beta)
  show "rp_outputs (eb_replay (bus_release i now b)) = rp_outputs (eb_replay b)"
    by (simp add: bus_release_def release_pin_def case_prod_beta split: option.split)
  show "\<exists>st'. jm_get (rp_sessions (eb_replay (bus_release i now b))) sid = Some st' \<and> ss_epoch st' = ss_epoch st
        \<and> ss_pins st + int (released_pins sid b) \<le> ss_pins st' + int (released_pins sid (bus_release i now b))"
  proof (cases "i < length (eb_pins b) \<and> \<not> sp_released (eb_pins b ! i)")
    case True
    then show ?thesis using assms release_counts[of i b sid now] replay
      by (cases "sp_session (eb_pins b ! i) = sid") (auto simp: release_pin_def split: option.split)
  qed (simp add: release_nothing assms)
qed

text \<open>Every step but the end of closing keeps a pinned session tracked, up to the released handles of its own.\<close>

lemma step_keeps_pinned:
  assumes "replay_inv (eb_replay b)" "op \<noteq> FinishClose"
    and "jm_get (rp_sessions (eb_replay b)) sid = Some st" "0 < ss_pins st"
  shows "\<exists>st' new. jm_get (rp_sessions (eb_replay (bus_step fb op b))) sid = Some st'
    \<and> ss_pins st + int (released_pins sid b) \<le> ss_pins st' + int (released_pins sid (bus_step fb op b))
    \<and> rp_outputs (eb_replay (bus_step fb op b)) = rp_outputs (eb_replay b) @ new
    \<and> (ss_epoch st' = ss_epoch st \<or> list_ex (reset_for sid) new)"
proof (cases "\<exists>i now. op = Release i now")
  case True
  then obtain i now where "op = Release i now" by blast
  then show ?thesis using release_guards[OF assms(3), of i now] by fastforce
next
  case False
  then have "guards (eb_replay b) (eb_replay (bus_step fb op b))"
    using bus_step_moves[of op b fb] assms(1,2) by (auto simp: moves_def)
  then obtain new st' where "rp_outputs (eb_replay (bus_step fb op b)) = rp_outputs (eb_replay b) @ new"
    "jm_get (rp_sessions (eb_replay (bus_step fb op b))) sid = Some st'" "ss_pins st \<le> ss_pins st'"
    "ss_epoch st' = ss_epoch st \<or> list_ex (reset_for sid) new"
    using assms(3,4) unfolding guards_def by blast
  moreover have "released_pins sid (bus_step fb op b) = released_pins sid b" using False by (simp add: step_released_pins)
  ultimately show ?thesis by auto
qed

text \<open>C11: while fewer handles of a session are released than it has pins it stays tracked: in any run without the end
of closing, it loses a pin only to the release of one of its own handles, never to a release of another session's,
and its epoch changes only if a reset signal that reaches its subscribers is sent.\<close>

theorem subscribers_are_told:
  assumes "b = bus_run fb ops (create_event_bus origin transport store require strict)"
    and "FinishClose \<notin> set ops'"
    and "jm_get (rp_sessions (eb_replay b)) sid = Some st"
    and "int (released_pins sid (bus_run fb ops' b)) < int (released_pins sid b) + ss_pins st"
  shows "\<exists>st' new. jm_get (rp_sessions (eb_replay (bus_run fb ops' b))) sid = Some st'
    \<and> ss_pins st + int (released_pins sid b) \<le> ss_pins st' + int (released_pins sid (bus_run fb ops' b))
    \<and> rp_outputs (eb_replay (bus_run fb ops' b)) = rp_outputs (eb_replay b) @ new
    \<and> (ss_epoch st' = ss_epoch st \<or> list_ex (reset_for sid) new)"
  using assms(2,4)
proof (induction ops' rule: rev_induct)
  case Nil
  then show ?case using assms(3) by (simp add: bus_run_def)
next
  case (snoc op ops')
  let ?b1 = "bus_run fb ops' b"
  have b2: "bus_run fb (ops' @ [op]) b = bus_step fb op ?b1" by (simp add: bus_run_def)
  have inv: "replay_inv (eb_replay ?b1)" unfolding assms(1) by (rule advances_inv[OF bus_run_advances[OF bus_run_inv]])
  have mono: "released_pins sid ?b1 \<le> released_pins sid (bus_step fb op ?b1)" by (rule step_released_mono)
  obtain st1 new1 where 1: "jm_get (rp_sessions (eb_replay ?b1)) sid = Some st1"
    "ss_pins st + int (released_pins sid b) \<le> ss_pins st1 + int (released_pins sid ?b1)"
    "rp_outputs (eb_replay ?b1) = rp_outputs (eb_replay b) @ new1" "ss_epoch st1 = ss_epoch st \<or> list_ex (reset_for sid) new1"
    using snoc mono unfolding b2 by fastforce
  have pinned: "0 < ss_pins st1" using 1(2) mono snoc.prems(2) unfolding b2 by linarith
  obtain st2 new2 where 2: "jm_get (rp_sessions (eb_replay (bus_step fb op ?b1))) sid = Some st2"
    "ss_pins st1 + int (released_pins sid ?b1) \<le> ss_pins st2 + int (released_pins sid (bus_step fb op ?b1))"
    "rp_outputs (eb_replay (bus_step fb op ?b1)) = rp_outputs (eb_replay ?b1) @ new2"
    "ss_epoch st2 = ss_epoch st1 \<or> list_ex (reset_for sid) new2"
    using step_keeps_pinned[OF inv _ 1(1) pinned, of op fb] snoc.prems(1) by auto
  then show ?case unfolding b2 using 1 by (intro exI[of _ st2] exI[of _ "new1 @ new2"]) auto
qed

subsection \<open>Concrete runs\<close>

definition plain_message :: covel_message where
  "plain_message = \<lparr> mg_id = ''m1'', mg_session = ''s'', mg_type = ''state'', mg_topic = ''plugin-data'',
     mg_payload = [(''k'', JNull)], mg_turn = None, mg_timestamp = ''t'', mg_incarnation = None \<rparr>"

definition plain_bus :: bus where
  "plain_bus = create_event_bus ''o'' False False False False"

lemma fresh_push: "ring_to_array (snd (ring_push e fresh_buffer)) = [e]" "fst (ring_push e fresh_buffer) = None"
  using fresh_buffer_facts ring.push_contents[of fresh_buffer e] ring.push_evicted[of fresh_buffer e]
  by (simp_all add: bounded_append_def ring_buffer_max_def)

lemmas bus_eval = plain_bus_def plain_message_def create_event_bus_def bus_run_def upd_replay_def head_cursor_def touch_session_def
  next_epoch_def new_state_def max_tracked_sessions_def emit_def issue_event_def retain_def build_subscription_event_def
  string_or_def put_state_def add_output_def fan_out_def js_truthy_def get_events_after_def Let_def case_prod_beta fresh_push
  session_idle_ttl_ms_def

lemma read_id [simp]: "event_seq (\<lparr> ev_id = event_id ep n, ev_topic = a, ev_type = b, ev_session = c, ev_incarnation = d,
    ev_timestamp = e, ev_payload = f \<rparr>) = Some n"
  by (rule event_id_parts(2)) simp

lemma head_cursor_loses_nothing_witness:
  "map ev_type (er_events (fst (get_events_after ''s'' 0 2 (eb_replay
      (bus_run (\<lambda>f. 0) [Emit 1 plain_message] (bus_step (\<lambda>f. 0) (HeadCursor ''s'' 0) plain_bus)))))) = [''plugin-data'']"
proof -
  have "er_events (fst (get_events_after ''s'' (int 0) 2 (eb_replay
      (bus_run (\<lambda>f. 0) [Emit 1 plain_message] (bus_step (\<lambda>f. 0) (HeadCursor ''s'' 0) plain_bus)))))
    = filter (\<lambda>e. ev_session e = ''s'' \<and> ev_topic e \<noteq> ''trace'')
        (broadcasts (rp_outputs (eb_replay (bus_run (\<lambda>f. 0) [Emit 1 plain_message] (bus_step (\<lambda>f. 0) (HeadCursor ''s'' 0) plain_bus)))))"
  proof (rule head_cursor_loses_nothing[OF _ refl _ refl, where ops = "[]" and epoch = "epoch_name ''o'' 1"])
    show "plain_bus = bus_run (\<lambda>f. 0) [] (create_event_bus ''o'' False False False False)"
      by (simp add: bus_run_def plain_bus_def)
    show "fst (head_cursor ''s'' 0 (eb_replay plain_bus)) = event_id (epoch_name ''o'' 1) 0" by (simp add: bus_eval)
    show "rp_outputs (eb_replay (bus_run (\<lambda>f. 0) [Emit 1 plain_message] (bus_step (\<lambda>f. 0) (HeadCursor ''s'' 0) plain_bus)))
      = rp_outputs (eb_replay plain_bus)
        @ rp_outputs (eb_replay (bus_run (\<lambda>f. 0) [Emit 1 plain_message] (bus_step (\<lambda>f. 0) (HeadCursor ''s'' 0) plain_bus)))"
      by (simp add: plain_bus_def create_event_bus_def)
  qed (simp_all add: bus_eval)
  then show ?thesis by (simp add: bus_eval)
qed

lemma replay_reports_every_gap_witness:
  "er_gap (fst (get_events_after ''s'' 3 2 (eb_replay (bus_run (\<lambda>f. 0) [HeadCursor ''s'' 0, Emit 1 plain_message] plain_bus))))"
proof -
  define b where "b = bus_run (\<lambda>f. 0) [HeadCursor ''s'' 0, Emit 1 plain_message] plain_bus"
  have "jm_get (rp_sessions (eb_replay b)) ''s'' \<noteq> None" by (simp add: b_def bus_eval)
  then obtain st where st: "jm_get (rp_sessions (eb_replay b)) ''s'' = Some st" by blast
  then have "ss_seq st = 1" by (auto simp: b_def bus_eval)
  then show ?thesis unfolding b_def[symmetric]
    using replay_reports_every_gap[OF b_def[unfolded plain_bus_def] st, of 3 2] by simp
qed

text \<open>Two subscribers, one of which leaves: the session stays tracked for the other.\<close>

lemma subscribers_are_told_witness:
  "\<exists>st' new. jm_get (rp_sessions (eb_replay (bus_run (\<lambda>f. 0) [Release 0 1, Invalidate ''s'' PublishFailed 2]
        (bus_run (\<lambda>f. 0) [Pin ''s'' 0, Pin ''s'' 0] plain_bus)))) ''s'' = Some st' \<and> 1 \<le> ss_pins st'
      \<and> (ss_epoch st' = epoch_name ''o'' 1 \<or> list_ex (reset_for ''s'') new)"
proof -
  define b where "b = bus_run (\<lambda>f. 0) [Pin ''s'' 0, Pin ''s'' 0] plain_bus"
  let ?ops = "[Release 0 1, Invalidate ''s'' PublishFailed 2]"
  obtain st where st: "jm_get (rp_sessions (eb_replay b)) ''s'' = Some st" "ss_pins st = 2" "ss_epoch st = epoch_name ''o'' 1"
    by (simp add: b_def bus_eval bus_pin_def pin_session_def)
  have pins: "released_pins ''s'' b = 0" "length (eb_pins b) = 2" "\<not> sp_released (eb_pins b ! 0)" "sp_session (eb_pins b ! 0) = ''s''"
    by (simp_all add: b_def bus_eval bus_pin_def pin_session_def released_pins_def)
  have "released_pins ''s'' (bus_run (\<lambda>f. 0) ?ops b) = released_pins ''s'' (bus_release 0 1 b)"
    using step_released_pins[of "Invalidate ''s'' PublishFailed 2"] by (simp add: bus_run_def)
  then have rel: "released_pins ''s'' (bus_run (\<lambda>f. 0) ?ops b) = 1" using release_counts[of 0 b "''s''" 1] pins by simp
  have few: "int (released_pins ''s'' (bus_run (\<lambda>f. 0) ?ops b)) < int (released_pins ''s'' b) + ss_pins st"
    using rel pins(1) st(2) by simp
  show ?thesis
    using subscribers_are_told[OF b_def[unfolded plain_bus_def] _ st(1) few] rel pins(1) st(2,3)
    by (fastforce simp: b_def[symmetric])
qed

end
