(* ===== verification/EventBounds.thy ===== *)
theory EventBounds
  imports EventBus
begin

text \<open>
  The memory of the event bus stays bounded: one preservation lemma per operation, collected into an
  invariant of every run.
\<close>

subsection \<open>Bounds\<close>

definition parked_ok :: "'k \<times> receive_state \<Rightarrow> bool" where
  "parked_ok p = (length (rs_pending (snd p)) \<le> receive_pending_max)"

definition outbox_ok :: "'k \<times> outbox_task list \<Rightarrow> bool" where
  "outbox_ok p = (length (snd p) \<le> outbox_pending_max)"

definition bus_bounds :: "bus \<Rightarrow> bool" where
  "bus_bounds b \<longleftrightarrow> length (eb_in_flight b) \<le> persist_max_in_flight \<and> length (eb_queue b) \<le> persist_queue_max
     \<and> list_all outbox_ok (eb_outboxes b) \<and> length (eb_receive b) \<le> receive_states_max
     \<and> list_all parked_ok (eb_receive b)"

lemma bus_bounds_cong:
  "bus_bounds b \<Longrightarrow> eb_in_flight b' = eb_in_flight b \<Longrightarrow> eb_queue b' = eb_queue b \<Longrightarrow> eb_outboxes b' = eb_outboxes b
     \<Longrightarrow> eb_receive b' = eb_receive b \<Longrightarrow> bus_bounds b'"
  by (simp add: bus_bounds_def)

lemma pump_items_bounds:
  "length fl \<le> persist_max_in_flight \<Longrightarrow> pump_items q fl = (q', fl') \<Longrightarrow>
     length fl' \<le> persist_max_in_flight \<and> length q' \<le> length q"
  by (induction q fl rule: pump_items.induct) (fastforce split: if_splits)+

lemma pump_bounds: "bus_bounds b \<Longrightarrow> bus_bounds (pump b)"
  using pump_items_bounds[of "eb_in_flight b" "eb_queue b"]
  by (cases "pump_items (eb_queue b) (eb_in_flight b)") (auto simp: bus_bounds_def pump_def intro: order_trans)

lemma enqueue_persist_bounds: "bus_bounds b \<Longrightarrow> bus_bounds (enqueue_persist item b)"
proof -
  assume b: "bus_bounds b"
  define b1 where "b1 = (if persist_queue_max \<le> length (eb_queue b)
        then settle_save (pi_save (hd (eb_queue b))) False (b\<lparr> eb_queue := tl (eb_queue b) \<rparr>) else b)"
  have "bus_bounds (b1\<lparr> eb_queue := eb_queue b1 @ [item] \<rparr>)"
    using b by (auto simp: b1_def bus_bounds_def persist_queue_max_def)
  then show ?thesis unfolding enqueue_persist_def Let_def b1_def[symmetric] by (rule pump_bounds)
qed

lemma persist_done_bounds: "bus_bounds b \<Longrightarrow> bus_bounds (persist_done i ok b)"
proof -
  assume b: "bus_bounds b"
  define b1 where "b1 = settle_save (pi_save (eb_in_flight b ! i)) ok
     (b\<lparr> eb_in_flight := take i (eb_in_flight b) @ drop (Suc i) (eb_in_flight b) \<rparr>)"
  have "bus_bounds b1" if "i < length (eb_in_flight b)" using b that by (auto simp: b1_def bus_bounds_def)
  then show ?thesis using b pump_bounds unfolding persist_done_def Let_def b1_def[symmetric] by simp
qed

lemmas persist_bounds = enqueue_persist_bounds persist_done_bounds

lemma outbox_bounds: "bus_bounds b \<Longrightarrow> bus_bounds (enqueue_outbox sid t b)" "bus_bounds b \<Longrightarrow> bus_bounds (outbox_step sid ok b)"
  by (auto simp: enqueue_outbox_def outbox_step_def bus_bounds_def Let_def outbox_ok_def[of "(sid, _)"] outbox_pending_max_def
      intro!: list_all_jm_set list_all_jm_delete dest: list_all_jm_get[where k = sid]
      split: option.splits list.splits outbox_task.splits if_splits)

lemma flush_pending_parked: "rs_pending (snd (flush_pending rs)) = []"
  by (simp add: flush_pending_def Let_def)

lemma drain_pending_shrinks: "length (rs_pending (snd (drain_pending rs))) \<le> length (rs_pending rs)"
proof (induction rs rule: drain_pending.induct)
  case (1 rs)
  show ?case
  proof (cases "jm_get (rs_pending rs) (rs_expected rs)")
    case None
    then show ?thesis by (subst drain_pending.simps) simp
  next
    case (Some f)
    then show ?thesis using 1[OF Some] length_jm_delete_le[of "rs_expected rs" "rs_pending rs"]
      by (subst drain_pending.simps) (simp add: case_prod_beta)
  qed
qed

lemma receive_frame_parked: "parked_ok (k, rs) \<Longrightarrow> parked_ok (k, snd (receive_frame f rs))"
  using drain_pending_shrinks[of "rs\<lparr> rs_expected := tf_seq f + 1 \<rparr>"]
  by (auto simp: receive_frame_def parked_ok_def flush_pending_parked case_prod_beta Let_def not_less receive_pending_max_def)

lemma evict_receive_state_shape:
  obtains "evict_receive_state b = b" "eb_receive b = []"
  | key ts c where "evict_receive_state b = (push_tasks c ts b)\<lparr> eb_receive := jm_delete key (eb_receive b) \<rparr>"
      "key \<in> fst ` set (eb_receive b)"
proof -
  define v where "v = (case find (\<lambda>(_, rs). rs_pending rs = []) (eb_receive b) of Some v \<Rightarrow> Some v
        | None \<Rightarrow> (case eb_receive b of [] \<Rightarrow> None | v # _ \<Rightarrow> Some v))"
  have v: "(v = None \<longleftrightarrow> eb_receive b = []) \<and> (\<forall>p. v = Some p \<longrightarrow> p \<in> set (eb_receive b))"
  proof (cases "find (\<lambda>(_, rs). rs_pending rs = []) (eb_receive b)")
    case None
    then show ?thesis by (cases "eb_receive b") (auto simp: v_def)
  next
    case (Some p)
    then have "p \<in> set (eb_receive b)" using find_Some_set by fast
    then show ?thesis using Some by (auto simp: v_def)
  qed
  have eq: "evict_receive_state b = (case v of None \<Rightarrow> b
       | Some (key, rs) \<Rightarrow> (let (ts, _) = flush_pending rs in
           (push_tasks (rs_chain rs) ts b)\<lparr> eb_receive := jm_delete key (eb_receive b) \<rparr>))"
    by (simp add: evict_receive_state_def v_def Let_def)
  show ?thesis
  proof (cases v)
    case None
    then show ?thesis using that(1) v by (simp add: eq)
  next
    case (Some p)
    then have "fst p \<in> fst ` set (eb_receive b)" using v by blast
    then show ?thesis using that(2)[where c = "rs_chain (snd p)" and ts = "fst (flush_pending (snd p))" and key = "fst p"] Some
      by (simp add: eq case_prod_beta)
  qed
qed

lemma evict_receive_state_bounds:
  assumes "bus_bounds b"
  shows "bus_bounds (evict_receive_state b) \<and>
    (eb_receive b \<noteq> [] \<longrightarrow> length (eb_receive (evict_receive_state b)) < length (eb_receive b))"
proof (cases rule: evict_receive_state_shape[of b])
  case 1
  then show ?thesis using assms by simp
next
  case (2 key ts c)
  have "length (jm_delete key (eb_receive b)) < length (eb_receive b)" by (rule length_jm_delete_less[OF 2(2)])
  then show ?thesis using assms by (simp add: 2(1) bus_bounds_def list_all_jm_delete)
qed

lemma get_receive_state_bounds:
  assumes "bus_bounds b" "get_receive_state origin sid stream b = (rs, b')"
  shows "bus_bounds b' \<and> parked_ok ((origin, sid), rs) \<and> (origin, sid) \<in> fst ` set (eb_receive b')"
proof (cases "jm_get (eb_receive b) (origin, sid)")
  case None
  define b1 where "b1 = (if receive_states_max \<le> length (eb_receive b) then evict_receive_state b else b)"
  have b1: "bus_bounds b1" "length (eb_receive b1) < receive_states_max"
    using evict_receive_state_bounds[OF assms(1)] assms(1)
    by (cases "eb_receive b = []"; force simp: b1_def bus_bounds_def receive_states_max_def)+
  then show ?thesis using None assms(2)
    by (auto simp: get_receive_state_def b1_def[symmetric] Let_def bus_bounds_def length_jm_set new_receive_state_def parked_ok_def
        intro!: list_all_jm_set)
next
  case (Some current)
  have "length (jm_set (origin, sid) x (jm_delete (origin, sid) (eb_receive b))) \<le> receive_states_max" for x
    using length_jm_delete_less[OF jm_get_key[OF Some]] assms(1) by (simp add: length_jm_set bus_bounds_def)
  then show ?thesis using Some assms list_all_jm_get[of parked_ok "eb_receive b", OF _ Some]
    by (auto simp: get_receive_state_def Let_def case_prod_beta bus_bounds_def new_receive_state_def parked_ok_def[of "(_, \<lparr> rs_session = _, rs_stream = _, rs_expected = _, rs_pending = _, rs_timer = _, rs_chain = _ \<rparr>)"]
        intro!: list_all_jm_set list_all_jm_delete intro: order_trans split: if_splits)
qed

lemma handle_transport_frame_bounds:
  assumes "bus_bounds b"
  shows "bus_bounds (handle_transport_frame now raw b)"
proof -
  have "bus_bounds ((push_tasks c ts b1)\<lparr> eb_receive := jm_set (origin, sid) (snd (receive_frame f rs)) (eb_receive b1) \<rparr>)"
    if "get_receive_state origin sid stream b = (rs, b1)" for c ts b1 rs f origin sid stream
  proof -
    note g = get_receive_state_bounds[OF assms that]
    have "length (jm_set (origin, sid) x (eb_receive b1)) = length (eb_receive b1)" for x using g by (simp add: length_jm_set)
    then show ?thesis using g receive_frame_parked[of "(origin, sid)" rs f] by (simp add: bus_bounds_def list_all_jm_set)
  qed
  then show ?thesis using assms
    by (auto simp: handle_transport_frame_def case_prod_beta Let_def bus_bounds_cong[OF assms] split: option.split)
qed

lemma timer_fires_bounds:
  assumes "bus_bounds b"
  shows "bus_bounds (timer_fires key b)"
proof (cases "jm_get (eb_receive b) key")
  case (Some rs)
  then have "length (jm_set key x (eb_receive b)) = length (eb_receive b)" for x
    using jm_get_key[OF Some] by (simp add: length_jm_set)
  then show ?thesis using Some assms
    by (simp add: timer_fires_def Let_def case_prod_beta bus_bounds_def list_all_jm_set parked_ok_def[of "(key, _)"] flush_pending_parked)
qed (use assms in \<open>simp add: timer_fires_def\<close>)

lemma emit_bounds: "bus_bounds b \<Longrightarrow> emit fb now m b = Inr b' \<Longrightarrow> bus_bounds b'"
proof -
  assume b: "bus_bounds b" and em: "emit fb now m b = Inr b'"
  have fan: "bus_bounds (fan_out fb m st e c)" if "bus_bounds c" for st e c
    using that unfolding fan_out_def Let_def
    by (auto intro!: persist_bounds outbox_bounds bus_bounds_cong[OF that])
  have "bus_bounds (b\<lparr> eb_replay := r \<rparr>)" for r by (rule bus_bounds_cong[OF b]) simp_all
  then show ?thesis using b em fan by (auto simp: emit_def case_prod_beta Let_def split: if_splits)
qed

lemma run_chain_bounds: "bus_bounds b \<Longrightarrow> bus_bounds (run_chain store now c b)"
proof -
  assume b: "bus_bounds b"
  have "bus_bounds (run_task store now t c)" if "bus_bounds c" for t c
    by (rule bus_bounds_cong[OF that])
      (auto simp: run_task_def deliver_frame_def split: chain_task.split option.split frame_body.split)
  moreover have "bus_bounds (b\<lparr> eb_chains := f \<rparr>)" for f by (rule bus_bounds_cong[OF b]) simp_all
  ultimately show ?thesis using b by (auto simp: run_chain_def split: list.split)
qed

lemma bus_step_bounds:
  assumes "bus_bounds b"
  shows "bus_bounds (bus_step fb op b)"
proof (cases op)
  case (Emit now m)
  then show ?thesis using emit_bounds[OF assms] assms by (auto split: sum.split)
next
  case BeginClose
  then show ?thesis using assms
    by (auto simp: begin_close_def bus_bounds_def list_all_iff parked_ok_def receive_pending_max_def)
next
  case FinishClose
  then show ?thesis using assms by (auto simp: finish_close_def bus_bounds_def)
next
  case (Release i now)
  then show ?thesis by (auto simp: bus_release_def case_prod_beta Let_def intro: bus_bounds_cong[OF assms])
qed (use assms in \<open>auto simp: handle_transport_frame_bounds run_chain_bounds timer_fires_bounds transport_reset_def bus_invalidate_def
       bus_pin_def case_prod_beta persist_bounds outbox_bounds intro!: bus_bounds_cong[OF assms]\<close>)

text \<open>Whatever a bus has been through, at most eight saves run at once, at most a thousand wait, no session
has more than 256 frames waiting to be published, and there are at most 1024 receive states with at most 64
parked frames each.\<close>

lemma bus_memory_bounded:
  "bus_run fb ops (create_event_bus origin transport store require strict) = b \<Longrightarrow>
    length (eb_in_flight b) \<le> 8 \<and> length (eb_queue b) \<le> 1000
    \<and> list_all (\<lambda>(sid, ts). length ts \<le> 256) (eb_outboxes b) \<and> length (eb_receive b) \<le> 1024
    \<and> list_all (\<lambda>(key, rs). length (rs_pending rs) \<le> 64) (eb_receive b)"
proof -
  assume b: "bus_run fb ops (create_event_bus origin transport store require strict) = b"
  have "bus_bounds b" unfolding b[symmetric] bus_run_def
    by (rule foldl_invariant) (simp_all add: bus_step_bounds, simp add: bus_bounds_def create_event_bus_def)
  then show ?thesis
    by (auto simp: bus_bounds_def persist_max_in_flight_def persist_queue_max_def receive_states_max_def receive_pending_max_def
        outbox_pending_max_def list_all_iff outbox_ok_def parked_ok_def)
qed

end
