(* ===== verification/EventOrder.thy ===== *)
theory EventOrder
  imports EventTransport
begin

text \<open>
  The order in which one receive state of the event bus hands its frames over.
\<close>

subsection \<open>Delivery order\<close>

text \<open>What happens to one receive state: frames arrive, its timer rings. Each event gives a batch of tasks.\<close>

datatype arrival = Arrives transport_frame | TimerRings

definition arrival_step :: "arrival \<Rightarrow> receive_state \<Rightarrow> chain_task list \<times> receive_state" where
  "arrival_step a rs = (case a of
     Arrives f \<Rightarrow> receive_frame f rs
   | TimerRings \<Rightarrow> if rs_timer rs then flush_pending rs else ([], rs))"

fun receive_run :: "receive_state \<Rightarrow> arrival list \<Rightarrow> chain_task list list \<times> receive_state" where
  "receive_run rs [] = ([], rs)"
| "receive_run rs (a # as) =
     (let (ts, rs1) = arrival_step a rs; (tss, rs2) = receive_run rs1 as in (ts # tss, rs2))"

definition delivered :: "chain_task list \<Rightarrow> transport_frame list" where
  "delivered ts = concat (map (\<lambda>t. case t of Deliver sid f \<Rightarrow> [f] | InvalidateTask sid \<Rightarrow> []) ts)"

lemma delivered_simps [simp]:
  "delivered [] = []" "delivered (xs @ ys) = delivered xs @ delivered ys"
  "delivered (Deliver sid f # ts) = f # delivered ts" "delivered (InvalidateTask sid # ts) = delivered ts"
  by (simp_all add: delivered_def)

lemma delivered_map [simp]: "delivered (map (\<lambda>x. Deliver sid (g x)) xs) = map g xs"
  by (induction xs) simp_all

definition parked_wf :: "receive_state \<Rightarrow> bool" where
  "parked_wf rs \<longleftrightarrow> jm_wf (rs_pending rs) \<and> (\<forall>s f. jm_get (rs_pending rs) s = Some f \<longrightarrow> tf_seq f = s)"

definition receive_inv :: "receive_state \<Rightarrow> bool" where
  "receive_inv rs \<longleftrightarrow> parked_wf rs \<and> (\<forall>s \<in> fst ` set (rs_pending rs). rs_expected rs < s)"

lemma receive_inv_timer [simp]: "receive_inv (rs\<lparr> rs_timer := t \<rparr>) = receive_inv rs"
  by (simp add: receive_inv_def parked_wf_def)

lemma parked_wf_delete: "parked_wf rs \<Longrightarrow> parked_wf (rs\<lparr> rs_pending := jm_delete k (rs_pending rs), rs_expected := e \<rparr>)"
  by (auto simp: parked_wf_def split: if_splits)

text \<open>Draining hands over the longest consecutive run from the expected number on.\<close>

lemma drain_pending_run:
  assumes "parked_wf rs" "drain_pending rs = (ts, rs')"
  obtains k where "rs_expected rs' = rs_expected rs + int k"
    "\<And>i. i < k \<Longrightarrow> rs_expected rs + int i \<in> fst ` set (rs_pending rs)"
    "ts = map (\<lambda>i. Deliver (rs_session rs) (the (jm_get (rs_pending rs) (rs_expected rs + int i)))) [0 ..< k]"
    "jm_get (rs_pending rs') = (\<lambda>s. if rs_expected rs \<le> s \<and> s < rs_expected rs + int k then None else jm_get (rs_pending rs) s)"
    "jm_get (rs_pending rs) (rs_expected rs + int k) = None" "parked_wf rs'" "rs_session rs' = rs_session rs"
  using assms
proof (induction rs arbitrary: ts thesis rule: drain_pending.induct)
  case (1 rs)
  show ?case
  proof (cases "jm_get (rs_pending rs) (rs_expected rs)")
    case None
    then have "ts = [] \<and> rs' = rs" using 1(4) by (simp add: drain_pending.simps[of rs])
    then show ?thesis using None 1(3) by (intro 1(2)[of 0]) (auto simp: fun_eq_iff)
  next
    case (Some f)
    define rs1 where "rs1 = rs\<lparr> rs_pending := jm_delete (rs_expected rs) (rs_pending rs), rs_expected := rs_expected rs + 1 \<rparr>"
    obtain ts1 where d: "drain_pending rs1 = (ts1, rs')" "ts = Deliver (rs_session rs) f # ts1"
      using 1(4) Some by (auto simp: drain_pending.simps[of rs] rs1_def split: prod.splits)
    have wf1: "parked_wf rs1" unfolding rs1_def by (rule parked_wf_delete[OF 1(3)])
    obtain k where k: "rs_expected rs' = rs_expected rs1 + int k"
        "\<And>i. i < k \<Longrightarrow> rs_expected rs1 + int i \<in> fst ` set (rs_pending rs1)"
        "ts1 = map (\<lambda>i. Deliver (rs_session rs1) (the (jm_get (rs_pending rs1) (rs_expected rs1 + int i)))) [0 ..< k]"
        "jm_get (rs_pending rs') = (\<lambda>s. if rs_expected rs1 \<le> s \<and> s < rs_expected rs1 + int k then None else jm_get (rs_pending rs1) s)"
        "jm_get (rs_pending rs1) (rs_expected rs1 + int k) = None" "parked_wf rs'" "rs_session rs' = rs_session rs1"
      using 1(1)[OF Some, folded rs1_def, OF _ wf1 d(1)] by blast
    have e1: "rs_expected rs1 = rs_expected rs + 1" "rs_session rs1 = rs_session rs" by (simp_all add: rs1_def)
    have g1: "jm_get (rs_pending rs1) = (jm_get (rs_pending rs))(rs_expected rs := None)" by (simp add: rs1_def)
    show ?thesis
    proof (rule 1(2)[of "Suc k"])
      show "ts = map (\<lambda>i. Deliver (rs_session rs) (the (jm_get (rs_pending rs) (rs_expected rs + int i)))) [0 ..< Suc k]"
        using d(2) k(3) Some by (simp add: g1 e1 map_Suc_upt[symmetric] upt_conv_Cons del: upt_Suc) (simp add: algebra_simps)
      show "jm_get (rs_pending rs') = (\<lambda>s. if rs_expected rs \<le> s \<and> s < rs_expected rs + int (Suc k) then None else jm_get (rs_pending rs) s)"
        using k(4) by (auto simp: g1 e1 fun_eq_iff)
      fix i assume "i < Suc k"
      then show "rs_expected rs + int i \<in> fst ` set (rs_pending rs)"
        using k(2)[of "i - 1"] jm_get_key[OF Some] by (cases i) (auto simp: rs1_def algebra_simps)
    qed (use k e1 g1 in \<open>auto simp: algebra_simps\<close>)
  qed
qed

definition starts_with_reset :: "chain_task list \<Rightarrow> bool" where
  "starts_with_reset ts = (case ts of InvalidateTask sid # _ \<Rightarrow> True | _ \<Rightarrow> False)"

text \<open>
  The numbers of a batch rise and continue from the number before; if one is skipped, the batch starts
  by invalidating the replay of the session.
\<close>

definition batch_ok :: "int \<Rightarrow> chain_task list \<Rightarrow> bool" where
  "batch_ok e ts = (let seqs = map tf_seq (delivered ts)
     in sorted_wrt (<) seqs \<and> list_all (\<lambda>s. e \<le> s) seqs
        \<and> (seqs = [e .. e + int (length seqs) - 1] \<or> starts_with_reset ts))"

definition next_number :: "int \<Rightarrow> chain_task list \<Rightarrow> int" where
  "next_number e ts = (if delivered ts = [] then e else tf_seq (last (delivered ts)) + 1)"

fun no_silent_hole :: "int \<Rightarrow> chain_task list list \<Rightarrow> bool" where
  "no_silent_hole e [] = True"
| "no_silent_hole e (ts # tss) = (batch_ok e ts \<and> no_silent_hole (next_number e ts) tss)"

lemma flush_pending_batch:
  assumes inv: "receive_inv rs" and fl: "flush_pending rs = (ts, rs')"
  shows "batch_ok (rs_expected rs) ts \<and> rs_expected rs' = next_number (rs_expected rs) ts \<and> receive_inv rs'"
proof (cases "rs_pending rs = []")
  case True
  then show ?thesis using inv fl
    by (auto simp: flush_pending_def batch_ok_def next_number_def receive_inv_def parked_wf_def)
next
  case False
  define seqs where "seqs = sort (jm_keys (rs_pending rs))"
  have ts: "ts = InvalidateTask (rs_session rs) # map (\<lambda>s. Deliver (rs_session rs) (the (jm_get (rs_pending rs) s))) seqs"
    and rs': "rs_expected rs' = last seqs + 1" "rs_pending rs' = []"
    using fl False by (auto simp: flush_pending_def Let_def seqs_def)
  have "tf_seq (the (jm_get (rs_pending rs) s)) = s" if mem: "s \<in> set seqs" for s
  proof -
    obtain f where "jm_get (rs_pending rs) s = Some f"
      using mem by (cases "jm_get (rs_pending rs) s") (auto simp: seqs_def map_of_eq_None_iff)
    then show ?thesis using inv by (auto simp: receive_inv_def parked_wf_def)
  qed
  then have m: "map tf_seq (delivered ts) = seqs" by (simp add: ts map_idI)
  have ne: "seqs \<noteq> []" using False by (auto simp: seqs_def dest: arg_cong[of _ _ length])
  then have "delivered ts \<noteq> []" by (simp add: ts)
  then have "next_number (rs_expected rs) ts = last seqs + 1" using m[symmetric] by (simp add: next_number_def last_map)
  moreover have "sorted_wrt (<) seqs"
    using inv by (simp add: seqs_def receive_inv_def parked_wf_def strict_sorted_iff)
  moreover have "list_all (\<lambda>s. rs_expected rs \<le> s) seqs"
    using inv by (fastforce simp: list_all_iff seqs_def receive_inv_def)
  moreover have "receive_inv rs'" using rs' by (simp add: receive_inv_def parked_wf_def)
  ultimately show ?thesis using rs' m by (simp add: batch_ok_def starts_with_reset_def ts)
qed

lemma deliver_batch:
  assumes inv: "receive_inv rs" and seq: "tf_seq f = rs_expected rs"
    and d: "drain_pending (rs\<lparr> rs_expected := tf_seq f + 1 \<rparr>) = (ts, rs')"
  shows "map tf_seq (f # delivered ts) = [rs_expected rs .. rs_expected rs' - 1] \<and> receive_inv rs' \<and> rs_expected rs < rs_expected rs'"
proof -
  have wf: "parked_wf (rs\<lparr> rs_expected := tf_seq f + 1 \<rparr>)" using inv by (simp add: receive_inv_def parked_wf_def)
  note run = drain_pending_run[OF wf d, simplified]
  obtain k where k: "rs_expected rs' = tf_seq f + 1 + int k"
      "\<And>i. i < k \<Longrightarrow> tf_seq f + 1 + int i \<in> fst ` set (rs_pending rs)"
      "ts = map (\<lambda>i. Deliver (rs_session rs) (the (jm_get (rs_pending rs) (tf_seq f + 1 + int i)))) [0 ..< k]"
      "jm_get (rs_pending rs') = (\<lambda>s. if tf_seq f + 1 \<le> s \<and> s < tf_seq f + 1 + int k then None else jm_get (rs_pending rs) s)"
      "jm_get (rs_pending rs) (tf_seq f + 1 + int k) = None" "parked_wf rs'"
    by (rule run) (rule that, simp_all cong: if_cong)
  have num: "tf_seq (the (jm_get (rs_pending rs) (tf_seq f + 1 + int i))) = tf_seq f + 1 + int i" if ik: "i < k" for i
  proof -
    obtain g where "jm_get (rs_pending rs) (tf_seq f + 1 + int i) = Some g"
      using k(2)[OF ik] by (cases "jm_get (rs_pending rs) (tf_seq f + 1 + int i)") (auto simp: map_of_eq_None_iff)
    then show ?thesis using inv by (auto simp: receive_inv_def parked_wf_def)
  qed
  have "map tf_seq (delivered ts) = map (\<lambda>i. tf_seq f + 1 + int i) [0 ..< k]"
    using num by (simp add: k(3))
  also have "\<dots> = [tf_seq f + 1 .. tf_seq f + int k]"
    by (rule nth_equalityI) (auto simp: nth_upto)
  finally have "map tf_seq (f # delivered ts) = [rs_expected rs .. rs_expected rs' - 1]"
    using seq k(1) upto_rec1[of "tf_seq f" "tf_seq f + int k"] by simp
  moreover have "rs_expected rs' < s" if "s \<in> fst ` set (rs_pending rs')" for s
  proof -
    have "jm_get (rs_pending rs') s \<noteq> None" using that by (auto simp: map_of_eq_None_iff)
    then have s: "\<not> (tf_seq f + 1 \<le> s \<and> s < tf_seq f + 1 + int k)" "jm_get (rs_pending rs) s \<noteq> None"
      by (auto simp: k(4) split: if_splits)
    then have "rs_expected rs < s" using inv by (auto simp: receive_inv_def map_of_eq_None_iff)
    then show ?thesis using s k(1,5) seq by (cases "s = tf_seq f + 1 + int k") auto
  qed
  ultimately show ?thesis using k(1,6) seq by (simp add: receive_inv_def)
qed

lemma batch_nothing [simp]: "batch_ok n []" "next_number n [] = n"
  by (simp_all add: batch_ok_def next_number_def)

lemma arrival_step_batch:
  assumes inv: "receive_inv rs" and st: "arrival_step a rs = (ts, rs')"
  shows "batch_ok (rs_expected rs) ts \<and> rs_expected rs' = next_number (rs_expected rs) ts \<and> receive_inv rs'"
proof -
  show ?thesis
  proof (cases a)
    case TimerRings
    then show ?thesis using st inv flush_pending_batch[OF inv] by (auto simp: arrival_step_def split: if_splits)
  next
    case (Arrives f)
    then have rf: "receive_frame f rs = (ts, rs')" using st by (simp add: arrival_step_def)
    consider "tf_seq f < rs_expected rs" | "tf_seq f = rs_expected rs" | "rs_expected rs < tf_seq f" by linarith
    then show ?thesis
    proof cases
      case 1
      then show ?thesis using rf inv by (auto simp: receive_frame_def)
    next
      case 2
      obtain us rs1 where d: "drain_pending (rs\<lparr> rs_expected := tf_seq f + 1 \<rparr>) = (us, rs1)" by fastforce
      have m: "map tf_seq (f # delivered us) = [rs_expected rs .. rs_expected rs1 - 1]" "receive_inv rs1" "rs_expected rs < rs_expected rs1"
        using deliver_batch[OF inv 2 d] by auto
      have out: "ts = Deliver (rs_session rs) f # us" "rs' = rs1 \<or> rs' = rs1\<lparr> rs_timer := False \<rparr>"
        using rf 2 d by (auto simp: receive_frame_def)
      then have out: "ts = Deliver (rs_session rs) f # us" "rs_expected rs' = rs_expected rs1" "receive_inv rs'"
        using m(2) by auto
      have "map tf_seq (delivered ts) = [rs_expected rs .. rs_expected rs1 - 1]" using m(1) by (simp add: out)
      moreover from this have "last (map tf_seq (delivered ts)) = rs_expected rs1 - 1" using m(3) by (simp add: upto_rec2)
      moreover have "delivered ts \<noteq> []" by (simp add: out)
      ultimately have "rs_expected rs1 = next_number (rs_expected rs) ts"
        using last_map[of "delivered ts" tf_seq] by (simp add: next_number_def)
      then show ?thesis using \<open>map tf_seq (delivered ts) = _\<close> m(3) out
        by (simp add: batch_ok_def list_all_iff)
    next
      case 3
      define rs1 where "rs1 = rs\<lparr> rs_pending := jm_set (tf_seq f) f (rs_pending rs) \<rparr>"
      have inv1: "receive_inv rs1" "rs_expected rs1 = rs_expected rs"
        using inv 3 by (auto simp: rs1_def receive_inv_def parked_wf_def split: if_splits)
      then show ?thesis using rf 3 flush_pending_batch[OF inv1(1)]
        by (auto simp: receive_frame_def Let_def rs1_def[symmetric] split: if_splits)
    qed
  qed
qed

lemma receive_run_ordered:
  "receive_inv rs \<Longrightarrow> no_silent_hole (rs_expected rs) (fst (receive_run rs as))"
proof (induction as arbitrary: rs)
  case (Cons a as)
  obtain ts rs1 where st: "arrival_step a rs = (ts, rs1)" by fastforce
  show ?case using arrival_step_batch[OF Cons.prems st] Cons.IH[of rs1] by (simp add: st case_prod_beta)
qed simp

text \<open>C9: whatever frames of one stream arrive, in whatever order, and whenever its timer rings, the frames are
handed over in the order of their numbers, none twice, and a number is skipped only behind a task that
invalidates the replay of the session.\<close>

theorem no_hole_is_silent:
  "no_silent_hole 1 (fst (receive_run (new_receive_state sid stream chain) as))"
  using receive_run_ordered[of "new_receive_state sid stream chain" as]
  by (simp add: receive_inv_def parked_wf_def new_receive_state_def)

text \<open>What one receive state has handed over and parked after frames \<open>fs\<close> with pairwise different numbers.\<close>

definition caught_up :: "transport_frame list \<Rightarrow> chain_task list \<Rightarrow> receive_state \<Rightarrow> bool" where
  "caught_up fs ts rs \<longleftrightarrow> receive_inv rs \<and> (\<exists>gs. ts = map (Deliver (rs_session rs)) gs
     \<and> map tf_seq gs = [1 .. rs_expected rs - 1] \<and> set gs \<subseteq> set fs) \<and> 1 \<le> rs_expected rs
     \<and> rs_expected rs \<notin> tf_seq ` set fs
     \<and> (\<forall>s f. jm_get (rs_pending rs) s = Some f \<longleftrightarrow> f \<in> set fs \<and> tf_seq f = s \<and> rs_expected rs < s)"

lemma receive_inv_parked: "receive_inv rs \<Longrightarrow> parked_wf (rs\<lparr> rs_expected := e \<rparr>)"
  by (simp add: receive_inv_def parked_wf_def)

lemma caught_upD:
  assumes "caught_up fs ts rs"
  obtains gs where "ts = map (Deliver (rs_session rs)) gs" "map tf_seq gs = [1 .. rs_expected rs - 1]" "set gs \<subseteq> set fs"
    "receive_inv rs" "1 \<le> rs_expected rs" "rs_expected rs \<notin> tf_seq ` set fs"
    "\<And>s g. jm_get (rs_pending rs) s = Some g \<longleftrightarrow> g \<in> set fs \<and> tf_seq g = s \<and> rs_expected rs < s"
  using assms unfolding caught_up_def by blast

lemma caught_up_park:
  assumes c: "caught_up fs ts rs" and new: "tf_seq f \<notin> tf_seq ` set fs" "rs_expected rs < tf_seq f"
  shows "caught_up (fs @ [f]) ts (rs\<lparr> rs_pending := jm_set (tf_seq f) f (rs_pending rs), rs_timer := True \<rparr>)"
proof -
  obtain gs where c: "ts = map (Deliver (rs_session rs)) gs" "map tf_seq gs = [1 .. rs_expected rs - 1]" "set gs \<subseteq> set fs"
    "receive_inv rs" "1 \<le> rs_expected rs" "rs_expected rs \<notin> tf_seq ` set fs"
    "\<And>s g. jm_get (rs_pending rs) s = Some g \<longleftrightarrow> g \<in> set fs \<and> tf_seq g = s \<and> rs_expected rs < s"
    using caught_upD[OF c] by blast
  let ?rs = "rs\<lparr> rs_pending := jm_set (tf_seq f) f (rs_pending rs), rs_timer := True \<rparr>"
  have ne: "g \<in> set fs \<Longrightarrow> tf_seq g \<noteq> tf_seq f" for g using new(1) by (metis imageI)
  have "receive_inv ?rs" using c(4) new by (auto simp: receive_inv_def parked_wf_def split: if_splits)
  moreover have "jm_get (rs_pending ?rs) s = Some g \<longleftrightarrow> g \<in> set (fs @ [f]) \<and> tf_seq g = s \<and> rs_expected ?rs < s" for s g
    using c(7)[of s g] new ne[of g] by (cases "s = tf_seq f") auto
  ultimately show ?thesis unfolding caught_up_def using c(1-3,5,6) new by (intro conjI exI[of _ gs]) auto
qed

lemma caught_up_deliver:
  assumes c: "caught_up fs ts rs" and seq: "tf_seq f = rs_expected rs"
    and d: "drain_pending (rs\<lparr> rs_expected := tf_seq f + 1 \<rparr>) = (us, rs1)"
  shows "caught_up (fs @ [f]) (ts @ Deliver (rs_session rs) f # us) rs1 \<and> rs_session rs1 = rs_session rs"
proof -
  let ?e = "rs_expected rs"
  obtain gs where c: "ts = map (Deliver (rs_session rs)) gs" "map tf_seq gs = [1 .. ?e - 1]" "set gs \<subseteq> set fs"
    "receive_inv rs" "1 \<le> ?e" "?e \<notin> tf_seq ` set fs"
    "\<And>s g. jm_get (rs_pending rs) s = Some g \<longleftrightarrow> g \<in> set fs \<and> tf_seq g = s \<and> ?e < s"
    using caught_upD[OF c] by blast
  obtain k where k: "rs_expected rs1 = ?e + 1 + int k"
    "us = map (\<lambda>i. Deliver (rs_session rs) (the (jm_get (rs_pending rs) (?e + 1 + int i)))) [0 ..< k]"
    "\<And>s. jm_get (rs_pending rs1) s = (if ?e + 1 \<le> s \<and> s < ?e + 1 + int k then None else jm_get (rs_pending rs) s)"
    "jm_get (rs_pending rs) (?e + 1 + int k) = None" "rs_session rs1 = rs_session rs"
    "\<And>i. i < k \<Longrightarrow> ?e + 1 + int i \<in> fst ` set (rs_pending rs)"
    by (rule drain_pending_run[OF receive_inv_parked[OF c(4)] d]) (rule that, simp_all add: seq cong: if_cong)
  have m: "map tf_seq (f # delivered us) = [?e .. rs_expected rs1 - 1]" "receive_inv rs1"
    using deliver_batch[OF c(4) seq d] by auto
  have mem: "g \<in> set fs" if g: "g \<in> set (delivered us)" for g
  proof -
    obtain i where i: "i < k" "g = the (jm_get (rs_pending rs) (?e + 1 + int i))" using g by (auto simp: k(2))
    then have "jm_get (rs_pending rs) (?e + 1 + int i) = Some g"
      using k(6)[OF i(1)] by (cases "jm_get (rs_pending rs) (?e + 1 + int i)") (auto simp: map_of_eq_None_iff)
    then show "g \<in> set fs" using c(7) by blast
  qed
  have nums: "map tf_seq (gs @ f # delivered us) = [1 .. rs_expected rs1 - 1]"
    using c(2,5) m(1) upto_split1[of 1 ?e "rs_expected rs1 - 1"] k(1) by simp
  have "rs_expected rs1 \<notin> tf_seq ` set fs"
  proof
    assume "rs_expected rs1 \<in> tf_seq ` set fs"
    then obtain g where "g \<in> set fs" "tf_seq g = ?e + 1 + int k" using k(1) by auto
    then show False using c(7)[of "?e + 1 + int k" g] k(4) by simp
  qed
  then have fresh: "rs_expected rs1 \<notin> tf_seq ` set (fs @ [f])" using seq k(1) by simp
  have park: "jm_get (rs_pending rs1) s = Some g \<longleftrightarrow> g \<in> set (fs @ [f]) \<and> tf_seq g = s \<and> rs_expected rs1 < s" for s g
    using c(7)[of s g] k(1,3,4) seq by (cases "s = ?e + 1 + int k") (auto split: if_splits)
  have "us = map (Deliver (rs_session rs)) (delivered us)" by (simp add: k(2))
  then show ?thesis unfolding caught_up_def using k(1,5) c(1,3,5) mem nums fresh park m(2)
    by (intro conjI exI[of _ "gs @ f # delivered us"]) auto
qed

lemma caught_up_step:
  assumes c: "caught_up fs ts rs" and new: "tf_seq f \<notin> tf_seq ` set fs" "1 \<le> tf_seq f"
    and few: "length (jm_set (tf_seq f) f (rs_pending rs)) \<le> receive_pending_max"
    and rf: "receive_frame f rs = (us, rs')"
  shows "caught_up (fs @ [f]) (ts @ us) rs' \<and> rs_session rs' = rs_session rs"
proof -
  obtain gs where gs: "map tf_seq gs = [1 .. rs_expected rs - 1]" "set gs \<subseteq> set fs" using caught_upD[OF c] by blast
  have ge: "rs_expected rs \<le> tf_seq f"
  proof (rule ccontr)
    assume "\<not> rs_expected rs \<le> tf_seq f"
    then have "tf_seq f \<in> set (map tf_seq gs)" using new(2) by (simp add: gs(1))
    then show False using gs(2) new(1) by auto
  qed
  show ?thesis
  proof (cases "tf_seq f = rs_expected rs")
    case False
    then show ?thesis using rf ge few caught_up_park[OF c new(1)] by (auto simp: receive_frame_def)
  next
    case True
    obtain vs rs1 where d: "drain_pending (rs\<lparr> rs_expected := tf_seq f + 1 \<rparr>) = (vs, rs1)" by fastforce
    have "caught_up as bs (rs1\<lparr> rs_timer := False \<rparr>) = caught_up as bs rs1" for as bs
      by (simp add: caught_up_def receive_inv_def parked_wf_def)
    then show ?thesis using rf True d caught_up_deliver[OF c True d] by (auto simp: receive_frame_def split: if_splits)
  qed
qed

text \<open>The parked numbers lie above the expected one.\<close>

lemma caught_up_few:
  assumes c: "caught_up fs ts rs" and bound: "\<And>g. g \<in> set fs \<Longrightarrow> tf_seq g \<le> int n" and f: "tf_seq f \<le> int n" "rs_expected rs < tf_seq f"
  shows "length (jm_set (tf_seq f) f (rs_pending rs)) < n"
proof -
  let ?m = "jm_set (tf_seq f) f (rs_pending rs)"
  obtain gs where c: "receive_inv rs" "1 \<le> rs_expected rs"
    "\<And>s g. jm_get (rs_pending rs) s = Some g \<longleftrightarrow> g \<in> set fs \<and> tf_seq g = s \<and> rs_expected rs < s"
    using caught_upD[OF c] by blast
  have wf: "jm_wf (rs_pending rs)" using c(1) by (simp add: receive_inv_def parked_wf_def)
  then have "jm_wf ?m" by (rule jm_wf_set)
  then have "length ?m = card (fst ` set ?m)" using distinct_card[of "map fst ?m"] by simp
  also have "fst ` set ?m \<subseteq> {2 .. int n}"
  proof -
    have "2 \<le> s \<and> s \<le> int n" if "(s, g) \<in> set (rs_pending rs)" for s g
      using c(3)[of s g] c(2) bound map_of_is_SomeI[OF wf that] by force
    then show ?thesis using f c(2) by auto
  qed
  then have "card (fst ` set ?m) \<le> card {2 .. int n}" by (rule card_mono[OF finite_atLeastAtMost_int])
  also have "card {2 .. int n} < n" using f c(2) by simp
  finally show ?thesis .
qed

lemma caught_up_run:
  assumes "caught_up fs ts rs" "distinct (map tf_seq (fs @ new))"
    and "\<And>g. g \<in> set (fs @ new) \<Longrightarrow> 1 \<le> tf_seq g \<and> tf_seq g \<le> int n" "n \<le> Suc receive_pending_max"
    and "receive_run rs (map Arrives new) = (tss, rs')"
  shows "caught_up (fs @ new) (ts @ concat tss) rs' \<and> rs_session rs' = rs_session rs"
  using assms
proof (induction new arbitrary: fs ts rs tss)
  case (Cons f new)
  obtain us rs1 where rf: "receive_frame f rs = (us, rs1)" by fastforce
  obtain uss where run: "receive_run rs1 (map Arrives new) = (uss, rs')" "tss = us # uss"
    using Cons.prems(5) rf by (auto simp: arrival_step_def split: prod.splits)
  have f: "tf_seq f \<notin> tf_seq ` set fs" "1 \<le> tf_seq f" "tf_seq f \<le> int n" using Cons.prems(2,3) by auto
  have step: "caught_up (fs @ [f]) (ts @ us) rs1 \<and> rs_session rs1 = rs_session rs"
  proof (cases "rs_expected rs < tf_seq f")
    case True
    have "length (jm_set (tf_seq f) f (rs_pending rs)) < n"
      by (rule caught_up_few[OF Cons.prems(1) _ f(3) True]) (use Cons.prems(3) in auto)
    then show ?thesis using caught_up_step[OF Cons.prems(1) f(1,2) _ rf] Cons.prems(4) by simp
  next
    case False
    then have "receive_frame f rs = (us, rs1) \<and> tf_seq f \<le> rs_expected rs" using rf by simp
    moreover obtain gs where "map tf_seq gs = [1 .. rs_expected rs - 1]" "set gs \<subseteq> set fs"
      using caught_upD[OF Cons.prems(1)] by blast
    then have "tf_seq f \<notin> {1 .. rs_expected rs - 1}" using f(1) by (metis image_mono list.set_map set_upto subsetD)
    ultimately have eq: "tf_seq f = rs_expected rs" using f(2) by auto
    obtain vs rs2 where d: "drain_pending (rs\<lparr> rs_expected := tf_seq f + 1 \<rparr>) = (vs, rs2)" by fastforce
    have "caught_up as bs (rs2\<lparr> rs_timer := False \<rparr>) = caught_up as bs rs2" for as bs
      by (simp add: caught_up_def receive_inv_def parked_wf_def)
    then show ?thesis using rf eq d caught_up_deliver[OF Cons.prems(1) eq d] by (auto simp: receive_frame_def split: if_splits)
  qed
  show ?case using Cons.IH[of "fs @ [f]" "ts @ us" rs1 uss] step run Cons.prems(2-4) by simp
qed simp

text \<open>C10: when a fresh stream receives its first frames, numbered from 1 on without a gap and at most 65, in any order
and before its timer rings, they are handed over exactly once each, in the order of their numbers, with no reset.\<close>

theorem reordering_restores_order:
  assumes "distinct (map tf_seq fs)" "tf_seq ` set fs = {1 .. int n}" "n \<le> 65"
  shows "concat (fst (receive_run (new_receive_state sid stream chain) (map Arrives fs)))
    = map (Deliver sid) (sort_key tf_seq fs)"
proof -
  let ?r = "new_receive_state sid stream chain"
  obtain tss rs' where run: "receive_run ?r (map Arrives fs) = (tss, rs')" by fastforce
  have init: "caught_up [] [] ?r"
    by (simp add: caught_up_def receive_inv_def parked_wf_def new_receive_state_def)
  have "caught_up ([] @ fs) ([] @ concat tss) rs' \<and> rs_session rs' = rs_session ?r"
  proof (rule caught_up_run[OF init _ _ _ run, where n = n])
    show "distinct (map tf_seq ([] @ fs))" using assms(1) by simp
    show "n \<le> Suc receive_pending_max" using assms(3) by (simp add: receive_pending_max_def)
    fix g assume "g \<in> set ([] @ fs)"
    then have "tf_seq g \<in> tf_seq ` set fs" by simp
    then show "1 \<le> tf_seq g \<and> tf_seq g \<le> int n" by (simp add: assms(2))
  qed
  then have c: "caught_up fs (concat tss) rs'" "rs_session rs' = sid" by (simp_all add: new_receive_state_def)
  obtain gs where gs: "concat tss = map (Deliver sid) gs" "map tf_seq gs = [1 .. rs_expected rs' - 1]" "set gs \<subseteq> set fs"
      "1 \<le> rs_expected rs'" "rs_expected rs' \<notin> {1 .. int n}"
    by (rule caught_upD[OF c(1)]) (rule that, simp_all add: c(2) assms(2))
  have "int n < rs_expected rs'" using gs(4,5) by auto
  moreover have "set (map tf_seq gs) \<subseteq> {1 .. int n}" using gs(3) assms(2) by auto
  ultimately have seqs: "map tf_seq gs = [1 .. int n]" using gs(2) by (cases "rs_expected rs' = int n + 1") auto
  then have d: "distinct gs" using distinct_of_map[of tf_seq gs] by simp
  have "inj_on tf_seq (set fs)" using assms(1) by (simp add: distinct_map)
  moreover have "tf_seq ` set gs = tf_seq ` set fs" using seqs assms(2) by (metis list.set_map set_upto)
  ultimately have "set gs = set fs" using gs(3) by (metis inj_on_image_eq_iff order_refl)
  then have "mset fs = mset gs" using d assms(1) by (metis distinct_map set_eq_iff_mset_eq_distinct)
  then have "sort_key tf_seq fs = gs"
    by (rule sort_key_inj_key_eq) (use assms(1) seqs in \<open>simp_all add: distinct_map\<close>)
  then show ?thesis using run gs(1) by simp
qed


lemma reordering_restores_order_witness:
  "concat (fst (receive_run (new_receive_state ''s'' ''e-1'' 0) (map Arrives
     [\<lparr> tf_origin = ''o'', tf_stream = ''e-1'', tf_seq = 2, tf_body = RefFrame \<lparr> fr_session = ''s'', fr_event = ''b'', fr_incarnation = None, fr_trace = False \<rparr> \<rparr>,
      \<lparr> tf_origin = ''o'', tf_stream = ''e-1'', tf_seq = 1, tf_body = RefFrame \<lparr> fr_session = ''s'', fr_event = ''a'', fr_incarnation = None, fr_trace = False \<rparr> \<rparr>])))
   = map (Deliver ''s'') [\<lparr> tf_origin = ''o'', tf_stream = ''e-1'', tf_seq = 1, tf_body = RefFrame \<lparr> fr_session = ''s'', fr_event = ''a'', fr_incarnation = None, fr_trace = False \<rparr> \<rparr>,
      \<lparr> tf_origin = ''o'', tf_stream = ''e-1'', tf_seq = 2, tf_body = RefFrame \<lparr> fr_session = ''s'', fr_event = ''b'', fr_incarnation = None, fr_trace = False \<rparr> \<rparr>]"
proof (subst reordering_restores_order[where n = 2])
qed (auto simp: numeral_2_eq_2 atLeastAtMost_insertL)

end
