(* ===== verification/PluginData.thy ===== *)
theory PluginData
  imports Pagination Digits Results
begin

text \<open>
  The plugin-data collection of the memory store (\<open>packages/store/src/memory/plugin-data-methods.ts\<close>,
  \<open>packages/store/src/common/plugin-data-batch-cas.ts\<close>) and its change feed
  (\<open>packages/store/src/memory/write-order.ts\<close>). A composite key \<open>JSON.stringify([...])\<close> is a tuple.
  The theory shows that a batch compare-and-set writes everything or nothing, that the version of
  the SQL stores does the same, and that a client that follows the change feed misses no record.
\<close>

subsection \<open>Rows and changes\<close>

record plugin_row =
  pr_id :: string
  pr_session :: string
  pr_plugin :: string
  pr_namespace :: string
  pr_key :: string
  pr_value :: json
  pr_created :: string
  pr_updated :: string

type_synonym plugin_key = "string \<times> string \<times> string \<times> string"

definition plugin_data_key :: "plugin_row \<Rightarrow> plugin_key" where
  "plugin_data_key r = (pr_session r, pr_plugin r, pr_namespace r, pr_key r)"

text \<open>The owner of a lorebook entry is its owner key.\<close>

datatype change_identity =
    ChLorebook string string
  | ChCharacter string
  | ChPluginData string string string

record record_change =
  rc_session :: string
  rc_identity :: change_identity
  rc_seq :: int

type_synonym change_key = "string \<times> change_identity"

record data_state =
  da_sessions :: "(string, int) jmap"
  da_rows :: "(plugin_key, plugin_row) jmap"
  da_changes :: "(change_key, record_change) jmap"
  da_counters :: "(string, int) jmap"

subsection \<open>The change feed\<close>

definition next_session_write :: "string \<Rightarrow> data_state \<Rightarrow> int \<times> data_state" where
  "next_session_write sid s = (let v = or_else (jm_get (da_counters s) sid) 0 + 1
     in (v, s\<lparr> da_counters := jm_set sid v (da_counters s) \<rparr>))"

definition record_change_of :: "string \<Rightarrow> change_identity \<Rightarrow> data_state \<Rightarrow> data_state" where
  "record_change_of sid ch s = (let (n, s1) = next_session_write sid s
     in s1\<lparr> da_changes := jm_set (sid, ch) \<lparr> rc_session = sid, rc_identity = ch, rc_seq = n \<rparr> (da_changes s1) \<rparr>)"

record change_query =
  cq_after :: "int option"
  cq_through :: "int option"
  cq_plugin_data :: "(string \<times> string) option"
  cq_limit :: int

definition change_selected :: "string \<Rightarrow> change_query \<Rightarrow> record_change \<Rightarrow> bool" where
  "change_selected sid q c \<longleftrightarrow> rc_session c = sid
     \<and> (case cq_after q of None \<Rightarrow> True | Some a \<Rightarrow> a < rc_seq c)
     \<and> (case cq_through q of None \<Rightarrow> True | Some t \<Rightarrow> rc_seq c \<le> t)
     \<and> (case cq_plugin_data q of None \<Rightarrow> True
        | Some (plugin, ns) \<Rightarrow> (case rc_identity c of ChPluginData p n k \<Rightarrow> p = plugin \<and> n = ns | _ \<Rightarrow> False))"

definition list_record_changes :: "string \<Rightarrow> change_query \<Rightarrow> data_state \<Rightarrow> record_change list" where
  "list_record_changes sid q s = (if cq_limit q \<le> 0 then []
     else take (nat (cq_limit q)) (sort_key rc_seq (filter (change_selected sid q) (map snd (da_changes s)))))"

subsection \<open>Writes\<close>

definition changed :: "plugin_row \<Rightarrow> data_state \<Rightarrow> data_state" where
  "changed r s = record_change_of (pr_session r) (ChPluginData (pr_plugin r) (pr_namespace r) (pr_key r)) s"

text \<open>A rewrite keeps the ID and the creation time of the row.\<close>

definition write_row :: "plugin_row \<Rightarrow> data_state \<Rightarrow> data_state" where
  "write_row r s = (let key = plugin_data_key r;
       row = (case jm_get (da_rows s) key of None \<Rightarrow> r
         | Some old \<Rightarrow> r\<lparr> pr_id := pr_id old, pr_created := pr_created old \<rparr>)
     in changed r (s\<lparr> da_rows := jm_set key row (da_rows s) \<rparr>))"

definition set_plugin_data_batch :: "plugin_row list \<Rightarrow> data_state \<Rightarrow> data_state" where
  "set_plugin_data_batch rs s = foldl (\<lambda>s r. write_row r s) s rs"

definition compare_and_set :: "plugin_row \<Rightarrow> string option \<Rightarrow> data_state \<Rightarrow> bool \<times> data_state" where
  "compare_and_set r expected s = (let existing = jm_get (da_rows s) (plugin_data_key r)
     in if (case expected of None \<Rightarrow> existing \<noteq> None | Some u \<Rightarrow> map_option pr_updated existing \<noteq> Some u)
        then (False, s) else (True, write_row r s))"

definition delete_plugin_data :: "plugin_key \<Rightarrow> data_state \<Rightarrow> data_state" where
  "delete_plugin_data key s = (if jm_has (da_rows s) key
     then (case key of (sid, plugin, ns, k) \<Rightarrow>
       record_change_of sid (ChPluginData plugin ns k) (s\<lparr> da_rows := jm_delete key (da_rows s) \<rparr>))
     else s)"

subsection \<open>Batch compare-and-set\<close>

record cas_entry =
  ce_namespace :: string
  ce_key :: string
  ce_expected :: "rat option"
  ce_value :: json
  ce_timestamp :: string

datatype cas_error = InvalidCasEntry | SessionNotFound string

definition integral_rat :: "rat \<Rightarrow> bool" where
  "integral_rat q = (snd (quotient_of q) = 1)"

definition plugin_data_version :: "json \<Rightarrow> rat option" where
  "plugin_data_version v = (case json_property v ''version'' of
     Some (JNum q) \<Rightarrow> if integral_rat q \<and> 0 < q then Some q else None | _ \<Rightarrow> None)"

fun valid_cas_entries :: "(string \<times> string) list \<Rightarrow> cas_entry list \<Rightarrow> bool" where
  "valid_cas_entries seen [] = True"
| "valid_cas_entries seen (e # es) =
     (if ce_namespace e = [] \<or> ce_key e = [] \<or> (ce_namespace e, ce_key e) \<in> set seen
         \<or> (case ce_expected e of None \<Rightarrow> False | Some q \<Rightarrow> \<not> integral_rat q \<or> q < 1)
      then False else valid_cas_entries ((ce_namespace e, ce_key e) # seen) es)"

definition cas_conflict :: "cas_entry \<Rightarrow> plugin_row option \<Rightarrow> bool" where
  "cas_conflict e existing = (case ce_expected e of
     None \<Rightarrow> existing \<noteq> None
   | Some q \<Rightarrow> (case existing of None \<Rightarrow> True | Some r \<Rightarrow> plugin_data_version (pr_value r) \<noteq> Some q))"

text \<open>\<open>crypto.randomUUID()\<close> for the entry with an index is \<open>uuid index\<close>.\<close>

definition cas_row :: "(nat \<Rightarrow> string) \<Rightarrow> string \<Rightarrow> string \<Rightarrow> data_state \<Rightarrow> nat \<times> cas_entry \<Rightarrow> plugin_row" where
  "cas_row uuid sid plugin s = (\<lambda>(i, e).
     (let existing = jm_get (da_rows s) (sid, plugin, ce_namespace e, ce_key e) in
      \<lparr> pr_id = (case existing of None \<Rightarrow> uuid i | Some r \<Rightarrow> pr_id r), pr_session = sid, pr_plugin = plugin,
        pr_namespace = ce_namespace e, pr_key = ce_key e, pr_value = ce_value e,
        pr_created = (case existing of None \<Rightarrow> ce_timestamp e | Some r \<Rightarrow> pr_created r), pr_updated = ce_timestamp e \<rparr>))"

definition compare_and_set_batch ::
  "(nat \<Rightarrow> string) \<Rightarrow> string \<Rightarrow> string \<Rightarrow> cas_entry list \<Rightarrow> data_state \<Rightarrow> cas_error + bool \<times> data_state" where
  "compare_and_set_batch uuid sid plugin entries s =
     (if \<not> valid_cas_entries [] entries then Inl InvalidCasEntry
      else if \<not> jm_has (da_sessions s) sid then Inl (SessionNotFound sid)
      else if list_ex (\<lambda>e. cas_conflict e (jm_get (da_rows s) (sid, plugin, ce_namespace e, ce_key e))) entries
      then Inr (False, s)
      else (let rows = map (cas_row uuid sid plugin s) (enumerate 0 entries)
        in Inr (True, foldl (\<lambda>s r. changed r (s\<lparr> da_rows := jm_set (plugin_data_key r) r (da_rows s) \<rparr>)) s rows)))"

text \<open>
  The variant of the SQL stores: one read per entry, no write before the last check, then one batch
  write. It is run here over the memory store's own operations.
\<close>

fun collect_cas_rows :: "(nat \<Rightarrow> string) \<Rightarrow> string \<Rightarrow> string \<Rightarrow> data_state \<Rightarrow> (nat \<times> cas_entry) list \<Rightarrow> plugin_row list option" where
  "collect_cas_rows uuid sid plugin s [] = Some []"
| "collect_cas_rows uuid sid plugin s ((i, e) # es) =
     (if cas_conflict e (jm_get (da_rows s) (sid, plugin, ce_namespace e, ce_key e)) then None
      else map_option (\<lambda>rows. cas_row uuid sid plugin s (i, e) # rows) (collect_cas_rows uuid sid plugin s es))"

definition apply_batch_cas ::
  "(nat \<Rightarrow> string) \<Rightarrow> string \<Rightarrow> string \<Rightarrow> cas_entry list \<Rightarrow> data_state \<Rightarrow> cas_error + bool \<times> data_state" where
  "apply_batch_cas uuid sid plugin entries s =
     (if \<not> valid_cas_entries [] entries then Inl InvalidCasEntry
      else if \<not> jm_has (da_sessions s) sid then Inl (SessionNotFound sid)
      else (case collect_cas_rows uuid sid plugin s (enumerate 0 entries) of
          None \<Rightarrow> Inr (False, s)
        | Some rows \<Rightarrow> Inr (True, set_plugin_data_batch rows s)))"

subsection \<open>Reads\<close>

definition plugin_row_cmp :: "plugin_row \<Rightarrow> plugin_row \<Rightarrow> int" where
  "plugin_row_cmp a b =
     (if pr_created a \<noteq> pr_created b then (if js_less (pr_created a) (pr_created b) then - 1 else 1)
      else (let by = (\<lambda>f. compare_byte_order (units (f a)) (units (f b)))
        in if by pr_plugin \<noteq> 0 then by pr_plugin
           else if by pr_namespace \<noteq> 0 then by pr_namespace
           else by pr_key))"

definition sort_plugin_data :: "plugin_row list \<Rightarrow> plugin_row list" where
  "sort_plugin_data rows = js_sort plugin_row_cmp rows"

definition get_plugin_data :: "plugin_key \<Rightarrow> data_state \<Rightarrow> plugin_row option" where
  "get_plugin_data key s = jm_get (da_rows s) key"

definition list_plugin_data :: "string \<Rightarrow> string \<Rightarrow> string option \<Rightarrow> pagination_opts option \<Rightarrow> data_state \<Rightarrow> plugin_row list" where
  "list_plugin_data sid plugin ns pagination s = apply_pagination (sort_plugin_data (filter (\<lambda>r. pr_session r = sid
     \<and> pr_plugin r = plugin \<and> (ns = None \<or> ns = Some (pr_namespace r))) (map snd (da_rows s)))) pagination"

definition list_session_scope :: "string \<Rightarrow> pagination_opts option \<Rightarrow> data_state \<Rightarrow> plugin_row list" where
  "list_session_scope sid pagination s =
     apply_pagination (sort_plugin_data (filter (\<lambda>r. pr_session r = sid) (map snd (da_rows s)))) pagination"

definition list_by_namespace :: "string \<Rightarrow> string \<Rightarrow> data_state \<Rightarrow> plugin_row list" where
  "list_by_namespace sid ns s =
     sort_plugin_data (filter (\<lambda>r. pr_session r = sid \<and> pr_namespace r = ns) (map snd (da_rows s)))"

definition recent_cmp :: "plugin_row \<Rightarrow> plugin_row \<Rightarrow> int" where
  "recent_cmp a b = (if pr_updated a = pr_updated b then compare_byte_order (units (pr_key a)) (units (pr_key b))
     else if js_less (pr_updated b) (pr_updated a) then - 1 else 1)"

text \<open>The oldest rows up to half the limit, then the most recently updated of the others.\<close>

definition prompt_window :: "string \<Rightarrow> string \<Rightarrow> string \<Rightarrow> rat \<Rightarrow> data_state \<Rightarrow> plugin_row list \<times> nat" where
  "prompt_window sid plugin ns max_entries s =
     (let limit = nat (max 0 (floor max_entries));
          rows = sort_plugin_data (filter (\<lambda>r. pr_session r = sid \<and> pr_plugin r = plugin \<and> pr_namespace r = ns)
             (map snd (da_rows s)))
      in if length rows \<le> limit then (rows, length rows)
         else (let anchors = take (limit div 2) rows;
                   keys = map pr_key anchors;
                   recent = take (limit - length anchors)
                     (js_sort recent_cmp (filter (\<lambda>r. pr_key r \<notin> set keys) rows))
           in (anchors @ recent, length rows)))"

text \<open>\<open>value?.[field]\<close> where it is a string.\<close>

definition string_field :: "json \<Rightarrow> string \<Rightarrow> string option" where
  "string_field v field = (case v of
     JObj ps \<Rightarrow> (case map_of ps field of Some (JStr t) \<Rightarrow> Some t | _ \<Rightarrow> None)
   | JArr xs \<Rightarrow> (case find (\<lambda>i. show_nat i = field) [0 ..< length xs] of
       Some i \<Rightarrow> (case xs ! i of JStr t \<Rightarrow> Some t | _ \<Rightarrow> None) | None \<Rightarrow> None)
   | JStr t \<Rightarrow> (case find (\<lambda>i. show_nat i = field) [0 ..< length t] of Some i \<Rightarrow> Some [t ! i] | None \<Rightarrow> None)
   | _ \<Rightarrow> None)"

record data_query =
  dq_namespace :: string
  dq_session :: "string option"
  dq_plugin :: "string option"
  dq_filter :: "(string \<times> string list) option"

definition query_plugin_data :: "data_query \<Rightarrow> data_state \<Rightarrow> plugin_row list" where
  "query_plugin_data q s =
     js_sort (\<lambda>a b. compare_byte_order (units (pr_session a)) (units (pr_session b)))
       (sort_plugin_data (filter (\<lambda>r. pr_namespace r = dq_namespace q
          \<and> (dq_session q = None \<or> dq_session q = Some (pr_session r))
          \<and> (dq_plugin q = None \<or> dq_plugin q = Some (pr_plugin r))
          \<and> (case dq_filter q of None \<Rightarrow> True
             | Some (field, values) \<Rightarrow> (case string_field (pr_value r) field of None \<Rightarrow> False | Some t \<Rightarrow> t \<in> set values)))
        (map snd (da_rows s))))"


subsection \<open>The operations of the collection as steps\<close>

datatype data_op =
    SetRow plugin_row
  | SetBatch "plugin_row list"
  | CasRow plugin_row "string option"
  | DeleteRow plugin_key
  | CasBatch "nat \<Rightarrow> string" string string "cas_entry list"

fun data_step :: "data_op \<Rightarrow> data_state \<Rightarrow> data_state" where
  "data_step (SetRow r) s = write_row r s"
| "data_step (SetBatch rs) s = set_plugin_data_batch rs s"
| "data_step (CasRow r u) s = snd (compare_and_set r u s)"
| "data_step (DeleteRow key) s = delete_plugin_data key s"
| "data_step (CasBatch uuid sid plugin es) s =
     (case compare_and_set_batch uuid sid plugin es s of Inl _ \<Rightarrow> s | Inr (_, s') \<Rightarrow> s')"

definition data_run :: "data_op list \<Rightarrow> data_state \<Rightarrow> data_state" where
  "data_run ops s = foldl (\<lambda>s op. data_step op s) s ops"

subsection \<open>The feed invariant\<close>

definition write_counter :: "data_state \<Rightarrow> string \<Rightarrow> int" where
  "write_counter s sid = or_else (jm_get (da_counters s) sid) 0"

definition feed_inv :: "data_state \<Rightarrow> bool" where
  "feed_inv s \<longleftrightarrow> keyed_by (\<lambda>c. (rc_session c, rc_identity c)) (da_changes s)
     \<and> (\<forall>c\<in>snd ` set (da_changes s). 0 < rc_seq c \<and> rc_seq c \<le> write_counter s (rc_session c))
     \<and> (\<forall>sid. 0 \<le> write_counter s sid)
     \<and> inj_on (\<lambda>c. (rc_session c, rc_seq c)) (snd ` set (da_changes s))"

definition row_change :: "plugin_key \<Rightarrow> change_key" where
  "row_change = (\<lambda>(sid, plugin, ns, k). (sid, ChPluginData plugin ns k))"

text \<open>A step of the store keeps the invariant, raises no counter backwards and lists what it changed.\<close>

definition feeds :: "data_state \<Rightarrow> data_state \<Rightarrow> bool" where
  "feeds s s' \<longleftrightarrow> feed_inv s' \<and> (\<forall>sid. write_counter s sid \<le> write_counter s' sid)
     \<and> (\<forall>k c. jm_get (da_changes s) k = Some c \<longrightarrow> (\<exists>c'. jm_get (da_changes s') k = Some c' \<and> rc_seq c \<le> rc_seq c'))
     \<and> (\<forall>key. jm_get (da_rows s) key \<noteq> jm_get (da_rows s') key \<longrightarrow>
          (\<exists>c. jm_get (da_changes s') (row_change key) = Some c \<and> write_counter s (fst key) < rc_seq c))"

lemma feeds_refl: "feed_inv s \<Longrightarrow> feeds s s"
  by (auto simp: feeds_def)

lemma feeds_trans:
  assumes a: "feeds s s'" and b: "feeds s' s''"
  shows "feeds s s''"
  unfolding feeds_def
proof (intro conjI allI impI)
  show "feed_inv s''" using b by (simp add: feeds_def)
next
  fix sid
  show "write_counter s sid \<le> write_counter s'' sid"
    using a b unfolding feeds_def by (meson order_trans)
next
  fix k c
  assume "jm_get (da_changes s) k = Some c"
  then show "\<exists>c'. jm_get (da_changes s'') k = Some c' \<and> rc_seq c \<le> rc_seq c'"
    using a b unfolding feeds_def by (meson order_trans)
next
  fix key
  assume d: "jm_get (da_rows s) key \<noteq> jm_get (da_rows s'') key"
  show "\<exists>c. jm_get (da_changes s'') (row_change key) = Some c \<and> write_counter s (fst key) < rc_seq c"
  proof (cases "jm_get (da_rows s') key = jm_get (da_rows s'') key")
    case True
    then obtain c where "jm_get (da_changes s') (row_change key) = Some c" "write_counter s (fst key) < rc_seq c"
      using a d unfolding feeds_def by metis
    then show ?thesis using b unfolding feeds_def by (meson less_le_trans)
  next
    case False
    then obtain c where "jm_get (da_changes s'') (row_change key) = Some c" "write_counter s' (fst key) < rc_seq c"
      using b unfolding feeds_def by metis
    then show ?thesis using a unfolding feeds_def by (meson le_less_trans)
  qed
qed

lemma record_change_of_simps [simp]:
  "da_rows (record_change_of sid ch s) = da_rows s"
  "da_sessions (record_change_of sid ch s) = da_sessions s"
  "da_changes (record_change_of sid ch s) = jm_set (sid, ch)
     \<lparr> rc_session = sid, rc_identity = ch, rc_seq = write_counter s sid + 1 \<rparr> (da_changes s)"
  "write_counter (record_change_of sid ch s) = (write_counter s)(sid := write_counter s sid + 1)"
  by (auto simp: record_change_of_def next_session_write_def write_counter_def Let_def split: prod.splits)

lemma write_counter_rows [simp]: "write_counter (s\<lparr> da_rows := rs \<rparr>) = write_counter s"
  by (simp add: write_counter_def fun_eq_iff)

lemma feed_inv_rows [simp]: "feed_inv (s\<lparr> da_rows := rs \<rparr>) = feed_inv s"
  by (simp add: feed_inv_def)

lemma feed_inv_record:
  assumes inv: "feed_inv s"
  shows "feed_inv (record_change_of sid ch s)"
proof -
  let ?n = "\<lparr> rc_session = sid, rc_identity = ch, rc_seq = write_counter s sid + 1 \<rparr>"
  have sub: "snd ` set (da_changes (record_change_of sid ch s)) \<subseteq> insert ?n (snd ` set (da_changes s))"
    using image_mono[OF set_jm_set_subset[of "(sid, ch)" ?n "da_changes s"], of snd] by simp
  have old: "rc_seq c \<le> write_counter s (rc_session c)" if "c \<in> snd ` set (da_changes s)" for c
    using inv that by (auto simp: feed_inv_def)
  then have new: "(rc_session c, rc_seq c) \<noteq> (sid, write_counter s sid + 1)" if "c \<in> snd ` set (da_changes s)" for c
    using that by fastforce
  have "inj_on (\<lambda>c. (rc_session c, rc_seq c)) (insert ?n (snd ` set (da_changes s)))"
    using inv new by (auto simp: feed_inv_def inj_on_insert)
  then have inj: "inj_on (\<lambda>c. (rc_session c, rc_seq c)) (snd ` set (da_changes (record_change_of sid ch s)))"
    using sub by (rule inj_on_subset)
  have bound: "0 < rc_seq c \<and> rc_seq c \<le> write_counter (record_change_of sid ch s) (rc_session c)"
    if "c \<in> snd ` set (da_changes (record_change_of sid ch s))" for c
    using subsetD[OF sub that] inv by (fastforce simp: feed_inv_def)
  show ?thesis using inv inj bound
    by (auto simp: feed_inv_def intro!: keyed_by_set)
qed

lemma feeds_record:
  assumes inv: "feed_inv s" and at: "\<And>key. key \<noteq> (sid, plugin, ns, k) \<Longrightarrow> jm_get rs key = jm_get (da_rows s) key"
  shows "feeds s (record_change_of sid (ChPluginData plugin ns k) (s\<lparr> da_rows := rs \<rparr>))"
  unfolding feeds_def
proof (intro conjI allI impI)
  show "feed_inv (record_change_of sid (ChPluginData plugin ns k) (s\<lparr> da_rows := rs \<rparr>))"
    using inv by (intro feed_inv_record) simp
next
  fix sid'
  show "write_counter s sid' \<le> write_counter (record_change_of sid (ChPluginData plugin ns k) (s\<lparr> da_rows := rs \<rparr>)) sid'"
    by simp
next
  fix key c
  assume "jm_get (da_changes s) key = Some c"
  moreover from this have "rc_seq c \<le> write_counter s (fst key)"
    using inv by (fastforce simp: feed_inv_def keyed_by_def dest!: map_of_SomeD)
  ultimately show "\<exists>c'. jm_get (da_changes (record_change_of sid (ChPluginData plugin ns k) (s\<lparr> da_rows := rs \<rparr>))) key = Some c'
      \<and> rc_seq c \<le> rc_seq c'"
    by auto
next
  fix key
  assume "jm_get (da_rows s) key \<noteq> jm_get (da_rows (record_change_of sid (ChPluginData plugin ns k) (s\<lparr> da_rows := rs \<rparr>))) key"
  then have "jm_get rs key \<noteq> jm_get (da_rows s) key" by simp
  then have "key = (sid, plugin, ns, k)" using at by blast
  then show "\<exists>c. jm_get (da_changes (record_change_of sid (ChPluginData plugin ns k) (s\<lparr> da_rows := rs \<rparr>))) (row_change key) = Some c
      \<and> write_counter s (fst key) < rc_seq c"
    by (simp add: row_change_def)
qed

lemma feeds_write: "feed_inv s \<Longrightarrow> feeds s (write_row r s)"
  unfolding write_row_def changed_def Let_def
  by (rule feeds_record) (auto simp: plugin_data_key_def)

lemma feeds_foldl: "(\<And>s r. feed_inv s \<Longrightarrow> feeds s (f s r)) \<Longrightarrow> feed_inv s \<Longrightarrow> feeds s (foldl f s rs)"
proof (induction rs arbitrary: s)
  case Nil
  then show ?case by (simp add: feeds_refl)
next
  case (Cons r rs)
  have a: "feeds s (f s r)" using Cons.prems by blast
  then have "feeds (f s r) (foldl f (f s r) rs)" using Cons by (simp add: feeds_def)
  then show ?case using feeds_trans[OF a] by simp
qed

lemma feeds_step: "feed_inv s \<Longrightarrow> feeds s (data_step op s)"
proof (cases op)
  case (CasBatch uuid sid plugin es)
  assume inv: "feed_inv s"
  have "feeds s (foldl (\<lambda>s r. changed r (s\<lparr> da_rows := jm_set (plugin_data_key r) r (da_rows s) \<rparr>)) s rs)" for rs
    unfolding changed_def by (rule feeds_foldl[OF feeds_record inv]) (auto simp: plugin_data_key_def)
  then show ?thesis using CasBatch inv
    by (auto simp: compare_and_set_batch_def Let_def feeds_refl split: sum.splits)
next
  case (DeleteRow key)
  assume inv: "feed_inv s"
  show ?thesis using DeleteRow feeds_refl[OF inv] feeds_record[OF inv]
    by (cases key) (auto simp: delete_plugin_data_def)
qed (auto simp: feeds_write feeds_refl set_plugin_data_batch_def compare_and_set_def Let_def
    intro: feeds_foldl[OF feeds_write])

lemma feeds_run: "feed_inv s \<Longrightarrow> feeds s (data_run ops s)"
  unfolding data_run_def by (rule feeds_foldl[OF feeds_step])

subsection \<open>Pages of the feed\<close>

lemma sorted_page_complete:
  assumes inj: "inj_on f (set xs)" and d: "distinct xs"
  shows "sorted_wrt (<) (map f (take n (sort_key f xs)))
    \<and> (\<forall>x\<in>set xs. x \<notin> set (take n (sort_key f xs)) \<longrightarrow> length (take n (sort_key f xs)) = n
        \<and> (\<forall>y\<in>set (take n (sort_key f xs)). f y < (f x::int)))"
proof -
  let ?l = "sort_key f xs"
  have sorted: "sorted_wrt (<) (map f ?l)"
    using inj d by (simp add: strict_sorted_iff distinct_map)
  then have split: "sorted_wrt (<) (map f (take n ?l) @ map f (drop n ?l))"
    by (metis append_take_drop_id map_append)
  have rest: "x \<in> set (drop n ?l)" if "x \<in> set xs" "x \<notin> set (take n ?l)" for x
    using that by (metis Un_iff append_take_drop_id set_append set_sort)
  have "length (take n ?l) = n" if "x \<in> set (drop n ?l)" for x
    using that by (cases "length ?l \<le> n") auto
  then show ?thesis using split rest by (fastforce simp: sorted_wrt_append)
qed

lemma keyed_by_keys: "keyed_by f m \<Longrightarrow> distinct (map f (map snd m))"
proof -
  assume m: "keyed_by f m"
  then have "map f (map snd m) = map fst m" by (auto simp: keyed_by_def)
  then show "distinct (map f (map snd m))" using m unfolding keyed_by_def by metis
qed

lemma keyed_by_distinct: "keyed_by f m \<Longrightarrow> distinct (map snd m)"
  using distinct_of_map[OF keyed_by_keys] .

lemma changes_distinct: "feed_inv s \<Longrightarrow> distinct (map snd (da_changes s))"
  by (auto simp: feed_inv_def intro: keyed_by_distinct)

lemma feed_page_complete:
  assumes inv: "feed_inv s" and n: "0 \<le> cq_limit q" and c: "(k, c) \<in> set (da_changes s)" "change_selected sid q c"
  shows "sorted_wrt (<) (map rc_seq (list_record_changes sid q s))
    \<and> (c \<in> set (list_record_changes sid q s)
      \<or> int (length (list_record_changes sid q s)) = cq_limit q
        \<and> list_all (\<lambda>d. rc_seq d < rc_seq c) (list_record_changes sid q s))"
proof -
  let ?xs = "filter (change_selected sid q) (map snd (da_changes s))"
  have "inj_on (\<lambda>c. (rc_session c, rc_seq c)) (set ?xs)"
    using inv by (auto simp: feed_inv_def inj_on_def)
  then have inj: "inj_on rc_seq (set ?xs)"
    by (auto simp: inj_on_def change_selected_def)
  have page: "list_record_changes sid q s = take (nat (cq_limit q)) (sort_key rc_seq ?xs)"
    using n by (simp add: list_record_changes_def)
  have "c \<in> set ?xs" using c by force
  then show ?thesis
    using sorted_page_complete[OF inj distinct_filter[OF changes_distinct[OF inv]], of "nat (cq_limit q)"] n
    unfolding page by (auto simp: list_all_iff)
qed

text \<open>C40: A follower of the change feed misses no write of plugin data: after any run of the five plugin-data
  operations from a state that satisfies the feed's invariant, where the follower had read up to the session's
  counter, every plugin-data row of the session that was written, replaced or deleted is on the next page, or the
  page is full and the row's change comes after all of it. Pages are strictly ascending.\<close>

theorem change_feed_misses_nothing:
  assumes "feed_inv s"
    and "jm_get (da_rows s) (sid, plugin, ns, k) \<noteq> jm_get (da_rows (data_run ops s)) (sid, plugin, ns, k)"
    and "0 < limit" and "pd \<in> {None, Some (plugin, ns)}"
  shows "let q = \<lparr> cq_after = Some (write_counter s sid), cq_through = None, cq_plugin_data = pd, cq_limit = limit \<rparr>;
        page = list_record_changes sid q (data_run ops s)
      in sorted_wrt (<) (map rc_seq page)
        \<and> (\<exists>c. jm_get (da_changes (data_run ops s)) (sid, ChPluginData plugin ns k) = Some c
            \<and> (c \<in> set page \<or> int (length page) = limit \<and> list_all (\<lambda>d. rc_seq d < rc_seq c) page))"
proof -
  let ?s = "data_run ops s" and ?q = "\<lparr> cq_after = Some (write_counter s sid), cq_through = None, cq_plugin_data = pd, cq_limit = limit \<rparr>"
  have f: "feeds s ?s" by (rule feeds_run[OF assms(1)])
  then have inv: "feed_inv ?s" by (simp add: feeds_def)
  obtain c where c: "jm_get (da_changes ?s) (sid, ChPluginData plugin ns k) = Some c" "write_counter s sid < rc_seq c"
    using f assms(2) unfolding feeds_def by (metis (no_types, lifting) fst_conv row_change_def split_conv)
  then have m: "((sid, ChPluginData plugin ns k), c) \<in> set (da_changes ?s)" by (simp add: map_of_SomeD)
  then have id: "rc_session c = sid" "rc_identity c = ChPluginData plugin ns k"
    using inv by (auto simp: feed_inv_def keyed_by_def)
  then have "change_selected sid ?q c" using c assms(4) by (auto simp: change_selected_def)
  then show ?thesis
    using feed_page_complete[OF inv _ m, of ?q sid] assms(3) c unfolding Let_def by auto
qed

definition witness_store :: data_state where
  "witness_store = \<lparr> da_sessions = [(''s'', 1)], da_rows = [], da_changes = [], da_counters = [] \<rparr>"

definition witness_row :: "string \<Rightarrow> plugin_row" where
  "witness_row k = \<lparr> pr_id = ''id'', pr_session = ''s'', pr_plugin = ''p'', pr_namespace = ''n'', pr_key = k,
     pr_value = JNull, pr_created = ''t'', pr_updated = ''t'' \<rparr>"

text \<open>A write, a write of another key and a deletion: the page of two holds both changes in the order of the last writes.\<close>

lemma change_feed_misses_nothing_witness:
  "let s' = data_run [SetRow (witness_row ''a''), SetRow (witness_row ''b''), SetRow (witness_row ''a'')] witness_store;
       q = \<lparr> cq_after = Some (write_counter witness_store ''s''), cq_through = None, cq_plugin_data = None, cq_limit = 2 \<rparr>
   in map rc_seq (list_record_changes ''s'' q s') = [2, 3] \<and> sorted_wrt (<) (map rc_seq (list_record_changes ''s'' q s'))"
proof -
  let ?ops = "[SetRow (witness_row ''a''), SetRow (witness_row ''b''), SetRow (witness_row ''a'')]"
  have eval: "map rc_seq (list_record_changes ''s'' \<lparr> cq_after = Some (write_counter witness_store ''s''), cq_through = None,
      cq_plugin_data = None, cq_limit = 2 \<rparr> (data_run ?ops witness_store)) = [2, 3]"
    by code_simp
  have differ: "(jm_get (da_rows witness_store) (''s'', ''p'', ''n'', ''a'') = None)
      \<and> map_option pr_id (jm_get (da_rows (data_run ?ops witness_store)) (''s'', ''p'', ''n'', ''a'')) = Some ''id''"
    by code_simp
  have inv: "feed_inv witness_store"
    by (simp add: feed_inv_def witness_store_def write_counter_def)
  have "jm_get (da_rows witness_store) (''s'', ''p'', ''n'', ''a'') \<noteq> jm_get (da_rows (data_run ?ops witness_store)) (''s'', ''p'', ''n'', ''a'')"
    using differ by auto
  from change_feed_misses_nothing[OF inv this, of 2 None] eval show ?thesis by (simp add: Let_def)
qed

subsection \<open>Batch compare-and-set\<close>

definition cas_key :: "string \<Rightarrow> string \<Rightarrow> cas_entry \<Rightarrow> plugin_key" where
  "cas_key sid plugin e = (sid, plugin, ce_namespace e, ce_key e)"

lemma cas_row_key [simp]: "plugin_data_key (cas_row uuid sid plugin s (i, e)) = cas_key sid plugin e"
  by (simp add: cas_row_def plugin_data_key_def cas_key_def Let_def)

lemma valid_cas_keys:
  "valid_cas_entries seen es \<Longrightarrow> distinct (map (\<lambda>e. (ce_namespace e, ce_key e)) es)
    \<and> set seen \<inter> (\<lambda>e. (ce_namespace e, ce_key e)) ` set es = {}"
proof (induction es arbitrary: seen)
  case (Cons e es)
  then have "valid_cas_entries ((ce_namespace e, ce_key e) # seen) es" "(ce_namespace e, ce_key e) \<notin> set seen"
    by (simp_all split: if_splits)
  with Cons.IH show ?case by fastforce
qed simp

lemma valid_cas_distinct: "valid_cas_entries seen es \<Longrightarrow> distinct (map (cas_key sid plugin) es)"
  using valid_cas_keys by (auto simp: distinct_map inj_on_def cas_key_def)

lemma collect_cas_rows_eq:
  "collect_cas_rows uuid sid plugin s es =
     (if list_ex (\<lambda>e. cas_conflict e (jm_get (da_rows s) (cas_key sid plugin e))) (map snd es) then None
      else Some (map (cas_row uuid sid plugin s) es))"
  by (induction es) (auto simp: cas_key_def)

text \<open>A row that carries the ID and creation time of the row it replaces is written as it is.\<close>

definition carries :: "data_state \<Rightarrow> plugin_row \<Rightarrow> bool" where
  "carries s r \<longleftrightarrow> (case jm_get (da_rows s) (plugin_data_key r) of None \<Rightarrow> True
     | Some old \<Rightarrow> pr_id r = pr_id old \<and> pr_created r = pr_created old)"

definition put_row :: "data_state \<Rightarrow> plugin_row \<Rightarrow> data_state" where
  "put_row s r = changed r (s\<lparr> da_rows := jm_set (plugin_data_key r) r (da_rows s) \<rparr>)"

lemma write_row_carries: "carries s r \<Longrightarrow> write_row r s = put_row s r"
proof -
  assume "carries s r"
  then have "r\<lparr> pr_id := pr_id old, pr_created := pr_created old \<rparr> = r"
    if "jm_get (da_rows s) (plugin_data_key r) = Some old" for old
    using that by (simp add: carries_def)
  then show "write_row r s = put_row s r"
    by (simp add: write_row_def put_row_def Let_def split: option.splits)
qed

lemma put_row_simps [simp]:
  "da_rows (put_row s r) = jm_set (plugin_data_key r) r (da_rows s)"
  "write_counter (put_row s r) = (write_counter s)(pr_session r := write_counter s (pr_session r) + 1)"
  by (simp_all add: put_row_def changed_def)

lemma write_rows_carry:
  "distinct (map plugin_data_key rs) \<Longrightarrow> list_all (carries s) rs
    \<Longrightarrow> foldl (\<lambda>s r. write_row r s) s rs = foldl put_row s rs"
proof (induction rs arbitrary: s)
  case (Cons r rs)
  have "carries (put_row s r) q" if "q \<in> set rs" for q
  proof -
    have "plugin_data_key q \<noteq> plugin_data_key r" using that Cons.prems(1) by (auto simp: image_iff)
    moreover have "carries s q" using that Cons.prems(2) by (simp add: list_all_iff)
    ultimately show ?thesis by (simp add: carries_def)
  qed
  then show ?case using Cons by (simp add: write_row_carries list_all_iff)
qed simp

lemma cas_rows_carry: "list_all (carries s) (map (cas_row uuid sid plugin s) es)"
  by (auto simp: list_all_iff carries_def cas_key_def cas_row_def Let_def plugin_data_key_def split: option.splits)

lemma cas_rows_keys: "map plugin_data_key (map (cas_row uuid sid plugin s) es) = map (cas_key sid plugin) (map snd es)"
  by (simp add: case_prod_unfold) (metis cas_row_key prod.collapse)

lemma conflict_keys: "(\<lambda>e. cas_conflict e (jm_get (da_rows s) (sid, plugin, ce_namespace e, ce_key e)))
    = (\<lambda>e. cas_conflict e (jm_get (da_rows s) (cas_key sid plugin e)))"
  by (simp add: cas_key_def)

text \<open>C39: The batch compare-and-set of the memory store, which reads and checks every entry
  before it writes, and the one the SQL stores run inside their transaction, which reads, checks
  and collects entry by entry and hands the rows to the ordinary batch write, give the same errors,
  the same answer and the same store, also in the order of the change feed.\<close>

theorem batch_cas_stores_agree:
  "compare_and_set_batch uuid sid plugin entries s = apply_batch_cas uuid sid plugin entries s"
proof -
  have "foldl (\<lambda>s r. write_row r s) s (map (cas_row uuid sid plugin s) (enumerate 0 entries))
      = foldl put_row s (map (cas_row uuid sid plugin s) (enumerate 0 entries))"
    if "valid_cas_entries [] entries"
    by (rule write_rows_carry) (simp_all only: cas_rows_keys cas_rows_carry map_snd_enumerate valid_cas_distinct[OF that])
  then show ?thesis
    by (simp add: compare_and_set_batch_def apply_batch_cas_def collect_cas_rows_eq conflict_keys
        set_plugin_data_batch_def Let_def put_row_def[abs_def])
qed

lemma foldl_put_rows:
  "distinct (map plugin_data_key rs) \<Longrightarrow> jm_get (da_rows (foldl put_row s rs)) =
     jm_get (da_rows s) ++ map_of (map (\<lambda>r. (plugin_data_key r, r)) rs)"
proof (induction rs arbitrary: s)
  case (Cons r rs)
  let ?m = "map_of (map (\<lambda>r. (plugin_data_key r, r)) rs)"
  have "plugin_data_key r \<notin> dom ?m"
    using Cons.prems by (auto simp: dom_map_of_conv_image_fst image_image)
  then have "(jm_get (da_rows s))(plugin_data_key r \<mapsto> r) ++ ?m = (jm_get (da_rows s) ++ ?m)(plugin_data_key r \<mapsto> r)"
    by (rule map_add_upd_left)
  then show ?case using Cons
    by (simp only: foldl_Cons Cons.IH list.map distinct.simps put_row_simps jm_get_set map_of.simps fst_conv snd_conv map_add_upd)
qed simp

lemma foldl_put_counter:
  "list_all (\<lambda>r. pr_session r = sid) rs \<Longrightarrow>
     write_counter (foldl put_row s rs) = (write_counter s)(sid := write_counter s sid + int (length rs))"
  by (induction rs arbitrary: s) (auto simp: fun_eq_iff)

text \<open>A batch compare-and-set that answers is all or nothing. It answers true exactly when every
  entry meets the version it expects; then every entry's row holds its value, under the ID and creation
  time of the row it replaces, no other row changes, and the session took one write number per entry.
  When it answers false, the store is the one it was given.\<close>

lemma batch_cas_all_or_nothing:
  assumes "compare_and_set_batch uuid sid plugin entries s = Inr (ok, s')"
  shows "ok = list_all (\<lambda>e. \<not> cas_conflict e (jm_get (da_rows s) (cas_key sid plugin e))) entries
    \<and> (if ok then jm_get (da_rows s') = jm_get (da_rows s) ++ map_of (map (\<lambda>(i, e).
            (cas_key sid plugin e, cas_row uuid sid plugin s (i, e))) (enumerate 0 entries))
          \<and> write_counter s' = (write_counter s)(sid := write_counter s sid + int (length entries))
        else s' = s)"
proof -
  let ?rows = "map (cas_row uuid sid plugin s) (enumerate 0 entries)"
  have valid: "valid_cas_entries [] entries" and
    ok: "ok = (\<not> list_ex (\<lambda>e. cas_conflict e (jm_get (da_rows s) (cas_key sid plugin e))) entries)" and
    s': "s' = (if ok then foldl put_row s ?rows else s)"
    using assms by (auto simp: compare_and_set_batch_def conflict_keys Let_def put_row_def[abs_def] split: if_splits)
  have d: "distinct (map plugin_data_key ?rows)"
    unfolding cas_rows_keys map_snd_enumerate by (rule valid_cas_distinct[OF valid])
  have keys: "map (\<lambda>r. (plugin_data_key r, r)) ?rows = map (\<lambda>(i, e). (cas_key sid plugin e, cas_row uuid sid plugin s (i, e)))
      (enumerate 0 entries)"
    by (simp add: case_prod_unfold) (metis cas_row_key prod.collapse)
  have "list_all (\<lambda>r. pr_session r = sid) ?rows"
    by (auto simp: list_all_iff cas_row_def Let_def)
  then have counter: "write_counter (foldl put_row s ?rows) = (write_counter s)(sid := write_counter s sid + int (length ?rows))"
    by (rule foldl_put_counter)
  have "ok = list_all (\<lambda>e. \<not> cas_conflict e (jm_get (da_rows s) (cas_key sid plugin e))) entries"
    by (auto simp: ok list_ex_iff list_all_iff)
  then show ?thesis
    using foldl_put_rows[OF d, of s] counter unfolding keys s' by simp
qed

definition witness_entry :: cas_entry where
  "witness_entry = \<lparr> ce_namespace = ''n'', ce_key = ''a'', ce_expected = None,
     ce_value = JObj [(''version'', JNum 1)], ce_timestamp = ''t'' \<rparr>"

subsection \<open>Rows after a batch of writes\<close>

lemma write_row_key: "plugin_data_key (r\<lparr> pr_id := i, pr_created := c \<rparr>) = plugin_data_key r"
  by (simp add: plugin_data_key_def)

lemma keyed_by_write: "keyed_by plugin_data_key (da_rows s) \<Longrightarrow> keyed_by plugin_data_key (da_rows (write_row r s))"
  by (auto simp: write_row_def changed_def Let_def write_row_key split: option.splits intro: keyed_by_set)

lemma keyed_by_batch:
  "keyed_by plugin_data_key (da_rows s) \<Longrightarrow> keyed_by plugin_data_key (da_rows (set_plugin_data_batch rs s))"
  unfolding set_plugin_data_batch_def by (rule foldl_invariant) (auto intro: keyed_by_write)

lemma value_write:
  "map_option pr_value (jm_get (da_rows (write_row r s)) key) =
     (if key = plugin_data_key r then Some (pr_value r) else map_option pr_value (jm_get (da_rows s) key))"
  by (auto simp: write_row_def changed_def Let_def split: option.splits)

lemma values_batch:
  "distinct (map plugin_data_key rs) \<Longrightarrow>
     map_option pr_value (jm_get (da_rows (set_plugin_data_batch rs s)) key) =
       (case map_of (map (\<lambda>r. (plugin_data_key r, pr_value r)) rs) key of Some v \<Rightarrow> Some v
        | None \<Rightarrow> map_option pr_value (jm_get (da_rows s) key))"
proof (induction rs arbitrary: s)
  case (Cons r rs)
  have "map_of (map (\<lambda>r. (plugin_data_key r, pr_value r)) rs) (plugin_data_key r) = None"
    using Cons.prems by (auto simp: map_of_eq_None_iff)
  then show ?case using Cons by (auto simp: set_plugin_data_batch_def value_write split: option.splits)
qed (simp add: set_plugin_data_batch_def)

lemma listed_rows:
  assumes "keyed_by plugin_data_key (da_rows s)"
  shows "set (list_plugin_data sid plugin (Some ns) None s) =
      {r. \<exists>k. jm_get (da_rows s) (sid, plugin, ns, k) = Some r \<and> pr_key r = k}"
    and "distinct (map pr_key (list_plugin_data sid plugin (Some ns) None s))"
proof -
  let ?P = "\<lambda>r. pr_session r = sid \<and> pr_plugin r = plugin \<and> ns = pr_namespace r"
  have wf: "jm_wf (da_rows s)" using assms by (simp add: keyed_by_def)
  have eq: "list_plugin_data sid plugin (Some ns) None s = sort_plugin_data (filter ?P (map snd (da_rows s)))"
    by (simp add: list_plugin_data_def apply_pagination_def)
  have in_rows: "r \<in> snd ` set (da_rows s) \<longleftrightarrow> jm_get (da_rows s) (plugin_data_key r) = Some r" for r
  proof
    assume "r \<in> snd ` set (da_rows s)"
    then obtain k where "(k, r) \<in> set (da_rows s)" by auto
    moreover from this have "plugin_data_key r = k" using assms by (auto simp: keyed_by_def)
    ultimately show "jm_get (da_rows s) (plugin_data_key r) = Some r" using wf by simp
  qed (metis image_eqI map_of_SomeD snd_conv)
  show "set (list_plugin_data sid plugin (Some ns) None s) =
      {r. \<exists>k. jm_get (da_rows s) (sid, plugin, ns, k) = Some r \<and> pr_key r = k}"
  proof (rule set_eqI)
    fix r
    have key: "plugin_data_key r = (sid, plugin, ns, k)" if "jm_get (da_rows s) (sid, plugin, ns, k) = Some r" for k
      using that by (rule keyed_by_get[OF assms])
    have "r \<in> set (list_plugin_data sid plugin (Some ns) None s) \<longleftrightarrow>
        ?P r \<and> jm_get (da_rows s) (plugin_data_key r) = Some r"
      unfolding eq sort_plugin_data_def set_js_sort set_filter set_map mem_Collect_eq in_rows by blast
    also have "\<dots> \<longleftrightarrow> (\<exists>k. jm_get (da_rows s) (sid, plugin, ns, k) = Some r \<and> pr_key r = k)"
    proof
      assume r: "?P r \<and> jm_get (da_rows s) (plugin_data_key r) = Some r"
      then have "plugin_data_key r = (sid, plugin, ns, pr_key r)" by (simp add: plugin_data_key_def)
      then show "\<exists>k. jm_get (da_rows s) (sid, plugin, ns, k) = Some r \<and> pr_key r = k" using r by metis
    next
      assume "\<exists>k. jm_get (da_rows s) (sid, plugin, ns, k) = Some r \<and> pr_key r = k"
      then obtain k where k: "jm_get (da_rows s) (sid, plugin, ns, k) = Some r" by blast
      from key[OF k] have "?P r" by (simp add: plugin_data_key_def)
      then show "?P r \<and> jm_get (da_rows s) (plugin_data_key r) = Some r" unfolding key[OF k] using k by blast
    qed
    finally show "r \<in> set (list_plugin_data sid plugin (Some ns) None s) \<longleftrightarrow>
        r \<in> {r. \<exists>k. jm_get (da_rows s) (sid, plugin, ns, k) = Some r \<and> pr_key r = k}" by simp
  qed
  let ?l = "filter ?P (map snd (da_rows s))"
  have "map plugin_data_key ?l = map (\<lambda>k. (sid, plugin, ns, k)) (map pr_key ?l)"
    by (auto simp: plugin_data_key_def)
  then have "distinct (map (\<lambda>k. (sid, plugin, ns, k)) (map pr_key ?l))"
    using distinct_map_filter[OF keyed_by_keys[OF assms], of ?P] by metis
  then have "distinct (map pr_key ?l)" by (rule distinct_of_map)
  then show "distinct (map pr_key (list_plugin_data sid plugin (Some ns) None s))"
    by (simp add: eq sort_plugin_data_def)
qed

end
