(* ===== verification/Trigger.thy ===== *)
theory Trigger
  imports PluginData
begin

text \<open>
  When a runtime runs: the trigger router (\<open>packages/runtime/src/trigger/trigger.ts\<close>) and the ledger of
  runs it reads (\<open>packages/runtime/src/trigger/trigger-ledger.ts\<close>), kept in the plugin data of a
  kernel-owned plugin. A session of the store is its number of completed player turns. Counts are exact
  integers; the code's doubles agree as long as they stay safe integers, and both readings drop a row
  that is not.
\<close>

subsection \<open>The router\<close>

record trigger_context =
  tx_logical_turn :: int
  tx_trigger_count :: int
  tx_turns_since :: int
  tx_pending_topics :: "string list"

text \<open>\<open>x % 0\<close> is NaN, which is not 0.\<close>

definition should_trigger :: "manifest \<Rightarrow> trigger_context \<Rightarrow> bool" where
  "should_trigger m c = (if m_subagent_only m then False
     else let trigger = m_trigger m; turn = tx_logical_turn c in
       if (case Option.bind trigger tr_start_turn of Some n \<Rightarrow> turn < n | None \<Rightarrow> False) then False
       else if (case Option.bind trigger tr_max_trigger_count of Some n \<Rightarrow> tx_trigger_count c \<ge> n | None \<Rightarrow> False) then False
       else if (case Option.bind trigger tr_cooldown_turns of Some n \<Rightarrow> tx_turns_since c < n | None \<Rightarrow> False) then False
       else case or_else (map_option tr_type trigger) TrAuto of
           TrAuto \<Rightarrow> (let every = or_else (Option.bind trigger tr_every) 1 in every \<noteq> 0 \<and> turn mod every = 0)
         | TrManual \<Rightarrow> False
         | TrEvent \<Rightarrow> (case Option.bind trigger tr_topic of Some t \<Rightarrow> t \<in> set (tx_pending_topics c) | None \<Rightarrow> False))"

subsection \<open>The ledger\<close>

definition ledger_owner :: string where "ledger_owner = ''__kernel:triggers''"
definition ledger_namespace :: string where "ledger_namespace = ''runtimes''"
definition never_triggered :: int where "never_triggered = 2 ^ 53 - 1"

record trigger_record =
  tg_count :: int
  tg_turns :: int

definition parse_record :: "json \<Rightarrow> trigger_record option" where
  "parse_record v = (case (safe_integer (json_property v ''count''), safe_integer (json_property v ''completedPlayerTurns'')) of
     (Some n, Some t) \<Rightarrow> Some \<lparr> tg_count = n, tg_turns = t \<rparr> | _ \<Rightarrow> None)"

definition list_ledger_rows :: "string \<Rightarrow> data_state \<Rightarrow> plugin_row list" where
  "list_ledger_rows sid s = list_plugin_data sid ledger_owner (Some ledger_namespace) None s"

definition read_trigger_ledger :: "string \<Rightarrow> data_state \<Rightarrow> (string, trigger_record) jmap" where
  "read_trigger_ledger sid s = foldl (\<lambda>ledger row. case parse_record (pr_value row) of
       Some r \<Rightarrow> jm_set (pr_key row) r ledger | None \<Rightarrow> ledger) [] (list_ledger_rows sid s)"

definition turns_since_last_trigger :: "(string, trigger_record) jmap \<Rightarrow> int \<Rightarrow> (string, int) jmap" where
  "turns_since_last_trigger ledger player_turn = map (\<lambda>(name, r). (name, max 0 (player_turn - tg_turns r))) ledger"

definition count_runs :: "string list \<Rightarrow> (string, int) jmap" where
  "count_runs ids = foldl (\<lambda>runs i. jm_set i (or_else (jm_get runs i) 0 + 1) runs) [] ids"

definition ledger_row_id :: "string \<Rightarrow> string \<Rightarrow> string" where
  "ledger_row_id sid name = sid @ '':'' @ ledger_owner @ '':'' @ ledger_namespace @ '':'' @ name"

definition trigger_row :: "string \<Rightarrow> int \<Rightarrow> string \<Rightarrow> (string, plugin_row) jmap \<Rightarrow> string \<times> int \<Rightarrow> plugin_row" where
  "trigger_row sid turns now existing = (\<lambda>(name, n). let previous = jm_get existing name in
     \<lparr> pr_id = ledger_row_id sid name, pr_session = sid, pr_plugin = ledger_owner,
       pr_namespace = ledger_namespace, pr_key = name,
       pr_value = JObj [(''count'', JNum (of_int (or_else (map_option tg_count
           (Option.bind previous (\<lambda>row. parse_record (pr_value row)))) 0 + n))),
         (''completedPlayerTurns'', JNum (of_int turns))],
       pr_created = or_else (map_option pr_created previous) now, pr_updated = now \<rparr>)"

definition record_runtime_triggers :: "string \<Rightarrow> string list \<Rightarrow> string \<Rightarrow> data_state \<Rightarrow> data_state" where
  "record_runtime_triggers sid ids now s = (if length ids = 0 then s
     else case jm_get (da_sessions s) sid of
       None \<Rightarrow> s
     | Some turns \<Rightarrow>
         (let existing = foldl (\<lambda>m row. jm_set (pr_key row) row m) [] (list_ledger_rows sid s)
          in set_plugin_data_batch (map (trigger_row sid turns now existing) (count_runs ids)) s))"

subsection \<open>What the ledger says\<close>

lemma foldl_get_keys:
  "distinct (map f xs) \<Longrightarrow> jm_get (foldl (\<lambda>m x. case g x of Some v \<Rightarrow> jm_set (f x) v m | None \<Rightarrow> m) m0 xs) k =
     (case find (\<lambda>x. f x = k) xs of Some x \<Rightarrow> (case g x of Some v \<Rightarrow> Some v | None \<Rightarrow> jm_get m0 k) | None \<Rightarrow> jm_get m0 k)"
proof (induction xs arbitrary: m0)
  case (Cons x xs)
  have "f x \<noteq> k" if "find (\<lambda>y. f y = k) xs = Some y" for y
    using Cons.prems find_Some_set[OF that] by auto
  then show ?case using Cons by (auto split: option.splits)
qed simp

lemma find_unique: "distinct (map f xs) \<Longrightarrow> x \<in> set xs \<Longrightarrow> f x = k \<Longrightarrow> find (\<lambda>x. f x = k) xs = Some x"
  by (induction xs) (auto simp: image_iff)

abbreviation ledger_key :: "string \<Rightarrow> string \<Rightarrow> plugin_key" where
  "ledger_key sid name \<equiv> (sid, ledger_owner, ledger_namespace, name)"

lemma find_ledger_row:
  assumes "keyed_by plugin_data_key (da_rows s)"
  shows "find (\<lambda>r. pr_key r = name) (list_ledger_rows sid s) = jm_get (da_rows s) (ledger_key sid name)"
proof -
  note rows = listed_rows[OF assms, of sid ledger_owner ledger_namespace, folded list_ledger_rows_def]
  show ?thesis
  proof (cases "jm_get (da_rows s) (ledger_key sid name)")
    case None
    have "r \<notin> set (list_ledger_rows sid s)" if "pr_key r = name" for r
      unfolding rows(1) using that None by auto
    then show ?thesis using None unfolding None find_None_iff by blast
  next
    case (Some r)
    have "pr_key r = name" using keyed_by_get[OF assms Some] by (simp add: plugin_data_key_def)
    moreover from this have "r \<in> set (list_ledger_rows sid s)" unfolding rows(1) using Some by blast
    ultimately show ?thesis unfolding Some by (intro find_unique rows(2))
  qed
qed

lemma get_read_ledger:
  assumes "keyed_by plugin_data_key (da_rows s)"
  shows "jm_get (read_trigger_ledger sid s) name =
    Option.bind (jm_get (da_rows s) (ledger_key sid name)) (\<lambda>r. parse_record (pr_value r))"
proof -
  have d: "distinct (map pr_key (list_ledger_rows sid s))"
    unfolding list_ledger_rows_def by (rule listed_rows(2)[OF assms])
  show ?thesis
    unfolding read_trigger_ledger_def foldl_get_keys[OF d] find_ledger_row[OF assms]
    by (simp split: option.split)
qed

lemma get_existing:
  assumes "keyed_by plugin_data_key (da_rows s)"
  shows "jm_get (foldl (\<lambda>m row. jm_set (pr_key row) row m) [] (list_ledger_rows sid s)) name =
    jm_get (da_rows s) (ledger_key sid name)"
proof -
  have d: "distinct (map pr_key (list_ledger_rows sid s))"
    unfolding list_ledger_rows_def by (rule listed_rows(2)[OF assms])
  show ?thesis
    using foldl_get_keys[OF d, of Some "[]" name] unfolding find_ledger_row[OF assms]
    by (simp split: option.splits)
qed

lemma count_runs_fold:
  "jm_get (foldl (\<lambda>runs i. jm_set i (or_else (jm_get runs i) 0 + 1) runs) m ids) name =
     (if name \<in> set ids then Some (or_else (jm_get m name) 0 + int (count_list ids name)) else jm_get m name)"
  by (induction ids arbitrary: m) auto

lemma get_count_runs:
  "jm_get (count_runs ids) name = (if name \<in> set ids then Some (int (count_list ids name)) else None)"
  by (simp add: count_runs_def count_runs_fold)

lemma wf_count_runs: "jm_wf (count_runs ids)"
proof -
  have "jm_wf (foldl (\<lambda>runs i. jm_set i (or_else (jm_get runs i) 0 + 1) runs) m ids)" if "jm_wf m" for m :: "(string, int) jmap"
    using that by (intro foldl_invariant[where P = jm_wf]) auto
  then show ?thesis by (simp add: count_runs_def)
qed

lemma parse_written:
  "\<bar>n\<bar> \<le> 2 ^ 53 - 1 \<Longrightarrow> \<bar>t\<bar> \<le> 2 ^ 53 - 1 \<Longrightarrow>
     parse_record (JObj [(''count'', JNum (of_int n)), (''completedPlayerTurns'', JNum (of_int t))])
       = Some \<lparr> tg_count = n, tg_turns = t \<rparr>"
  by (simp add: parse_record_def safe_integer_def)

lemma trigger_row_key: "plugin_data_key (trigger_row sid turns now ex (n, c)) = ledger_key sid n"
  by (simp add: trigger_row_def plugin_data_key_def Let_def)

lemma trigger_rows_keys:
  "map plugin_data_key (map (trigger_row sid turns now ex) runs) = map (ledger_key sid) (map fst runs)"
proof (induction runs)
  case (Cons p runs)
  then show ?case by (cases p) (simp add: trigger_row_key)
qed simp

lemma trigger_rows_distinct: "jm_wf runs \<Longrightarrow> distinct (map plugin_data_key (map (trigger_row sid turns now ex) runs))"
  unfolding trigger_rows_keys by (subst distinct_map) (simp add: inj_on_def)

lemma trigger_rows_value:
  "map_of (map (\<lambda>r. (plugin_data_key r, pr_value r)) (map (trigger_row sid turns now ex) runs)) (ledger_key sid name) =
    map_option (\<lambda>n. pr_value (trigger_row sid turns now ex (name, n))) (jm_get runs name)"
proof (induction runs)
  case (Cons p runs)
  then show ?case by (cases p) (simp add: trigger_row_key)
qed simp

lemma get_trigger_value:
  fixes s sid turns now ids
  defines "ex \<equiv> foldl (\<lambda>m row. jm_set (pr_key row) row m) [] (list_ledger_rows sid s)"
  assumes "ids \<noteq> []" and "jm_get (da_sessions s) sid = Some turns"
  shows "map_option pr_value (jm_get (da_rows (record_runtime_triggers sid ids now s)) (ledger_key sid name)) =
    (if name \<in> set ids then Some (pr_value (trigger_row sid turns now ex (name, int (count_list ids name))))
     else map_option pr_value (jm_get (da_rows s) (ledger_key sid name)))"
proof -
  have rec: "record_runtime_triggers sid ids now s =
      set_plugin_data_batch (map (trigger_row sid turns now ex) (count_runs ids)) s"
    using assms by (simp add: record_runtime_triggers_def)
  show ?thesis
    unfolding rec values_batch[OF trigger_rows_distinct[OF wf_count_runs]] trigger_rows_value
      get_count_runs by simp
qed

lemma keyed_by_triggers:
  "keyed_by plugin_data_key (da_rows s) \<Longrightarrow> keyed_by plugin_data_key (da_rows (record_runtime_triggers sid ids now s))"
  by (simp add: record_runtime_triggers_def keyed_by_batch split: option.split)

lemma bind_value: "Option.bind x (\<lambda>r. f (pr_value r)) = Option.bind (map_option pr_value x) f"
  by (cases x) simp_all

definition runs_of :: "string \<Rightarrow> string \<Rightarrow> data_state \<Rightarrow> int" where
  "runs_of sid name s = or_else (map_option tg_count (jm_get (read_trigger_ledger sid s) name)) 0"

lemma ledger_get_recorded:
  assumes keyed: "keyed_by plugin_data_key (da_rows s)"
    and session: "jm_get (da_sessions s) sid = Some turns"
    and safe: "\<bar>turns\<bar> \<le> 2 ^ 53 - 1" "\<bar>runs_of sid name s + int (count_list ids name)\<bar> \<le> 2 ^ 53 - 1"
  shows "jm_get (read_trigger_ledger sid (record_runtime_triggers sid ids now s)) name =
    (if name \<in> set ids then Some \<lparr> tg_count = runs_of sid name s + int (count_list ids name), tg_turns = turns \<rparr>
     else jm_get (read_trigger_ledger sid s) name)"
proof (cases "ids = []")
  case False
  let ?ex = "foldl (\<lambda>m row. jm_set (pr_key row) row m) [] (list_ledger_rows sid s)"
  have count: "or_else (map_option tg_count (Option.bind (jm_get ?ex name) (\<lambda>row. parse_record (pr_value row)))) 0 = runs_of sid name s"
    unfolding get_existing[OF keyed] runs_of_def get_read_ledger[OF keyed] ..
  have "parse_record (pr_value (trigger_row sid turns now ?ex (name, int (count_list ids name)))) =
      Some \<lparr> tg_count = runs_of sid name s + int (count_list ids name), tg_turns = turns \<rparr>"
    using parse_written[OF safe(2) safe(1)] by (simp add: trigger_row_def Let_def count)
  then show ?thesis
    unfolding get_read_ledger[OF keyed_by_triggers[OF keyed]] get_read_ledger[OF keyed] bind_value
      get_trigger_value[OF False session] by simp
qed (simp add: record_runtime_triggers_def)

text \<open>Recording an execution's runs adds to each runtime's count as often as it ran in the execution,
  stamps it with the session's completed player turns, and leaves the records of the other runtimes alone,
  whatever else the store holds.\<close>

lemma trigger_ledger_counts_runs:
  assumes keyed: "keyed_by plugin_data_key (da_rows s)"
    and session: "jm_get (da_sessions s) sid = Some turns"
    and safe: "\<bar>turns\<bar> \<le> 2 ^ 53 - 1" "\<bar>runs_of sid name s + int (count_list ids name)\<bar> \<le> 2 ^ 53 - 1"
  shows "jm_get (read_trigger_ledger sid (record_runtime_triggers sid ids now s)) name =
    (if name \<in> set ids then Some \<lparr> tg_count = runs_of sid name s + int (count_list ids name), tg_turns = turns \<rparr>
     else jm_get (read_trigger_ledger sid s) name)"
  by (rule ledger_get_recorded[OF assms])

end
