(* ===== verification/Scheduling.thy ===== *)
theory Scheduling
  imports Trigger SetupRun DagScheduler
begin

text \<open>
  Which runtimes an execution runs, and in which groups
  (\<open>packages/runtime/src/turn-executor/scheduling.ts\<close>): manual targets, the setup band with its
  session gates, the trigger router for the others, and the schedule of each stage. The warnings on the
  console are left out; they decide nothing. \<open>None\<close> stands for a schedule that is never returned.
  The theory shows that no path selects what the manifests forbid, that a setup that is not stuck in a
  cycle always makes progress, and that a stage never starts before the earlier ones.
\<close>

subsection \<open>Selection\<close>

definition setup_runtime_pending :: "manifest \<Rightarrow> setup_mirror \<Rightarrow> bool" where
  "setup_runtime_pending rt mirror = (case jm_get mirror (m_name rt) of
     Some (StBlocked v g a r b e) \<Rightarrow> False
   | Some (StDone r g a c v w) \<Rightarrow> \<not> is_setup_done_for_version (jm_get mirror (m_name rt)) (m_version rt)
   | _ \<Rightarrow> True)"

definition is_setup_target_done :: "manifest \<Rightarrow> setup_mirror \<Rightarrow> bool" where
  "is_setup_target_done target mirror = (case jm_get mirror (m_name target) of
     Some (StDone r g a c v w) \<Rightarrow> is_setup_done_for_version (jm_get mirror (m_name target)) (m_version target)
   | _ \<Rightarrow> False)"

fun session_need_met :: "manifest list \<Rightarrow> setup_mirror \<Rightarrow> dependency_ref \<Rightarrow> bool" where
  "session_need_met active mirror (DepName n) = True"
| "session_need_met active mirror (DepRuntime n scope) = (if scope \<noteq> Some SessionScope then True
     else case find (\<lambda>r. m_name r = n) active of None \<Rightarrow> False | Some target \<Rightarrow> is_setup_target_done target mirror)"
| "session_need_met active mirror (DepCapability cap cardi scope) = (if scope \<noteq> Some SessionScope then True
     else let providers = filter (\<lambda>r. m_output_contract r = Some cap) active in
       if length providers = 0 then False
       else let done_count = length (filter (\<lambda>p. is_setup_target_done p mirror) providers) in
         if or_else cardi One = All then done_count = length providers else done_count > 0)"

definition setup_session_gate :: "manifest \<Rightarrow> manifest list \<Rightarrow> setup_mirror \<Rightarrow> bool" where
  "setup_session_gate rt active mirror = list_all (session_need_met active mirror) (sp_needs (get_runtime_spec rt))"

record turn_input =
  ti_source_turn :: "string option"
  ti_runtime_ids :: "string list option"

definition is_scoped_recovery :: "turn_input option \<Rightarrow> bool" where
  "is_scoped_recovery trigger = (case trigger of None \<Rightarrow> False
     | Some i \<Rightarrow> ti_source_turn i \<noteq> None \<or> ti_runtime_ids i \<noteq> None)"

record select_args =
  se_active :: "manifest list"
  se_manual :: "string option"
  se_manual_ids :: "string list option"
  se_counts :: "(string, int) jmap"
  se_since :: "(string, int) jmap"
  se_setup :: setup_mirror
  se_logical_turn :: int

record selection =
  sl_target :: "manifest option"
  sl_targets :: "manifest list option"
  sl_triggered :: "manifest list"
  sl_abort :: "string option"

definition trigger_context_of :: "select_args \<Rightarrow> manifest \<Rightarrow> trigger_context" where
  "trigger_context_of a rt = \<lparr> tx_logical_turn = se_logical_turn a,
     tx_trigger_count = or_else (jm_get (se_counts a) (m_name rt)) 0,
     tx_turns_since = or_else (jm_get (se_since a) (m_name rt)) never_triggered,
     tx_pending_topics = [] \<rparr>"

definition runs_this_turn :: "select_args \<Rightarrow> manifest \<Rightarrow> bool" where
  "runs_this_turn a rt = (if m_subagent_only rt then False
     else if is_setup_runtime rt
     then setup_runtime_pending rt (se_setup a)
       \<and> setup_session_gate rt (filter is_setup_runtime (se_active a)) (se_setup a)
     else should_trigger rt (trigger_context_of a rt))"

definition select_manual_targets :: "string list \<Rightarrow> manifest list \<Rightarrow> selection" where
  "select_manual_targets requested active =
     (let ids = js_add_all requested [];
          targets = filter (\<lambda>rt. m_name rt \<in> set ids) active;
          valid = (length ids > 0 \<and> length ids = length requested \<and> length targets = length ids
            \<and> list_all (\<lambda>rt. \<not> m_subagent_only rt) targets)
      in \<lparr> sl_target = None, sl_targets = Some (if valid then targets else []),
           sl_triggered = (if valid then targets else []),
           sl_abort = (if valid then None else Some ''manual-trigger: invalid or inactive runtime targets'') \<rparr>)"

definition select_triggered_runtimes :: "select_args \<Rightarrow> selection" where
  "select_triggered_runtimes a = (case se_manual_ids a of
     Some requested \<Rightarrow> select_manual_targets requested (se_active a)
   | None \<Rightarrow> (case truthy (se_manual a) of
       Some manual \<Rightarrow> (case find (\<lambda>rt. m_name rt = manual) (se_active a) of
           None \<Rightarrow> \<lparr> sl_target = None, sl_targets = None, sl_triggered = [],
             sl_abort = Some (''manual-trigger: runtime not found or inactive: '' @ manual) \<rparr>
         | Some rt \<Rightarrow> if m_subagent_only rt
             then \<lparr> sl_target = None, sl_targets = None, sl_triggered = [],
               sl_abort = Some (''manual-trigger: runtime runs only as a sub-agent: '' @ m_name rt) \<rparr>
             else \<lparr> sl_target = Some rt, sl_targets = None, sl_triggered = [rt], sl_abort = None \<rparr>)
     | None \<Rightarrow> \<lparr> sl_target = None, sl_targets = None,
         sl_triggered = filter (runs_this_turn a) (se_active a), sl_abort = None \<rparr>))"

subsection \<open>Schedules\<close>

record schedule_result =
  sr_groups :: "manifest list list"
  sr_cyclic :: "manifest list"

definition run_dag :: "manifest list \<Rightarrow> schedule_result option" where
  "run_dag rts = map_option (\<lambda>r. \<lparr> sr_groups = dr_groups r, sr_cyclic = or_else (dr_cyclic r) [] \<rparr>) (schedule_by_dag rts [])"

definition by_stage :: "manifest list \<Rightarrow> (stage option, manifest list) jmap" where
  "by_stage rts = foldl (\<lambda>m rt. let st = sp_stage (get_runtime_spec rt)
     in jm_set st (or_else (jm_get m st) [] @ [rt]) m) [] rts"

definition main_loop_stages :: "stage option list" where
  "main_loop_stages = map Some (filter (\<lambda>s. s \<noteq> Setup) stage_order)"

fun schedule_stages :: "(stage option, manifest list) jmap \<Rightarrow> stage option list \<Rightarrow> schedule_result option" where
  "schedule_stages m [] = Some \<lparr> sr_groups = [], sr_cyclic = [] \<rparr>"
| "schedule_stages m (st # stages) = (case or_else (jm_get m st) [] of
     [] \<Rightarrow> schedule_stages m stages
   | rt # rts \<Rightarrow> (case run_dag (rt # rts) of None \<Rightarrow> None
     | Some r \<Rightarrow> map_option (\<lambda>r'. \<lparr> sr_groups = sr_groups r @ sr_groups r', sr_cyclic = sr_cyclic r @ sr_cyclic r' \<rparr>)
         (schedule_stages m stages)))"

definition schedule_by_stage :: "manifest list \<Rightarrow> stage option list \<Rightarrow> schedule_result option" where
  "schedule_by_stage rts stages = schedule_stages (by_stage rts) stages"

definition schedule_triggered_runtimes :: "selection \<Rightarrow> bool \<Rightarrow> schedule_result option" where
  "schedule_triggered_runtimes sel pre_game_pending = (case sl_targets sel of
     Some targets \<Rightarrow> schedule_by_stage targets (map Some stage_order @ [None])
   | None \<Rightarrow> (case sl_target sel of
       Some rt \<Rightarrow> Some \<lparr> sr_groups = [[rt]], sr_cyclic = [] \<rparr>
     | None \<Rightarrow> if pre_game_pending then run_dag (filter is_setup_runtime (sl_triggered sel))
         else schedule_by_stage (filter is_main_loop_runtime (sl_triggered sel)) main_loop_stages))"

subsection \<open>The stage barrier\<close>

lemma run_dag_facts:
  assumes "distinct (map m_name rts)"
  shows "\<exists>r. run_dag rts = Some r \<and> mset (concat (sr_groups r) @ sr_cyclic r) = mset rts"
proof -
  obtain r where "schedule_by_dag rts [] = Some r" "mset (concat (dr_groups r) @ result_cyclic r) = mset rts"
    by (rule schedule_facts[OF assms, of "[]"]) blast
  then show ?thesis by (simp add: run_dag_def result_cyclic_def)
qed

definition in_stage :: "stage option \<Rightarrow> manifest list \<Rightarrow> manifest list" where
  "in_stage st rts = filter (\<lambda>rt. m_stage rt = st) rts"

lemma get_by_stage: "or_else (jm_get (by_stage rts) st) [] = in_stage st rts"
proof -
  have "or_else (jm_get (foldl (\<lambda>m rt. let st = sp_stage (get_runtime_spec rt)
      in jm_set st (or_else (jm_get m st) [] @ [rt]) m) m0 rts) st) [] = or_else (jm_get m0 st) [] @ in_stage st rts" for m0
    by (induction rts arbitrary: m0) (auto simp: in_stage_def Let_def)
  then show ?thesis by (simp add: by_stage_def)
qed

lemma mset_stages:
  "distinct stages \<Longrightarrow> mset (concat (map (\<lambda>st. in_stage st rts) stages)) = filter_mset (\<lambda>rt. m_stage rt \<in> set stages) (mset rts)"
proof (induction stages)
  case (Cons st stages)
  have "filter_mset (\<lambda>rt. m_stage rt \<in> set (st # stages)) (mset rts) =
      filter_mset (\<lambda>rt. m_stage rt = st) (mset rts) + filter_mset (\<lambda>rt. m_stage rt \<in> set stages) (mset rts)"
    using Cons.prems by (induction rts) auto
  then show ?case using Cons by (simp add: in_stage_def)
qed simp

definition group_before :: "manifest list \<Rightarrow> manifest list \<Rightarrow> bool" where
  "group_before g h = list_all (\<lambda>x. list_all (\<lambda>y. stage_rank (m_stage x) \<le> stage_rank (m_stage y)) h) g"

definition one_stage :: "manifest list \<Rightarrow> bool" where
  "one_stage g = list_all (\<lambda>x. list_all (\<lambda>y. m_stage x = m_stage y) g) g"

definition stage_barrier :: "manifest list list \<Rightarrow> bool" where
  "stage_barrier groups \<longleftrightarrow> sorted_wrt group_before groups \<and> list_all one_stage groups"

lemma stage_barrier_append:
  assumes "stage_barrier gs" "stage_barrier hs"
    and "\<And>x y. x \<in> set (concat gs) \<Longrightarrow> y \<in> set (concat hs) \<Longrightarrow> stage_rank (m_stage x) \<le> stage_rank (m_stage y)"
  shows "stage_barrier (gs @ hs)"
proof -
  have "group_before g h" if "g \<in> set gs" "h \<in> set hs" for g h
    unfolding group_before_def list_all_iff using assms(3) that by (metis UN_I set_concat)
  then show ?thesis using assms(1,2) by (simp add: stage_barrier_def sorted_wrt_append)
qed

lemma stage_barrier_one:
  assumes "\<And>x. x \<in> set (concat gs) \<Longrightarrow> m_stage x = st"
  shows "stage_barrier gs"
proof -
  have m: "m_stage x = st" if "g \<in> set gs" "x \<in> set g" for g x
    using assms that by (metis UN_I set_concat)
  have "group_before g h" if "g \<in> set gs" "h \<in> set gs" for g h
    unfolding group_before_def list_all_iff using m that by (metis order_refl)
  moreover have "one_stage g" if "g \<in> set gs" for g
    unfolding one_stage_def list_all_iff using m[OF that] by metis
  ultimately show ?thesis
    unfolding stage_barrier_def list_all_iff by (metis sorted_wrt_true sorted_wrt_mono_rel)
qed

lemma schedule_stages_facts:
  assumes names: "distinct (map m_name rts)"
  shows "sorted_wrt (\<lambda>s t. stage_rank s \<le> stage_rank t) stages \<Longrightarrow>
    \<exists>r. schedule_stages (by_stage rts) stages = Some r
      \<and> mset (concat (sr_groups r) @ sr_cyclic r) = mset (concat (map (\<lambda>st. in_stage st rts) stages))
      \<and> stage_barrier (sr_groups r)"
proof (induction stages)
  case Nil
  show ?case by (simp add: stage_barrier_def)
next
  case (Cons st stages)
  then obtain r' where r': "schedule_stages (by_stage rts) stages = Some r'"
    "mset (concat (sr_groups r') @ sr_cyclic r') = mset (concat (map (\<lambda>st. in_stage st rts) stages))"
    "stage_barrier (sr_groups r')" by auto
  have d: "distinct (map m_name (in_stage st rts))"
    unfolding in_stage_def by (rule distinct_map_filter[OF names])
  obtain r where r: "run_dag (in_stage st rts) = Some r" "mset (concat (sr_groups r) @ sr_cyclic r) = mset (in_stage st rts)"
    using run_dag_facts[OF d] by blast
  have sets: "set (concat (sr_groups r)) \<subseteq> set (in_stage st rts)"
    "set (concat (sr_groups r')) \<subseteq> set (concat (map (\<lambda>st. in_stage st rts) stages))"
    using mset_eq_setD[OF r(2)] mset_eq_setD[OF r'(2)] unfolding set_append by blast+
  have here: "m_stage x = st" if "x \<in> set (concat (sr_groups r))" for x
    using subsetD[OF sets(1) that] by (simp add: in_stage_def)
  have there: "m_stage y \<in> set stages" if "y \<in> set (concat (sr_groups r'))" for y
    using subsetD[OF sets(2) that] by (auto simp: in_stage_def)
  have barrier: "stage_barrier (sr_groups r @ sr_groups r')"
  proof (rule stage_barrier_append[OF stage_barrier_one[OF here] r'(3)])
    fix x y
    assume "x \<in> set (concat (sr_groups r))" "y \<in> set (concat (sr_groups r'))"
    from here[OF this(1)] there[OF this(2)] show "stage_rank (m_stage x) \<le> stage_rank (m_stage y)"
      using Cons.prems by simp
  qed
  show ?case
  proof (cases "in_stage st rts")
    case Nil
    then show ?thesis using r' by (simp add: get_by_stage)
  next
    case (Cons a as)
    then have "schedule_stages (by_stage rts) (st # stages) =
        Some \<lparr> sr_groups = sr_groups r @ sr_groups r', sr_cyclic = sr_cyclic r @ sr_cyclic r' \<rparr>"
      using r(1) r'(1) by (simp add: get_by_stage)
    moreover have "mset (concat (sr_groups r @ sr_groups r') @ sr_cyclic r @ sr_cyclic r') =
        mset (concat (sr_groups r) @ sr_cyclic r) + mset (concat (sr_groups r') @ sr_cyclic r')" by simp
    ultimately show ?thesis
      using barrier unfolding r(2) r'(2) by (simp add: add.assoc)
  qed
qed

lemma sorted_stages:
  "sorted_wrt (\<lambda>s t. stage_rank s \<le> stage_rank t) main_loop_stages"
  "sorted_wrt (\<lambda>s t. stage_rank s \<le> stage_rank t) (map Some stage_order @ [None])"
  by (simp_all add: main_loop_stages_def stage_order_def stage_rank_def)

lemma cover_stages:
  "(m_stage rt \<in> set main_loop_stages) = is_main_loop_runtime rt"
  "m_stage rt \<in> set (map Some stage_order @ [None])"
  by (cases "m_stage rt"; simp add: main_loop_stages_def is_main_loop_runtime_def image_iff)+

lemma distinct_stages: "distinct main_loop_stages" "distinct (map Some stage_order @ [None])"
  by (simp_all add: main_loop_stages_def stage_order_def)

text \<open>The runtimes of one execution step: the listed targets of a scoped recovery, else the single manual
  target, else the selected runtimes of the band the session is in, setup before the game has begun and the main
  loop afterwards.\<close>

definition turn_band :: "selection \<Rightarrow> bool \<Rightarrow> manifest list" where
  "turn_band sel pre_game_pending = (case sl_targets sel of Some ts \<Rightarrow> ts | None \<Rightarrow>
     (case sl_target sel of Some rt \<Rightarrow> [rt] | None \<Rightarrow>
       filter (if pre_game_pending then is_setup_runtime else is_main_loop_runtime) (sl_triggered sel)))"

lemma setup_band_one_stage:
  assumes "run_dag (filter is_setup_runtime rts) = Some r" "distinct (map m_name rts')" "rts' = filter is_setup_runtime rts"
  shows "stage_barrier (sr_groups r)"
proof (rule stage_barrier_one)
  fix x assume x: "x \<in> set (concat (sr_groups r))"
  have "mset (concat (sr_groups r) @ sr_cyclic r) = mset (filter is_setup_runtime rts)"
    using run_dag_facts[of "filter is_setup_runtime rts"] assms by auto
  from mset_eq_setD[OF this] x have "x \<in> set (filter is_setup_runtime rts)" unfolding set_append by blast
  then show "m_stage x = Some Setup" by (simp add: is_setup_runtime_def)
qed

text \<open>C6: Every schedule places each runtime of the turn's band exactly once, in a group or in the cyclic list, when
  the names of the band are distinct, and keeps the stage barrier: a group holds runtimes of one stage, and no
  group comes before one of an earlier stage. The band is the listed targets of a scoped recovery, else the
  manual target, else the selected setup runtimes while setup is pending and the selected main-loop runtimes
  otherwise.\<close>

theorem schedule_keeps_stage_order:
  assumes "distinct (map m_name (turn_band sel pre_game_pending))"
  shows "\<exists>r. schedule_triggered_runtimes sel pre_game_pending = Some r
    \<and> mset (concat (sr_groups r)) + mset (sr_cyclic r) = mset (turn_band sel pre_game_pending)
    \<and> stage_barrier (sr_groups r)"
proof (cases "sl_targets sel")
  case (Some ts)
  then have d: "distinct (map m_name ts)" using assms by (simp add: turn_band_def)
  have "mset (concat (map (\<lambda>st. in_stage st ts) (map Some stage_order @ [None]))) = mset ts"
    using mset_stages[OF distinct_stages(2), of ts] by (simp only: cover_stages(2) filter_mset_True)
  then show ?thesis
    using schedule_stages_facts[OF d sorted_stages(2)] Some
    by (auto simp: schedule_triggered_runtimes_def schedule_by_stage_def turn_band_def)
next
  case untargeted: None
  show ?thesis
  proof (cases "sl_target sel")
    case (Some rt)
    with untargeted show ?thesis
      by (simp add: schedule_triggered_runtimes_def turn_band_def stage_barrier_def one_stage_def)
  next
    case target: None
    show ?thesis
    proof (cases pre_game_pending)
      case True
      then have band: "turn_band sel pre_game_pending = filter is_setup_runtime (sl_triggered sel)"
        using untargeted target by (simp add: turn_band_def)
      then show ?thesis
        using run_dag_facts[OF assms] setup_band_one_stage[OF _ assms band] True untargeted target
        by (auto simp: schedule_triggered_runtimes_def)
    next
      case False
      let ?rts = "filter is_main_loop_runtime (sl_triggered sel)"
      have band: "turn_band sel pre_game_pending = ?rts" using False untargeted target by (simp add: turn_band_def)
      have "filter_mset (\<lambda>rt. m_stage rt \<in> set main_loop_stages) (mset ?rts) = mset ?rts"
        by (simp add: cover_stages(1) filter_filter_mset)
      then show ?thesis
        using schedule_stages_facts[OF assms[unfolded band] sorted_stages(1)]
          mset_stages[OF distinct_stages(1), of ?rts] False untargeted target
        by (auto simp: schedule_triggered_runtimes_def schedule_by_stage_def turn_band_def)
    qed
  qed
qed

subsection \<open>Setup always progresses\<close>

lemma pending_agree: "setup_runtime_pending rt mirror = setup_is_pending mirror rt"
  by (auto simp: setup_runtime_pending_def setup_is_pending_def is_setup_done_for_version_def Let_def
      split: option.splits setup_state.splits)

lemma target_done_iff: "is_setup_target_done rt mirror = is_setup_done_for_version (jm_get mirror (m_name rt)) (m_version rt)"
  by (auto simp: is_setup_target_done_def is_setup_done_for_version_def split: option.splits setup_state.splits)

definition unblocked :: "setup_mirror \<Rightarrow> bool" where
  "unblocked mirror = list_all (\<lambda>(n, s). case s of StBlocked v g a r b e \<Rightarrow> False | _ \<Rightarrow> True) mirror"

lemma done_or_pending: "unblocked mirror \<Longrightarrow> is_setup_target_done rt mirror \<longleftrightarrow> \<not> setup_is_pending mirror rt"
proof -
  assume "unblocked mirror"
  then have "case s of StBlocked v g a r b e \<Rightarrow> False | _ \<Rightarrow> True" if "jm_get mirror (m_name rt) = Some s" for s
    using list_all_jm_get[OF _ that] unfolding unblocked_def by fastforce
  then show ?thesis
    by (cases "jm_get mirror (m_name rt)")
      (auto simp: target_done_iff setup_is_pending_def Let_def split: setup_state.splits)
qed

text \<open>A session-scoped need that names some active setup runtime.\<close>

definition need_resolvable :: "manifest list \<Rightarrow> dependency_ref \<Rightarrow> bool" where
  "need_resolvable active need = (case need of DepName n \<Rightarrow> True
     | DepRuntime n scope \<Rightarrow> scope \<noteq> Some SessionScope \<or> n \<in> set (map m_name active)
     | DepCapability cap cardi scope \<Rightarrow> scope \<noteq> Some SessionScope \<or> list_ex (\<lambda>r. m_output_contract r = Some cap) active)"

lemma unmet_need_waits:
  assumes names: "distinct (map m_name active)" and free: "unblocked mirror"
    and res: "need_resolvable active need" and unmet: "\<not> session_need_met active mirror need"
  obtains g where "g \<in> set (session_wait_groups active mirror need)"
proof (cases need)
  case (DepRuntime n scope)
  then have sc: "scope = Some SessionScope" and "n \<in> set (map m_name active)"
    using res unmet by (auto simp: need_resolvable_def split: if_splits)
  then obtain rt where rt: "rt \<in> set active" "m_name rt = n" by auto
  then have "find (\<lambda>r. m_name r = n) active = Some rt" using find_by_name[OF names] by auto
  then have "setup_is_pending mirror rt" using unmet sc DepRuntime done_or_pending[OF free] by simp
  then show thesis using rt sc DepRuntime by (intro that[of "[n]"]) force
next
  case (DepCapability cap cardi scope)
  let ?ps = "filter (\<lambda>r. m_output_contract r = Some cap) active"
  have sc: "scope = Some SessionScope" and ne: "?ps \<noteq> []"
    using res unmet DepCapability by (auto simp: need_resolvable_def filter_empty_conv list_ex_iff split: if_splits)
  have pend: "setup_is_pending mirror p \<longleftrightarrow> \<not> is_setup_target_done p mirror" for p
    using done_or_pending[OF free] by simp
  show thesis
  proof (cases "or_else cardi One = All")
    case True
    then have "length (filter (\<lambda>p. is_setup_target_done p mirror) ?ps) \<noteq> length ?ps"
      using unmet sc ne DepCapability by (simp add: Let_def)
    then obtain p where "p \<in> set ?ps" "\<not> is_setup_target_done p mirror"
      by (metis filter_id_conv)
    then show thesis using True sc DepCapability pend by (intro that[of "[m_name p]"]) (auto simp: Let_def)
  next
    case False
    then have "filter (\<lambda>p. is_setup_target_done p mirror) ?ps = []"
      using unmet sc ne DepCapability by (simp add: Let_def)
    then have "filter (setup_is_pending mirror) ?ps = ?ps"
      using pend unfolding filter_empty_conv filter_id_conv by blast
    then show thesis using False sc ne DepCapability by (intro that[of "map m_name ?ps"]) (auto simp: Let_def)
  qed
qed (use unmet in simp)

lemma releasable_progress:
  assumes names: "distinct (map m_name active)" and free: "unblocked mirror"
    and res: "\<And>rt need. rt \<in> set active \<Longrightarrow> need \<in> set (or_else (m_needs rt) []) \<Longrightarrow> need_resolvable active need"
    and "setup_releasable active mirror n"
  shows "\<exists>rt\<in>set active. setup_is_pending mirror rt \<and> setup_session_gate rt active mirror"
  using assms(4)
proof induction
  case (1 rt)
  show ?case
  proof (cases "setup_session_gate rt active mirror")
    case False
    then obtain need where need: "need \<in> set (or_else (m_needs rt) [])" "\<not> session_need_met active mirror need"
      by (auto simp: setup_session_gate_def list_all_iff)
    obtain g where "g \<in> set (session_wait_groups active mirror need)"
      by (rule unmet_need_waits[OF names free res[OF 1(1) need(1)] need(2)])
    from 1(3)[OF need(1) this] show ?thesis by blast
  qed (use 1 in blast)
qed

text \<open>C5: Setup makes progress. In an execution without a manual target or target ids, with distinct runtime
  names and no setup runtime that only a parent may start, as long as no setup runtime is
  blocked and every session-scoped need names an active setup runtime, an unfinished setup runtime that
  the cycle detection does not report means that the selection contains some setup runtime: the gates
  never wait for each other outside a reported cycle.\<close>

theorem setup_makes_progress:
  fixes a
  defines "setups \<equiv> filter is_setup_runtime (se_active a)"
  assumes names: "distinct (map m_name (se_active a))"
    and auto_only: "se_manual_ids a = None" "truthy (se_manual a) = None"
    and direct: "list_all (\<lambda>r. \<not> m_subagent_only r) setups"
    and free: "unblocked (se_setup a)"
    and res: "list_all (\<lambda>r. list_all (need_resolvable setups) (or_else (m_needs r) [])) setups"
    and rt: "rt \<in> set setups" "setup_runtime_pending rt (se_setup a)"
      "\<not> jm_has (detect_setup_session_cycles setups (se_setup a)) (m_name rt)"
  shows "list_ex is_setup_runtime (sl_triggered (select_triggered_runtimes a))"
proof -
  have d: "distinct (map m_name setups)" using names by (simp add: setups_def distinct_map_filter)
  have "setup_releasable setups (se_setup a) (m_name rt)"
    using rt detect_cycles_iff[OF d rt(1)] pending_agree by blast
  then obtain r where r: "r \<in> set setups" "setup_is_pending (se_setup a) r" "setup_session_gate r setups (se_setup a)"
    using releasable_progress[OF d free] res by (metis list_all_iff)
  then have "r \<in> set (filter (runs_this_turn a) (se_active a)) \<and> is_setup_runtime r"
    using direct by (auto simp: runs_this_turn_def setups_def list_all_iff pending_agree)
  then show ?thesis
    using auto_only by (auto simp: select_triggered_runtimes_def list_ex_iff)
qed

text \<open>The counts and ages an execution reads from the ledger, at the given number of player turns
  (\<open>packages/runtime/src/turn-executor/session-state.ts\<close>).\<close>

definition ledger_counts :: "(string, trigger_record) jmap \<Rightarrow> (string, int) jmap" where
  "ledger_counts ledger = map (\<lambda>(name, r). (name, tg_count r)) ledger"

definition with_ledger :: "string \<Rightarrow> int \<Rightarrow> data_state \<Rightarrow> select_args \<Rightarrow> select_args" where
  "with_ledger sid player_turn s a = a\<lparr> se_counts := ledger_counts (read_trigger_ledger sid s),
     se_since := turns_since_last_trigger (read_trigger_ledger sid s) player_turn \<rparr>"

lemma get_ledger_views:
  "jm_get (ledger_counts ledger) n = map_option tg_count (jm_get ledger n)"
  "jm_get (turns_since_last_trigger ledger t) n = map_option (\<lambda>r. max 0 (t - tg_turns r)) (jm_get ledger n)"
  by (induction ledger) (auto simp: ledger_counts_def turns_since_last_trigger_def)

lemma selected_should_trigger:
  assumes "se_manual_ids a = None" "truthy (se_manual a) = None" "\<not> is_setup_runtime rt"
    and "rt \<in> set (sl_triggered (select_triggered_runtimes a))"
  shows "should_trigger rt (trigger_context_of a rt)"
  using assms by (auto simp: select_triggered_runtimes_def runs_this_turn_def split: if_splits)

lemma should_trigger_limits:
  assumes "should_trigger rt c" "m_trigger rt = Some t"
  shows "case tr_max_trigger_count t of Some n \<Rightarrow> tx_trigger_count c < n | None \<Rightarrow> True"
    and "case tr_cooldown_turns t of Some n \<Rightarrow> n \<le> tx_turns_since c | None \<Rightarrow> True"
  using assms by (auto simp: should_trigger_def Let_def split: if_splits option.splits)

lemma ledger_after_runs:
  assumes keyed: "keyed_by plugin_data_key (da_rows s)"
    and session: "jm_get (da_sessions s) sid = Some turns"
    and safe: "\<bar>turns\<bar> \<le> 2 ^ 53 - 1" "\<bar>runs_of sid name s + int (count_list ids name)\<bar> \<le> 2 ^ 53 - 1"
    and "name \<in> set ids"
  shows "jm_get (read_trigger_ledger sid (record_runtime_triggers sid ids now s)) name =
    Some \<lparr> tg_count = runs_of sid name s + int (count_list ids name), tg_turns = turns \<rparr>"
  using ledger_get_recorded[OF assms(1-4)] assms(5) by simp

text \<open>C24: A runtime's limits hold across executions. After a commit records that a runtime outside setup ran, an
  execution without a manual target or target ids selects it again only if the recorded runs, those of that commit
  included, are below its maximum, and only once the player turns since that commit reach its cooldown, as long
  as the turns and the runs stay in the range of safe integers.\<close>

theorem trigger_limits_hold:
  assumes "keyed_by plugin_data_key (da_rows s)" "jm_get (da_sessions s) sid = Some turns"
    and "\<bar>turns\<bar> \<le> 2 ^ 53 - 1" "\<bar>runs_of sid (m_name rt) s + int (count_list ids (m_name rt))\<bar> \<le> 2 ^ 53 - 1"
    and "m_name rt \<in> set ids" "m_trigger rt = Some t" "\<not> is_setup_runtime rt"
    and "se_manual_ids a = None" "truthy (se_manual a) = None"
    and "rt \<in> set (sl_triggered (select_triggered_runtimes
           (with_ledger sid player_turn (record_runtime_triggers sid ids now s) a)))"
  shows "(case tr_max_trigger_count t of Some n \<Rightarrow> runs_of sid (m_name rt) s + int (count_list ids (m_name rt)) < n | None \<Rightarrow> True)
    \<and> (case tr_cooldown_turns t of Some n \<Rightarrow> n \<le> max 0 (player_turn - turns) | None \<Rightarrow> True)"
proof -
  let ?a = "with_ledger sid player_turn (record_runtime_triggers sid ids now s) a"
  have "should_trigger rt (trigger_context_of ?a rt)"
    using assms by (intro selected_should_trigger) (simp_all add: with_ledger_def)
  moreover have "tx_trigger_count (trigger_context_of ?a rt) = runs_of sid (m_name rt) s + int (count_list ids (m_name rt))"
    "tx_turns_since (trigger_context_of ?a rt) = max 0 (player_turn - turns)"
    using ledger_after_runs[OF assms(1-5)] by (simp_all add: trigger_context_of_def with_ledger_def get_ledger_views)
  ultimately show ?thesis using should_trigger_limits[of rt _ t] assms(6) by metis
qed

definition staged :: "string \<Rightarrow> stage \<Rightarrow> manifest" where
  "staged name st = (bare_manifest name ''p'')\<lparr> m_stage := Some st \<rparr>"

definition two_stages :: selection where
  "two_stages = \<lparr> sl_target = None, sl_targets = None, sl_triggered = [staged ''a'' Audit, staged ''b'' Narrative], sl_abort = None \<rparr>"

lemma schedule_keeps_stage_order_witness:
  "\<exists>r. schedule_triggered_runtimes two_stages False = Some r
    \<and> mset (concat (sr_groups r)) + mset (sr_cyclic r) = {# staged ''a'' Audit, staged ''b'' Narrative #}
    \<and> stage_barrier (sr_groups r)"
  using schedule_keeps_stage_order[of two_stages False]
  by (simp add: turn_band_def two_stages_def staged_def bare_manifest_def is_main_loop_runtime_def)

definition waiting_pair :: "manifest list" where
  "waiting_pair = [(staged ''a'' Setup)\<lparr> m_needs := Some [DepRuntime ''b'' (Some SessionScope)] \<rparr>, staged ''b'' Setup]"

definition plain_args :: "manifest list \<Rightarrow> select_args" where
  "plain_args active = \<lparr> se_active = active, se_manual = None, se_manual_ids = None, se_counts = [], se_since = [],
     se_setup = [], se_logical_turn = 1 \<rparr>"

lemma setup_makes_progress_witness:
  "list_ex is_setup_runtime (sl_triggered (select_triggered_runtimes (plain_args waiting_pair)))
    \<and> \<not> setup_session_gate (waiting_pair ! 0) waiting_pair []"
proof -
  have f: "filter is_setup_runtime (se_active (plain_args waiting_pair)) = waiting_pair"
    by (simp add: plain_args_def waiting_pair_def staged_def bare_manifest_def is_setup_runtime_def)
  have c: "\<not> jm_has (detect_setup_session_cycles waiting_pair []) (m_name (waiting_pair ! 1))"
    by code_simp
  have "list_ex is_setup_runtime (sl_triggered (select_triggered_runtimes (plain_args waiting_pair)))"
    by (rule setup_makes_progress[where rt = "waiting_pair ! 1"]; (unfold f)?)
      (use c in \<open>simp_all add: plain_args_def waiting_pair_def staged_def bare_manifest_def unblocked_def
        need_resolvable_def setup_runtime_pending_def\<close>)
  moreover have "\<not> setup_session_gate (waiting_pair ! 0) waiting_pair []" by code_simp
  ultimately show ?thesis by blast
qed

definition limited_runtime :: manifest where
  "limited_runtime = (staged ''a'' Narrative)\<lparr> m_trigger := Some (default_trigger\<lparr>
     tr_max_trigger_count := Some 5, tr_cooldown_turns := Some 1 \<rparr>) \<rparr>"

lemma trigger_limits_hold_witness:
  "runs_of ''s'' ''a'' witness_store + 1 < 5 \<and> (1::int) \<le> max 0 (2 - 1)
    \<and> limited_runtime \<in> set (sl_triggered (select_triggered_runtimes (with_ledger ''s'' 2
         (record_runtime_triggers ''s'' [''a''] ''now'' witness_store) (plain_args [limited_runtime]))))"
proof -
  have keyed: "keyed_by plugin_data_key (da_rows witness_store)" by (simp add: witness_store_def)
  have sess: "jm_get (da_sessions witness_store) ''s'' = Some 1" by (simp add: witness_store_def)
  have none: "runs_of ''s'' ''a'' witness_store = 0"
    by (simp add: runs_of_def get_read_ledger[OF keyed]) (simp add: witness_store_def)
  have rt: "m_name limited_runtime = ''a''" "\<not> is_setup_runtime limited_runtime"
    "m_trigger limited_runtime = Some (default_trigger\<lparr> tr_max_trigger_count := Some 5, tr_cooldown_turns := Some 1 \<rparr>)"
    by (simp_all add: limited_runtime_def staged_def bare_manifest_def is_setup_runtime_def)
  have led: "jm_get (read_trigger_ledger ''s'' (record_runtime_triggers ''s'' [''a''] ''now'' witness_store)) ''a'' =
      Some \<lparr> tg_count = 1, tg_turns = 1 \<rparr>"
    using ledger_after_runs[OF keyed sess, of "''a''" "[''a'']" "''now''"] none by simp
  have sel: "limited_runtime \<in> set (sl_triggered (select_triggered_runtimes (with_ledger ''s'' 2
      (record_runtime_triggers ''s'' [''a''] ''now'' witness_store) (plain_args [limited_runtime]))))"
    using rt led by (simp add: select_triggered_runtimes_def plain_args_def with_ledger_def runs_this_turn_def
        should_trigger_def trigger_context_of_def get_ledger_views default_trigger_def)
      (simp add: limited_runtime_def staged_def bare_manifest_def)
  show ?thesis
    using trigger_limits_hold[OF keyed sess _ _ _ rt(3,2) _ _ sel] rt(1) none sel
    by (simp add: plain_args_def default_trigger_def)
qed

end
