(* ===== verification/FaultLatch.thy ===== *)
theory FaultLatch
  imports Results
begin

text \<open>
  Attribution of an execution's faults to plugins (\<open>packages/runtime/src/faults/classify.ts\<close>) and the latch
  that pauses a plugin after consecutive faults (\<open>packages/runtime/src/faults/plugin-fault-latch.ts\<close>).
  The mutable entries and groups of the latch are records with an identity, because the code compares
  them with \<open>===\<close>. The theory shows that a verdict is the strongest of its evidence, that a plugin is
  latched only by faults of enough different inputs, and that only the player unlatches it.
\<close>

subsection \<open>Classification\<close>

datatype fault_reason = ReasonRuntime | ReasonHook | ReasonProposal | ReasonTimeout | ReasonService

datatype fault_verdict = VFault fault_reason | VClean | VNeutral

datatype call_verdict = CallFault | CallClean | CallNeutral

record subagent_run =
  su_plugin :: string
  su_caller :: string
  su_ok :: bool
  su_fault :: "result_fault option"

record service_call =
  sv_provider :: string
  sv_caller :: "string option"
  sv_origin :: "string option"
  sv_verdict :: call_verdict

record failed_proposal =
  fp_code :: "string option"
  fp_runtime :: string
  fp_plugin :: string

record finalize_outcome =
  fo_committed :: bool
  fo_data_changed :: bool
  fo_isolated :: "(string \<times> string option) list option"
  fo_failed :: "failed_proposal list"

definition reason_of :: "result_fault \<Rightarrow> fault_reason" where
  "reason_of f = (case f of FaultRuntime \<Rightarrow> ReasonRuntime | FaultTimeout \<Rightarrow> ReasonTimeout)"

definition put_verdict :: "(string, fault_verdict) jmap \<Rightarrow> string \<times> fault_verdict \<Rightarrow> (string, fault_verdict) jmap" where
  "put_verdict m = (\<lambda>(plugin, v). case jm_get m plugin of
     Some (VFault r) \<Rightarrow> m
   | previous \<Rightarrow> if v \<noteq> VNeutral \<or> previous = None then jm_set plugin v m else m)"

definition result_dropped :: "finalize_outcome \<Rightarrow> runtime_result \<Rightarrow> bool" where
  "result_dropped o' r = list_ex (\<lambda>(rt, run). case run of None \<Rightarrow> rt = rr_runtime_id r | Some i \<Rightarrow> i = rr_run_id r)
     (or_else (fo_isolated o') [])"

definition result_verdict :: "finalize_outcome \<Rightarrow> runtime_result \<Rightarrow> fault_verdict" where
  "result_verdict o' r = (case (rr_status r, rr_fault r) of
     (RsFailed, Some f) \<Rightarrow> VFault (reason_of f)
   | _ \<Rightarrow> if fo_committed o' \<and> rr_status r = RsSuccess \<and> \<not> result_dropped o' r then VClean else VNeutral)"

definition subagent_verdict :: "finalize_outcome \<Rightarrow> subagent_run \<Rightarrow> fault_verdict" where
  "subagent_verdict o' run = (case (su_ok run, su_fault run) of
     (False, Some f) \<Rightarrow> VFault (reason_of f)
   | (ok, _) \<Rightarrow> if ok \<and> fo_committed o' then VClean else VNeutral)"

definition service_verdict :: "finalize_outcome \<Rightarrow> service_call \<Rightarrow> fault_verdict" where
  "service_verdict o' c = (case sv_verdict c of CallFault \<Rightarrow> VFault ReasonService
   | CallClean \<Rightarrow> if fo_committed o' then VClean else VNeutral | CallNeutral \<Rightarrow> VNeutral)"

definition service_scope :: "service_call \<Rightarrow> string option" where
  "service_scope c = (case sv_origin c of Some r \<Rightarrow> Some r | None \<Rightarrow> sv_caller c)"

text \<open>What each part of an execution says of a plugin, in the order it is read.\<close>

definition fault_evidence :: "runtime_result list \<Rightarrow> finalize_outcome \<Rightarrow> string list \<Rightarrow> subagent_run list \<Rightarrow>
    service_call list \<Rightarrow> (string \<times> fault_verdict) list" where
  "fault_evidence results o' setups runs calls =
     map (\<lambda>r. (rr_plugin_id r, result_verdict o' r)) (filter (\<lambda>r. rr_runtime_id r \<notin> set setups) results)
     @ map (\<lambda>run. (su_plugin run, subagent_verdict o' run)) (filter (\<lambda>run. su_caller run \<notin> set setups) runs)
     @ map (\<lambda>c. (sv_provider c, service_verdict o' c))
         (filter (\<lambda>c. case truthy (service_scope c) of None \<Rightarrow> True | Some rt \<Rightarrow> rt \<notin> set setups) calls)
     @ map (\<lambda>f. (fp_plugin f, VFault ReasonProposal))
         (filter (\<lambda>f. fp_code f \<notin> {Some ''dimension-version-conflict'', Some ''conflict'', Some ''hook-failed''}
            \<and> fp_runtime f \<notin> set setups) (fo_failed o'))"

definition classify_execution_faults :: "runtime_result list \<Rightarrow> finalize_outcome \<Rightarrow> string list \<Rightarrow> subagent_run list \<Rightarrow>
    service_call list \<Rightarrow> (string, fault_verdict) jmap" where
  "classify_execution_faults results o' setups runs calls =
     (if fo_data_changed o' then [] else foldl put_verdict [] (fault_evidence results o' setups runs calls))"

subsection \<open>The latch\<close>

definition fault_threshold :: int where "fault_threshold = 3"
definition remembered_fault_keys :: nat where "remembered_fault_keys = 64"

datatype cleared_by = ByCleanRun | ByPlayer

datatype fault_transition =
    Counted string string fault_reason int
  | Latched string string fault_reason
  | Cleared string string cleared_by

record fault_state =
  fs_plugin :: string
  fs_count :: int
  fs_latched :: bool
  fs_reason :: "fault_reason option"

record latch_entry =
  le_id :: nat
  le_state :: fault_state
  le_revision :: int
  le_owner :: int
  le_keys :: "string list"
  le_clean :: "(string \<times> int) option"

record fault_group =
  fg_id :: nat
  fg_owner :: int
  fg_candidates :: "(string, nat \<times> int) jmap"

record latch =
  la_threshold :: int
  la_ownership :: int
  la_next_id :: nat
  la_sessions :: "(string, (string, latch_entry) jmap) jmap"
  la_groups :: "(string, (string, fault_group) jmap) jmap"

definition new_latch :: "rat \<Rightarrow> latch option" where
  "new_latch threshold = (let (n, d) = quotient_of threshold in if d \<noteq> 1 \<or> n < 1 then None
     else Some \<lparr> la_threshold = n, la_ownership = 0, la_next_id = 0, la_sessions = [], la_groups = [] \<rparr>)"

definition get_entry :: "string \<Rightarrow> string \<Rightarrow> latch \<Rightarrow> latch_entry option" where
  "get_entry sid plugin l = Option.bind (jm_get (la_sessions l) sid) (\<lambda>m. jm_get m plugin)"

definition put_entry :: "string \<Rightarrow> string \<Rightarrow> latch_entry \<Rightarrow> latch \<Rightarrow> latch" where
  "put_entry sid plugin e l = l\<lparr> la_sessions :=
     jm_set sid (jm_set plugin e (or_else (jm_get (la_sessions l) sid) [])) (la_sessions l) \<rparr>"

definition get_group :: "string \<Rightarrow> string \<Rightarrow> latch \<Rightarrow> fault_group option" where
  "get_group sid key l = Option.bind (jm_get (la_groups l) sid) (\<lambda>m. jm_get m key)"

definition put_group :: "string \<Rightarrow> string \<Rightarrow> fault_group \<Rightarrow> latch \<Rightarrow> latch" where
  "put_group sid key g l = l\<lparr> la_groups :=
     jm_set sid (jm_set key g (or_else (jm_get (la_groups l) sid) [])) (la_groups l) \<rparr>"

definition latch_entry_of :: "string \<Rightarrow> string \<Rightarrow> latch \<Rightarrow> latch_entry \<times> latch" where
  "latch_entry_of sid plugin l = (case get_entry sid plugin l of Some e \<Rightarrow> (e, l)
     | None \<Rightarrow> (let e = \<lparr> le_id = la_next_id l,
           le_state = \<lparr> fs_plugin = plugin, fs_count = 0, fs_latched = False, fs_reason = None \<rparr>,
           le_revision = 0, le_owner = 0, le_keys = [], le_clean = None \<rparr>
         in (e, put_entry sid plugin e (l\<lparr> la_next_id := la_next_id l + 1 \<rparr>))))"

definition next_owner :: "latch \<Rightarrow> int \<times> latch" where
  "next_owner l = (la_ownership l + 1, l\<lparr> la_ownership := la_ownership l + 1 \<rparr>)"

definition remember_key :: "string \<Rightarrow> string list \<Rightarrow> string list" where
  "remember_key key keys = (let ks = keys @ [key] in if length ks > remembered_fault_keys then tl ks else ks)"

definition fault_input :: "string \<Rightarrow> string \<Rightarrow> string \<Rightarrow> fault_reason \<Rightarrow> bool \<Rightarrow> latch \<Rightarrow> fault_transition list \<times> latch" where
  "fault_input sid plugin key reason exempt l = (let (v, l1) = latch_entry_of sid plugin l in
     if fs_latched (le_state v) \<or> key \<in> set (le_keys v) then ([], l1)
     else let (candidate, l2) = (case get_group sid key l1 of Some g \<Rightarrow> (fg_owner g, l1) | None \<Rightarrow> next_owner l1);
        streak = (case le_clean v of Some (k, p) \<Rightarrow> if k = key then p else fs_count (le_state v)
          | None \<Rightarrow> fs_count (le_state v)) + 1;
        latched = (\<not> exempt \<and> streak \<ge> la_threshold l2);
        v' = v\<lparr> le_keys := remember_key key (le_keys v), le_owner := max (le_owner v) candidate,
          le_revision := le_revision v + 1, le_clean := None,
          le_state := \<lparr> fs_plugin = plugin, fs_count = streak, fs_latched = latched, fs_reason = Some reason \<rparr> \<rparr>
      in (Counted sid plugin reason streak # (if latched then [Latched sid plugin reason] else []),
          put_entry sid plugin v' l2))"

definition clean_input :: "string \<Rightarrow> string \<Rightarrow> string option \<Rightarrow> latch \<Rightarrow> fault_transition list \<times> latch" where
  "clean_input sid plugin key l = (let (v, l1) = latch_entry_of sid plugin l;
       group = Option.bind key (\<lambda>k. get_group sid k l1)
     in case group of
       Some g \<Rightarrow> if le_owner v > fg_owner g then ([], l1)
         else let v' = v\<lparr> le_owner := fg_owner g, le_revision := le_revision v + 1 \<rparr>
           in ([], put_group sid (the key) (g\<lparr> fg_candidates := jm_set plugin (le_id v', le_revision v') (fg_candidates g) \<rparr>)
                 (put_entry sid plugin v' l1))
     | None \<Rightarrow> let (n, l2) = next_owner l1; v' = v\<lparr> le_owner := n, le_revision := le_revision v + 1 \<rparr> in
         if fs_latched (le_state v') \<or> fs_count (le_state v') = 0
            \<or> (case key of Some k \<Rightarrow> k \<in> set (le_keys v') | None \<Rightarrow> False)
         then ([], put_entry sid plugin v' l2)
         else ([Cleared sid plugin ByCleanRun], put_entry sid plugin (v'\<lparr> le_state :=
           \<lparr> fs_plugin = plugin, fs_count = 0, fs_latched = False, fs_reason = None \<rparr> \<rparr>) l2))"

text \<open>\<open>begin_group\<close> returns the identity its closing function holds.\<close>

definition begin_group :: "string \<Rightarrow> string \<Rightarrow> latch \<Rightarrow> string + nat \<times> latch" where
  "begin_group sid key l = (if get_group sid key l \<noteq> None then Inl ''Fault group already open''
     else let (n, l1) = next_owner l; gid = la_next_id l1
       in Inr (gid, put_group sid key \<lparr> fg_id = gid, fg_owner = n, fg_candidates = [] \<rparr> (l1\<lparr> la_next_id := gid + 1 \<rparr>)))"

definition drop_group :: "string \<Rightarrow> string \<Rightarrow> latch \<Rightarrow> latch" where
  "drop_group sid key l = (let m = jm_delete key (or_else (jm_get (la_groups l) sid) [])
     in l\<lparr> la_groups := (if m = [] then jm_delete sid (la_groups l) else jm_set sid m (la_groups l)) \<rparr>)"

definition settle_candidate :: "string \<Rightarrow> string \<Rightarrow> fault_transition list \<times> latch \<Rightarrow> string \<times> nat \<times> int \<Rightarrow>
    fault_transition list \<times> latch" where
  "settle_candidate sid key = (\<lambda>(ts, l) (plugin, i, revision). case get_entry sid plugin l of
     Some e \<Rightarrow> if le_id e = i \<and> le_revision e = revision
       then (let (ts', l') = clean_input sid plugin (Some key) l in (ts @ ts', l')) else (ts, l)
   | None \<Rightarrow> (ts, l))"

definition end_group :: "string \<Rightarrow> string \<Rightarrow> nat \<Rightarrow> latch \<Rightarrow> fault_transition list \<times> latch" where
  "end_group sid key gid l = (case get_group sid key l of
     Some g \<Rightarrow> if fg_id g \<noteq> gid then ([], l)
       else foldl (settle_candidate sid key) ([], drop_group sid key l) (fg_candidates g)
   | None \<Rightarrow> ([], l))"

record execution_faults =
  xf_session :: string
  xf_key :: string
  xf_results :: "runtime_result list"
  xf_outcome :: finalize_outcome
  xf_exempt :: "string list"
  xf_setups :: "string list"
  xf_subagents :: "subagent_run list"
  xf_calls :: "service_call list"

definition record_verdict :: "execution_faults \<Rightarrow> fault_transition list \<times> latch \<Rightarrow> string \<times> fault_verdict \<Rightarrow>
    fault_transition list \<times> latch" where
  "record_verdict x = (\<lambda>(ts, l) (plugin, v). case v of
     VFault reason \<Rightarrow> (let (ts', l') = fault_input (xf_session x) plugin (xf_key x) reason (plugin \<in> set (xf_exempt x)) l
       in (ts @ ts', l'))
   | VClean \<Rightarrow> (let (ts', l') = clean_input (xf_session x) plugin (Some (xf_key x)) l in (ts @ ts', l'))
   | VNeutral \<Rightarrow> (ts, l))"

definition execution_verdicts :: "execution_faults \<Rightarrow> (string, fault_verdict) jmap" where
  "execution_verdicts x = classify_execution_faults (xf_results x) (xf_outcome x) (xf_setups x) (xf_subagents x) (xf_calls x)"

definition record_execution :: "execution_faults \<Rightarrow> latch \<Rightarrow> fault_transition list \<times> latch" where
  "record_execution x l = foldl (record_verdict x) ([], l) (execution_verdicts x)"

definition record_hook_clean :: "string \<Rightarrow> string \<Rightarrow> string option \<Rightarrow> latch \<Rightarrow> fault_transition list \<times> latch" where
  "record_hook_clean sid plugin key l = (let before = get_entry sid plugin l;
       previous = or_else (map_option (\<lambda>e. fs_count (le_state e)) before) 0;
       (ts, l1) = clean_input sid plugin key l
     in (ts, case (before, key, get_entry sid plugin l1) of
         (Some _, Some k, Some e) \<Rightarrow> if ts = [] then l1 else put_entry sid plugin (e\<lparr> le_clean := Some (k, previous) \<rparr>) l1
       | _ \<Rightarrow> l1))"

definition is_latched :: "string \<Rightarrow> string \<Rightarrow> latch \<Rightarrow> bool" where
  "is_latched sid plugin l = or_else (map_option (\<lambda>e. fs_latched (le_state e)) (get_entry sid plugin l)) False"

definition latched_states :: "string \<Rightarrow> latch \<Rightarrow> fault_state list" where
  "latched_states sid l = map le_state (filter (\<lambda>e. fs_latched (le_state e))
     (map snd (or_else (jm_get (la_sessions l) sid) [])))"

definition clear_plugin :: "string \<Rightarrow> string \<Rightarrow> latch \<Rightarrow> fault_transition list \<times> latch" where
  "clear_plugin sid plugin l = (if get_entry sid plugin l = None then ([], l)
     else ([Cleared sid plugin ByPlayer],
       l\<lparr> la_sessions := jm_set sid (jm_delete plugin (or_else (jm_get (la_sessions l) sid) [])) (la_sessions l) \<rparr>))"

definition forget_faults :: "string \<Rightarrow> latch \<Rightarrow> latch" where
  "forget_faults sid l = l\<lparr> la_sessions := jm_delete sid (la_sessions l), la_groups := jm_delete sid (la_groups l) \<rparr>"

datatype latch_op =
    HookFault string string string fault_reason bool
  | HookClean string string "string option"
  | Execution execution_faults
  | OpenGroup string string
  | CloseGroup string string nat
  | ClearPlugin string string
  | ForgetFaults string

fun latch_step :: "latch_op \<Rightarrow> latch \<Rightarrow> latch" where
  "latch_step (HookFault sid plugin key reason exempt) l = snd (fault_input sid plugin key reason exempt l)"
| "latch_step (HookClean sid plugin key) l = snd (record_hook_clean sid plugin key l)"
| "latch_step (Execution x) l = snd (record_execution x l)"
| "latch_step (OpenGroup sid key) l = (case begin_group sid key l of Inl _ \<Rightarrow> l | Inr (_, l') \<Rightarrow> l')"
| "latch_step (CloseGroup sid key gid) l = snd (end_group sid key gid l)"
| "latch_step (ClearPlugin sid plugin) l = snd (clear_plugin sid plugin l)"
| "latch_step (ForgetFaults sid) l = forget_faults sid l"

definition latch_run :: "latch_op list \<Rightarrow> latch \<Rightarrow> latch" where
  "latch_run ops l = foldl (\<lambda>l op. latch_step op l) l ops"

subsection \<open>A verdict is the strongest evidence\<close>

definition strongest :: "fault_verdict list \<Rightarrow> fault_verdict option" where
  "strongest vs = (case filter (\<lambda>v. v \<noteq> VClean \<and> v \<noteq> VNeutral) vs of
     v # _ \<Rightarrow> Some v
   | [] \<Rightarrow> if VClean \<in> set vs then Some VClean else if vs = [] then None else Some VNeutral)"

lemma strongest_snoc:
  "strongest (vs @ [v]) = (case strongest vs of Some (VFault r) \<Rightarrow> Some (VFault r)
     | previous \<Rightarrow> if v \<noteq> VNeutral \<or> previous = None then Some v else previous)"
  by (cases v; cases "filter (\<lambda>v. v \<noteq> VClean \<and> v \<noteq> VNeutral) vs")
    (auto simp: strongest_def filter_eq_Cons_iff split: fault_verdict.splits)

lemma foldl_put_verdict:
  "jm_get (foldl put_verdict [] es) plugin = strongest (map snd (filter (\<lambda>e. fst e = plugin) es))"
proof (induction es rule: rev_induct)
  case Nil
  show ?case by (simp add: strongest_def)
next
  case (snoc e es)
  obtain p v where e: "e = (p, v)" by (cases e)
  show ?case
    using snoc by (auto simp: e put_verdict_def strongest_snoc split: option.splits fault_verdict.splits)
qed

text \<open>The verdict on a plugin is the strongest evidence against it, in whatever order results,
  sub-agent runs, service calls and rejected proposals name it: its first fault, else clean if some part
  of the committed execution ran clean, else neutral if anything names it at all. A suspension whose
  data changed gives no verdicts.\<close>

lemma verdict_is_strongest_evidence:
  "jm_get (classify_execution_faults results o' setups runs calls) plugin =
     (if fo_data_changed o' then None
      else strongest (map snd (filter (\<lambda>e. fst e = plugin) (fault_evidence results o' setups runs calls))))"
  by (simp add: classify_execution_faults_def foldl_put_verdict)

subsection \<open>Entries\<close>

lemma get_put_entry:
  "get_entry sid plugin (put_entry sid' plugin' e l) = (if sid = sid' \<and> plugin = plugin' then Some e else get_entry sid plugin l)"
  by (cases "jm_get (la_sessions l) sid'") (auto simp: get_entry_def put_entry_def)

lemma entry_frame [simp]:
  "get_entry sid plugin (put_group s k g l) = get_entry sid plugin l"
  "get_entry sid plugin (drop_group s k l) = get_entry sid plugin l"
  "get_entry sid plugin (l\<lparr> la_ownership := n \<rparr>) = get_entry sid plugin l"
  "get_entry sid plugin (l\<lparr> la_next_id := i \<rparr>) = get_entry sid plugin l"
  "la_threshold (put_group s k g l) = la_threshold l"
  "la_threshold (drop_group s k l) = la_threshold l"
  "la_threshold (put_entry sid plugin e l) = la_threshold l"
  by (simp_all add: get_entry_def put_group_def drop_group_def put_entry_def Let_def)

lemma entry_created:
  "latch_entry_of sid plugin l = (v, l1) \<Longrightarrow> la_threshold l1 = la_threshold l
    \<and> (\<forall>s p. get_entry s p l1 = (if s = sid \<and> p = plugin then Some v else get_entry s p l))
    \<and> (get_entry sid plugin l = Some v \<or> get_entry sid plugin l = None \<and> \<not> fs_latched (le_state v)
        \<and> fs_count (le_state v) = 0 \<and> le_keys v = [] \<and> le_clean v = None)"
  by (auto simp: latch_entry_of_def get_put_entry Let_def split: option.splits)

lemma length_remember: "length (remember_key k ks) = (if length ks < 64 then Suc (length ks) else length ks)"
  by (auto simp: remember_key_def remembered_fault_keys_def Let_def)

lemma set_remember: "set (remember_key k ks) \<subseteq> insert k (set ks)"
  by (cases ks) (auto simp: remember_key_def Let_def)

lemma distinct_remember: "distinct ks \<Longrightarrow> k \<notin> set ks \<Longrightarrow> distinct (remember_key k ks)"
  by (cases ks) (auto simp: remember_key_def Let_def)

text \<open>A verdict on one plugin replaces its entry and no other.\<close>

definition replaces_entry :: "string \<Rightarrow> string \<Rightarrow> latch_entry \<Rightarrow> latch \<Rightarrow> latch \<Rightarrow> bool" where
  "replaces_entry sid plugin v l l' \<longleftrightarrow> la_threshold l' = la_threshold l
     \<and> get_entry sid plugin l' = Some v
     \<and> (\<forall>s p. (s, p) \<noteq> (sid, plugin) \<longrightarrow> get_entry s p l' = get_entry s p l)"

lemma replaces_put:
  assumes "latch_entry_of sid plugin l = (v, l1)"
  shows "replaces_entry sid plugin v l l1"
    and "replaces_entry sid plugin v' l (put_entry sid plugin v' l1)"
    and "replaces_entry sid plugin v' l (put_entry sid plugin v' (l1\<lparr> la_ownership := n \<rparr>))"
    and "replaces_entry sid plugin v' l (put_group s k g (put_entry sid plugin v' l1))"
  using entry_created[OF assms] by (simp_all add: replaces_entry_def get_put_entry)

lemma clean_input_entry:
  assumes e: "latch_entry_of sid plugin l = (v, l1)"
  obtains v' where "replaces_entry sid plugin v' l (snd (clean_input sid plugin key l))"
    and "le_keys v' = le_keys v" "le_clean v' = le_clean v"
    and "le_state v' = le_state v \<or> \<not> fs_latched (le_state v) \<and> \<not> fs_latched (le_state v') \<and> fs_count (le_state v') = 0"
proof (cases "Option.bind key (\<lambda>k. get_group sid k l1)")
  case None
  let ?v = "v\<lparr> le_owner := la_ownership l1 + 1, le_revision := le_revision v + 1 \<rparr>"
  show thesis
  proof (cases "fs_latched (le_state ?v) \<or> fs_count (le_state ?v) = 0
      \<or> (case key of Some k \<Rightarrow> k \<in> set (le_keys ?v) | None \<Rightarrow> False)")
    case True
    then have "snd (clean_input sid plugin key l) = put_entry sid plugin ?v (l1\<lparr> la_ownership := la_ownership l1 + 1 \<rparr>)"
      by (simp only: clean_input_def e Let_def next_owner_def None prod.case option.case if_True snd_conv)
    then show thesis by (intro that[of ?v]) (simp_all add: replaces_put(3)[OF e])
  next
    case False
    let ?w = "?v\<lparr> le_state := \<lparr> fs_plugin = plugin, fs_count = 0, fs_latched = False, fs_reason = None \<rparr> \<rparr>"
    have "snd (clean_input sid plugin key l) = put_entry sid plugin ?w (l1\<lparr> la_ownership := la_ownership l1 + 1 \<rparr>)"
      using False by (simp only: clean_input_def e Let_def next_owner_def None prod.case option.case if_False snd_conv)
    then show thesis using False by (intro that[of ?w]) (simp_all add: replaces_put(3)[OF e])
  qed
next
  case (Some g)
  show thesis
  proof (cases "le_owner v > fg_owner g")
    case True
    then show thesis
      by (intro that[of v]) (simp_all add: clean_input_def e Let_def Some replaces_put(1)[OF e])
  next
    case False
    then show thesis
      by (intro that[of "v\<lparr> le_owner := fg_owner g, le_revision := le_revision v + 1 \<rparr>"])
        (simp_all add: clean_input_def e Let_def Some replaces_put(4)[OF e])
  qed
qed

lemma fault_input_seen:
  assumes e: "latch_entry_of sid plugin l = (v, l1)" and "fs_latched (le_state v) \<or> key \<in> set (le_keys v)"
  shows "replaces_entry sid plugin v l (snd (fault_input sid plugin key reason exempt l))"
  using assms(2) by (simp add: fault_input_def e Let_def replaces_put(1)[OF e])

lemma fault_input_new:
  assumes e: "latch_entry_of sid plugin l = (v, l1)" and new: "\<not> fs_latched (le_state v)" "key \<notin> set (le_keys v)"
  obtains v' where "replaces_entry sid plugin v' l (snd (fault_input sid plugin key reason exempt l))"
    and "le_keys v' = remember_key key (le_keys v)" "le_clean v' = None"
    and "fs_count (le_state v') = fs_count (le_state v) + 1
      \<or> (\<exists>k p. le_clean v = Some (k, p) \<and> fs_count (le_state v') = p + 1)"
    and "fs_latched (le_state v') \<longrightarrow> la_threshold l \<le> fs_count (le_state v')"
proof -
  let ?streak = "(case le_clean v of Some (k, p) \<Rightarrow> if k = key then p else fs_count (le_state v)
      | None \<Rightarrow> fs_count (le_state v)) + 1"
  let ?v = "\<lambda>c. v\<lparr> le_keys := remember_key key (le_keys v), le_owner := max (le_owner v) c,
      le_revision := le_revision v + 1, le_clean := None,
      le_state := \<lparr> fs_plugin = plugin, fs_count = ?streak,
        fs_latched = (\<not> exempt \<and> ?streak \<ge> la_threshold l1), fs_reason = Some reason \<rparr> \<rparr>"
  have streak: "?streak = fs_count (le_state v) + 1 \<or> (\<exists>k p. le_clean v = Some (k, p) \<and> ?streak = p + 1)"
    by (auto split: option.split)
  have thr: "la_threshold l1 = la_threshold l" using entry_created[OF e] by simp
  show thesis
  proof (cases "get_group sid key l1")
    case None
    have "snd (fault_input sid plugin key reason exempt l) =
        put_entry sid plugin (?v (la_ownership l1 + 1)) (l1\<lparr> la_ownership := la_ownership l1 + 1 \<rparr>)"
      using new by (simp add: fault_input_def e Let_def None next_owner_def)
    then show thesis
      using streak thr by (intro that[of "?v (la_ownership l1 + 1)"]) (simp_all add: replaces_put(3)[OF e])
  next
    case (Some g)
    have "snd (fault_input sid plugin key reason exempt l) = put_entry sid plugin (?v (fg_owner g)) l1"
      using new by (simp add: fault_input_def e Let_def Some)
    then show thesis
      using streak thr by (intro that[of "?v (fg_owner g)"]) (simp_all add: replaces_put(2)[OF e])
  qed
qed

subsection \<open>Invariants of the latch\<close>

lemma snd_settle: "snd (settle_candidate sid key s (plugin, i, r)) = (case get_entry sid plugin (snd s) of
     Some e \<Rightarrow> if le_id e = i \<and> le_revision e = r then snd (clean_input sid plugin (Some key) (snd s)) else snd s
   | None \<Rightarrow> snd s)"
  by (cases s) (simp add: settle_candidate_def case_prod_unfold Let_def split: option.split)

lemma snd_verdict: "snd (record_verdict x s (plugin, v)) = (case v of
     VFault r \<Rightarrow> snd (fault_input (xf_session x) plugin (xf_key x) r (plugin \<in> set (xf_exempt x)) (snd s))
   | VClean \<Rightarrow> snd (clean_input (xf_session x) plugin (Some (xf_key x)) (snd s))
   | VNeutral \<Rightarrow> snd s)"
  by (cases s) (simp add: record_verdict_def case_prod_unfold Let_def split: fault_verdict.split)

locale latch_invariant =
  fixes P :: "latch \<Rightarrow> bool"
  assumes frame: "P l \<Longrightarrow> la_threshold l' = la_threshold l \<Longrightarrow> (\<And>s p. get_entry s p l' = get_entry s p l) \<Longrightarrow> P l'"
    and clean: "P l \<Longrightarrow> P (snd (clean_input sid plugin key l))"
    and hook_clean: "P l \<Longrightarrow> P (snd (record_hook_clean sid plugin key l))"
begin

lemma open_group: "P l \<Longrightarrow> P (latch_step (OpenGroup sid key) l)"
  by (auto simp: begin_group_def next_owner_def Let_def intro: frame)

lemma settle: "P (snd s) \<Longrightarrow> P (snd (settle_candidate sid key s c))"
  by (cases c) (auto simp: snd_settle clean split: option.split)

lemma close_group: "P l \<Longrightarrow> P (snd (end_group sid key gid l))"
proof -
  assume "P l"
  then have "P (drop_group sid key l)" by (rule frame) simp_all
  then have "P (snd (foldl (settle_candidate sid key) ([], drop_group sid key l) cs))" for cs
    by (intro foldl_invariant[where P = "\<lambda>s. P (snd s)"]) (auto intro: settle)
  then show "P (snd (end_group sid key gid l))" using \<open>P l\<close> by (simp add: end_group_def split: option.split)
qed

lemma execution:
  assumes "\<And>plugin r l. (plugin, VFault r) \<in> set (execution_verdicts x) \<Longrightarrow> P l \<Longrightarrow>
      P (snd (fault_input (xf_session x) plugin (xf_key x) r (plugin \<in> set (xf_exempt x)) l))"
    and "P l"
  shows "P (snd (record_execution x l))"
proof -
  have "P (snd (record_verdict x s c))" if "c \<in> set (execution_verdicts x)" "P (snd s)" for s c
    using that by (cases c rule: prod.exhaust) (auto simp: snd_verdict clean assms(1) split: fault_verdict.split)
  then show ?thesis
    unfolding record_execution_def using assms(2) by (intro foldl_invariant[where P = "\<lambda>s. P (snd s)"]) auto
qed

end

subsection \<open>Only the player unlatches\<close>

lemma is_latched_iff: "is_latched sid plugin l \<longleftrightarrow> (\<exists>e. get_entry sid plugin l = Some e \<and> fs_latched (le_state e))"
  by (cases "get_entry sid plugin l") (auto simp: is_latched_def)

lemma latched_entry: "latch_entry_of sid plugin l = (v, l1) \<Longrightarrow> is_latched sid plugin l \<Longrightarrow> fs_latched (le_state v)"
  using entry_created[of sid plugin l v l1] by (auto simp: is_latched_iff)

lemma replaces_latched:
  "replaces_entry s p v l l' \<Longrightarrow> is_latched sid plugin l \<Longrightarrow> (s = sid \<Longrightarrow> p = plugin \<Longrightarrow> fs_latched (le_state v)) \<Longrightarrow>
     is_latched sid plugin l'"
  by (cases "s = sid \<and> p = plugin") (auto simp: replaces_entry_def is_latched_iff)

lemma clean_latched: "is_latched sid plugin l \<Longrightarrow> is_latched sid plugin (snd (clean_input s p key l))"
proof -
  assume l: "is_latched sid plugin l"
  obtain v l1 where e: "latch_entry_of s p l = (v, l1)" by fastforce
  obtain v' where "replaces_entry s p v' l (snd (clean_input s p key l))"
    "le_state v' = le_state v \<or> \<not> fs_latched (le_state v)"
    by (rule clean_input_entry[OF e, where key = key]) blast
  then show ?thesis using latched_entry[of sid plugin l v l1] e l by (intro replaces_latched[OF _ l]) auto
qed

lemma fault_latched: "is_latched sid plugin l \<Longrightarrow> is_latched sid plugin (snd (fault_input s p key reason exempt l))"
proof -
  assume l: "is_latched sid plugin l"
  obtain v l1 where e: "latch_entry_of s p l = (v, l1)" by fastforce
  show ?thesis
  proof (cases "fs_latched (le_state v) \<or> key \<in> set (le_keys v)")
    case True
    then show ?thesis
      using latched_entry[of sid plugin l v l1] e l by (intro replaces_latched[OF fault_input_seen[OF e True] l]) auto
  next
    case False
    then obtain v' where "replaces_entry s p v' l (snd (fault_input s p key reason exempt l))"
      using fault_input_new[OF e, where key = key and reason = reason and exempt = exempt] by blast
    then show ?thesis using latched_entry[of sid plugin l v l1] e l False by (intro replaces_latched[OF _ l]) auto
  qed
qed

lemma hook_clean_latched: "is_latched sid plugin l \<Longrightarrow> is_latched sid plugin (snd (record_hook_clean s p key l))"
  using clean_latched[of sid plugin l s p key]
  by (auto simp: record_hook_clean_def Let_def is_latched_iff get_put_entry split: prod.splits option.splits if_splits)

interpretation still_latched: latch_invariant "is_latched sid plugin" for sid plugin
proof
  show "is_latched sid plugin l'" if "is_latched sid plugin l" "\<And>s p. get_entry s p l' = get_entry s p l" for l l'
    using that by (simp add: is_latched_def)
qed (rule clean_latched hook_clean_latched, assumption)+

lemma step_keeps_latched:
  "is_latched sid plugin l \<Longrightarrow> op \<noteq> ClearPlugin sid plugin \<Longrightarrow> op \<noteq> ForgetFaults sid \<Longrightarrow> is_latched sid plugin (latch_step op l)"
proof (cases op)
  case (ClearPlugin s p)
  assume "is_latched sid plugin l" "op \<noteq> ClearPlugin sid plugin"
  then show ?thesis using ClearPlugin
    by (cases "s = sid"; cases "jm_get (la_sessions l) sid") (auto simp: clear_plugin_def is_latched_iff get_entry_def)
next
  case (ForgetFaults s)
  assume "is_latched sid plugin l" "op \<noteq> ForgetFaults sid"
  then show ?thesis using ForgetFaults by (auto simp: forget_faults_def is_latched_iff get_entry_def)
next
  case (OpenGroup s key)
  assume "is_latched sid plugin l"
  from still_latched.open_group[OF this, of s key] show ?thesis unfolding OpenGroup .
qed (auto simp: fault_latched hook_clean_latched intro: still_latched.execution still_latched.close_group)

text \<open>Only the player unlatches a plugin: once it is latched in a session, it stays latched through
  every sequence of faults, clean runs, executions and groups of any session, and through clearing other
  plugins, until the player clears this plugin or the session is forgotten.\<close>

lemma latched_until_cleared:
  assumes "is_latched sid plugin l"
    and "list_all (\<lambda>op. op \<noteq> ClearPlugin sid plugin \<and> op \<noteq> ForgetFaults sid) ops"
  shows "is_latched sid plugin (latch_run ops l)"
  unfolding latch_run_def
  by (rule foldl_invariant[where P = "is_latched sid plugin"])
    (use assms step_keeps_latched in \<open>auto simp: list_all_iff\<close>)

subsection \<open>Latching takes different inputs\<close>

type_synonym fault_log = "(string \<times> string \<times> string) set"

definition entry_counts :: "int \<Rightarrow> string set \<Rightarrow> latch_entry \<Rightarrow> bool" where
  "entry_counts t ks e \<longleftrightarrow> set (le_keys e) \<subseteq> ks \<and> distinct (le_keys e)
     \<and> (fs_count (le_state e) \<le> int (length (le_keys e)) \<or> 64 \<le> length (le_keys e))
     \<and> (\<forall>k p. le_clean e = Some (k, p) \<longrightarrow> p \<le> int (length (le_keys e)) \<or> 64 \<le> length (le_keys e))
     \<and> (fs_latched (le_state e) \<longrightarrow> min t 64 \<le> int (card ks))"

definition faults_logged :: "int \<Rightarrow> fault_log \<Rightarrow> latch \<Rightarrow> bool" where
  "faults_logged t F l \<longleftrightarrow> la_threshold l = t \<and> finite F
     \<and> (\<forall>sid plugin e. get_entry sid plugin l = Some e \<longrightarrow> entry_counts t {k. (sid, plugin, k) \<in> F} e)"

lemma finite_log_keys: "finite F \<Longrightarrow> finite {k. (sid, plugin, k) \<in> F}"
  by (rule finite_subset[of _ "(snd \<circ> snd) ` F"]) force+

lemma entry_counts_mono: "entry_counts t ks e \<Longrightarrow> ks \<subseteq> ks' \<Longrightarrow> finite ks' \<Longrightarrow> entry_counts t ks' e"
  unfolding entry_counts_def using card_mono[of ks' ks] by fastforce

lemma faults_logged_mono:
  assumes l: "faults_logged t F l" and "F \<subseteq> F'" "finite F'"
  shows "faults_logged t F' l"
proof -
  have "entry_counts t {k. (sid, plugin, k) \<in> F'} e" if "get_entry sid plugin l = Some e" for sid plugin e
  proof (rule entry_counts_mono)
    show "entry_counts t {k. (sid, plugin, k) \<in> F} e" using l that by (simp add: faults_logged_def)
  qed (use assms in \<open>auto intro: finite_log_keys\<close>)
  then show ?thesis using l assms(3) by (simp add: faults_logged_def)
qed

lemma entry_counts_created:
  assumes "faults_logged t F l" "latch_entry_of sid plugin l = (v, l1)"
  shows "entry_counts t {k. (sid, plugin, k) \<in> F} v"
proof (cases "get_entry sid plugin l = Some v")
  case True
  then show ?thesis using assms(1) unfolding faults_logged_def by blast
next
  case False
  then show ?thesis using entry_created[OF assms(2)] by (simp add: entry_counts_def)
qed

lemma replaces_logged:
  assumes "faults_logged t F l" "replaces_entry sid plugin v l l'" "entry_counts t {k. (sid, plugin, k) \<in> F} v"
  shows "faults_logged t F l'"
  using assms unfolding faults_logged_def replaces_entry_def by (metis option.inject prod.inject)

lemma clean_logged: "faults_logged t F l \<Longrightarrow> faults_logged t F (snd (clean_input sid plugin key l))"
proof -
  assume l: "faults_logged t F l"
  obtain v l1 where e: "latch_entry_of sid plugin l = (v, l1)" by fastforce
  obtain v' where v': "replaces_entry sid plugin v' l (snd (clean_input sid plugin key l))"
    "le_keys v' = le_keys v" "le_clean v' = le_clean v"
    "le_state v' = le_state v \<or> \<not> fs_latched (le_state v) \<and> \<not> fs_latched (le_state v') \<and> fs_count (le_state v') = 0"
    by (rule clean_input_entry[OF e, where key = key]) blast
  have "entry_counts t {k. (sid, plugin, k) \<in> F} v'"
    using entry_counts_created[OF l e] v'(2-4) unfolding entry_counts_def by auto
  then show ?thesis by (rule replaces_logged[OF l v'(1)])
qed

lemma entry_counts_fault:
  assumes v: "entry_counts t ks v" and ks: "finite ks" "key \<in> ks" and new: "key \<notin> set (le_keys v)"
    and keys: "le_keys v' = remember_key key (le_keys v)" and clean: "le_clean v' = None"
    and streak: "fs_count (le_state v') = fs_count (le_state v) + 1
      \<or> (\<exists>k p. le_clean v = Some (k, p) \<and> fs_count (le_state v') = p + 1)"
    and latched: "fs_latched (le_state v') \<longrightarrow> t \<le> fs_count (le_state v')"
  shows "entry_counts t ks v'"
proof -
  have sub: "set (le_keys v') \<subseteq> ks" using v set_remember[of key "le_keys v"] ks(2) by (auto simp: keys entry_counts_def)
  have dist: "distinct (le_keys v')" using v distinct_remember[OF _ new] by (simp add: keys entry_counts_def)
  have "length (le_keys v') = card (set (le_keys v'))" using dist by (simp add: distinct_card)
  then have len: "length (le_keys v') \<le> card ks" using card_mono[OF ks(1) sub] by simp
  have count: "fs_count (le_state v') \<le> int (length (le_keys v')) \<or> 64 \<le> length (le_keys v')"
    using v streak unfolding keys length_remember entry_counts_def by auto
  have "min t 64 \<le> int (card ks)" if "fs_latched (le_state v')"
    using that latched count len by linarith
  then show ?thesis using sub dist count clean by (simp add: entry_counts_def)
qed

lemma fault_logged:
  "faults_logged t F l \<Longrightarrow> (sid, plugin, key) \<in> F \<Longrightarrow> faults_logged t F (snd (fault_input sid plugin key reason exempt l))"
proof -
  assume l: "faults_logged t F l" and F: "(sid, plugin, key) \<in> F"
  obtain v l1 where e: "latch_entry_of sid plugin l = (v, l1)" by fastforce
  note v = entry_counts_created[OF l e]
  show ?thesis
  proof (cases "fs_latched (le_state v) \<or> key \<in> set (le_keys v)")
    case True
    show ?thesis by (rule replaces_logged[OF l fault_input_seen[OF e True] v])
  next
    case False
    then have new: "\<not> fs_latched (le_state v)" "key \<notin> set (le_keys v)" by auto
    have fin: "finite {k. (sid, plugin, k) \<in> F}" using l by (simp add: faults_logged_def finite_log_keys)
    have t: "la_threshold l = t" using l by (simp add: faults_logged_def)
    show ?thesis
      by (rule fault_input_new[OF e new, where reason = reason and exempt = exempt])
        (rule replaces_logged[OF l], assumption, rule entry_counts_fault[OF v fin _ new(2)], use F t in auto)
  qed
qed

lemma hook_clean_logged: "faults_logged t F l \<Longrightarrow> faults_logged t F (snd (record_hook_clean sid plugin key l))"
proof -
  assume l: "faults_logged t F l"
  let ?c = "clean_input sid plugin key l"
  note cl = clean_logged[OF l, of sid plugin key]
  show ?thesis
  proof (cases "get_entry sid plugin l = None \<or> key = None \<or> fst ?c = []")
    case True
    then have "snd (record_hook_clean sid plugin key l) = snd ?c"
      by (auto simp: record_hook_clean_def Let_def case_prod_unfold split: option.splits)
    then show ?thesis using cl by simp
  next
    case False
    then obtain b k where b: "get_entry sid plugin l = Some b" and k: "key = Some k" by auto
    have e: "latch_entry_of sid plugin l = (b, l)" by (simp add: latch_entry_of_def b)
    obtain v' where v': "replaces_entry sid plugin v' l (snd ?c)" "le_keys v' = le_keys b"
      by (rule clean_input_entry[OF e, where key = key]) blast
    have get: "get_entry sid plugin (snd ?c) = Some v'" using v'(1) by (simp add: replaces_entry_def)
    let ?v = "v'\<lparr> le_clean := Some (k, fs_count (le_state b)) \<rparr>"
    have res: "snd (record_hook_clean sid plugin key l) = put_entry sid plugin ?v (snd ?c)"
      using False b k get by (simp add: record_hook_clean_def Let_def case_prod_unfold)
    have "entry_counts t {k. (sid, plugin, k) \<in> F} b" "entry_counts t {k. (sid, plugin, k) \<in> F} v'"
      using l b cl get unfolding faults_logged_def by blast+
    then have "entry_counts t {k. (sid, plugin, k) \<in> F} ?v" using v'(2) by (auto simp: entry_counts_def)
    moreover have "replaces_entry sid plugin ?v (snd ?c) (put_entry sid plugin ?v (snd ?c))"
      by (simp add: replaces_entry_def get_put_entry)
    ultimately show ?thesis unfolding res by (intro replaces_logged[OF cl])
  qed
qed

interpretation logged: latch_invariant "faults_logged t F" for t F
proof
  show "faults_logged t F l'" if "faults_logged t F l" "la_threshold l' = la_threshold l"
    "\<And>s p. get_entry s p l' = get_entry s p l" for l l'
    using that by (simp add: faults_logged_def)
qed (rule clean_logged hook_clean_logged, assumption)+

fun faulted_inputs :: "latch_op \<Rightarrow> (string \<times> string \<times> string) list" where
  "faulted_inputs (HookFault sid plugin key reason exempt) = [(sid, plugin, key)]"
| "faulted_inputs (Execution x) = concat (map (\<lambda>(plugin, v). case v of VFault r \<Rightarrow> [(xf_session x, plugin, xf_key x)] | _ \<Rightarrow> [])
     (execution_verdicts x))"
| "faulted_inputs _ = []"

lemma execution_faulted: "(plugin, VFault r) \<in> set (execution_verdicts x) \<Longrightarrow>
    (xf_session x, plugin, xf_key x) \<in> set (faulted_inputs (Execution x))"
  by force

lemma subset_logged:
  assumes "faults_logged t F l" "la_threshold l' = la_threshold l"
    and "\<And>s p e. get_entry s p l' = Some e \<Longrightarrow> get_entry s p l = Some e"
  shows "faults_logged t F l'"
  using assms unfolding faults_logged_def by metis

lemma step_logged:
  assumes "faults_logged t F l"
  shows "faults_logged t (F \<union> set (faulted_inputs op)) (latch_step op l)"
proof -
  let ?F = "F \<union> set (faulted_inputs op)"
  have l: "faults_logged t ?F l"
    by (rule faults_logged_mono[OF assms]) (use assms in \<open>auto simp: faults_logged_def simp del: faulted_inputs.simps\<close>)
  show ?thesis
  proof (cases op)
    case (Execution x)
    show ?thesis
      unfolding Execution latch_step.simps using l execution_faulted[of _ _ x]
      by (intro logged.execution fault_logged) (auto simp: Execution simp del: faulted_inputs.simps)
  next
    case (OpenGroup sid key)
    show ?thesis using logged.open_group[OF l, of sid key] by (simp add: OpenGroup)
  next
    case (ClearPlugin sid plugin)
    have "get_entry s p (snd (clear_plugin sid plugin l)) =
        (if s = sid \<and> p = plugin then None else get_entry s p l)" for s p
      by (cases "jm_get (la_sessions l) sid") (auto simp: clear_plugin_def get_entry_def)
    then have "faults_logged t ?F (snd (clear_plugin sid plugin l))"
      by (intro subset_logged[OF l]) (simp_all add: clear_plugin_def split: if_splits)
    then show ?thesis by (simp add: ClearPlugin)
  next
    case (ForgetFaults sid)
    have "get_entry s p (forget_faults sid l) = (if s = sid then None else get_entry s p l)" for s p
      by (simp add: forget_faults_def get_entry_def)
    then have "faults_logged t ?F (forget_faults sid l)"
      by (intro subset_logged[OF l]) (simp_all add: forget_faults_def split: if_splits)
    then show ?thesis by (simp add: ForgetFaults)
  qed (use l in \<open>auto intro: fault_logged logged.close_group hook_clean_logged\<close>)
qed

text \<open>C16: A plugin is latched only by faults of different inputs: if a run from a new latch ends with the
  plugin latched in a session, at least as many different inputs of that session reported a fault of it as
  the threshold asks for, or 64 of them when the threshold is higher than what an entry remembers.\<close>

theorem latch_needs_different_inputs:
  assumes "new_latch (of_int n) = Some l" and "is_latched sid plugin (latch_run ops l)"
  shows "min n 64 \<le> int (card {k. (sid, plugin, k) \<in> set (concat (map faulted_inputs ops))})"
proof -
  have "faults_logged n {} l"
    using assms(1) by (auto simp: new_latch_def faults_logged_def get_entry_def split: if_splits)
  then have "faults_logged n (F \<union> set (concat (map faulted_inputs ops))) (latch_run ops l)" if "F = {}" for F
    unfolding that latch_run_def
  proof (induction ops rule: rev_induct)
    case (snoc op ops)
    then have "faults_logged n ({} \<union> set (concat (map faulted_inputs ops)) \<union> set (faulted_inputs op))
        (latch_step op (foldl (\<lambda>l op. latch_step op l) l ops))"
      by (intro step_logged) blast
    then show ?case by (simp del: faulted_inputs.simps latch_step.simps)
  qed simp
  then have "faults_logged n (set (concat (map faulted_inputs ops))) (latch_run ops l)" by simp
  then show ?thesis using assms(2) unfolding faults_logged_def entry_counts_def is_latched_iff by blast
qed

lemma latch_needs_different_inputs_witness:
  "is_latched ''s'' ''p'' (latch_run (map (\<lambda>k. HookFault ''s'' ''p'' k ReasonHook False) [''a'', ''b'', ''c'']) (the (new_latch 3)))
    \<and> (3::int) \<le> int (card {k. (''s'', ''p'', k) \<in> set (concat (map faulted_inputs
        (map (\<lambda>k. HookFault ''s'' ''p'' k ReasonHook False) [''a'', ''b'', ''c''])))})"
proof -
  have l: "new_latch (of_int 3) = Some (the (new_latch 3))" by code_simp
  have "is_latched ''s'' ''p'' (latch_run (map (\<lambda>k. HookFault ''s'' ''p'' k ReasonHook False) [''a'', ''b'', ''c'']) (the (new_latch 3)))"
    by code_simp
  from latch_needs_different_inputs[OF l this] this show ?thesis by simp
qed

end
