(* ===== verification/Detachment.thy ===== *)
theory Detachment
  imports DagScheduler Effects Results Digits
begin

text \<open>
  Runtimes that finish after their turn: which of the scheduled runtimes may be detached from it, the
  guard on what a detached run may write, and the upstream results its job keeps
  (\<open>packages/runtime/src/schedule/turn-completion.ts\<close>, \<open>packages/runtime/src/presentation/policy.ts\<close>,
  \<open>packages/shared/src/schemas/presentation-rules.ts\<close>). The schema check of a presentation declaration
  is the parameter \<open>policy\<close>. A proposal keeps its source, its type and the namespaces it names. The theory
  shows that no other scheduled runtime has a dependency edge to a detached one, and that the guard lets
  only declared, isolated effects through.
\<close>

subsection \<open>Presentation writes\<close>

datatype proposal_body =
    AssetGenerate
  | UiRender
  | DataSet string
  | DataUpdate string
  | DataDelete string
  | DataBatch "string list"
  | OtherProposal string

record proposal =
  pp_plugin :: string
  pp_runtime :: string
  pp_body :: proposal_body

definition letter :: "char \<Rightarrow> bool" where
  "letter c = (let n = of_char c :: nat in 65 \<le> n \<and> n \<le> 90 \<or> 97 \<le> n \<and> n \<le> 122)"

definition namespace_char :: "char \<Rightarrow> bool" where
  "namespace_char c = (letter c \<or> is_digit c \<or> c = CHR ''_'' \<or> c = CHR ''-'')"

definition presentation_namespace :: "effect_resource \<Rightarrow> string option" where
  "presentation_namespace effect = (if \<not> starts_with effect ''plugin-data:self:'' then None
     else case drop (length ''plugin-data:self:'') effect of
       [] \<Rightarrow> None
     | c # cs \<Rightarrow> if letter c \<and> list_all namespace_char cs \<and> length cs \<le> 63 then Some (c # cs) else None)"

definition presentation_writes :: "manifest \<Rightarrow> string list" where
  "presentation_writes m = js_add_all (List.map_filter presentation_namespace
     (or_else (Option.bind (m_effects m) ed_writes) [])) []"

definition presentation_guard :: "manifest \<Rightarrow> proposal \<Rightarrow> string option" where
  "presentation_guard m p = (if pp_plugin p \<noteq> m_plugin_id m \<or> pp_runtime p \<noteq> m_name m
     then Some ''presentation cannot rebind its owner''
     else let namespaces = (case pp_body p of DataBatch ns \<Rightarrow> Some ns
         | DataSet n \<Rightarrow> Some [n] | DataUpdate n \<Rightarrow> Some [n] | DataDelete n \<Rightarrow> Some [n] | _ \<Rightarrow> None)
       in case namespaces of
         None \<Rightarrow> Some ''presentation can only write its declared own display data''
       | Some ns \<Rightarrow> if list_ex (\<lambda>n. starts_with n ''_'' \<or> n \<notin> set (presentation_writes m)) ns
           then Some ''presentation write is outside its declared public display namespaces'' else None)"

subsection \<open>The guard of a detached run\<close>

definition declared_write_allows :: "manifest \<Rightarrow> effect_resource \<Rightarrow> bool" where
  "declared_write_allows m expected = list_ex (\<lambda>w. w = expected
       \<or> (starts_with expected ''plugin-data:self:'' \<and> w = ''plugin-data:self:*'')
       \<or> (starts_with expected ''ui:'' \<and> w = ''ui:*''))
     (or_else (Option.bind (sp_effects (get_runtime_spec m)) ed_writes) [])"

definition namespace_refusal :: "manifest \<Rightarrow> string \<Rightarrow> string option" where
  "namespace_refusal m n = (if starts_with n ''_'' then Some ''detached runtime cannot write framework-reserved plugin data''
     else if declared_write_allows m (''plugin-data:self:'' @ n) then None
     else Some (''detached runtime emitted undeclared plugin-data namespace '' @ n))"

fun first_refusal :: "manifest \<Rightarrow> string list \<Rightarrow> string option" where
  "first_refusal m [] = None"
| "first_refusal m (n # ns) = (case namespace_refusal m n of Some e \<Rightarrow> Some e | None \<Rightarrow> first_refusal m ns)"

definition proposal_type :: "proposal_body \<Rightarrow> string" where
  "proposal_type b = (case b of AssetGenerate \<Rightarrow> ''asset.generate'' | UiRender \<Rightarrow> ''ui.render''
     | DataSet _ \<Rightarrow> ''plugin.data'' | DataUpdate _ \<Rightarrow> ''plugin.data.update'' | DataDelete _ \<Rightarrow> ''plugin.data.delete''
     | DataBatch _ \<Rightarrow> ''plugin.data.batch'' | OtherProposal t \<Rightarrow> t)"

definition detached_guard :: "manifest \<Rightarrow> proposal \<Rightarrow> string option" where
  "detached_guard m p = (if m_presentation m \<noteq> None then presentation_guard m p
     else case pp_body p of
       AssetGenerate \<Rightarrow> if declared_write_allows m ''assets:*'' \<or> declared_write_allows m ''media:*'' then None
         else Some ''detached runtime emitted undeclared asset/media output''
     | UiRender \<Rightarrow> if declared_write_allows m ''ui:*'' then None else Some ''detached runtime emitted undeclared UI output''
     | DataSet n \<Rightarrow> namespace_refusal m n
     | DataUpdate n \<Rightarrow> namespace_refusal m n
     | DataBatch ns \<Rightarrow> first_refusal m ns
     | b \<Rightarrow> Some (''proposal type '' @ proposal_type b @ '' is not allowed for a detached stage runtime''))"

subsection \<open>Eligibility\<close>

definition is_safe_detached_effect :: "effect_resource \<Rightarrow> bool" where
  "is_safe_detached_effect e = (e \<in> {''assets:*'', ''media:*''} \<or> starts_with e ''plugin-data:self:''
     \<or> starts_with e ''ui:'' \<or> starts_with e ''http:'')"

definition is_safe_detached_read :: "effect_resource \<Rightarrow> bool" where
  "is_safe_detached_read e = (e = ''assets:*'' \<or> e = ''media:*'' \<or> starts_with e ''http:'')"

definition dependency_matches :: "dependency_ref \<Rightarrow> manifest \<Rightarrow> bool" where
  "dependency_matches dep c = (case dep of DepName n \<Rightarrow> n = m_name c | DepRuntime n _ \<Rightarrow> n = m_name c
     | DepCapability cap _ _ \<Rightarrow> m_output_contract c = Some cap)"

definition source_matches :: "binding_source \<Rightarrow> manifest \<Rightarrow> bool" where
  "source_matches src c = (case src of FromRuntime n \<Rightarrow> n = m_name c | FromCapability cap _ \<Rightarrow> m_output_contract c = Some cap)"

definition consumer_depends_on :: "manifest \<Rightarrow> manifest \<Rightarrow> bool" where
  "consumer_depends_on consumer c = (let spec = get_runtime_spec consumer in
     if list_ex (\<lambda>dep. dependency_matches dep c) (sp_after spec @ sp_needs spec) then True
     else list_ex (\<lambda>(k, b). source_matches (bd_from b) c) (sp_bindings spec))"

definition intrinsic_ineligibility :: "(manifest \<Rightarrow> string option) \<Rightarrow> manifest \<Rightarrow> string option" where
  "intrinsic_ineligibility policy m = (if m_presentation m \<noteq> None then policy m
     else let settling = or_else (pol_settle (sp_turn_completion (get_runtime_spec m))) False in
       if settling \<and> m_stage m \<noteq> Some PostTurn \<and> m_stage m \<noteq> Some Audit
       then Some ''settling detached runtimes require post-turn or audit stage''
       else if settling \<and> m_output_kind m = Some Story
       then Some ''settling detached runtimes cannot produce story output''
       else if m_runtime_type m \<noteq> Some FunctionRuntime
       then Some ''the first detached-stage contract only permits function runtimes''
       else if truthy (m_record_as m) \<noteq> None
       then Some ''recordAs exports cannot be published from a detached stage runtime''
       else if ''emit-event'' \<in> set (or_else (Option.bind (m_tools m) tl_builtin) []) \<or> m_advertise_events m = Some True
       then Some ''event emission is not supported by detached stage runtimes''
       else if \<not> settling \<and> list_ex (\<lambda>i. case i of InjPluginData _ \<Rightarrow> True | _ \<Rightarrow> False) (or_else (m_inject m) [])
       then Some ''live plugin-data prompt injection is not a frozen detached input''
       else case sp_effects (get_runtime_spec m) of
         None \<Rightarrow> Some ''detached stage runtimes must declare an explicit effects contract''
       | Some eff \<Rightarrow>
           (case find (\<lambda>e. \<not> is_safe_detached_read e \<and> \<not> (settling \<and> starts_with e ''plugin-data:self:'')) (or_else (ed_reads eff) []) of
             Some e \<Rightarrow> Some (''read effect '' @ e @ '' is not part of the frozen detached input'')
           | None \<Rightarrow> (case find (\<lambda>e. \<not> is_safe_detached_effect e) (or_else (ed_writes eff) []) of
               Some e \<Rightarrow> Some (''effect '' @ e @ '' is not isolated from foreground game state'')
             | None \<Rightarrow> None)))"

record detachment_plan =
  dp_eligible :: "string list"
  dp_diagnostics :: "(string \<times> string) list"

definition plan_candidate :: "(manifest \<Rightarrow> string option) \<Rightarrow> manifest list \<Rightarrow> detachment_plan \<Rightarrow> manifest \<Rightarrow> detachment_plan" where
  "plan_candidate policy scheduled plan c = (if \<not> is_turn_detached_runtime (get_runtime_spec c) then plan
     else case truthy (intrinsic_ineligibility policy c) of
       Some reason \<Rightarrow> plan\<lparr> dp_diagnostics := dp_diagnostics plan @ [(m_name c, reason)] \<rparr>
     | None \<Rightarrow> (case find (\<lambda>rt. m_name rt \<noteq> m_name c \<and> consumer_depends_on rt c) scheduled of
         Some consumer \<Rightarrow> plan\<lparr> dp_diagnostics := dp_diagnostics plan
           @ [(m_name c, ''foreground runtime '' @ m_name consumer @ '' depends on its result'')] \<rparr>
       | None \<Rightarrow> plan\<lparr> dp_eligible := js_add (m_name c) (dp_eligible plan) \<rparr>))"

definition plan_turn_detachment :: "(manifest \<Rightarrow> string option) \<Rightarrow> manifest list \<Rightarrow> detachment_plan" where
  "plan_turn_detachment policy scheduled =
     foldl (plan_candidate policy scheduled) \<lparr> dp_eligible = [], dp_diagnostics = [] \<rparr> scheduled"

subsection \<open>Upstream results of a detached job\<close>

definition detached_result :: "manifest \<Rightarrow> (string, manifest) jmap \<Rightarrow> runtime_result \<Rightarrow> runtime_result" where
  "detached_result c producers r = (case jm_get producers (rr_runtime_id r) of
     Some p \<Rightarrow> if consumer_depends_on c p then r
       else r\<lparr> rr_output := None, rr_events := None, rr_completion := None, rr_canonical := None, rr_error := None, rr_fault := None \<rparr>
   | None \<Rightarrow> r\<lparr> rr_output := None, rr_events := None, rr_completion := None, rr_canonical := None, rr_error := None, rr_fault := None \<rparr>)"

definition detached_upstream_results :: "manifest \<Rightarrow> runtime_result list \<Rightarrow> manifest list \<Rightarrow> runtime_result list" where
  "detached_upstream_results c results active =
     map (detached_result c (foldl (\<lambda>m rt. jm_set (m_name rt) rt m) [] active)) results"

subsection \<open>A detached runtime is a leaf of the schedule\<close>

definition may_detach :: "(manifest \<Rightarrow> string option) \<Rightarrow> manifest list \<Rightarrow> manifest \<Rightarrow> bool" where
  "may_detach policy scheduled c \<longleftrightarrow> is_turn_detached_runtime (get_runtime_spec c)
     \<and> truthy (intrinsic_ineligibility policy c) = None
     \<and> list_all (\<lambda>rt. m_name rt = m_name c \<or> \<not> consumer_depends_on rt c) scheduled"

lemma eligible_step:
  "dp_eligible (plan_candidate policy scheduled plan c) =
     (if may_detach policy scheduled c then js_add (m_name c) (dp_eligible plan) else dp_eligible plan)"
  by (auto simp: plan_candidate_def may_detach_def find_None_iff list_all_iff split: option.split)
    (auto simp: find_Some_iff)

lemma diagnosed_step:
  "map fst (dp_diagnostics (plan_candidate policy scheduled plan c)) = map fst (dp_diagnostics plan)
     @ (if is_turn_detached_runtime (get_runtime_spec c) \<and> \<not> may_detach policy scheduled c then [m_name c] else [])"
  by (auto simp: plan_candidate_def may_detach_def find_None_iff list_all_iff split: option.split)
    (auto simp: find_Some_iff)

lemma plan_fold:
  "dp_eligible (foldl (plan_candidate policy scheduled) plan cs) =
     js_add_all (map m_name (filter (may_detach policy scheduled) cs)) (dp_eligible plan)
   \<and> map fst (dp_diagnostics (foldl (plan_candidate policy scheduled) plan cs)) = map fst (dp_diagnostics plan)
     @ map m_name (filter (\<lambda>c. is_turn_detached_runtime (get_runtime_spec c) \<and> \<not> may_detach policy scheduled c) cs)"
  by (induction cs arbitrary: plan) (auto simp: eligible_step diagnosed_step)

lemma provides_contract:
  assumes "distinct (map m_name rts)" "c \<in> set rts" "provides rts cap (m_name c)"
  shows "m_output_contract c = Some cap"
  using assms distinct_map_inj_on[OF assms(1)] unfolding provides_def by metis

lemma edge_means_dependency:
  assumes names: "distinct (map m_name rts)" and c: "c \<in> set rts"
    and edge: "m_name c \<in> set (ds_all (collect_dependencies rt (build_capability_providers rts)))"
  shows "consumer_depends_on rt c"
proof -
  note cap = provides_contract[OF names c]
  have needs: "dependency_matches need c" if "m_name c \<in> set (ref_to_names need KindNeeds (build_capability_providers rts))" for need
    using that cap by (cases need) (auto simp: dependency_matches_def set_providers_of split: if_splits)
  have after: "dependency_matches ref c" if "m_name c \<in> set (ref_to_names ref KindAfter (build_capability_providers rts))" for ref
    using that cap unfolding mem_after_names by (cases ref) (auto simp: dependency_matches_def)
  have bound: "source_matches src c" if "m_name c \<in> set (binding_names (build_capability_providers rts) src)" for src
    using that cap unfolding mem_binding_names by (cases src) (auto simp: source_matches_def)
  have "m_name c \<in> set (needs_names (build_capability_providers rts) rt) \<or> m_name c \<in> set (follow_names (build_capability_providers rts) rt)"
    using edge unfolding collect_dependencies_eq by simp
  then consider need where "need \<in> set (or_else (m_needs rt) [])" "dependency_matches need c"
    | ref where "ref \<in> set (or_else (m_after rt) [])" "dependency_matches ref c"
    | k b where "(k, b) \<in> set (or_else (m_inputs rt) [])" "source_matches (bd_from b) c"
    unfolding needs_names_def follow_names_def set_append Un_iff mem_concat_map using needs after bound
    by (metis (no_types, lifting) case_prod_conv surj_pair)
  then show ?thesis
    by cases (auto simp: consumer_depends_on_def list_ex_iff Let_def)
qed

text \<open>C15: The detachment plan is exact and safe for the schedule. Each scheduled runtime that asks to be
  detached is either eligible or has exactly one diagnostic, and no other scheduled runtime has any
  dependency edge to an eligible one in the graph the scheduler builds from the same runtimes, so the rest
  of the turn never waits for a detached result.\<close>

theorem detached_runtimes_are_leaves:
  assumes names: "distinct (map m_name scheduled)"
  shows "mset (dp_eligible (plan_turn_detachment policy scheduled))
        + mset (map fst (dp_diagnostics (plan_turn_detachment policy scheduled))) =
      mset (map m_name (filter (\<lambda>c. is_turn_detached_runtime (get_runtime_spec c)) scheduled))
    \<and> list_all (\<lambda>rt. list_all (\<lambda>n. n = m_name rt
        \<or> n \<notin> set (ds_all (collect_dependencies rt (build_capability_providers scheduled))))
      (dp_eligible (plan_turn_detachment policy scheduled))) scheduled"
proof -
  let ?detached = "\<lambda>c. is_turn_detached_runtime (get_runtime_spec c)"
  let ?ok = "filter (may_detach policy scheduled) scheduled"
  have "distinct (map m_name ?ok)" using names by (rule distinct_map_filter)
  then have eligible: "dp_eligible (plan_turn_detachment policy scheduled) = map m_name ?ok"
    unfolding plan_turn_detachment_def by (simp add: plan_fold js_add_all_distinct)
  have diagnosed: "map fst (dp_diagnostics (plan_turn_detachment policy scheduled)) =
      map m_name (filter (\<lambda>c. ?detached c \<and> \<not> may_detach policy scheduled c) scheduled)"
    unfolding plan_turn_detachment_def by (simp add: plan_fold)
  have "filter_mset (may_detach policy scheduled) (mset xs) + filter_mset (\<lambda>c. ?detached c \<and> \<not> may_detach policy scheduled c) (mset xs)
      = filter_mset ?detached (mset xs)" for xs
    by (induction xs) (auto simp: may_detach_def)
  from arg_cong[OF this[of scheduled], of "image_mset m_name"]
  have all: "mset (map m_name ?ok) + mset (map m_name (filter (\<lambda>c. ?detached c \<and> \<not> may_detach policy scheduled c) scheduled))
      = mset (map m_name (filter ?detached scheduled))" by simp
  have leaf: "m_name c = m_name rt \<or> m_name c \<notin> set (ds_all (collect_dependencies rt (build_capability_providers scheduled)))"
    if c: "c \<in> set ?ok" and rt: "rt \<in> set scheduled" for c rt
    using edge_means_dependency[OF names, of c rt] c rt by (auto simp: may_detach_def list_all_iff)
  show ?thesis
    unfolding eligible diagnosed using all leaf by (simp add: list_all_iff)
qed

definition detached_pair :: "manifest list" where
  "detached_pair = [(bare_manifest ''picture'' ''p'')\<lparr> m_runtime_type := Some FunctionRuntime,
       m_turn_completion := Some \<lparr> tc_mode = Some Detached, tc_settle = None, tc_max_settle_wait_ms = None,
         tc_max_queue_ms = None, tc_max_execution_ms = None \<rparr>,
       m_effects := Some \<lparr> ed_reads = None, ed_writes = Some [''assets:*''], ed_parallel_safe = None \<rparr> \<rparr>,
     (bare_manifest ''caption'' ''p'')\<lparr> m_after := Some [DepName ''story''] \<rparr>]"

lemma detached_runtimes_are_leaves_witness:
  "dp_eligible (plan_turn_detachment (\<lambda>_. None) detached_pair) = [''picture'']
    \<and> mset (dp_eligible (plan_turn_detachment (\<lambda>_. None) detached_pair))
      + mset (map fst (dp_diagnostics (plan_turn_detachment (\<lambda>_. None) detached_pair))) = {# ''picture'' #}"
proof -
  have "distinct (map m_name detached_pair)" by (simp add: detached_pair_def bare_manifest_def)
  note t = detached_runtimes_are_leaves[OF this, of "\<lambda>_. None"]
  have "dp_eligible (plan_turn_detachment (\<lambda>_. None) detached_pair) = [''picture'']"
    by code_simp
  moreover have "map m_name (filter (\<lambda>c. is_turn_detached_runtime (get_runtime_spec c)) detached_pair) = [''picture'']"
    by code_simp
  ultimately show ?thesis using t by simp
qed

subsection \<open>The guard lets isolated effects through only\<close>

text \<open>The namespaces a proposal writes, and whether it writes assets or display parts instead.\<close>

definition written_namespaces :: "proposal_body \<Rightarrow> string list" where
  "written_namespaces b = (case b of DataSet n \<Rightarrow> [n] | DataUpdate n \<Rightarrow> [n] | DataDelete n \<Rightarrow> [n] | DataBatch ns \<Rightarrow> ns | _ \<Rightarrow> [])"

definition isolated_body :: "proposal_body \<Rightarrow> bool" where
  "isolated_body b = (case b of OtherProposal _ \<Rightarrow> False | _ \<Rightarrow> True)"

lemma first_refusal_None: "first_refusal m ns = None \<longleftrightarrow> list_all (\<lambda>n. namespace_refusal m n = None) ns"
  by (induction ns) (auto split: option.split)

lemma presentation_declares:
  assumes "n \<in> set (presentation_writes m)"
  shows "''plugin-data:self:'' @ n \<in> set (or_else (Option.bind (m_effects m) ed_writes) [])"
proof -
  obtain w where w: "w \<in> set (or_else (Option.bind (m_effects m) ed_writes) [])" "presentation_namespace w = Some n"
    using assms by (auto simp: presentation_writes_def mem_map_filter)
  then obtain r where "w = ''plugin-data:self:'' @ r" "presentation_namespace w = Some n"
    by (auto simp: presentation_namespace_def starts_with_iff split: if_splits)
  then have "w = ''plugin-data:self:'' @ n" by (auto simp: presentation_namespace_def split: if_splits list.splits)
  then show ?thesis using w by simp
qed

text \<open>Whatever a detached run returns, a proposal its guard accepts is an asset, a display part or plugin
  data of the run's own plugin, never another kind of proposal; the plugin data is in namespaces that the
  manifest's write effects declare, and never in a namespace reserved for the framework.\<close>

lemma detached_guard_confines:
  assumes "detached_guard m p = None"
  shows "isolated_body (pp_body p)
    \<and> list_all (\<lambda>n. \<not> starts_with n ''_'' \<and> declared_write_allows m (''plugin-data:self:'' @ n)) (written_namespaces (pp_body p))"
proof (cases "m_presentation m")
  case None
  then show ?thesis
    using assms by (cases "pp_body p") (auto simp: detached_guard_def isolated_body_def written_namespaces_def
      namespace_refusal_def first_refusal_None list_all_iff split: if_splits)
next
  case (Some d)
  have allows: "declared_write_allows m (''plugin-data:self:'' @ n)" if "n \<in> set (presentation_writes m)" for n
    using presentation_declares[OF that] by (auto simp: declared_write_allows_def list_ex_iff)
  show ?thesis
    using assms Some allows by (cases "pp_body p") (auto simp: detached_guard_def presentation_guard_def isolated_body_def
      written_namespaces_def list_all_iff list_ex_iff Let_def split: if_splits)
qed

end
