(* ===== verification/EventChain.thy ===== *)
theory EventChain
  imports Scheduling
begin

text \<open>
  The event fan-out of a turn (\<open>packages/runtime/src/trigger/turn-event-chain.ts\<close>) and the parallel executor
  of its levels (\<open>packages/runtime/src/schedule/parallel-executor.ts\<close>). The execution of a runtime is the
  parameter \<open>exec\<close>: given the results so far and the event, it settles with a result or an error text.
  Because a runtime runs at most once in a chain, which is proved here, a function of these arguments is
  as general as an effectful executor. \<open>uuid\<close> gives the run ID of an identity, \<open>now\<close> is the clock.
  \<open>ch_runs\<close> records the executions in their order; nothing reads it.
\<close>

subsection \<open>The parallel executor\<close>

definition identity_result :: "(string \<Rightarrow> string) \<Rightarrow> string \<Rightarrow> string \<Rightarrow> manifest \<Rightarrow> runtime_status \<Rightarrow> runtime_result" where
  "identity_result uuid turn now rt st = \<lparr> rr_plugin_id = m_plugin_id rt, rr_runtime_id = m_name rt,
     rr_run_id = uuid (m_name rt), rr_turn_id = turn, rr_status = st, rr_output = None, rr_events = None,
     rr_completion = None, rr_canonical = None, rr_error = None, rr_fault = None, rr_timestamp = now \<rparr>"

definition settled_result :: "(string \<Rightarrow> string) \<Rightarrow> string \<Rightarrow> string \<Rightarrow> manifest \<Rightarrow> string + runtime_result \<Rightarrow> runtime_result" where
  "settled_result uuid turn now rt outcome = (case outcome of Inr r \<Rightarrow> r
     | Inl err \<Rightarrow> (identity_result uuid turn now rt RsFailed)\<lparr> rr_error := Some err \<rparr>)"

definition execute_parallel :: "(string \<Rightarrow> string) \<Rightarrow> string \<Rightarrow> string \<Rightarrow> manifest list \<Rightarrow> (manifest \<Rightarrow> string + runtime_result) \<Rightarrow> result_map" where
  "execute_parallel uuid turn now rts run =
     foldl (\<lambda>m rt. jm_set (m_name rt) (settled_result uuid turn now rt (run rt)) m) [] rts"

definition make_skipped_result :: "(string \<Rightarrow> string) \<Rightarrow> string \<Rightarrow> string \<Rightarrow> manifest \<Rightarrow> string \<Rightarrow> string \<Rightarrow>
    (string \<times> json) list \<Rightarrow> runtime_result" where
  "make_skipped_result uuid turn now rt reason by detail = (identity_result uuid turn now rt RsSkipped)\<lparr>
     rr_output := Some (jm_merge [(''skipped'', JBool True), (''reason'', JStr reason), (''skippedBy'', JStr by)] detail) \<rparr>"

definition is_required_upstream_satisfied :: "runtime_result option \<Rightarrow> bool" where
  "is_required_upstream_satisfied upstream = (case upstream of None \<Rightarrow> False
     | Some r \<Rightarrow> if rr_status r = RsSuccess then True else if rr_status r \<noteq> RsSkipped then False
         else output_flag r ''preGameDone'' \<or> output_flag r ''initialized'')"

subsection \<open>Events\<close>

type_synonym event_map = "(string, json) jmap"

definition collect_event :: "string \<Rightarrow> event_map \<times> (string \<times> string) list \<Rightarrow> json \<Rightarrow> event_map \<times> (string \<times> string) list" where
  "collect_event runtime = (\<lambda>(sink, dropped) evt. case json_property evt ''topic'' of
     Some (JStr topic) \<Rightarrow> if topic = [] then (sink, dropped)
       else if jm_has sink topic then (sink, dropped @ [(topic, runtime)])
       else (jm_set topic (case json_property evt ''data'' of Some d \<Rightarrow> if d = JNull then JObj [] else d | None \<Rightarrow> JObj []) sink, dropped)
   | _ \<Rightarrow> (sink, dropped))"

definition collect_events_from :: "event_map \<times> (string \<times> string) list \<Rightarrow> runtime_result \<Rightarrow> event_map \<times> (string \<times> string) list" where
  "collect_events_from s r = (if rr_status r \<noteq> RsSuccess then s
     else foldl (collect_event (rr_runtime_id r)) s (or_else (rr_events r) []))"

subsection \<open>The chain\<close>

record chain_args =
  ca_active :: "manifest list"
  ca_counts :: "(string, int) jmap"
  ca_since :: "(string, int) jmap"
  ca_setup :: setup_mirror
  ca_logical_turn :: int
  ca_turn_id :: string

record follower =
  fw_runtime :: string
  fw_plugin :: string
  fw_topic :: string
  fw_data :: json

record chain_state =
  ch_completed :: result_map
  ch_emitted :: event_map
  ch_deferred :: "follower list"
  ch_deferred_names :: "string list"
  ch_dropped :: "(string \<times> string) list"
  ch_runs :: "string list"

definition fanout_context :: "chain_args \<Rightarrow> string list \<Rightarrow> string \<Rightarrow> trigger_context" where
  "fanout_context a topics name = \<lparr> tx_logical_turn = ca_logical_turn a,
     tx_trigger_count = or_else (jm_get (ca_counts a) name) 0,
     tx_turns_since = or_else (jm_get (ca_since a) name) never_triggered, tx_pending_topics = topics \<rparr>"

definition chain_selects :: "chain_args \<Rightarrow> result_map \<Rightarrow> string list \<Rightarrow> manifest \<Rightarrow> bool" where
  "chain_selects a completed topics rt = (if jm_has completed (m_name rt) then False
     else if map_option tr_type (m_trigger rt) \<noteq> Some TrEvent then False
     else if is_setup_runtime rt \<and> is_setup_done_for_version (jm_get (ca_setup a) (m_name rt)) (m_version rt) then False
     else should_trigger rt (fanout_context a topics (m_name rt)))"

definition matched_event :: "event_map \<Rightarrow> manifest \<Rightarrow> (string \<times> json) option" where
  "matched_event events rt = Option.bind (Option.bind (m_trigger rt) tr_topic) (\<lambda>t. map_option (\<lambda>d. (t, d)) (jm_get events t))"

definition defer_or_batch :: "event_map \<Rightarrow> chain_state \<times> manifest list \<Rightarrow> manifest \<Rightarrow> chain_state \<times> manifest list" where
  "defer_or_batch events = (\<lambda>(s, batch) rt. case (m_execution rt, matched_event events rt) of
     (Some Background, Some (topic, data)) \<Rightarrow>
       if m_name rt \<in> set (ch_deferred_names s) then (s, batch)
       else (s\<lparr> ch_deferred_names := js_add (m_name rt) (ch_deferred_names s),
          ch_deferred := ch_deferred s @ [\<lparr> fw_runtime = m_name rt, fw_plugin = m_plugin_id rt, fw_topic = topic, fw_data = data \<rparr>] \<rparr>, batch)
   | _ \<Rightarrow> (s, batch @ [rt]))"

definition take_result :: "chain_state \<Rightarrow> string \<times> runtime_result \<Rightarrow> chain_state" where
  "take_result s = (\<lambda>(name, r). let (events, dropped) = collect_events_from (ch_emitted s, ch_dropped s) r
     in s\<lparr> ch_completed := jm_set name r (ch_completed s), ch_emitted := events, ch_dropped := dropped \<rparr>)"

definition skip_cyclic :: "(string \<Rightarrow> string) \<Rightarrow> string \<Rightarrow> string \<Rightarrow> manifest list \<Rightarrow> result_map \<Rightarrow> result_map" where
  "skip_cyclic uuid turn now cyclic completed = foldl (\<lambda>m rt. jm_set (m_name rt)
     (make_skipped_result uuid turn now rt ''dependency-cycle'' ''framework:dependencyCycle''
        [(''cyclePath'', JArr (map (JStr \<circ> m_name) cyclic))]) m) completed cyclic"

type_synonym executor = "result_map \<Rightarrow> manifest \<Rightarrow> (string \<times> json) option \<Rightarrow> string + runtime_result"

definition run_group :: "executor \<Rightarrow> (string \<Rightarrow> string) \<Rightarrow> string \<Rightarrow> string \<Rightarrow> event_map \<Rightarrow> chain_state \<Rightarrow> manifest list \<Rightarrow> chain_state" where
  "run_group exec uuid turn now events s grp =
     (let results = execute_parallel uuid turn now grp (\<lambda>rt. exec (ch_completed s) rt (matched_event events rt))
      in foldl take_result (s\<lparr> ch_runs := ch_runs s @ map m_name grp \<rparr>) results)"

text \<open>One pass of the loop: \<open>None\<close> when it breaks.\<close>

definition chain_batch :: "chain_args \<Rightarrow> chain_state \<Rightarrow> chain_state \<times> manifest list" where
  "chain_batch a s = foldl (defer_or_batch (ch_emitted s)) (s, [])
     (js_sort by_name (filter (chain_selects a (ch_completed s) (jm_keys (ch_emitted s))) (ca_active a)))"

definition run_batch :: "executor \<Rightarrow> (string \<Rightarrow> string) \<Rightarrow> string \<Rightarrow> chain_args \<Rightarrow> chain_state \<Rightarrow> manifest list \<Rightarrow> chain_state option" where
  "run_batch exec uuid now a s batch = (case schedule_by_dag batch
        (filter (\<lambda>rt. is_required_upstream_satisfied (jm_get (ch_completed s) (m_name rt))) (ca_active a)) of
     None \<Rightarrow> None
   | Some dag \<Rightarrow> (let events = ch_emitted s;
          s1 = s\<lparr> ch_completed := skip_cyclic uuid (ca_turn_id a) now (or_else (dr_cyclic dag) []) (ch_completed s), ch_emitted := [] \<rparr>
       in Some (foldl (run_group exec uuid (ca_turn_id a) now events) s1 (dr_groups dag))))"

fun chain_loop :: "executor \<Rightarrow> (string \<Rightarrow> string) \<Rightarrow> string \<Rightarrow> chain_args \<Rightarrow> nat \<Rightarrow> chain_state \<Rightarrow> chain_state option" where
  "chain_loop exec uuid now a 0 s = Some s"
| "chain_loop exec uuid now a (Suc depth) s = (if length (ch_emitted s) = 0 then Some s
     else let (s1, batch) = chain_batch a s in
       if length batch = 0 then Some s1
       else case run_batch exec uuid now a s1 batch of None \<Rightarrow> None
         | Some s2 \<Rightarrow> chain_loop exec uuid now a depth s2)"

definition run_event_chain :: "executor \<Rightarrow> (string \<Rightarrow> string) \<Rightarrow> string \<Rightarrow> chain_args \<Rightarrow> nat \<Rightarrow> result_map \<Rightarrow> chain_state option" where
  "run_event_chain exec uuid now a max_depth completed =
     (let (emitted, dropped) = foldl (\<lambda>s (name, r). collect_events_from s r) ([], []) completed
      in chain_loop exec uuid now a max_depth \<lparr> ch_completed = completed, ch_emitted = emitted,
           ch_deferred = [], ch_deferred_names = [], ch_dropped = dropped, ch_runs = [] \<rparr>)"

subsection \<open>Levels\<close>

lemma execute_parallel_eq:
  "distinct (map m_name rts) \<Longrightarrow>
     execute_parallel uuid turn now rts run = map (\<lambda>rt. (m_name rt, settled_result uuid turn now rt (run rt))) rts"
  by (simp add: execute_parallel_def foldl_map_of_keys)

lemma take_results:
  "ch_completed (foldl take_result s rs) = jm_merge (ch_completed s) rs
    \<and> ch_runs (foldl take_result s rs) = ch_runs s
    \<and> ch_deferred (foldl take_result s rs) = ch_deferred s
    \<and> ch_deferred_names (foldl take_result s rs) = ch_deferred_names s"
  by (induction rs arbitrary: s) (auto simp: take_result_def split: prod.splits)

lemma set_keys_merge: "fst ` set (jm_merge a b) = fst ` set a \<union> fst ` set b"
proof (induction b arbitrary: a)
  case (Cons p b)
  then show ?case by (cases p) simp
qed simp

lemma merge_extends:
  assumes "jm_wf b" and fresh: "fst ` set a \<inter> fst ` set b = {}"
  shows "jm_get a \<subseteq>\<^sub>m jm_get (jm_merge a b)"
  unfolding map_le_def
proof
  fix k assume "k \<in> dom (jm_get a)"
  then have "k \<notin> fst ` set b" using fresh by (auto simp: dom_map_of_conv_image_fst)
  then have "jm_get b k = None" by (simp add: map_of_eq_None_iff)
  then show "jm_get a k = jm_get (jm_merge a b) k" by (simp add: jm_get_merge[OF assms(1)])
qed

definition extends_chain :: "chain_state \<Rightarrow> string list \<Rightarrow> chain_state \<Rightarrow> bool" where
  "extends_chain s names s' \<longleftrightarrow> jm_get (ch_completed s) \<subseteq>\<^sub>m jm_get (ch_completed s')
     \<and> fst ` set (ch_completed s') = fst ` set (ch_completed s) \<union> set names
     \<and> ch_deferred s' = ch_deferred s \<and> ch_deferred_names s' = ch_deferred_names s"

lemma extends_chain_trans:
  assumes a: "extends_chain s A s1" and b: "extends_chain s1 B s2" and c: "set C = set A \<union> set B"
  shows "extends_chain s C s2"
proof -
  have "jm_get (ch_completed s) \<subseteq>\<^sub>m jm_get (ch_completed s2)"
    by (rule map_le_trans[of _ "jm_get (ch_completed s1)"]) (use a b in \<open>simp_all add: extends_chain_def\<close>)
  then show ?thesis using a b unfolding extends_chain_def c by (simp add: Un_assoc)
qed

lemma run_group_extends:
  assumes "distinct (map m_name grp)" "fst ` set (ch_completed s) \<inter> m_name ` set grp = {}"
  shows "extends_chain s (map m_name grp) (run_group exec uuid turn now events s grp)
    \<and> ch_runs (run_group exec uuid turn now events s grp) = ch_runs s @ map m_name grp"
proof -
  let ?rs = "execute_parallel uuid turn now grp (\<lambda>rt. exec (ch_completed s) rt (matched_event events rt))"
  have rs: "jm_wf ?rs" "fst ` set ?rs = m_name ` set grp"
    unfolding execute_parallel_eq[OF assms(1)] using assms(1) by (auto simp: comp_def image_image)
  then show ?thesis
    using assms(2) merge_extends[of ?rs "ch_completed s"]
    by (simp add: extends_chain_def run_group_def take_results set_keys_merge)
qed

lemma run_groups_extend:
  "distinct (map m_name (concat groups)) \<Longrightarrow> fst ` set (ch_completed s) \<inter> m_name ` set (concat groups) = {} \<Longrightarrow>
     extends_chain s (map m_name (concat groups)) (foldl (run_group exec uuid turn now events) s groups)
     \<and> ch_runs (foldl (run_group exec uuid turn now events) s groups) = ch_runs s @ map m_name (concat groups)"
proof (induction groups arbitrary: s)
  case Nil
  then show ?case by (simp add: extends_chain_def)
next
  case (Cons g gs)
  let ?s = "run_group exec uuid turn now events s g" and ?B = "m_name ` set (concat gs)"
  have d: "distinct (map m_name g)" "distinct (map m_name (concat gs))" "m_name ` set g \<inter> ?B = {}"
    using Cons.prems(1) by (simp_all only: concat.simps map_append distinct_append set_map)
  have f: "fst ` set (ch_completed s) \<inter> m_name ` set g = {}" "fst ` set (ch_completed s) \<inter> ?B = {}"
    using Cons.prems(2) by (simp_all only: concat.simps set_append image_Un Int_Un_distrib Un_empty)
  have g: "extends_chain s (map m_name g) ?s" "ch_runs ?s = ch_runs s @ map m_name g"
    using run_group_extends[OF d(1) f(1)] by blast+
  have "fst ` set (ch_completed ?s) \<inter> ?B = {}"
    using g(1) f(2) d(3) unfolding extends_chain_def set_map by blast
  note rest = Cons.IH[OF d(2) this]
  show ?case
    using g(2) rest extends_chain_trans[OF g(1), of "map m_name (concat gs)" _ "map m_name (concat (g # gs))"]
    by (simp del: set_concat)
qed

lemma skip_cyclic_merge: "skip_cyclic uuid turn now cyclic completed = jm_merge completed (map (\<lambda>rt. (m_name rt,
    make_skipped_result uuid turn now rt ''dependency-cycle'' ''framework:dependencyCycle''
      [(''cyclePath'', JArr (map (JStr \<circ> m_name) cyclic))])) cyclic)"
proof -
  have "foldl (\<lambda>m rt. jm_set (m_name rt) (f rt) m) completed rts = jm_merge completed (map (\<lambda>rt. (m_name rt, f rt)) rts)"
    for f rts by (induction rts arbitrary: completed) simp_all
  then show ?thesis by (simp add: skip_cyclic_def)
qed

lemma run_batch_extends:
  assumes names: "distinct (map m_name batch)" and fresh: "fst ` set (ch_completed s) \<inter> m_name ` set batch = {}"
  obtains s' runs where "run_batch exec uuid now a s batch = Some s'" "extends_chain s (map m_name batch) s'"
    "ch_runs s' = ch_runs s @ runs" "distinct runs" "set runs \<subseteq> m_name ` set batch"
proof -
  obtain dag where dag: "schedule_by_dag batch
      (filter (\<lambda>rt. is_required_upstream_satisfied (jm_get (ch_completed s) (m_name rt))) (ca_active a)) = Some dag"
    and m: "mset (concat (dr_groups dag) @ result_cyclic dag) = mset batch"
    by (rule schedule_facts[OF names]) blast
  let ?cyc = "or_else (dr_cyclic dag) []"
  have d: "distinct (map m_name (concat (dr_groups dag) @ ?cyc))"
    using names m by (metis mset_eq_imp_distinct_iff mset_map result_cyclic_def)
  have sets: "set (concat (dr_groups dag)) \<union> set ?cyc = set batch"
    using mset_eq_setD[OF m] by (simp add: result_cyclic_def)
  define s1 where "s1 = s\<lparr> ch_completed := skip_cyclic uuid (ca_turn_id a) now ?cyc (ch_completed s), ch_emitted := [] \<rparr>"
  have dc: "distinct (map m_name ?cyc)" "m_name ` set (concat (dr_groups dag)) \<inter> m_name ` set ?cyc = {}"
    "distinct (map m_name (concat (dr_groups dag)))"
    using d by (simp_all only: map_append distinct_append set_map)
  have fc: "fst ` set (ch_completed s) \<inter> m_name ` set ?cyc = {}" "fst ` set (ch_completed s) \<inter> m_name ` set (concat (dr_groups dag)) = {}"
    using fresh unfolding sets[symmetric] image_Un by blast+
  have "jm_get (ch_completed s) \<subseteq>\<^sub>m jm_get (ch_completed s1)"
    unfolding s1_def chain_state.simps(1) using fc(1) dc(1) merge_extends[of _ "ch_completed s"]
    by (simp add: skip_cyclic_merge comp_def image_image)
  then have s1: "extends_chain s (map m_name ?cyc) s1" "ch_runs s1 = ch_runs s"
    by (simp_all add: s1_def extends_chain_def skip_cyclic_merge set_keys_merge image_image)
  let ?s2 = "foldl (run_group exec uuid (ca_turn_id a) now (ch_emitted s)) s1 (dr_groups dag)"
  have "fst ` set (ch_completed s1) \<inter> m_name ` set (concat (dr_groups dag)) = {}"
    using s1(1) fc(2) dc(2) unfolding extends_chain_def set_map by blast
  then have s2: "extends_chain s1 (map m_name (concat (dr_groups dag))) ?s2" "ch_runs ?s2 = ch_runs s1 @ map m_name (concat (dr_groups dag))"
    using run_groups_extend[OF dc(3)] by blast+
  have names_eq: "set (map m_name batch) = set (map m_name ?cyc) \<union> set (map m_name (concat (dr_groups dag)))"
    unfolding set_map sets[symmetric] by blast
  have "extends_chain s (map m_name batch) ?s2"
    by (rule extends_chain_trans[OF s1(1) s2(1) names_eq])
  moreover have "run_batch exec uuid now a s batch = Some ?s2"
    by (simp add: run_batch_def dag s1_def Let_def)
  moreover have "set (map m_name (concat (dr_groups dag))) \<subseteq> m_name ` set batch"
    using names_eq by auto
  ultimately show thesis using s1(2) s2(2) dc(3) by (intro that[of ?s2 "map m_name (concat (dr_groups dag))"]) simp_all
qed

subsection \<open>One pass\<close>

definition goes_background :: "event_map \<Rightarrow> manifest \<Rightarrow> bool" where
  "goes_background events rt \<longleftrightarrow> m_execution rt = Some Background \<and> matched_event events rt \<noteq> None"

lemma defer_fold:
  assumes "foldl (defer_or_batch events) (s, batch) rts = (s', batch')"
  shows "batch' = batch @ filter (\<lambda>rt. \<not> goes_background events rt) rts
    \<and> ch_completed s' = ch_completed s \<and> ch_emitted s' = ch_emitted s \<and> ch_runs s' = ch_runs s
    \<and> (map fw_runtime (ch_deferred s) = ch_deferred_names s \<longrightarrow> map fw_runtime (ch_deferred s') = ch_deferred_names s')
    \<and> (distinct (ch_deferred_names s) \<longrightarrow> distinct (ch_deferred_names s'))
    \<and> set (ch_deferred_names s') = set (ch_deferred_names s) \<union> m_name ` {rt \<in> set rts. goes_background events rt}"
  using assms
proof (induction rts arbitrary: s batch)
  case (Cons rt rts)
  obtain s1 batch1 where step: "defer_or_batch events (s, batch) rt = (s1, batch1)" by fastforce
  have one: "batch1 = batch @ (if goes_background events rt then [] else [rt])
      \<and> ch_completed s1 = ch_completed s \<and> ch_emitted s1 = ch_emitted s \<and> ch_runs s1 = ch_runs s
      \<and> (map fw_runtime (ch_deferred s) = ch_deferred_names s \<longrightarrow> map fw_runtime (ch_deferred s1) = ch_deferred_names s1)
      \<and> (distinct (ch_deferred_names s) \<longrightarrow> distinct (ch_deferred_names s1))
      \<and> set (ch_deferred_names s1) = set (ch_deferred_names s) \<union> (if goes_background events rt then {m_name rt} else {})"
    using step by (auto simp: defer_or_batch_def goes_background_def js_add_def split: option.splits execution_mode.splits if_splits)
  have rest: "foldl (defer_or_batch events) (s1, batch1) rts = (s', batch')" using Cons.prems step by simp
  show ?case using one Cons.IH[OF rest] by auto
qed auto

lemma chain_selects_facts:
  assumes "chain_selects a completed (jm_keys events) rt"
  shows "m_name rt \<notin> fst ` set completed" "matched_event events rt \<noteq> None" "m_trigger rt \<noteq> None"
proof -
  have ev: "map_option tr_type (m_trigger rt) = Some TrEvent" and "should_trigger rt (fanout_context a (jm_keys events) (m_name rt))"
    and fresh: "m_name rt \<notin> fst ` set completed"
    using assms by (auto simp: chain_selects_def split: if_splits)
  then obtain t where "Option.bind (m_trigger rt) tr_topic = Some t" "t \<in> fst ` set events"
    by (auto simp: should_trigger_def fanout_context_def Let_def split: if_splits option.splits)
  moreover from this(2) obtain d where "jm_get events t = Some d"
    by (cases "jm_get events t") (auto simp: map_of_eq_None_iff)
  ultimately show "matched_event events rt \<noteq> None" by (simp add: matched_event_def)
  show "m_name rt \<notin> fst ` set completed" by (rule fresh)
  show "m_trigger rt \<noteq> None" using ev by auto
qed

definition background :: "chain_args \<Rightarrow> string set" where
  "background a = m_name ` {rt \<in> set (ca_active a). m_execution rt = Some Background}"

definition chain_ok :: "chain_args \<Rightarrow> result_map \<Rightarrow> chain_state \<Rightarrow> bool" where
  "chain_ok a before s \<longleftrightarrow> distinct (ch_runs s) \<and> set (ch_runs s) \<subseteq> fst ` set (ch_completed s)
     \<and> set (ch_runs s) \<inter> fst ` set before = {} \<and> fst ` set before \<subseteq> fst ` set (ch_completed s)
     \<and> jm_get before \<subseteq>\<^sub>m jm_get (ch_completed s)
     \<and> map fw_runtime (ch_deferred s) = ch_deferred_names s \<and> distinct (ch_deferred_names s)
     \<and> set (ch_deferred_names s) \<subseteq> background a
     \<and> set (ch_runs s) \<subseteq> m_name ` set (ca_active a) - background a"

lemma chain_batch_facts:
  assumes names: "distinct (map m_name (ca_active a))" and batch: "chain_batch a s = (s1, batch)" and ok: "chain_ok a before s"
  shows "chain_ok a before s1 \<and> distinct (map m_name batch) \<and> fst ` set (ch_completed s1) \<inter> m_name ` set batch = {}
    \<and> m_name ` set batch \<subseteq> m_name ` set (ca_active a) - background a"
proof -
  let ?next = "js_sort by_name (filter (chain_selects a (ch_completed s) (jm_keys (ch_emitted s))) (ca_active a))"
  note d = defer_fold[OF batch[unfolded chain_batch_def]]
  have sel: "m_name rt \<notin> fst ` set (ch_completed s) \<and> matched_event (ch_emitted s) rt \<noteq> None \<and> rt \<in> set (ca_active a)"
    if "rt \<in> set ?next" for rt
    using that chain_selects_facts[of a "ch_completed s" "ch_emitted s" rt] by auto
  have b: "batch = filter (\<lambda>rt. \<not> goes_background (ch_emitted s) rt) ?next" using d by simp
  have dist: "distinct (map m_name batch)"
    unfolding b using names by (simp add: distinct_map_filter)
  have fore: "m_name rt \<notin> background a" if "rt \<in> set batch" for rt
  proof
    assume "m_name rt \<in> background a"
    then obtain r where "r \<in> set (ca_active a)" "m_execution r = Some Background" "m_name r = m_name rt"
      by (auto simp: background_def)
    then have "m_execution rt = Some Background"
      using distinct_map_inj_on[OF names] sel that b by (metis filter_is_subset subset_iff)
    then show False using that sel[of rt] unfolding b by (simp add: goes_background_def)
  qed
  have deferred: "m_name ` {rt \<in> set ?next. goes_background (ch_emitted s) rt} \<subseteq> background a"
    using sel by (auto simp: background_def goes_background_def)
  have ok1: "chain_ok a before s1"
  proof -
    have same: "ch_completed s1 = ch_completed s" "ch_runs s1 = ch_runs s" using d by simp_all
    have fw: "map fw_runtime (ch_deferred s) = ch_deferred_names s" "distinct (ch_deferred_names s)"
      "set (ch_deferred_names s) \<subseteq> background a" using ok by (simp_all add: chain_ok_def)
    have "map fw_runtime (ch_deferred s1) = ch_deferred_names s1" "distinct (ch_deferred_names s1)"
      using d fw(1,2) by simp_all
    moreover have "set (ch_deferred_names s1) \<subseteq> background a"
      using d fw(3) deferred by (simp only: Un_subset_iff)
    ultimately show ?thesis using ok unfolding chain_ok_def same by (elim conjE) (intro conjI)
  qed
  have inbatch: "rt \<in> set ?next" if "rt \<in> set batch" for rt using that unfolding b by simp
  have fresh: "fst ` set (ch_completed s1) \<inter> m_name ` set batch = {}"
  proof -
    have "ch_completed s1 = ch_completed s" using d by simp
    moreover have "n \<notin> m_name ` set batch" if "n \<in> fst ` set (ch_completed s)" for n
      using that sel[OF inbatch] by blast
    ultimately show ?thesis by (simp only: disjoint_iff) blast
  qed
  have act: "m_name ` set batch \<subseteq> m_name ` set (ca_active a) - background a"
  proof
    fix n assume "n \<in> m_name ` set batch"
    then obtain rt where rt: "rt \<in> set batch" "n = m_name rt" by blast
    then show "n \<in> m_name ` set (ca_active a) - background a"
      using sel[OF inbatch[OF rt(1)]] fore[OF rt(1)] by simp
  qed
  show ?thesis using ok1 dist fresh act by (intro conjI)
qed

lemma chain_ok_extends:
  assumes ok: "chain_ok a before s" and ext: "extends_chain s names s'" and runs: "ch_runs s' = ch_runs s @ runs"
    and new: "distinct runs" "set runs \<subseteq> set names" "fst ` set (ch_completed s) \<inter> set names = {}"
    and act: "set names \<subseteq> m_name ` set (ca_active a) - background a"
  shows "chain_ok a before s'"
proof -
  have e: "jm_get (ch_completed s) \<subseteq>\<^sub>m jm_get (ch_completed s')"
    and keys: "fst ` set (ch_completed s') = fst ` set (ch_completed s) \<union> set names"
    and df: "ch_deferred s' = ch_deferred s" "ch_deferred_names s' = ch_deferred_names s"
    using ext by (simp_all add: extends_chain_def)
  have o: "distinct (ch_runs s)" "set (ch_runs s) \<subseteq> fst ` set (ch_completed s)" "set (ch_runs s) \<inter> fst ` set before = {}"
    "fst ` set before \<subseteq> fst ` set (ch_completed s)" "jm_get before \<subseteq>\<^sub>m jm_get (ch_completed s)"
    "map fw_runtime (ch_deferred s) = ch_deferred_names s" "distinct (ch_deferred_names s)"
    "set (ch_deferred_names s) \<subseteq> background a" "set (ch_runs s) \<subseteq> m_name ` set (ca_active a) - background a"
    using ok by (simp_all only: chain_ok_def)
  have out: "set runs \<inter> fst ` set (ch_completed s) = {}" using new(2,3) by blast
  have "set (ch_runs s) \<inter> set runs = {}" using out o(2) by blast
  then have 1: "distinct (ch_runs s')" using o(1) new(1) by (simp add: runs)
  have 2: "set (ch_runs s') \<subseteq> fst ` set (ch_completed s')" unfolding runs keys set_append using o(2) new(2) by blast
  have 3: "set (ch_runs s') \<inter> fst ` set before = {}" unfolding runs set_append using o(3,4) out by blast
  have 4: "fst ` set before \<subseteq> fst ` set (ch_completed s')" unfolding keys using o(4) by blast
  have 5: "set (ch_runs s') \<subseteq> m_name ` set (ca_active a) - background a"
    unfolding runs set_append using o(9) new(2) act by (intro Un_least) (assumption, rule order_trans)
  show ?thesis
    unfolding chain_ok_def df using 1 2 3 4 map_le_trans[OF o(5) e] o(6-8) 5 by (intro conjI)
qed

lemma chain_loop_ok:
  assumes names: "distinct (map m_name (ca_active a))"
  shows "chain_ok a before s \<Longrightarrow> \<exists>s'. chain_loop exec uuid now a depth s = Some s' \<and> chain_ok a before s'"
proof (induction depth arbitrary: s)
  case (Suc depth)
  obtain s1 batch where b: "chain_batch a s = (s1, batch)" by fastforce
  note facts = chain_batch_facts[OF names b Suc.prems]
  have bd: "distinct (map m_name batch)" and fresh: "fst ` set (ch_completed s1) \<inter> m_name ` set batch = {}"
    and act: "m_name ` set batch \<subseteq> m_name ` set (ca_active a) - background a" and ok1: "chain_ok a before s1"
    by (rule facts[THEN conjunct2, THEN conjunct1], rule facts[THEN conjunct2, THEN conjunct2, THEN conjunct1],
        rule facts[THEN conjunct2, THEN conjunct2, THEN conjunct2], rule facts[THEN conjunct1])
  obtain s2 runs where r: "run_batch exec uuid now a s1 batch = Some s2" "extends_chain s1 (map m_name batch) s2"
    "ch_runs s2 = ch_runs s1 @ runs" "distinct runs" "set runs \<subseteq> m_name ` set batch"
    by (rule run_batch_extends[OF bd fresh])
  have ok2: "chain_ok a before s2"
    by (rule chain_ok_extends[OF ok1 r(2,3,4)]) (simp_all only: set_map r(5) fresh act)
  then obtain s' where s': "chain_loop exec uuid now a depth s2 = Some s'" "chain_ok a before s'"
    using Suc.IH by blast
  show ?case
    using s' r(1) ok1 Suc.prems by (simp add: b)
qed simp

text \<open>C14: The event chain of a turn always ends, and it runs no runtime twice: no runtime that had a result
  before the chain or got one in it is run again, results are never replaced, each deferred follower is
  handed over once, every follower handed over is a background runtime and no background runtime runs in the
  turn itself. This holds for every executor and every depth, when the active runtimes have distinct names.\<close>

theorem event_chain_runs_once:
  assumes "distinct (map m_name (ca_active a))"
  shows "\<exists>s. run_event_chain exec uuid now a max_depth completed = Some s
    \<and> distinct (ch_runs s) \<and> set (ch_runs s) \<inter> set (jm_keys completed) = {}
    \<and> jm_get completed \<subseteq>\<^sub>m jm_get (ch_completed s) \<and> set (ch_runs s) \<subseteq> set (jm_keys (ch_completed s))
    \<and> distinct (map fw_runtime (ch_deferred s))
    \<and> set (ch_runs s) \<subseteq> m_name ` set (ca_active a) - background a
    \<and> set (map fw_runtime (ch_deferred s)) \<subseteq> background a"
proof -
  obtain emitted dropped where e: "foldl (\<lambda>s (name, r). collect_events_from s r) ([], []) completed = (emitted, dropped)"
    by fastforce
  let ?s = "\<lparr> ch_completed = completed, ch_emitted = emitted, ch_deferred = [], ch_deferred_names = [],
      ch_dropped = dropped, ch_runs = [] \<rparr>"
  have "chain_ok a completed ?s" by (simp add: chain_ok_def)
  from chain_loop_ok[OF assms this, of exec uuid now max_depth]
  obtain s' where "chain_loop exec uuid now a max_depth ?s = Some s'" "chain_ok a completed s'" by blast
  then show ?thesis
    unfolding run_event_chain_def e Let_def prod.case by (intro exI[of _ s']) (auto simp: chain_ok_def)
qed


definition listener :: "string \<Rightarrow> string \<Rightarrow> manifest" where
  "listener name topic = (bare_manifest name ''p'')\<lparr> m_trigger := Some (default_trigger\<lparr> tr_type := TrEvent, tr_topic := Some topic \<rparr>) \<rparr>"

definition chain_sample :: chain_args where
  "chain_sample = \<lparr> ca_active = [listener ''ping'' ''a'', listener ''pong'' ''b''],
     ca_counts = [], ca_since = [], ca_setup = [], ca_logical_turn = 1, ca_turn_id = ''t'' \<rparr>"

definition emits :: "string \<Rightarrow> string \<Rightarrow> runtime_result" where
  "emits name topic = (identity_result id ''t'' ''now'' (bare_manifest name ''p'') RsSuccess)\<lparr>
     rr_events := Some [JObj [(''topic'', JStr topic)]] \<rparr>"

definition echo :: executor where
  "echo = (\<lambda>_ rt _. Inr (emits (m_name rt) (if m_name rt = ''ping'' then ''b'' else ''a'')))"

lemma event_chain_runs_once_witness:
  "map_option ch_runs (run_event_chain echo id ''now'' chain_sample 8 [(''story'', emits ''story'' ''a'')]) = Some [''ping'', ''pong'']
    \<and> (\<exists>s. run_event_chain echo id ''now'' chain_sample 8 [(''story'', emits ''story'' ''a'')] = Some s \<and> distinct (ch_runs s))"
proof -
  have "distinct (map m_name (ca_active chain_sample))" by (simp add: chain_sample_def listener_def bare_manifest_def)
  note t = event_chain_runs_once[OF this, of echo id "''now''" 8 "[(''story'', emits ''story'' ''a'')]"]
  have "map_option ch_runs (run_event_chain echo id ''now'' chain_sample 8 [(''story'', emits ''story'' ''a'')]) = Some [''ping'', ''pong'']"
    by code_simp
  then show ?thesis using t by blast
qed

end
