(* ===== verification/StoreRecords.thy ===== *)
theory StoreRecords
  imports LifecycleStore PluginData
begin

text \<open>
  The records of the memory store and the functions on one record
  (\<open>packages/store/src/records\<close>, \<open>packages/store/src/common/player-input-message.ts\<close>,
  \<open>packages/store/src/common/turn-message-stats.ts\<close>, \<open>packages/store/src/common/lorebook-owner.ts\<close>).
  A record with an \<open>id\<close> and a \<open>createdAt\<close> extends \<open>keyed\<close>, and one that also belongs to a session
  extends \<open>row\<close>. Fields of type \<open>unknown\<close> are \<open>json\<close>, with \<open>None\<close> for an absent field. An embedding is a list of
  rationals: the values of its \<open>Float32Array\<close>, which are finite.
\<close>

subsection \<open>Records\<close>

record row = keyed +
  row_session :: string

datatype session_status = SessionActive | SessionPaused | SessionEnded

record session_record = keyed +
  srec_world :: "string option"
  srec_status :: session_status
  srec_locale :: string
  srec_plugins :: "string list"
  srec_updated :: string
  srec_metadata :: "(string \<times> json) list option"
  srec_model :: "int option"
  srec_model_at :: "string option"
  srec_overrides :: "(string \<times> string) list option"
  srec_phase :: phase
  srec_turns :: int
  srec_setup :: setup_mirror
  srec_seats :: json

datatype exec_origin = PlayerOrigin | ContinuationOrigin | ManualOrigin | BackgroundOrigin | RecursiveOrigin | ResumeOrigin

datatype commit_status = CommitPending | CommitCommitted | CommitFailed

record turn_result = row +
  tres_turn :: string
  tres_results :: json
  tres_conflicts :: "json option"
  tres_audit :: "json option"
  tres_origin :: exec_origin
  tres_parent :: "string option"
  tres_retry :: "(string \<times> string list) option"
  tres_status :: commit_status
  tres_duration :: rat

record tool_call_row = row +
  tcall_turn :: string
  tcall_tool :: string
  tcall_plugin :: string
  tcall_runtime :: string
  tcall_input :: json
  tcall_output :: json
  tcall_duration :: rat
  tcall_approval :: string

record event_row = row +
  evt_type :: string
  evt_topic :: string
  evt_payload :: json
  evt_turn :: "string option"

record message_row = row +
  msg_role :: string
  msg_content :: string
  msg_metadata :: "json option"

record trace_row = row +
  trc_type :: string
  trc_trace :: string
  trc_turn :: string
  trc_payload :: json

record runtime_output = row +
  rout_turn :: string
  rout_result :: "string option"
  rout_plugin :: string
  rout_runtime :: string
  rout_timestamp :: string
  rout_results :: json
  rout_meta :: json

record interaction_row = row +
  inter_turn :: "string option"
  inter_timestamp :: string
  inter_source :: string
  inter_channel :: string
  inter_type :: string
  inter_plugin :: "string option"
  inter_runtime :: "string option"
  inter_payload :: json
  inter_meta :: "json option"

record turn_message = row +
  tmsg_turn :: string
  tmsg_source :: string
  tmsg_plugin :: "string option"
  tmsg_runtime :: "string option"
  tmsg_role :: string
  tmsg_name :: "string option"
  tmsg_content :: string
  tmsg_ui :: "json option"
  tmsg_pending :: "json option"
  tmsg_order :: int
  tmsg_compacted :: "string option"

record stored_turn_message = turn_message +
  tmsg_seq :: int

record player_input = row +
  pin_turn :: string
  pin_form :: string
  pin_values :: json

record session_summary = row +
  sum_start :: string
  sum_end :: string
  sum_content :: string
  sum_focus :: "string list"

record character_row = row +
  chr_name :: string
  chr_aliases :: "string list option"
  chr_type :: string
  chr_description :: "string option"
  chr_fields :: "json option"
  chr_version :: int
  chr_updated :: string

record schema_row =
  sch_session :: string
  sch_schema :: json
  sch_created :: string
  sch_updated :: string

datatype lorebook_owner = WorldOwner | PluginOwner string | PlayerOwner

record lorebook_row = row +
  lore_owner :: lorebook_owner
  lore_keys :: "string list"
  lore_content :: string
  lore_constant :: bool
  lore_position :: string
  lore_order :: rat
  lore_enabled :: bool
  lore_extra :: "json option"
  lore_updated :: string

record import_row =
  imp_id :: string
  imp_session :: string
  imp_target :: string
  imp_plugin :: "string option"
  imp_namespace :: "string option"
  imp_key :: "string option"
  imp_world :: string
  imp_source :: string
  imp_digest :: string
  imp_hash :: string
  imp_schema :: "string option"
  imp_derived :: "string list option"
  imp_at :: string
  imp_managed :: bool

text \<open>Of a continuation: the fields a resolved suspension keeps, the lists it empties, and the rest.\<close>

record continuation =
  cont_lifecycle :: json
  cont_messages :: "json list"
  cont_tool_calls :: "json list"
  cont_proposals :: "json list"
  cont_scopes :: "json list"
  cont_context :: json
  cont_under :: json
  cont_locale :: "string option"
  cont_logical :: "int option"
  cont_number :: "int option"
  cont_rest :: "(string \<times> json) list"

record suspension_row = row +
  susp_turn :: string
  susp_runtime :: string
  susp_plugin :: string
  susp_reason :: string
  susp_schema :: json
  susp_continuation :: continuation
  susp_resolved :: "string option"

datatype snapshot_kind = AutoSnapshot | ManualSnapshot | ForkSnapshot

record snapshot_row = row +
  snap_turn :: string
  snap_kind :: snapshot_kind
  snap_parent :: "string option"
  snap_payload :: json

record export_row =
  exp_session :: string
  exp_plugin :: string
  exp_runtime :: string
  exp_record :: string
  exp_revision :: int
  exp_version :: string
  exp_digest :: string
  exp_result :: string
  exp_value :: json
  exp_at :: string

record world_row = keyed +
  wrd_name :: string
  wrd_description :: string
  wrd_lore :: "string option"
  wrd_tags :: "string list option"
  wrd_locale :: "string option"
  wrd_dimensions :: "json option"
  wrd_metadata :: "(string \<times> json) list option"
  wrd_updated :: "string option"

record setting_row =
  stg_key :: string
  stg_value :: json
  stg_updated :: string

record vector_target =
  vt_registry :: int
  vt_model :: string
  vt_dim :: nat
  vt_table :: string

record vector_row =
  vec_session :: string
  vec_plugin :: string
  vec_namespace :: string
  vec_key :: string
  vec_dim :: nat
  vec_embedding :: "rat list"
  vec_payload :: "string option"

subsection \<open>Sessions and worlds\<close>

text \<open>A patch: \<open>None\<close> is a key that is not in it. A metadata value \<open>None\<close> is \<open>undefined\<close>.\<close>

record session_patch =
  pt_status :: "session_status option"
  pt_plugins :: "string list option"
  pt_locale :: "string option"
  pt_updated :: "string option"
  pt_metadata :: "(string \<times> json option) list"
  pt_model :: "int option option"
  pt_model_at :: "string option option"
  pt_overrides :: "(string \<times> string) list option option"
  pt_phase :: "phase option"
  pt_turns :: "int option"
  pt_setup :: "setup_mirror option"
  pt_seats :: "json option"

definition merge_session_patch :: "session_record \<Rightarrow> session_patch \<Rightarrow> session_record" where
  "merge_session_patch existing patch =
     (let all = jm_merge (map (\<lambda>(k, v). (k, Some v)) (or_else (srec_metadata existing) [])) (pt_metadata patch);
          metadata = List.map_filter (\<lambda>(k, v). map_option (\<lambda>j. (k, j)) v) all
      in existing\<lparr> srec_status := or_else (pt_status patch) (srec_status existing),
           srec_plugins := or_else (pt_plugins patch) (srec_plugins existing),
           srec_locale := or_else (pt_locale patch) (srec_locale existing),
           srec_updated := or_else (pt_updated patch) (srec_updated existing),
           srec_model := or_else (pt_model patch) (srec_model existing),
           srec_model_at := or_else (pt_model_at patch) (srec_model_at existing),
           srec_overrides := or_else (pt_overrides patch) (srec_overrides existing),
           srec_phase := or_else (pt_phase patch) (srec_phase existing),
           srec_turns := or_else (pt_turns patch) (srec_turns existing),
           srec_setup := or_else (pt_setup patch) (srec_setup existing),
           srec_seats := or_else (pt_seats patch) (srec_seats existing),
           srec_metadata := (if length metadata > 0 then Some metadata else None) \<rparr>)"

definition normalize_world :: "world_row \<Rightarrow> world_row" where
  "normalize_world w =
     (let metadata = or_else (wrd_metadata w) [];
          dimensions = (if jm_has metadata ''dimensions'' then jm_get metadata ''dimensions'' else wrd_dimensions w)
      in case dimensions of
        None \<Rightarrow> w\<lparr> wrd_dimensions := None \<rparr>
      | Some d \<Rightarrow> w\<lparr> wrd_dimensions := Some d, wrd_metadata := Some (jm_set ''dimensions'' d metadata) \<rparr>)"

subsection \<open>Settled results\<close>

record failed_runtime =
  fail_runtime :: string
  fail_run :: "string option"
  fail_error :: string

definition string_of_property :: "json \<Rightarrow> string \<Rightarrow> string option" where
  "string_of_property j k = (case json_property j k of Some (JStr s) \<Rightarrow> Some s | _ \<Rightarrow> None)"

definition settle_failed_entry :: "(string, string) jmap \<Rightarrow> (string, string) jmap \<Rightarrow> json \<Rightarrow> json" where
  "settle_failed_entry by_run by_runtime entry =
     (case (case Option.bind (string_of_property entry ''runId'') (jm_get by_run) of
        Some e \<Rightarrow> Some e | None \<Rightarrow> Option.bind (string_of_property entry ''runtimeId'') (jm_get by_runtime)) of
      None \<Rightarrow> entry
    | Some e \<Rightarrow> (case entry of JObj ps \<Rightarrow> JObj (jm_set ''error'' (JStr e) (jm_set ''status'' (JStr ''failed'') ps)) | _ \<Rightarrow> entry))"

definition settle_failed_results :: "json \<Rightarrow> failed_runtime list \<Rightarrow> json" where
  "settle_failed_results results failed = (case results of
     JArr entries \<Rightarrow> if length failed = 0 then results
       else let by_run = foldl (\<lambda>m f. case fail_run f of Some r \<Rightarrow> jm_set r (fail_error f) m | None \<Rightarrow> m) [] failed;
                by_runtime = foldl (\<lambda>m f. if fail_run f = None then jm_set (fail_runtime f) (fail_error f) m else m) [] failed
         in JArr (map (settle_failed_entry by_run by_runtime) entries)
   | _ \<Rightarrow> results)"

record operation_settlement =
  ops_id :: string
  ops_status :: string
  ops_reason :: "string option"

definition settle_operation :: "(string, operation_settlement) jmap \<Rightarrow> json \<Rightarrow> json" where
  "settle_operation by_id rec = (case Option.bind (string_of_property rec ''id'') (jm_get by_id) of
     None \<Rightarrow> rec
   | Some st \<Rightarrow> (case rec of
       JObj ps \<Rightarrow> (let next = jm_set ''status'' (JStr (ops_status st)) (jm_delete ''reason'' ps)
         in JObj (case ops_reason st of Some r \<Rightarrow> jm_set ''reason'' (JStr r) next | None \<Rightarrow> next))
     | _ \<Rightarrow> rec))"

definition settle_operation_entry :: "(string, operation_settlement) jmap \<Rightarrow> json \<Rightarrow> json" where
  "settle_operation_entry by_id entry = (case (entry, json_property entry ''operations'') of
     (JObj ps, Some (JArr ops)) \<Rightarrow>
       if list_ex (\<lambda>r. Option.bind (string_of_property r ''id'') (jm_get by_id) \<noteq> None) ops
       then JObj (jm_set ''operations'' (JArr (map (settle_operation by_id) ops)) ps) else entry
   | _ \<Rightarrow> entry)"

definition settle_operation_records :: "json \<Rightarrow> operation_settlement list \<Rightarrow> json" where
  "settle_operation_records results settled = (case results of
     JArr entries \<Rightarrow> if length settled = 0 then results
       else JArr (map (settle_operation_entry (foldl (\<lambda>m s. jm_set (ops_id s) s m) [] settled)) entries)
   | _ \<Rightarrow> results)"

definition settled_continuation :: "continuation \<Rightarrow> continuation" where
  "settled_continuation c = \<lparr> cont_lifecycle = cont_lifecycle c, cont_messages = [], cont_tool_calls = [],
     cont_proposals = [], cont_scopes = [], cont_context = cont_context c, cont_under = cont_under c,
     cont_locale = cont_locale c, cont_logical = cont_logical c, cont_number = cont_number c, cont_rest = [] \<rparr>"

subsection \<open>Player input messages\<close>

datatype store_error =
    SessionAlreadyExists string
  | InvalidSeats
  | RowAlreadyExists string string
  | MessageAlreadyExists string
  | MetadataNotObject
  | NotCommittedInput
  | InputDoesNotMatch
  | ScopeConflict string string
  | BatchCasError cas_error
  | InvalidSnapshotPayload
  | VectorSessionMissing string
  | VectorIncarnationChanged string
  | VectorNotLocked string
  | VectorAlreadyLocked string
  | VectorDimension nat nat
  | VectorModelChanged
  | RootWriteInTransaction string
  | NestedTransaction
  | CallbackError string

definition metadata_object :: "message_row \<Rightarrow> store_error + (string \<times> json) list" where
  "metadata_object m = (case msg_metadata m of None \<Rightarrow> Inr [] | Some JNull \<Rightarrow> Inr []
     | Some (JObj ps) \<Rightarrow> Inr ps | Some _ \<Rightarrow> Inl MetadataNotObject)"

definition assert_committed_input :: "message_row \<Rightarrow> store_error + unit" where
  "assert_committed_input m = (case metadata_object m of Inl e \<Rightarrow> Inl e
     | Inr ps \<Rightarrow> (case jm_get ps ''turnId'' of
         Some (JStr t) \<Rightarrow> if msg_role m \<noteq> ''user'' \<or> length t = 0 then Inl NotCommittedInput else Inr ()
       | _ \<Rightarrow> Inl NotCommittedInput))"

definition adopt_input_message :: "message_row \<Rightarrow> message_row \<Rightarrow> store_error + message_row" where
  "adopt_input_message existing committed = (case assert_committed_input committed of
     Inl e \<Rightarrow> Inl e
   | Inr _ \<Rightarrow> if row_session existing \<noteq> row_session committed then Inl (ScopeConflict ''message'' (k_id committed))
     else (case (metadata_object existing, metadata_object committed) of
       (Inl e, _) \<Rightarrow> Inl e
     | (_, Inl e) \<Rightarrow> Inl e
     | (Inr old, Inr new) \<Rightarrow>
         if msg_role existing \<noteq> ''user'' \<or> msg_content existing \<noteq> msg_content committed
            \<or> (jm_get old ''turnId'' \<noteq> None \<and> jm_get old ''turnId'' \<noteq> jm_get new ''turnId'')
         then Inl InputDoesNotMatch
         else if jm_get old ''turnId'' = jm_get new ''turnId'' then Inr existing
         else Inr (existing\<lparr> msg_metadata := Some (JObj (jm_merge old new)) \<rparr>)))"

subsection \<open>Owners, scopes and counts\<close>

definition lorebook_owner_key :: "lorebook_owner \<Rightarrow> string" where
  "lorebook_owner_key ow = (case ow of PluginOwner p \<Rightarrow> ''plugin:'' @ p | WorldOwner \<Rightarrow> ''world'' | PlayerOwner \<Rightarrow> ''player'')"

definition parse_lorebook_owner_key :: "string \<Rightarrow> lorebook_owner option" where
  "parse_lorebook_owner_key v = (if v = ''world'' then Some WorldOwner else if v = ''player'' then Some PlayerOwner
     else if starts_with v ''plugin:'' \<and> length v > 7 then Some (PluginOwner (drop 7 v)) else None)"

definition assert_record_scope :: "string \<Rightarrow> string \<Rightarrow> string \<Rightarrow> string option \<Rightarrow> store_error + unit" where
  "assert_record_scope record_type rid session existing =
     (if existing \<noteq> None \<and> existing \<noteq> Some session then Inl (ScopeConflict record_type rid) else Inr ())"

definition player_message_count :: "'a turn_message_scheme list \<Rightarrow> nat" where
  "player_message_count records = length (filter (\<lambda>r. tmsg_source r = ''player'') records)"

lemma owner_key_round_trip:
  "ow \<noteq> PluginOwner [] \<Longrightarrow> parse_lorebook_owner_key (lorebook_owner_key ow) = Some ow"
  by (cases ow) (simp_all add: lorebook_owner_key_def parse_lorebook_owner_key_def starts_with_def)

lemma owner_key_inject [simp]: "lorebook_owner_key a = lorebook_owner_key b \<longleftrightarrow> a = b"
  by (cases a; cases b) (auto simp: lorebook_owner_key_def)

end
