(* ===== verification/MemoryStore.thy ===== *)
theory MemoryStore
  imports StoreRecords
begin

text \<open>
  The memory store: its state (\<open>packages/store/src/memory/memory-types.ts\<close>, \<open>memory-state.ts\<close>) and every
  method that writes, one definition per method, in the order of the files under
  \<open>packages/store/src/memory\<close>. A method returns a value or an error and the new state. A composite key
  \<open>JSON.stringify([...])\<close> is a tuple. The collections of plugin data, of the change feed and of the
  lifecycle records are those of the theories \<open>PluginData\<close> and \<open>LifecycleStore\<close>, whose operations run
  here on the state of the whole store. The cache of row IDs (\<open>idIndexes\<close>) is left out: a row is looked up
  in its collection.
\<close>

subsection \<open>State\<close>

record memory_state =
  mem_sessions :: "(string, session_record) jmap"
  mem_turn_results :: "turn_result list"
  mem_tool_calls :: "tool_call_row list"
  mem_events :: "event_row list"
  mem_messages :: "message_row list"
  mem_positions :: "(string, nat) jmap"
  mem_schemas :: "(string, schema_row) jmap"
  mem_characters :: "(string \<times> string, character_row) jmap"
  mem_plugin_data :: "(plugin_key, plugin_row) jmap"
  mem_suspensions :: "(string, suspension_row) jmap"
  mem_snapshots :: "(string, snapshot_row) jmap"
  mem_progress :: "(string \<times> string \<times> string, string \<times> string) jmap"
  mem_vectors :: "(plugin_key, vector_row) jmap"
  mem_models :: "(string \<times> nat, vector_target) jmap"
  mem_next_model :: int
  mem_targets :: "(string, vector_target) jmap"
  mem_worlds :: "(string, world_row) jmap"
  mem_settings :: "(string, setting_row) jmap"
  mem_traces :: "trace_row list"
  mem_outputs :: "runtime_output list"
  mem_interactions :: "interaction_row list"
  mem_turn_messages :: "stored_turn_message list"
  mem_inputs :: "player_input list"
  mem_imports :: "(string, import_row) jmap"
  mem_lorebook :: "(string \<times> string \<times> string, lorebook_row) jmap"
  mem_summaries :: "session_summary list"
  mem_ledger :: "(ledger_key, ledger_record) jmap"
  mem_attempts :: "(attempt_key, setup_attempt) jmap"
  mem_jobs :: "(job_key, job_status) jmap"
  mem_exports :: "(string \<times> string \<times> string \<times> int, export_row) jmap"
  mem_changes :: "(change_key, record_change) jmap"
  mem_counters :: "(string, int) jmap"

definition create_memory_state :: memory_state where
  "create_memory_state = \<lparr> mem_sessions = [], mem_turn_results = [], mem_tool_calls = [], mem_events = [],
     mem_messages = [], mem_positions = [], mem_schemas = [], mem_characters = [], mem_plugin_data = [],
     mem_suspensions = [], mem_snapshots = [], mem_progress = [], mem_vectors = [], mem_models = [],
     mem_next_model = 1, mem_targets = [], mem_worlds = [], mem_settings = [], mem_traces = [], mem_outputs = [],
     mem_interactions = [], mem_turn_messages = [], mem_inputs = [], mem_imports = [], mem_lorebook = [],
     mem_summaries = [], mem_ledger = [], mem_attempts = [], mem_jobs = [], mem_exports = [], mem_changes = [],
     mem_counters = [] \<rparr>"

text \<open>What a method returns: a value of its own type, or an error.\<close>

datatype store_value = NoValue | BoolValue bool | CountValue nat | TextValue "string option" | TargetValue "vector_target option"

type_synonym store_answer = "(store_error + store_value) \<times> memory_state"

subsection \<open>Rows of a session\<close>

definition append_unique_row :: "'a row_scheme list \<Rightarrow> 'a row_scheme \<Rightarrow> string \<Rightarrow> store_error + 'a row_scheme list" where
  "append_unique_row rows row label = (if k_id row \<in> k_id ` set rows then Inl (RowAlreadyExists label (k_id row))
     else Inr (rows @ [row]))"

definition delete_rows_by_session :: "string \<Rightarrow> 'a row_scheme list \<Rightarrow> 'a row_scheme list" where
  "delete_rows_by_session session rows = filter (\<lambda>r. row_session r \<noteq> session) rows"

definition delete_map_by_session :: "('v \<Rightarrow> string) \<Rightarrow> string \<Rightarrow> ('k, 'v) jmap \<Rightarrow> ('k, 'v) jmap" where
  "delete_map_by_session owner session rows = filter (\<lambda>(_, r). owner r \<noteq> session) rows"

definition message_positions :: "message_row list \<Rightarrow> (string, nat) jmap" where
  "message_positions messages = foldl (\<lambda>m (i, r). jm_set (k_id r) i m) [] (enumerate 0 messages)"

subsection \<open>The collections shared with other theories\<close>

definition data_of :: "memory_state \<Rightarrow> data_state" where
  "data_of s = \<lparr> da_sessions = map (\<lambda>(k, r). (k, srec_turns r)) (mem_sessions s), da_rows = mem_plugin_data s,
     da_changes = mem_changes s, da_counters = mem_counters s \<rparr>"

definition put_data :: "data_state \<Rightarrow> memory_state \<Rightarrow> memory_state" where
  "put_data d s = s\<lparr> mem_plugin_data := da_rows d, mem_changes := da_changes d, mem_counters := da_counters d \<rparr>"

definition lifecycle_of :: "memory_state \<Rightarrow> lifecycle_state" where
  "lifecycle_of s = \<lparr> lf_ledger = mem_ledger s, lf_attempts = mem_attempts s, lf_jobs = mem_jobs s \<rparr>"

definition put_lifecycle :: "lifecycle_state \<Rightarrow> memory_state \<Rightarrow> memory_state" where
  "put_lifecycle l s = s\<lparr> mem_ledger := lf_ledger l, mem_attempts := lf_attempts l, mem_jobs := lf_jobs l \<rparr>"

definition record_store_change :: "string \<Rightarrow> change_identity \<Rightarrow> memory_state \<Rightarrow> memory_state" where
  "record_store_change session ch s = put_data (record_change_of session ch (data_of s)) s"

definition next_store_write :: "string \<Rightarrow> memory_state \<Rightarrow> int \<times> memory_state" where
  "next_store_write session s = (let (n, d) = next_session_write session (data_of s) in (n, put_data d s))"


subsection \<open>Sessions\<close>

definition create_session :: "(json \<Rightarrow> bool) \<Rightarrow> session_record \<Rightarrow> memory_state \<Rightarrow> store_answer" where
  "create_session seats_ok session s =
     (if jm_has (mem_sessions s) (k_id session) then (Inl (SessionAlreadyExists (k_id session)), s)
      else if \<not> seats_ok (srec_seats session) then (Inl InvalidSeats, s)
      else (Inr NoValue, s\<lparr> mem_sessions := jm_set (k_id session) session (mem_sessions s) \<rparr>))"

definition update_session :: "(json \<Rightarrow> bool) \<Rightarrow> string \<Rightarrow> session_patch \<Rightarrow> memory_state \<Rightarrow> store_answer" where
  "update_session seats_ok sid patch s = (case jm_get (mem_sessions s) sid of
     None \<Rightarrow> (Inr NoValue, s)
   | Some existing \<Rightarrow>
       if (case pt_seats patch of Some v \<Rightarrow> \<not> seats_ok v | None \<Rightarrow> False) then (Inl InvalidSeats, s)
       else (Inr NoValue, s\<lparr> mem_sessions := jm_set sid (merge_session_patch existing patch) (mem_sessions s) \<rparr>))"

text \<open>The cascade, in the order of the table registry (\<open>packages/store/src/table-registry.ts\<close>).\<close>

definition cascade_session :: "string \<Rightarrow> memory_state \<Rightarrow> memory_state" where
  "cascade_session sid s = s\<lparr>
     mem_progress := delete_map_by_session fst sid (mem_progress s),
     mem_turn_results := delete_rows_by_session sid (mem_turn_results s),
     mem_tool_calls := delete_rows_by_session sid (mem_tool_calls s),
     mem_events := delete_rows_by_session sid (mem_events s),
     mem_messages := delete_rows_by_session sid (mem_messages s),
     mem_schemas := delete_map_by_session sch_session sid (mem_schemas s),
     mem_characters := delete_map_by_session row_session sid (mem_characters s),
     mem_plugin_data := delete_map_by_session pr_session sid (mem_plugin_data s),
     mem_imports := delete_map_by_session imp_session sid (mem_imports s),
     mem_traces := delete_rows_by_session sid (mem_traces s),
     mem_outputs := delete_rows_by_session sid (mem_outputs s),
     mem_interactions := delete_rows_by_session sid (mem_interactions s),
     mem_turn_messages := delete_rows_by_session sid (mem_turn_messages s),
     mem_inputs := delete_rows_by_session sid (mem_inputs s),
     mem_lorebook := delete_map_by_session row_session sid (mem_lorebook s),
     mem_summaries := delete_rows_by_session sid (mem_summaries s),
     mem_suspensions := delete_map_by_session row_session sid (mem_suspensions s),
     mem_snapshots := delete_map_by_session row_session sid (mem_snapshots s),
     mem_ledger := delete_map_by_session lr_session sid (mem_ledger s),
     mem_attempts := delete_map_by_session sa_session sid (mem_attempts s),
     mem_jobs := delete_map_by_session js_session sid (mem_jobs s),
     mem_exports := delete_map_by_session exp_session sid (mem_exports s),
     mem_changes := delete_map_by_session rc_session sid (mem_changes s),
     mem_counters := filter (\<lambda>(k, _). k \<noteq> sid) (mem_counters s) \<rparr>"

definition delete_session :: "string \<Rightarrow> memory_state \<Rightarrow> store_answer" where
  "delete_session sid s =
     (let previous = length (mem_messages s);
          s1 = cascade_session sid (s\<lparr> mem_sessions := jm_delete sid (mem_sessions s) \<rparr>);
          s2 = (if length (mem_messages s1) \<noteq> previous
                then s1\<lparr> mem_positions := message_positions (mem_messages s1) \<rparr> else s1)
      in (Inr NoValue, s2\<lparr> mem_vectors := delete_map_by_session vec_session sid (mem_vectors s2),
            mem_targets := jm_delete sid (mem_targets s2) \<rparr>))"

subsection \<open>Runtime records\<close>

definition save_turn_result :: "turn_result \<Rightarrow> memory_state \<Rightarrow> store_answer" where
  "save_turn_result r s = (case append_unique_row (mem_turn_results s) r ''Turn result'' of
     Inl e \<Rightarrow> (Inl e, s) | Inr rows \<Rightarrow> (Inr NoValue, s\<lparr> mem_turn_results := rows \<rparr>))"

definition settle_turn_result :: "string \<Rightarrow> string \<Rightarrow> commit_status \<Rightarrow> failed_runtime list \<Rightarrow>
    operation_settlement list \<Rightarrow> turn_result \<Rightarrow> turn_result" where
  "settle_turn_result sid turn status failed settled r =
     (if row_session r = sid \<and> tres_turn r = turn
      then r\<lparr> tres_status := status,
         tres_results := settle_operation_records (settle_failed_results (tres_results r) failed) settled \<rparr> else r)"

definition set_turn_result_commit_status :: "string \<Rightarrow> string \<Rightarrow> commit_status \<Rightarrow> failed_runtime list \<Rightarrow>
    operation_settlement list \<Rightarrow> memory_state \<Rightarrow> store_answer" where
  "set_turn_result_commit_status sid turn status failed settled s =
     (Inr NoValue, s\<lparr> mem_turn_results := map (settle_turn_result sid turn status failed settled) (mem_turn_results s) \<rparr>)"

definition save_tool_call :: "tool_call_row \<Rightarrow> memory_state \<Rightarrow> store_answer" where
  "save_tool_call r s = (case append_unique_row (mem_tool_calls s) r ''Tool call'' of
     Inl e \<Rightarrow> (Inl e, s) | Inr rows \<Rightarrow> (Inr NoValue, s\<lparr> mem_tool_calls := rows \<rparr>))"

definition save_runtime_output :: "runtime_output \<Rightarrow> memory_state \<Rightarrow> store_answer" where
  "save_runtime_output r s = (case append_unique_row (mem_outputs s) r ''Runtime output'' of
     Inl e \<Rightarrow> (Inl e, s) | Inr rows \<Rightarrow> (Inr NoValue, s\<lparr> mem_outputs := rows \<rparr>))"

definition save_interaction_record :: "interaction_row \<Rightarrow> memory_state \<Rightarrow> store_answer" where
  "save_interaction_record r s = (case append_unique_row (mem_interactions s) r ''Interaction record'' of
     Inl e \<Rightarrow> (Inl e, s) | Inr rows \<Rightarrow> (Inr NoValue, s\<lparr> mem_interactions := rows \<rparr>))"

definition save_event :: "event_row \<Rightarrow> memory_state \<Rightarrow> store_answer" where
  "save_event r s = (case append_unique_row (mem_events s) r ''Event'' of
     Inl e \<Rightarrow> (Inl e, s) | Inr rows \<Rightarrow> (Inr NoValue, s\<lparr> mem_events := rows \<rparr>))"

definition kept_since :: "string \<Rightarrow> string \<Rightarrow> 'a row_scheme \<Rightarrow> bool" where
  "kept_since sid before r \<longleftrightarrow> row_session r \<noteq> sid \<or> \<not> js_less (k_created r) before"

definition delete_events_before :: "string \<Rightarrow> string \<Rightarrow> memory_state \<Rightarrow> store_answer" where
  "delete_events_before sid before s = (Inr NoValue, s\<lparr> mem_events := filter (kept_since sid before) (mem_events s) \<rparr>)"

definition add_message :: "message_row \<Rightarrow> memory_state \<Rightarrow> store_answer" where
  "add_message r s = (if jm_has (mem_positions s) (k_id r) then (Inl (MessageAlreadyExists (k_id r)), s)
     else (Inr NoValue, s\<lparr> mem_positions := jm_set (k_id r) (length (mem_messages s)) (mem_positions s),
             mem_messages := mem_messages s @ [r] \<rparr>))"

definition commit_player_input :: "message_row \<Rightarrow> memory_state \<Rightarrow> store_answer" where
  "commit_player_input r s = (case assert_committed_input r of
     Inl e \<Rightarrow> (Inl e, s)
   | Inr _ \<Rightarrow> (case jm_get (mem_positions s) (k_id r) of
       None \<Rightarrow> (Inr NoValue, s\<lparr> mem_positions := jm_set (k_id r) (length (mem_messages s)) (mem_positions s),
             mem_messages := mem_messages s @ [r] \<rparr>)
     | Some i \<Rightarrow> (case adopt_input_message (mem_messages s ! i) r of
         Inl e \<Rightarrow> (Inl e, s)
       | Inr m \<Rightarrow> (Inr NoValue, s\<lparr> mem_messages := (mem_messages s)[i := m] \<rparr>))))"

definition upsert_character_schema :: "schema_row \<Rightarrow> memory_state \<Rightarrow> store_answer" where
  "upsert_character_schema r s = (Inr NoValue, s\<lparr> mem_schemas := jm_set (sch_session r) r (mem_schemas s) \<rparr>)"

definition upsert_character :: "character_row \<Rightarrow> memory_state \<Rightarrow> store_answer" where
  "upsert_character r s =
     (let stored = r\<lparr> chr_fields := (case chr_fields r of Some JNull \<Rightarrow> None | v \<Rightarrow> v) \<rparr> in
      (Inr NoValue, record_store_change (row_session r) (ChCharacter (k_id r))
         (s\<lparr> mem_characters := jm_set (row_session r, k_id r) stored (mem_characters s) \<rparr>)))"

definition delete_character :: "string \<Rightarrow> string \<Rightarrow> memory_state \<Rightarrow> store_answer" where
  "delete_character sid rid s = (Inr NoValue,
     if jm_has (mem_characters s) (sid, rid)
     then record_store_change sid (ChCharacter rid) (s\<lparr> mem_characters := jm_delete (sid, rid) (mem_characters s) \<rparr>)
     else s)"

definition add_trace_event :: "trace_row \<Rightarrow> memory_state \<Rightarrow> store_answer" where
  "add_trace_event r s = (case append_unique_row (mem_traces s) r ''Trace event'' of
     Inl e \<Rightarrow> (Inl e, s) | Inr rows \<Rightarrow> (Inr NoValue, s\<lparr> mem_traces := rows \<rparr>))"

definition delete_traces_before :: "string \<Rightarrow> string \<Rightarrow> memory_state \<Rightarrow> store_answer" where
  "delete_traces_before sid before s = (Inr NoValue, s\<lparr> mem_traces := filter (kept_since sid before) (mem_traces s) \<rparr>)"

text \<open>The number of a turn message is taken only for a new ID.\<close>

definition append_turn_message :: "turn_message \<Rightarrow> memory_state \<Rightarrow> store_answer" where
  "append_turn_message r s =
     (if k_id r \<in> k_id ` set (mem_turn_messages s) then (Inl (RowAlreadyExists ''Turn message'' (k_id r)), s)
      else let (n, s1) = next_store_write (row_session r) s in
        (case append_unique_row (mem_turn_messages s1) (turn_message.extend r \<lparr> tmsg_seq = n \<rparr>) ''Turn message'' of
           Inl e \<Rightarrow> (Inl e, s1) | Inr rows \<Rightarrow> (Inr NoValue, s1\<lparr> mem_turn_messages := rows \<rparr>)))"

definition save_player_input :: "player_input \<Rightarrow> memory_state \<Rightarrow> store_answer" where
  "save_player_input r s = (case append_unique_row (mem_inputs s) r ''Player input'' of
     Inl e \<Rightarrow> (Inl e, s) | Inr rows \<Rightarrow> (Inr NoValue, s\<lparr> mem_inputs := rows \<rparr>))"

definition save_session_summary :: "session_summary \<Rightarrow> memory_state \<Rightarrow> store_answer" where
  "save_session_summary r s = (case append_unique_row (mem_summaries s) r ''Session summary'' of
     Inl e \<Rightarrow> (Inl e, s) | Inr rows \<Rightarrow> (Inr NoValue, s\<lparr> mem_summaries := rows \<rparr>))"

definition delete_session_summaries :: "string \<Rightarrow> string list option \<Rightarrow> memory_state \<Rightarrow> store_answer" where
  "delete_session_summaries sid ids s = (Inr NoValue, s\<lparr> mem_summaries := filter (\<lambda>r. \<not> (row_session r = sid
     \<and> (case ids of None \<Rightarrow> True | Some xs \<Rightarrow> k_id r \<in> set xs))) (mem_summaries s) \<rparr>)"

definition tag_turn_messages :: "string \<Rightarrow> string list \<Rightarrow> string \<Rightarrow> memory_state \<Rightarrow> store_answer" where
  "tag_turn_messages sid ids summary s = (Inr NoValue, s\<lparr> mem_turn_messages :=
     map (\<lambda>r. if row_session r = sid \<and> k_id r \<in> set ids then r\<lparr> tmsg_compacted := Some summary \<rparr> else r) (mem_turn_messages s) \<rparr>)"

definition retag_turn_messages :: "string \<Rightarrow> string \<Rightarrow> string list option \<Rightarrow> memory_state \<Rightarrow> store_answer" where
  "retag_turn_messages sid summary sources s = (Inr NoValue, s\<lparr> mem_turn_messages := map (\<lambda>r.
     (case tmsg_compacted r of None \<Rightarrow> r
      | Some old \<Rightarrow> if row_session r = sid \<and> (case sources of None \<Rightarrow> True | Some xs \<Rightarrow> old \<in> set xs)
          then r\<lparr> tmsg_compacted := Some summary \<rparr> else r)) (mem_turn_messages s) \<rparr>)"


subsection \<open>Plugin data, worlds and settings\<close>

definition set_plugin_data_rows :: "plugin_row list \<Rightarrow> memory_state \<Rightarrow> store_answer" where
  "set_plugin_data_rows rs s = (Inr NoValue, put_data (set_plugin_data_batch rs (data_of s)) s)"

definition cas_plugin_data :: "plugin_row \<Rightarrow> string option \<Rightarrow> memory_state \<Rightarrow> store_answer" where
  "cas_plugin_data r expected s = (let (ok, d) = compare_and_set r expected (data_of s) in (Inr (BoolValue ok), put_data d s))"

definition cas_plugin_data_batch :: "(nat \<Rightarrow> string) \<Rightarrow> string \<Rightarrow> string \<Rightarrow> cas_entry list \<Rightarrow> memory_state \<Rightarrow> store_answer" where
  "cas_plugin_data_batch uuid sid plugin entries s = (case compare_and_set_batch uuid sid plugin entries (data_of s) of
     Inl e \<Rightarrow> (Inl (BatchCasError e), s) | Inr (ok, d) \<Rightarrow> (Inr (BoolValue ok), put_data d s))"

definition delete_plugin_data_row :: "plugin_key \<Rightarrow> memory_state \<Rightarrow> store_answer" where
  "delete_plugin_data_row key s = (Inr NoValue, put_data (delete_plugin_data key (data_of s)) s)"

definition create_world :: "world_row \<Rightarrow> memory_state \<Rightarrow> store_answer" where
  "create_world r s = (if jm_has (mem_worlds s) (k_id r) then (Inr (BoolValue False), s)
     else (Inr (BoolValue True), s\<lparr> mem_worlds := jm_set (k_id r) (normalize_world r) (mem_worlds s) \<rparr>))"

definition upsert_world :: "world_row \<Rightarrow> memory_state \<Rightarrow> store_answer" where
  "upsert_world r s = (Inr NoValue, s\<lparr> mem_worlds := jm_set (k_id r) (normalize_world
     (case jm_get (mem_worlds s) (k_id r) of Some old \<Rightarrow> r\<lparr> k_created := k_created old \<rparr> | None \<Rightarrow> r)) (mem_worlds s) \<rparr>)"

definition delete_world :: "string \<Rightarrow> memory_state \<Rightarrow> store_answer" where
  "delete_world rid s = (Inr NoValue, s\<lparr> mem_worlds := jm_delete rid (mem_worlds s) \<rparr>)"

definition set_server_setting :: "setting_row \<Rightarrow> memory_state \<Rightarrow> store_answer" where
  "set_server_setting r s = (Inr NoValue, s\<lparr> mem_settings := jm_set (stg_key r)
     \<lparr> stg_key = stg_key r, stg_value = stg_value r, stg_updated = stg_updated r \<rparr> (mem_settings s) \<rparr>)"

definition delete_server_setting :: "string \<Rightarrow> memory_state \<Rightarrow> store_answer" where
  "delete_server_setting key s = (Inr NoValue, s\<lparr> mem_settings := jm_delete key (mem_settings s) \<rparr>)"

subsection \<open>World data\<close>

text \<open>The whole batch is validated before the first write; an ID of the batch counts as bound.\<close>

fun check_imports :: "(string, import_row) jmap \<Rightarrow> (string, string) jmap \<Rightarrow> import_row list \<Rightarrow> store_error + unit" where
  "check_imports ledger pending [] = Inr ()"
| "check_imports ledger pending (r # rs) =
     (case assert_record_scope ''world-data import ledger'' (imp_id r) (imp_session r)
        (case jm_get pending (imp_id r) of Some b \<Rightarrow> Some b | None \<Rightarrow> map_option imp_session (jm_get ledger (imp_id r))) of
        Inl e \<Rightarrow> Inl e
      | Inr _ \<Rightarrow> check_imports ledger (jm_set (imp_id r) (imp_session r) pending) rs)"

definition save_import_batch :: "import_row list \<Rightarrow> memory_state \<Rightarrow> store_answer" where
  "save_import_batch rs s = (case check_imports (mem_imports s) [] rs of
     Inl e \<Rightarrow> (Inl e, s)
   | Inr _ \<Rightarrow> (Inr NoValue, s\<lparr> mem_imports := foldl (\<lambda>m r. jm_set (imp_id r) r m) (mem_imports s) rs \<rparr>))"

definition delete_import :: "string \<Rightarrow> string \<Rightarrow> memory_state \<Rightarrow> store_answer" where
  "delete_import sid rid s = (Inr NoValue,
     if map_option imp_session (jm_get (mem_imports s) rid) = Some sid
     then s\<lparr> mem_imports := jm_delete rid (mem_imports s) \<rparr> else s)"

definition lorebook_key :: "lorebook_row \<Rightarrow> string \<times> string \<times> string" where
  "lorebook_key r = (row_session r, lorebook_owner_key (lore_owner r), k_id r)"

definition upsert_lorebook_entry :: "memory_state \<Rightarrow> lorebook_row \<Rightarrow> memory_state" where
  "upsert_lorebook_entry s r =
     (let stored = (case jm_get (mem_lorebook s) (lorebook_key r) of
            Some old \<Rightarrow> r\<lparr> k_created := k_created old \<rparr> | None \<Rightarrow> r)
      in record_store_change (row_session r) (ChLorebook (lorebook_owner_key (lore_owner r)) (k_id r))
           (s\<lparr> mem_lorebook := jm_set (lorebook_key r) stored (mem_lorebook s) \<rparr>))"

definition upsert_lorebook_entries :: "lorebook_row list \<Rightarrow> memory_state \<Rightarrow> store_answer" where
  "upsert_lorebook_entries rs s = (Inr NoValue, foldl upsert_lorebook_entry s rs)"

definition delete_lorebook_entry :: "string \<Rightarrow> lorebook_owner \<Rightarrow> string \<Rightarrow> memory_state \<Rightarrow> store_answer" where
  "delete_lorebook_entry sid ow rid s = (Inr NoValue,
     let key = (sid, lorebook_owner_key ow, rid) in
     if jm_has (mem_lorebook s) key
     then record_store_change sid (ChLorebook (lorebook_owner_key ow) rid) (s\<lparr> mem_lorebook := jm_delete key (mem_lorebook s) \<rparr>)
     else s)"

subsection \<open>Suspensions\<close>

definition save_suspension :: "suspension_row \<Rightarrow> memory_state \<Rightarrow> store_answer" where
  "save_suspension r s =
     (case assert_record_scope ''suspension'' (k_id r) (row_session r) (map_option row_session (jm_get (mem_suspensions s) (k_id r))) of
        Inl e \<Rightarrow> (Inl e, s)
      | Inr _ \<Rightarrow> (Inr NoValue, s\<lparr> mem_suspensions := jm_set (k_id r) (case jm_get (mem_suspensions s) (k_id r) of
            Some old \<Rightarrow> r\<lparr> susp_turn := susp_turn old, susp_runtime := susp_runtime old, susp_plugin := susp_plugin old,
                          k_created := k_created old \<rparr>
          | None \<Rightarrow> r) (mem_suspensions s) \<rparr>))"

definition update_suspension_continuation :: "string \<Rightarrow> continuation \<Rightarrow> string option \<Rightarrow> memory_state \<Rightarrow> store_answer" where
  "update_suspension_continuation rid cont expected s = (case jm_get (mem_suspensions s) rid of
     None \<Rightarrow> (Inr (BoolValue False), s)
   | Some old \<Rightarrow> if susp_resolved old \<noteq> expected then (Inr (BoolValue False), s)
       else (Inr (BoolValue True), s\<lparr> mem_suspensions := jm_set rid (old\<lparr> susp_continuation := cont \<rparr>) (mem_suspensions s) \<rparr>))"

definition mark_suspension_resolved :: "string \<Rightarrow> string \<Rightarrow> memory_state \<Rightarrow> store_answer" where
  "mark_suspension_resolved now rid s = (case jm_get (mem_suspensions s) rid of
     None \<Rightarrow> (Inr NoValue, s)
   | Some old \<Rightarrow> (Inr NoValue, s\<lparr> mem_suspensions := jm_set rid
       (old\<lparr> susp_continuation := settled_continuation (susp_continuation old), susp_resolved := Some now \<rparr>) (mem_suspensions s) \<rparr>))"

definition claim_text :: "string \<Rightarrow> string" where
  "claim_text now = ''claimed:'' @ now"

definition claim_suspension :: "string \<Rightarrow> string \<Rightarrow> memory_state \<Rightarrow> store_answer" where
  "claim_suspension now rid s = (case jm_get (mem_suspensions s) rid of
     None \<Rightarrow> (Inr (TextValue None), s)
   | Some old \<Rightarrow> if truthy (susp_resolved old) \<noteq> None then (Inr (TextValue None), s)
       else (Inr (TextValue (Some (claim_text now))),
         s\<lparr> mem_suspensions := jm_set rid (old\<lparr> susp_resolved := Some (claim_text now) \<rparr>) (mem_suspensions s) \<rparr>))"

definition release_suspension_claim :: "string \<Rightarrow> string \<Rightarrow> memory_state \<Rightarrow> store_answer" where
  "release_suspension_claim rid claim s = (case jm_get (mem_suspensions s) rid of
     None \<Rightarrow> (Inr (BoolValue False), s)
   | Some old \<Rightarrow> if susp_resolved old \<noteq> Some claim then (Inr (BoolValue False), s)
       else (Inr (BoolValue True), s\<lparr> mem_suspensions := jm_set rid (old\<lparr> susp_resolved := None \<rparr>) (mem_suspensions s) \<rparr>))"

definition delete_suspension :: "string \<Rightarrow> memory_state \<Rightarrow> store_answer" where
  "delete_suspension rid s = (Inr NoValue, s\<lparr> mem_suspensions := jm_delete rid (mem_suspensions s) \<rparr>)"

definition stale_claim :: "string \<Rightarrow> suspension_row \<Rightarrow> bool" where
  "stale_claim older r = (case susp_resolved r of None \<Rightarrow> False
     | Some c \<Rightarrow> starts_with c ''claimed:'' \<and> js_less c (claim_text older))"

definition release_stale_claims :: "string \<Rightarrow> memory_state \<Rightarrow> store_answer" where
  "release_stale_claims older s =
     (Inr (CountValue (length (filter (\<lambda>(_, r). stale_claim older r) (mem_suspensions s)))),
      s\<lparr> mem_suspensions := map (\<lambda>(k, r). (k, if stale_claim older r then r\<lparr> susp_resolved := None \<rparr> else r)) (mem_suspensions s) \<rparr>)"

subsection \<open>Snapshots\<close>

definition save_snapshot :: "(json \<Rightarrow> bool) \<Rightarrow> snapshot_row \<Rightarrow> memory_state \<Rightarrow> store_answer" where
  "save_snapshot payload_ok r s = (if \<not> payload_ok (snap_payload r) then (Inl InvalidSnapshotPayload, s)
     else case assert_record_scope ''snapshot'' (k_id r) (row_session r) (map_option row_session (jm_get (mem_snapshots s) (k_id r))) of
        Inl e \<Rightarrow> (Inl e, s)
      | Inr _ \<Rightarrow> (Inr NoValue, s\<lparr> mem_snapshots := jm_set (k_id r) r (mem_snapshots s) \<rparr>))"

definition prune_candidates :: "string \<Rightarrow> int \<Rightarrow> memory_state \<Rightarrow> snapshot_row list" where
  "prune_candidates sid keep s =
     (let autos = sort_by_cursor_asc (filter (\<lambda>r. row_session r = sid \<and> snap_kind r = AutoSnapshot) (map snd (mem_snapshots s)))
      in js_slice autos 0 (max 0 (int (length autos) - keep)))"

definition snapshot_parents :: "memory_state \<Rightarrow> string list" where
  "snapshot_parents s = List.map_filter snap_parent (map snd (mem_snapshots s))"

definition prune_auto_snapshots :: "string \<Rightarrow> int \<Rightarrow> memory_state \<Rightarrow> store_answer" where
  "prune_auto_snapshots sid keep s =
     (let candidates = prune_candidates sid keep s in
      if length candidates = 0 then (Inr (CountValue 0), s)
      else let parents = snapshot_parents s; victims = filter (\<lambda>c. k_id c \<notin> set parents) candidates
        in (Inr (CountValue (length victims)),
            s\<lparr> mem_snapshots := foldl (\<lambda>m c. jm_delete (k_id c) m) (mem_snapshots s) victims \<rparr>))"

subsection \<open>Lifecycle records and exports\<close>

definition store_logical_turn :: "ledger_record \<Rightarrow> memory_state \<Rightarrow> store_answer" where
  "store_logical_turn r s = (let (ok, l) = insert_logical_turn r (lifecycle_of s) in (Inr (BoolValue ok), put_lifecycle l s))"

definition store_setup_attempt :: "setup_attempt \<Rightarrow> memory_state \<Rightarrow> store_answer" where
  "store_setup_attempt r s = (let (ok, l) = insert_setup_attempt r (lifecycle_of s) in (Inr (BoolValue ok), put_lifecycle l s))"

definition patch_setup_attempt :: "string \<Rightarrow> string \<Rightarrow> int \<Rightarrow> string \<Rightarrow> attempt_patch \<Rightarrow> memory_state \<Rightarrow> store_answer" where
  "patch_setup_attempt sid runtime generation execution patch s =
     (Inr NoValue, put_lifecycle (update_setup_attempt sid runtime generation execution patch (lifecycle_of s)) s)"

definition store_job_status :: "job_status \<Rightarrow> memory_state \<Rightarrow> store_answer" where
  "store_job_status r s = (let (ok, l) = append_job_status r (lifecycle_of s) in (Inr (BoolValue ok), put_lifecycle l s))"

definition remove_job_status :: "string \<Rightarrow> string list \<Rightarrow> memory_state \<Rightarrow> store_answer" where
  "remove_job_status sid ids s = (Inr NoValue, put_lifecycle (delete_job_status sid ids (lifecycle_of s)) s)"

definition export_key :: "export_row \<Rightarrow> string \<times> string \<times> string \<times> int" where
  "export_key r = (exp_session r, exp_runtime r, exp_record r, exp_revision r)"

definition append_runtime_export :: "export_row \<Rightarrow> memory_state \<Rightarrow> store_answer" where
  "append_runtime_export r s = (if jm_has (mem_exports s) (export_key r) then (Inr (BoolValue False), s)
     else (Inr (BoolValue True), s\<lparr> mem_exports := jm_set (export_key r) r (mem_exports s) \<rparr>))"


subsection \<open>Vectors\<close>

record upsert_vector_input =
  uv_session :: string
  uv_expected :: "string option"
  uv_plugin :: string
  uv_namespace :: string
  uv_key :: string
  uv_embedding :: "rat list"
  uv_payload :: "string option"

definition prepare_vector :: "memory_state \<Rightarrow> upsert_vector_input \<Rightarrow> store_error + plugin_key \<times> vector_row" where
  "prepare_vector s i = (case jm_get (mem_sessions s) (uv_session i) of
     None \<Rightarrow> Inl (VectorSessionMissing (uv_session i))
   | Some session \<Rightarrow>
       if uv_expected i \<noteq> None \<and> uv_expected i \<noteq> Some (k_created session) then Inl (VectorIncarnationChanged (uv_session i))
       else (case jm_get (mem_targets s) (uv_session i) of
           None \<Rightarrow> Inl (VectorNotLocked (uv_session i))
         | Some t \<Rightarrow>
             if length (uv_embedding i) \<noteq> vt_dim t then Inl (VectorDimension (length (uv_embedding i)) (vt_dim t))
             else Inr ((uv_session i, uv_plugin i, uv_namespace i, uv_key i),
               \<lparr> vec_session = uv_session i, vec_plugin = uv_plugin i, vec_namespace = uv_namespace i, vec_key = uv_key i,
                 vec_dim = vt_dim t, vec_embedding = uv_embedding i, vec_payload = uv_payload i \<rparr>)))"

fun prepare_vectors :: "memory_state \<Rightarrow> upsert_vector_input list \<Rightarrow> store_error + (plugin_key \<times> vector_row) list" where
  "prepare_vectors s [] = Inr []"
| "prepare_vectors s (i # is) = (case prepare_vector s i of Inl e \<Rightarrow> Inl e
     | Inr p \<Rightarrow> (case prepare_vectors s is of Inl e \<Rightarrow> Inl e | Inr ps \<Rightarrow> Inr (p # ps)))"

definition upsert_vector :: "upsert_vector_input \<Rightarrow> memory_state \<Rightarrow> store_answer" where
  "upsert_vector i s = (case prepare_vector s i of Inl e \<Rightarrow> (Inl e, s)
     | Inr (key, r) \<Rightarrow> (Inr NoValue, s\<lparr> mem_vectors := jm_set key r (mem_vectors s) \<rparr>))"

text \<open>Of an upsert of a batch the session and the incarnation are the ones of the batch.\<close>

record vector_batch =
  vb_session :: string
  vb_plugin :: string
  vb_namespace :: string
  vb_value :: string
  vb_expected :: "string option"
  vb_created :: string
  vb_model :: "int option"
  vb_upserts :: "(string \<times> string \<times> rat list \<times> string option) list"
  vb_deletes :: "(string \<times> string) list"

definition batch_upsert :: "vector_batch \<Rightarrow> string \<times> string \<times> rat list \<times> string option \<Rightarrow> upsert_vector_input" where
  "batch_upsert b = (\<lambda>(ns, key, embedding, payload). \<lparr> uv_session = vb_session b, uv_expected = Some (vb_created b),
     uv_plugin = vb_plugin b, uv_namespace = ns, uv_key = key, uv_embedding = embedding, uv_payload = payload \<rparr>)"

definition commit_vector_batch :: "vector_batch \<Rightarrow> memory_state \<Rightarrow> store_answer" where
  "commit_vector_batch b s =
     (let key = (vb_session b, vb_plugin b, vb_namespace b) in
      if map_option k_created (jm_get (mem_sessions s) (vb_session b)) \<noteq> Some (vb_created b)
      then (Inl (VectorIncarnationChanged (vb_session b)), s)
      else if vb_model b \<noteq> None \<and> map_option vt_registry (jm_get (mem_targets s) (vb_session b)) \<noteq> vb_model b
      then (Inl VectorModelChanged, s)
      else if map_option snd (jm_get (mem_progress s) key) \<noteq> vb_expected b then (Inr (BoolValue False), s)
      else (case prepare_vectors s (map (batch_upsert b) (vb_upserts b)) of
          Inl e \<Rightarrow> (Inl e, s)
        | Inr rows \<Rightarrow> (Inr (BoolValue True), s\<lparr>
            mem_vectors := foldl (\<lambda>m (k, r). jm_set k r m)
              (foldl (\<lambda>m (ns, k). jm_delete (vb_session b, vb_plugin b, ns, k) m) (mem_vectors s) (vb_deletes b)) rows,
            mem_progress := jm_set key (vb_session b, vb_value b) (mem_progress s) \<rparr>)))"

record delete_vectors_input =
  dv_session :: string
  dv_expected :: "string option"
  dv_plugin :: string
  dv_namespace :: "string option"
  dv_key :: "string option"

definition delete_vectors :: "delete_vectors_input \<Rightarrow> memory_state \<Rightarrow> store_answer" where
  "delete_vectors i s =
     (if dv_expected i \<noteq> None \<and> map_option k_created (jm_get (mem_sessions s) (dv_session i)) \<noteq> dv_expected i
      then (Inl (VectorIncarnationChanged (dv_session i)), s)
      else (Inr NoValue, s\<lparr> mem_vectors := filter (\<lambda>(_, r). \<not> (vec_session r = dv_session i \<and> vec_plugin r = dv_plugin i
          \<and> (dv_namespace i = None \<or> dv_namespace i = Some (vec_namespace r))
          \<and> (dv_key i = None \<or> dv_key i = Some (vec_key r)))) (mem_vectors s) \<rparr>))"

definition ensure_vector_model :: "string \<Rightarrow> nat \<Rightarrow> memory_state \<Rightarrow> store_answer" where
  "ensure_vector_model model width s = (case jm_get (mem_models s) (model, width) of
     Some t \<Rightarrow> (Inr (TargetValue (Some t)), s)
   | None \<Rightarrow> (let n = mem_next_model s;
          t = \<lparr> vt_registry = n, vt_model = model, vt_dim = width, vt_table = ''vec_mem_m'' @ show_nat (nat n) \<rparr>
       in (Inr (TargetValue (Some t)), s\<lparr> mem_next_model := n + 1, mem_models := jm_set (model, width) t (mem_models s) \<rparr>)))"

definition lock_session_model :: "string \<Rightarrow> string \<Rightarrow> vector_target \<Rightarrow> memory_state \<Rightarrow> store_answer" where
  "lock_session_model now sid t s = (case jm_get (mem_sessions s) sid of
     None \<Rightarrow> (Inl (VectorSessionMissing sid), s)
   | Some session \<Rightarrow> if jm_has (mem_targets s) sid then (Inl (VectorAlreadyLocked sid), s)
       else (Inr NoValue, s\<lparr> mem_targets := jm_set sid t (mem_targets s),
         mem_sessions := jm_set sid (session\<lparr> srec_model := Some (vt_registry t), srec_model_at := Some now \<rparr>) (mem_sessions s) \<rparr>))"

definition reset_session_index :: "string \<Rightarrow> string \<Rightarrow> string \<Rightarrow> int option \<Rightarrow> vector_target option \<Rightarrow> memory_state \<Rightarrow> store_answer" where
  "reset_session_index now sid expected_created expected_model target s = (case jm_get (mem_sessions s) sid of
     None \<Rightarrow> (Inl (VectorIncarnationChanged sid), s)
   | Some session \<Rightarrow> if k_created session \<noteq> expected_created then (Inl (VectorIncarnationChanged sid), s)
       else if map_option vt_registry (jm_get (mem_targets s) sid) \<noteq> expected_model then (Inr (BoolValue False), s)
       else (Inr (BoolValue True), s\<lparr>
         mem_vectors := filter (\<lambda>(_, r). vec_session r \<noteq> sid) (mem_vectors s),
         mem_progress := filter (\<lambda>(_, r). fst r \<noteq> sid) (mem_progress s),
         mem_targets := (case target of Some t \<Rightarrow> jm_set sid t (mem_targets s) | None \<Rightarrow> jm_delete sid (mem_targets s)),
         mem_sessions := jm_set sid (session\<lparr> srec_model := map_option vt_registry target,
           srec_model_at := (if target = None then None else Some now) \<rparr>) (mem_sessions s) \<rparr>))"

definition resolve_vector_target :: "string \<Rightarrow> memory_state \<Rightarrow> store_answer" where
  "resolve_vector_target sid s = (Inr (TargetValue (jm_get (mem_targets s) sid)), s)"

subsection \<open>Calls\<close>

text \<open>The methods of the write table, by the function that creates them, with their arguments; a clock or a UUID
  a method reads is one of them. The two schema checks a write runs are parameters: of a session's seats
  and of a snapshot's payload.\<close>

record schemas =
  sc_seats :: "json \<Rightarrow> bool"
  sc_payload :: "json \<Rightarrow> bool"

datatype session_call =
    CreateSession session_record
  | UpdateSession string session_patch
  | DeleteSession string

primrec run_session_call :: "schemas \<Rightarrow> session_call \<Rightarrow> memory_state \<Rightarrow> store_answer" where
  "run_session_call sc (CreateSession r) s = create_session (sc_seats sc) r s"
| "run_session_call sc (UpdateSession sid p) s = update_session (sc_seats sc) sid p s"
| "run_session_call sc (DeleteSession sid) s = delete_session sid s"

datatype runtime_call =
    SaveTurnResult turn_result
  | SetTurnResultCommitStatus string string commit_status "failed_runtime list" "operation_settlement list"
  | SaveToolCall tool_call_row
  | SaveEvent event_row
  | DeleteEventsBefore string string
  | AddMessage message_row
  | CommitPlayerInputMessage message_row
  | UpsertCharacter character_row
  | UpsertCharacterSchema schema_row
  | DeleteCharacter string string
  | AddTraceEvent trace_row
  | DeleteTraceEventsBefore string string
  | SaveRuntimeOutput runtime_output
  | SaveInteractionRecord interaction_row

primrec run_runtime_call :: "runtime_call \<Rightarrow> memory_state \<Rightarrow> store_answer" where
  "run_runtime_call (SaveTurnResult r) s = save_turn_result r s"
| "run_runtime_call (SetTurnResultCommitStatus sid turn st failed settled) s = set_turn_result_commit_status sid turn st failed settled s"
| "run_runtime_call (SaveToolCall r) s = save_tool_call r s"
| "run_runtime_call (SaveEvent r) s = save_event r s"
| "run_runtime_call (DeleteEventsBefore sid t) s = delete_events_before sid t s"
| "run_runtime_call (AddMessage r) s = add_message r s"
| "run_runtime_call (CommitPlayerInputMessage r) s = commit_player_input r s"
| "run_runtime_call (UpsertCharacter r) s = upsert_character r s"
| "run_runtime_call (UpsertCharacterSchema r) s = upsert_character_schema r s"
| "run_runtime_call (DeleteCharacter sid rid) s = delete_character sid rid s"
| "run_runtime_call (AddTraceEvent r) s = add_trace_event r s"
| "run_runtime_call (DeleteTraceEventsBefore sid t) s = delete_traces_before sid t s"
| "run_runtime_call (SaveRuntimeOutput r) s = save_runtime_output r s"
| "run_runtime_call (SaveInteractionRecord r) s = save_interaction_record r s"

datatype journal_call =
    AppendTurnMessage turn_message
  | TagTurnMessagesCompacted string "string list" string
  | RetagCompactedTurnMessages string string "string list option"
  | SavePlayerInput player_input
  | SaveSessionSummary session_summary
  | DeleteSessionSummaries string "string list option"

primrec run_journal_call :: "journal_call \<Rightarrow> memory_state \<Rightarrow> store_answer" where
  "run_journal_call (AppendTurnMessage r) s = append_turn_message r s"
| "run_journal_call (TagTurnMessagesCompacted sid ids summary) s = tag_turn_messages sid ids summary s"
| "run_journal_call (RetagCompactedTurnMessages sid summary sources) s = retag_turn_messages sid summary sources s"
| "run_journal_call (SavePlayerInput r) s = save_player_input r s"
| "run_journal_call (SaveSessionSummary r) s = save_session_summary r s"
| "run_journal_call (DeleteSessionSummaries sid ids) s = delete_session_summaries sid ids s"

datatype data_call =
    SetPluginData plugin_row
  | SetPluginDataBatch "plugin_row list"
  | CompareAndSetPluginData plugin_row "string option"
  | CompareAndSetPluginDataBatch "nat \<Rightarrow> string" string string "cas_entry list"
  | DeletePluginData plugin_key

primrec run_data_call :: "data_call \<Rightarrow> memory_state \<Rightarrow> store_answer" where
  "run_data_call (SetPluginData r) s = set_plugin_data_rows [r] s"
| "run_data_call (SetPluginDataBatch rs) s = set_plugin_data_rows rs s"
| "run_data_call (CompareAndSetPluginData r e) s = cas_plugin_data r e s"
| "run_data_call (CompareAndSetPluginDataBatch uuid sid plugin es) s = cas_plugin_data_batch uuid sid plugin es s"
| "run_data_call (DeletePluginData key) s = delete_plugin_data_row key s"

datatype world_call =
    SaveWorldDataImportLedgerBatch "import_row list"
  | DeleteWorldDataImportLedger string string
  | UpsertLorebookEntries "lorebook_row list"
  | DeleteLorebookEntry string lorebook_owner string
  | CreateWorld world_row
  | UpsertWorld world_row
  | DeleteWorld string
  | SetServerSetting setting_row
  | DeleteServerSetting string

primrec run_world_call :: "world_call \<Rightarrow> memory_state \<Rightarrow> store_answer" where
  "run_world_call (SaveWorldDataImportLedgerBatch rs) s = save_import_batch rs s"
| "run_world_call (DeleteWorldDataImportLedger sid rid) s = delete_import sid rid s"
| "run_world_call (UpsertLorebookEntries rs) s = upsert_lorebook_entries rs s"
| "run_world_call (DeleteLorebookEntry sid ow rid) s = delete_lorebook_entry sid ow rid s"
| "run_world_call (CreateWorld r) s = create_world r s"
| "run_world_call (UpsertWorld r) s = upsert_world r s"
| "run_world_call (DeleteWorld rid) s = delete_world rid s"
| "run_world_call (SetServerSetting r) s = set_server_setting r s"
| "run_world_call (DeleteServerSetting key) s = delete_server_setting key s"

datatype snapshot_call =
    SaveSuspension suspension_row
  | UpdateSuspensionContinuation string continuation "string option"
  | ClaimSuspension string string
  | ReleaseSuspensionClaim string string
  | MarkSuspensionResolved string string
  | DeleteSuspension string
  | ReleaseStaleSuspensionClaims string
  | SaveSnapshot snapshot_row
  | PruneAutoSnapshots string int

primrec run_snapshot_call :: "schemas \<Rightarrow> snapshot_call \<Rightarrow> memory_state \<Rightarrow> store_answer" where
  "run_snapshot_call sc (SaveSuspension r) s = save_suspension r s"
| "run_snapshot_call sc (UpdateSuspensionContinuation rid c e) s = update_suspension_continuation rid c e s"
| "run_snapshot_call sc (ClaimSuspension now rid) s = claim_suspension now rid s"
| "run_snapshot_call sc (ReleaseSuspensionClaim rid claim) s = release_suspension_claim rid claim s"
| "run_snapshot_call sc (MarkSuspensionResolved now rid) s = mark_suspension_resolved now rid s"
| "run_snapshot_call sc (DeleteSuspension rid) s = delete_suspension rid s"
| "run_snapshot_call sc (ReleaseStaleSuspensionClaims t) s = release_stale_claims t s"
| "run_snapshot_call sc (SaveSnapshot r) s = save_snapshot (sc_payload sc) r s"
| "run_snapshot_call sc (PruneAutoSnapshots sid keep) s = prune_auto_snapshots sid keep s"

datatype lifecycle_call =
    InsertLogicalTurnCompletion ledger_record
  | InsertSetupAttempt setup_attempt
  | UpdateSetupAttempt string string int string attempt_patch
  | AppendJobStatus job_status
  | DeleteJobStatus string "string list"
  | AppendRuntimeExport export_row

primrec run_lifecycle_call :: "lifecycle_call \<Rightarrow> memory_state \<Rightarrow> store_answer" where
  "run_lifecycle_call (InsertLogicalTurnCompletion r) s = store_logical_turn r s"
| "run_lifecycle_call (InsertSetupAttempt r) s = store_setup_attempt r s"
| "run_lifecycle_call (UpdateSetupAttempt sid rt gen ex p) s = patch_setup_attempt sid rt gen ex p s"
| "run_lifecycle_call (AppendJobStatus r) s = store_job_status r s"
| "run_lifecycle_call (DeleteJobStatus sid ids) s = remove_job_status sid ids s"
| "run_lifecycle_call (AppendRuntimeExport r) s = append_runtime_export r s"

datatype vector_call =
    CommitVectorIndexBatch vector_batch
  | UpsertVector upsert_vector_input
  | DeleteVectors delete_vectors_input
  | LockSessionEmbeddingModel string string vector_target
  | ResetSessionVectorIndex string string string "int option" "vector_target option"
  | EnsureVectorModel string nat
  | ResolveSessionVectorTarget string

primrec run_vector_call :: "vector_call \<Rightarrow> memory_state \<Rightarrow> store_answer" where
  "run_vector_call (CommitVectorIndexBatch b) s = commit_vector_batch b s"
| "run_vector_call (UpsertVector i) s = upsert_vector i s"
| "run_vector_call (DeleteVectors i) s = delete_vectors i s"
| "run_vector_call (LockSessionEmbeddingModel now sid t) s = lock_session_model now sid t s"
| "run_vector_call (ResetSessionVectorIndex now sid created model t) s = reset_session_index now sid created model t s"
| "run_vector_call (EnsureVectorModel model width) s = ensure_vector_model model width s"
| "run_vector_call (ResolveSessionVectorTarget sid) s = resolve_vector_target sid s"

datatype store_call =
    SessionCall session_call
  | RuntimeCall runtime_call
  | JournalCall journal_call
  | DataCall data_call
  | WorldCall world_call
  | SnapshotCall snapshot_call
  | LifecycleCall lifecycle_call
  | VectorCall vector_call

primrec run_call :: "schemas \<Rightarrow> store_call \<Rightarrow> memory_state \<Rightarrow> store_answer" where
  "run_call sc (SessionCall c) s = run_session_call sc c s"
| "run_call sc (RuntimeCall c) s = run_runtime_call c s"
| "run_call sc (JournalCall c) s = run_journal_call c s"
| "run_call sc (DataCall c) s = run_data_call c s"
| "run_call sc (WorldCall c) s = run_world_call c s"
| "run_call sc (SnapshotCall c) s = run_snapshot_call sc c s"
| "run_call sc (LifecycleCall c) s = run_lifecycle_call c s"
| "run_call sc (VectorCall c) s = run_vector_call c s"

end
