(* ===== verification/StoreTransactions.thy ===== *)
theory StoreTransactions
  imports MemoryStore
begin

text \<open>
  Transactions of the memory store (\<open>packages/store/src/memory/transaction-methods.ts\<close>): the collections a
  snapshot may capture, the table of the collections each write method touches, lazy capture into every
  open level, savepoints and rollback. A transaction callback is a program over store calls.
\<close>

subsection \<open>Collections\<close>

datatype collection = KSessions | KTurnResults | KToolCalls | KEvents | KMessages | KPositions | KSchemas
  | KCharacters | KPluginData | KSuspensions | KSnapshots | KProgress | KVectors | KModels | KNextModel
  | KTargets | KWorlds | KSettings | KTraces | KOutputs | KInteractions | KTurnMessages | KInputs | KImports
  | KLorebook | KSummaries | KLedger | KAttempts | KJobs | KExports | KChanges | KCounters

text \<open>\<open>take_collection c from s\<close> replaces one collection of \<open>s\<close> by the one of another state.\<close>

primrec take_collection :: "collection \<Rightarrow> memory_state \<Rightarrow> memory_state \<Rightarrow> memory_state" where
  "take_collection KSessions t s = s\<lparr> mem_sessions := mem_sessions t \<rparr>"
| "take_collection KTurnResults t s = s\<lparr> mem_turn_results := mem_turn_results t \<rparr>"
| "take_collection KToolCalls t s = s\<lparr> mem_tool_calls := mem_tool_calls t \<rparr>"
| "take_collection KEvents t s = s\<lparr> mem_events := mem_events t \<rparr>"
| "take_collection KMessages t s = s\<lparr> mem_messages := mem_messages t \<rparr>"
| "take_collection KPositions t s = s\<lparr> mem_positions := mem_positions t \<rparr>"
| "take_collection KSchemas t s = s\<lparr> mem_schemas := mem_schemas t \<rparr>"
| "take_collection KCharacters t s = s\<lparr> mem_characters := mem_characters t \<rparr>"
| "take_collection KPluginData t s = s\<lparr> mem_plugin_data := mem_plugin_data t \<rparr>"
| "take_collection KSuspensions t s = s\<lparr> mem_suspensions := mem_suspensions t \<rparr>"
| "take_collection KSnapshots t s = s\<lparr> mem_snapshots := mem_snapshots t \<rparr>"
| "take_collection KProgress t s = s\<lparr> mem_progress := mem_progress t \<rparr>"
| "take_collection KVectors t s = s\<lparr> mem_vectors := mem_vectors t \<rparr>"
| "take_collection KModels t s = s\<lparr> mem_models := mem_models t \<rparr>"
| "take_collection KNextModel t s = s\<lparr> mem_next_model := mem_next_model t \<rparr>"
| "take_collection KTargets t s = s\<lparr> mem_targets := mem_targets t \<rparr>"
| "take_collection KWorlds t s = s\<lparr> mem_worlds := mem_worlds t \<rparr>"
| "take_collection KSettings t s = s\<lparr> mem_settings := mem_settings t \<rparr>"
| "take_collection KTraces t s = s\<lparr> mem_traces := mem_traces t \<rparr>"
| "take_collection KOutputs t s = s\<lparr> mem_outputs := mem_outputs t \<rparr>"
| "take_collection KInteractions t s = s\<lparr> mem_interactions := mem_interactions t \<rparr>"
| "take_collection KTurnMessages t s = s\<lparr> mem_turn_messages := mem_turn_messages t \<rparr>"
| "take_collection KInputs t s = s\<lparr> mem_inputs := mem_inputs t \<rparr>"
| "take_collection KImports t s = s\<lparr> mem_imports := mem_imports t \<rparr>"
| "take_collection KLorebook t s = s\<lparr> mem_lorebook := mem_lorebook t \<rparr>"
| "take_collection KSummaries t s = s\<lparr> mem_summaries := mem_summaries t \<rparr>"
| "take_collection KLedger t s = s\<lparr> mem_ledger := mem_ledger t \<rparr>"
| "take_collection KAttempts t s = s\<lparr> mem_attempts := mem_attempts t \<rparr>"
| "take_collection KJobs t s = s\<lparr> mem_jobs := mem_jobs t \<rparr>"
| "take_collection KExports t s = s\<lparr> mem_exports := mem_exports t \<rparr>"
| "take_collection KChanges t s = s\<lparr> mem_changes := mem_changes t \<rparr>"
| "take_collection KCounters t s = s\<lparr> mem_counters := mem_counters t \<rparr>"

text \<open>Two states hold the same collection.\<close>

primrec same :: "collection \<Rightarrow> memory_state \<Rightarrow> memory_state \<Rightarrow> bool" where
  "same KSessions s t = (mem_sessions s = mem_sessions t)"
| "same KTurnResults s t = (mem_turn_results s = mem_turn_results t)"
| "same KToolCalls s t = (mem_tool_calls s = mem_tool_calls t)"
| "same KEvents s t = (mem_events s = mem_events t)"
| "same KMessages s t = (mem_messages s = mem_messages t)"
| "same KPositions s t = (mem_positions s = mem_positions t)"
| "same KSchemas s t = (mem_schemas s = mem_schemas t)"
| "same KCharacters s t = (mem_characters s = mem_characters t)"
| "same KPluginData s t = (mem_plugin_data s = mem_plugin_data t)"
| "same KSuspensions s t = (mem_suspensions s = mem_suspensions t)"
| "same KSnapshots s t = (mem_snapshots s = mem_snapshots t)"
| "same KProgress s t = (mem_progress s = mem_progress t)"
| "same KVectors s t = (mem_vectors s = mem_vectors t)"
| "same KModels s t = (mem_models s = mem_models t)"
| "same KNextModel s t = (mem_next_model s = mem_next_model t)"
| "same KTargets s t = (mem_targets s = mem_targets t)"
| "same KWorlds s t = (mem_worlds s = mem_worlds t)"
| "same KSettings s t = (mem_settings s = mem_settings t)"
| "same KTraces s t = (mem_traces s = mem_traces t)"
| "same KOutputs s t = (mem_outputs s = mem_outputs t)"
| "same KInteractions s t = (mem_interactions s = mem_interactions t)"
| "same KTurnMessages s t = (mem_turn_messages s = mem_turn_messages t)"
| "same KInputs s t = (mem_inputs s = mem_inputs t)"
| "same KImports s t = (mem_imports s = mem_imports t)"
| "same KLorebook s t = (mem_lorebook s = mem_lorebook t)"
| "same KSummaries s t = (mem_summaries s = mem_summaries t)"
| "same KLedger s t = (mem_ledger s = mem_ledger t)"
| "same KAttempts s t = (mem_attempts s = mem_attempts t)"
| "same KJobs s t = (mem_jobs s = mem_jobs t)"
| "same KExports s t = (mem_exports s = mem_exports t)"
| "same KChanges s t = (mem_changes s = mem_changes t)"
| "same KCounters s t = (mem_counters s = mem_counters t)"

definition session_scoped_tables :: "collection list" where
  "session_scoped_tables = [KProgress, KTurnResults, KToolCalls, KEvents, KMessages, KSchemas, KCharacters, KPluginData, KImports, KTraces, KOutputs, KInteractions, KTurnMessages, KInputs, KLorebook, KSummaries, KSuspensions, KSnapshots, KLedger, KAttempts, KJobs, KExports, KChanges, KCounters]"

definition all_snapshot_keys :: "collection list" where
  "all_snapshot_keys = KSessions # session_scoped_tables @ [KPositions, KWorlds, KSettings, KVectors, KTargets]"

definition write_method_touches :: "(string \<times> collection list) list" where
  "write_method_touches = [
    (''createSession'', [KSessions]),
    (''updateSession'', [KSessions]),
    (''deleteSession'', all_snapshot_keys),
    (''saveTurnResult'', [KTurnResults]),
    (''setTurnResultCommitStatus'', [KTurnResults]),
    (''saveToolCall'', [KToolCalls]),
    (''saveEvent'', [KEvents]),
    (''deleteEventsBefore'', [KEvents]),
    (''addMessage'', [KMessages, KPositions]),
    (''commitPlayerInputMessage'', [KMessages, KPositions]),
    (''upsertCharacter'', [KCharacters, KChanges]),
    (''upsertCharacterSchema'', [KSchemas]),
    (''deleteCharacter'', [KCharacters, KChanges]),
    (''addTraceEvent'', [KTraces]),
    (''deleteTraceEventsBefore'', [KTraces]),
    (''saveRuntimeOutput'', [KOutputs]),
    (''saveInteractionRecord'', [KInteractions]),
    (''appendTurnMessage'', [KTurnMessages]),
    (''tagTurnMessagesCompacted'', [KTurnMessages]),
    (''retagCompactedTurnMessages'', [KTurnMessages]),
    (''savePlayerInput'', [KInputs]),
    (''saveSessionSummary'', [KSummaries]),
    (''deleteSessionSummaries'', [KSummaries]),
    (''setPluginData'', [KPluginData, KChanges]),
    (''setPluginDataBatch'', [KPluginData, KChanges]),
    (''compareAndSetPluginData'', [KPluginData, KChanges]),
    (''compareAndSetPluginDataBatch'', [KPluginData, KChanges]),
    (''deletePluginData'', [KPluginData, KChanges]),
    (''saveWorldDataImportLedgerBatch'', [KImports]),
    (''deleteWorldDataImportLedger'', [KImports]),
    (''upsertLorebookEntries'', [KLorebook, KChanges]),
    (''deleteLorebookEntry'', [KLorebook, KChanges]),
    (''saveSuspension'', [KSuspensions]),
    (''updateSuspensionContinuation'', [KSuspensions]),
    (''claimSuspension'', [KSuspensions]),
    (''releaseSuspensionClaim'', [KSuspensions]),
    (''markSuspensionResolved'', [KSuspensions]),
    (''deleteSuspension'', [KSuspensions]),
    (''releaseStaleSuspensionClaims'', [KSuspensions]),
    (''saveSnapshot'', [KSnapshots]),
    (''pruneAutoSnapshots'', [KSnapshots]),
    (''insertLogicalTurnCompletion'', [KLedger]),
    (''insertSetupAttempt'', [KAttempts]),
    (''updateSetupAttempt'', [KAttempts]),
    (''appendJobStatus'', [KJobs]),
    (''deleteJobStatus'', [KJobs]),
    (''appendRuntimeExport'', [KExports]),
    (''createWorld'', [KWorlds]),
    (''upsertWorld'', [KWorlds]),
    (''deleteWorld'', [KWorlds]),
    (''setServerSetting'', [KSettings]),
    (''deleteServerSetting'', [KSettings]),
    (''commitVectorIndexBatch'', [KVectors, KProgress]),
    (''upsertVector'', [KVectors]),
    (''deleteVectors'', [KVectors]),
    (''lockSessionEmbeddingModel'', [KTargets]),
    (''resetSessionVectorIndex'', [KVectors, KProgress, KTargets]),
    (''ensureVectorModel'', []),
    (''resolveSessionVectorTarget'', [])]"

definition is_read_method :: "string \<Rightarrow> bool" where
  "is_read_method name = list_ex (starts_with name) [''get'', ''list'', ''search'', ''query'']"

definition touched_by :: "string \<Rightarrow> collection list" where
  "touched_by name = (if is_read_method name then [] else or_else (jm_get write_method_touches name) all_snapshot_keys)"

definition vector_write_methods :: "string list" where
  "vector_write_methods = [''commitVectorIndexBatch'', ''upsertVector'', ''deleteVectors'', ''ensureVectorModel'',
     ''lockSessionEmbeddingModel'', ''resetSessionVectorIndex'']"

definition transactional_write_methods :: "string list" where
  "transactional_write_methods = filter (\<lambda>n. n \<notin> set vector_write_methods \<and> n \<noteq> ''resolveSessionVectorTarget'')
     (map fst write_method_touches)"

text \<open>The name of the method a call calls.\<close>

primrec session_call_name :: "session_call \<Rightarrow> string" where
  "session_call_name (CreateSession a1) = ''createSession''"
| "session_call_name (UpdateSession a1 a2) = ''updateSession''"
| "session_call_name (DeleteSession a1) = ''deleteSession''"

primrec runtime_call_name :: "runtime_call \<Rightarrow> string" where
  "runtime_call_name (SaveTurnResult a1) = ''saveTurnResult''"
| "runtime_call_name (SetTurnResultCommitStatus a1 a2 a3 a4 a5) = ''setTurnResultCommitStatus''"
| "runtime_call_name (SaveToolCall a1) = ''saveToolCall''"
| "runtime_call_name (SaveEvent a1) = ''saveEvent''"
| "runtime_call_name (DeleteEventsBefore a1 a2) = ''deleteEventsBefore''"
| "runtime_call_name (AddMessage a1) = ''addMessage''"
| "runtime_call_name (CommitPlayerInputMessage a1) = ''commitPlayerInputMessage''"
| "runtime_call_name (UpsertCharacter a1) = ''upsertCharacter''"
| "runtime_call_name (UpsertCharacterSchema a1) = ''upsertCharacterSchema''"
| "runtime_call_name (DeleteCharacter a1 a2) = ''deleteCharacter''"
| "runtime_call_name (AddTraceEvent a1) = ''addTraceEvent''"
| "runtime_call_name (DeleteTraceEventsBefore a1 a2) = ''deleteTraceEventsBefore''"
| "runtime_call_name (SaveRuntimeOutput a1) = ''saveRuntimeOutput''"
| "runtime_call_name (SaveInteractionRecord a1) = ''saveInteractionRecord''"

primrec journal_call_name :: "journal_call \<Rightarrow> string" where
  "journal_call_name (AppendTurnMessage a1) = ''appendTurnMessage''"
| "journal_call_name (TagTurnMessagesCompacted a1 a2 a3) = ''tagTurnMessagesCompacted''"
| "journal_call_name (RetagCompactedTurnMessages a1 a2 a3) = ''retagCompactedTurnMessages''"
| "journal_call_name (SavePlayerInput a1) = ''savePlayerInput''"
| "journal_call_name (SaveSessionSummary a1) = ''saveSessionSummary''"
| "journal_call_name (DeleteSessionSummaries a1 a2) = ''deleteSessionSummaries''"

primrec data_call_name :: "data_call \<Rightarrow> string" where
  "data_call_name (SetPluginData a1) = ''setPluginData''"
| "data_call_name (SetPluginDataBatch a1) = ''setPluginDataBatch''"
| "data_call_name (CompareAndSetPluginData a1 a2) = ''compareAndSetPluginData''"
| "data_call_name (CompareAndSetPluginDataBatch a1 a2 a3 a4) = ''compareAndSetPluginDataBatch''"
| "data_call_name (DeletePluginData a1) = ''deletePluginData''"

primrec world_call_name :: "world_call \<Rightarrow> string" where
  "world_call_name (SaveWorldDataImportLedgerBatch a1) = ''saveWorldDataImportLedgerBatch''"
| "world_call_name (DeleteWorldDataImportLedger a1 a2) = ''deleteWorldDataImportLedger''"
| "world_call_name (UpsertLorebookEntries a1) = ''upsertLorebookEntries''"
| "world_call_name (DeleteLorebookEntry a1 a2 a3) = ''deleteLorebookEntry''"
| "world_call_name (CreateWorld a1) = ''createWorld''"
| "world_call_name (UpsertWorld a1) = ''upsertWorld''"
| "world_call_name (DeleteWorld a1) = ''deleteWorld''"
| "world_call_name (SetServerSetting a1) = ''setServerSetting''"
| "world_call_name (DeleteServerSetting a1) = ''deleteServerSetting''"

primrec snapshot_call_name :: "snapshot_call \<Rightarrow> string" where
  "snapshot_call_name (SaveSuspension a1) = ''saveSuspension''"
| "snapshot_call_name (UpdateSuspensionContinuation a1 a2 a3) = ''updateSuspensionContinuation''"
| "snapshot_call_name (ClaimSuspension a1 a2) = ''claimSuspension''"
| "snapshot_call_name (ReleaseSuspensionClaim a1 a2) = ''releaseSuspensionClaim''"
| "snapshot_call_name (MarkSuspensionResolved a1 a2) = ''markSuspensionResolved''"
| "snapshot_call_name (DeleteSuspension a1) = ''deleteSuspension''"
| "snapshot_call_name (ReleaseStaleSuspensionClaims a1) = ''releaseStaleSuspensionClaims''"
| "snapshot_call_name (SaveSnapshot a1) = ''saveSnapshot''"
| "snapshot_call_name (PruneAutoSnapshots a1 a2) = ''pruneAutoSnapshots''"

primrec lifecycle_call_name :: "lifecycle_call \<Rightarrow> string" where
  "lifecycle_call_name (InsertLogicalTurnCompletion a1) = ''insertLogicalTurnCompletion''"
| "lifecycle_call_name (InsertSetupAttempt a1) = ''insertSetupAttempt''"
| "lifecycle_call_name (UpdateSetupAttempt a1 a2 a3 a4 a5) = ''updateSetupAttempt''"
| "lifecycle_call_name (AppendJobStatus a1) = ''appendJobStatus''"
| "lifecycle_call_name (DeleteJobStatus a1 a2) = ''deleteJobStatus''"
| "lifecycle_call_name (AppendRuntimeExport a1) = ''appendRuntimeExport''"

primrec vector_call_name :: "vector_call \<Rightarrow> string" where
  "vector_call_name (CommitVectorIndexBatch a1) = ''commitVectorIndexBatch''"
| "vector_call_name (UpsertVector a1) = ''upsertVector''"
| "vector_call_name (DeleteVectors a1) = ''deleteVectors''"
| "vector_call_name (LockSessionEmbeddingModel a1 a2 a3) = ''lockSessionEmbeddingModel''"
| "vector_call_name (ResetSessionVectorIndex a1 a2 a3 a4 a5) = ''resetSessionVectorIndex''"
| "vector_call_name (EnsureVectorModel a1 a2) = ''ensureVectorModel''"
| "vector_call_name (ResolveSessionVectorTarget a1) = ''resolveSessionVectorTarget''"

primrec method_name :: "store_call \<Rightarrow> string" where
  "method_name (SessionCall c) = session_call_name c"
| "method_name (RuntimeCall c) = runtime_call_name c"
| "method_name (JournalCall c) = journal_call_name c"
| "method_name (DataCall c) = data_call_name c"
| "method_name (WorldCall c) = world_call_name c"
| "method_name (SnapshotCall c) = snapshot_call_name c"
| "method_name (LifecycleCall c) = lifecycle_call_name c"
| "method_name (VectorCall c) = vector_call_name c"


subsection \<open>Every call stays within its declared collections\<close>

lemma touched_by_method:
  "touched_by ''createSession'' = [KSessions]"
  "touched_by ''updateSession'' = [KSessions]"
  "touched_by ''deleteSession'' = all_snapshot_keys"
  "touched_by ''saveTurnResult'' = [KTurnResults]"
  "touched_by ''setTurnResultCommitStatus'' = [KTurnResults]"
  "touched_by ''saveToolCall'' = [KToolCalls]"
  "touched_by ''saveEvent'' = [KEvents]"
  "touched_by ''deleteEventsBefore'' = [KEvents]"
  "touched_by ''addMessage'' = [KMessages, KPositions]"
  "touched_by ''commitPlayerInputMessage'' = [KMessages, KPositions]"
  "touched_by ''upsertCharacter'' = [KCharacters, KChanges]"
  "touched_by ''upsertCharacterSchema'' = [KSchemas]"
  "touched_by ''deleteCharacter'' = [KCharacters, KChanges]"
  "touched_by ''addTraceEvent'' = [KTraces]"
  "touched_by ''deleteTraceEventsBefore'' = [KTraces]"
  "touched_by ''saveRuntimeOutput'' = [KOutputs]"
  "touched_by ''saveInteractionRecord'' = [KInteractions]"
  "touched_by ''appendTurnMessage'' = [KTurnMessages]"
  "touched_by ''tagTurnMessagesCompacted'' = [KTurnMessages]"
  "touched_by ''retagCompactedTurnMessages'' = [KTurnMessages]"
  "touched_by ''savePlayerInput'' = [KInputs]"
  "touched_by ''saveSessionSummary'' = [KSummaries]"
  "touched_by ''deleteSessionSummaries'' = [KSummaries]"
  "touched_by ''setPluginData'' = [KPluginData, KChanges]"
  "touched_by ''setPluginDataBatch'' = [KPluginData, KChanges]"
  "touched_by ''compareAndSetPluginData'' = [KPluginData, KChanges]"
  "touched_by ''compareAndSetPluginDataBatch'' = [KPluginData, KChanges]"
  "touched_by ''deletePluginData'' = [KPluginData, KChanges]"
  "touched_by ''saveWorldDataImportLedgerBatch'' = [KImports]"
  "touched_by ''deleteWorldDataImportLedger'' = [KImports]"
  "touched_by ''upsertLorebookEntries'' = [KLorebook, KChanges]"
  "touched_by ''deleteLorebookEntry'' = [KLorebook, KChanges]"
  "touched_by ''saveSuspension'' = [KSuspensions]"
  "touched_by ''updateSuspensionContinuation'' = [KSuspensions]"
  "touched_by ''claimSuspension'' = [KSuspensions]"
  "touched_by ''releaseSuspensionClaim'' = [KSuspensions]"
  "touched_by ''markSuspensionResolved'' = [KSuspensions]"
  "touched_by ''deleteSuspension'' = [KSuspensions]"
  "touched_by ''releaseStaleSuspensionClaims'' = [KSuspensions]"
  "touched_by ''saveSnapshot'' = [KSnapshots]"
  "touched_by ''pruneAutoSnapshots'' = [KSnapshots]"
  "touched_by ''insertLogicalTurnCompletion'' = [KLedger]"
  "touched_by ''insertSetupAttempt'' = [KAttempts]"
  "touched_by ''updateSetupAttempt'' = [KAttempts]"
  "touched_by ''appendJobStatus'' = [KJobs]"
  "touched_by ''deleteJobStatus'' = [KJobs]"
  "touched_by ''appendRuntimeExport'' = [KExports]"
  "touched_by ''createWorld'' = [KWorlds]"
  "touched_by ''upsertWorld'' = [KWorlds]"
  "touched_by ''deleteWorld'' = [KWorlds]"
  "touched_by ''setServerSetting'' = [KSettings]"
  "touched_by ''deleteServerSetting'' = [KSettings]"
  "touched_by ''commitVectorIndexBatch'' = [KVectors, KProgress]"
  "touched_by ''upsertVector'' = [KVectors]"
  "touched_by ''deleteVectors'' = [KVectors]"
  "touched_by ''lockSessionEmbeddingModel'' = [KTargets]"
  "touched_by ''resetSessionVectorIndex'' = [KVectors, KProgress, KTargets]"
  "touched_by ''ensureVectorModel'' = []"
  "touched_by ''resolveSessionVectorTarget'' = []"
  by code_simp+


lemma put_data_simps [simp]:
  "mem_plugin_data (put_data d s) = da_rows d" "mem_changes (put_data d s) = da_changes d"
  "mem_counters (put_data d s) = da_counters d"
  by (simp_all add: put_data_def)

lemma data_of_simps [simp]:
  "da_rows (data_of s) = mem_plugin_data s" "da_changes (data_of s) = mem_changes s"
  "da_counters (data_of s) = mem_counters s"
  by (simp_all add: data_of_def)

lemma same_put_data: "k \<notin> {KPluginData, KChanges, KCounters} \<Longrightarrow> same k (put_data d s) s"
  by (cases k) (simp_all add: put_data_def)

lemma same_put_lifecycle: "k \<notin> {KLedger, KAttempts, KJobs} \<Longrightarrow> same k (put_lifecycle l s) s"
  by (cases k) (simp_all add: put_lifecycle_def)

lemma same_record_change: "k \<notin> {KChanges, KCounters} \<Longrightarrow> same k (record_store_change sid ch s) s"
  by (cases "k = KPluginData") (simp_all add: record_store_change_def same_put_data)

lemma same_refl [simp]: "same k s s"
  by (cases k) simp_all

lemma same_trans: "same k s t \<Longrightarrow> same k t u \<Longrightarrow> same k s u"
  by (cases k) simp_all

lemma same_sym: "same k s t \<Longrightarrow> same k t s"
  by (cases k) simp_all


lemma session_frame:
  "k \<notin> set (touched_by (session_call_name c)) \<Longrightarrow> k \<noteq> KModels \<Longrightarrow> k \<noteq> KNextModel \<Longrightarrow> same k (snd (run_session_call sc c s)) s"
  by (cases c; cases k) (simp_all add: touched_by_method all_snapshot_keys_def session_scoped_tables_def
      create_session_def update_session_def split: option.split)

lemma runtime_frame:
  assumes "k \<notin> set (touched_by (runtime_call_name c))" "k \<noteq> KCounters"
  shows "same k (snd (run_runtime_call c s)) s"
proof (cases c)
  case (UpsertCharacter r)
  have "same k (s\<lparr> mem_characters := x \<rparr>) s" for x
    using assms by (cases k) (simp_all add: UpsertCharacter touched_by_method)
  then show ?thesis using assms UpsertCharacter
    by (auto simp: upsert_character_def Let_def touched_by_method intro: same_trans[OF same_record_change])
next
  case (DeleteCharacter sid rid)
  have "same k (s\<lparr> mem_characters := x \<rparr>) s" for x
    using assms by (cases k) (simp_all add: DeleteCharacter touched_by_method)
  then show ?thesis using assms DeleteCharacter
    by (auto simp: delete_character_def Let_def touched_by_method intro: same_trans[OF same_record_change])
qed (use assms in \<open>cases k; simp add: touched_by_method save_turn_result_def set_turn_result_commit_status_def
    save_tool_call_def save_event_def delete_events_before_def add_message_def commit_player_input_def
    upsert_character_schema_def add_trace_event_def delete_traces_before_def save_runtime_output_def
    save_interaction_record_def split: sum.split option.split\<close>)+

lemma journal_frame:
  "k \<notin> set (touched_by (journal_call_name c)) \<Longrightarrow> k \<noteq> KCounters \<Longrightarrow> same k (snd (run_journal_call c s)) s"
  by (cases c; cases k) (simp_all add: touched_by_method append_turn_message_def tag_turn_messages_def
      retag_turn_messages_def save_player_input_def save_session_summary_def delete_session_summaries_def
      next_store_write_def next_session_write_def put_data_def Let_def split: sum.split)

lemma data_frame:
  assumes "k \<notin> set (touched_by (data_call_name c))" "k \<noteq> KCounters"
  shows "same k (snd (run_data_call c s)) s"
proof -
  have "k \<notin> {KPluginData, KChanges, KCounters}" using assms by (cases c) (simp_all add: touched_by_method)
  note this[THEN same_put_data]
  then show ?thesis
    by (cases c) (simp_all add: set_plugin_data_rows_def cas_plugin_data_def cas_plugin_data_batch_def
      delete_plugin_data_row_def split: prod.split sum.split)
qed


lemma lorebook_entry_frame: "k \<notin> {KLorebook, KChanges, KCounters} \<Longrightarrow> same k (upsert_lorebook_entry s r) s"
proof -
  assume k: "k \<notin> {KLorebook, KChanges, KCounters}"
  have "same k (s\<lparr> mem_lorebook := x \<rparr>) s" for x using k by (cases k) simp_all
  then show "same k (upsert_lorebook_entry s r) s"
    using k by (auto simp: upsert_lorebook_entry_def Let_def intro: same_trans[OF same_record_change])
qed

lemma lorebook_entries_frame:
  "k \<notin> {KLorebook, KChanges, KCounters} \<Longrightarrow> same k (foldl upsert_lorebook_entry s rs) s"
  by (induction rs arbitrary: s) (auto intro: same_trans lorebook_entry_frame)

lemma world_frame:
  assumes "k \<notin> set (touched_by (world_call_name c))" "k \<noteq> KCounters"
  shows "same k (snd (run_world_call c s)) s"
proof (cases c)
  case (UpsertLorebookEntries rs)
  then show ?thesis using assms by (simp add: touched_by_method upsert_lorebook_entries_def lorebook_entries_frame)
next
  case (DeleteLorebookEntry sid ow rid)
  have "same k (s\<lparr> mem_lorebook := x \<rparr>) s" for x
    using assms by (cases k) (simp_all add: DeleteLorebookEntry touched_by_method)
  then show ?thesis using assms DeleteLorebookEntry
    by (auto simp: delete_lorebook_entry_def Let_def touched_by_method intro: same_trans[OF same_record_change])
qed (use assms in \<open>cases k; simp add: touched_by_method save_import_batch_def delete_import_def create_world_def
    upsert_world_def delete_world_def set_server_setting_def delete_server_setting_def split: sum.split\<close>)+

lemma snapshot_frame:
  "k \<notin> set (touched_by (snapshot_call_name c)) \<Longrightarrow> same k (snd (run_snapshot_call sc c s)) s"
  by (cases c; cases k) (simp_all add: touched_by_method save_suspension_def update_suspension_continuation_def
      claim_suspension_def release_suspension_claim_def mark_suspension_resolved_def delete_suspension_def
      release_stale_claims_def save_snapshot_def prune_auto_snapshots_def Let_def split: sum.split option.split)

lemma lifecycle_frame:
  assumes "k \<notin> set (touched_by (lifecycle_call_name c))"
  shows "same k (snd (run_lifecycle_call c s)) s"
  using assms
  by (cases c; cases k) (simp_all add: touched_by_method append_runtime_export_def store_logical_turn_def
      store_setup_attempt_def patch_setup_attempt_def store_job_status_def remove_job_status_def put_lifecycle_def
      lifecycle_of_def insert_logical_turn_def insert_setup_attempt_def update_setup_attempt_def append_job_status_def
      delete_job_status_def Let_def split: option.split)

text \<open>
  The two methods that lock a session to an embedding model also write the session's row, which their entries
  in the table do not name.
\<close>

definition locks_model :: "store_call \<Rightarrow> bool" where
  "locks_model c = (method_name c = ''lockSessionEmbeddingModel'' \<or> method_name c = ''resetSessionVectorIndex'')"

lemma vector_frame:
  assumes "k \<notin> set (touched_by (vector_call_name c))" "k \<noteq> KModels" "k \<noteq> KNextModel"
    "k = KSessions \<longrightarrow> \<not> locks_model (VectorCall c)"
  shows "same k (snd (run_vector_call c s)) s"
  using assms
  by (cases c; cases k) (simp_all add: touched_by_method locks_model_def commit_vector_batch_def upsert_vector_def
      delete_vectors_def lock_session_model_def reset_session_index_def ensure_vector_model_def
      resolve_vector_target_def Let_def split: sum.split option.split prod.split)

text \<open>The collections that are never captured for a call: the write counters and the model registry.\<close>

definition uncaptured :: "collection set" where
  "uncaptured = {KCounters, KModels, KNextModel}"

lemma call_frame:
  assumes "k \<notin> set (touched_by (method_name c))" "k \<notin> uncaptured" "k = KSessions \<longrightarrow> \<not> locks_model c"
  shows "same k (snd (run_call sc c s)) s"
proof (cases c)
  case (VectorCall v)
  then show ?thesis using assms vector_frame[of k v s] by (simp add: uncaptured_def)
qed (use assms in \<open>simp_all add: uncaptured_def session_frame runtime_frame journal_frame data_frame world_frame
    snapshot_frame lifecycle_frame\<close>)


subsection \<open>A call that throws\<close>

lemma turn_messages_next [simp]: "mem_turn_messages (snd (next_store_write sid s)) = mem_turn_messages s"
  by (simp add: next_store_write_def next_session_write_def put_data_def Let_def)

lemma extend_fields [simp]:
  "k_id (turn_message.extend r m) = k_id r" "row_session (turn_message.extend r m) = row_session r"
  by (simp_all add: turn_message.defs)

lemma append_turn_message_cases:
  "append_turn_message r s = (if k_id r \<in> k_id ` set (mem_turn_messages s)
     then (Inl (RowAlreadyExists ''Turn message'' (k_id r)), s)
     else (Inr NoValue, (snd (next_store_write (row_session r) s))\<lparr> mem_turn_messages :=
        mem_turn_messages s @ [turn_message.extend r \<lparr> tmsg_seq = fst (next_store_write (row_session r) s) \<rparr>] \<rparr>))"
proof -
  obtain n s1 where e: "next_store_write (row_session r) s = (n, s1)" by fastforce
  then have "mem_turn_messages s1 = mem_turn_messages s" using turn_messages_next[of "row_session r" s] by simp
  then show ?thesis by (simp add: append_turn_message_def append_unique_row_def e)
qed

lemma failed_call:
  assumes "run_call sc c s = (Inl e, s')"
  shows "s' = s"
proof (cases c)
  case (SessionCall d)
  then show ?thesis using assms
    by (cases d) (auto simp: create_session_def update_session_def delete_session_def Let_def split: if_splits option.splits)
next
  case (RuntimeCall d)
  then show ?thesis using assms
    by (cases d) (auto simp: save_turn_result_def set_turn_result_commit_status_def save_tool_call_def save_event_def
      delete_events_before_def add_message_def commit_player_input_def upsert_character_def upsert_character_schema_def
      delete_character_def add_trace_event_def delete_traces_before_def save_runtime_output_def save_interaction_record_def
      Let_def split: if_splits option.splits sum.splits)
next
  case (JournalCall d)
  then show ?thesis using assms
    by (cases d) (auto simp: append_turn_message_cases tag_turn_messages_def retag_turn_messages_def
      save_player_input_def save_session_summary_def delete_session_summaries_def split: if_splits sum.splits)
next
  case (DataCall d)
  then show ?thesis using assms
    by (cases d) (auto simp: set_plugin_data_rows_def cas_plugin_data_def cas_plugin_data_batch_def
      delete_plugin_data_row_def split: sum.splits prod.splits)
next
  case (WorldCall d)
  then show ?thesis using assms
    by (cases d) (auto simp: save_import_batch_def delete_import_def upsert_lorebook_entries_def delete_lorebook_entry_def
      create_world_def upsert_world_def delete_world_def set_server_setting_def delete_server_setting_def Let_def
      split: if_splits sum.splits)
next
  case (SnapshotCall d)
  then show ?thesis using assms
    by (cases d) (auto simp: save_suspension_def update_suspension_continuation_def claim_suspension_def
      release_suspension_claim_def mark_suspension_resolved_def delete_suspension_def release_stale_claims_def
      save_snapshot_def prune_auto_snapshots_def Let_def split: if_splits option.splits sum.splits)
next
  case (LifecycleCall d)
  then show ?thesis using assms
    by (cases d) (auto simp: append_runtime_export_def store_logical_turn_def store_setup_attempt_def
      patch_setup_attempt_def store_job_status_def remove_job_status_def split: if_splits prod.splits)
next
  case (VectorCall d)
  then show ?thesis using assms
    by (cases d) (auto simp: commit_vector_batch_def upsert_vector_def delete_vectors_def lock_session_model_def
      reset_session_index_def ensure_vector_model_def resolve_vector_target_def Let_def
      split: if_splits option.splits sum.splits prod.splits)
qed

text \<open>C19: Whatever write method of the store throws, and with whatever error, it leaves the whole store as it
  was: no method writes one collection, or takes a write number, and then fails.\<close>

theorem failed_call_changes_nothing:
  assumes "run_call sc c s = (Inl e, s')"
  shows "s' = s"
  using assms by (rule failed_call)

definition plain_message :: "string \<Rightarrow> string \<Rightarrow> message_row" where
  "plain_message sid rid = \<lparr> k_created = ''t'', k_id = rid, row_session = sid, msg_role = ''user'', msg_content = ''hi'',
     msg_metadata = None \<rparr>"

definition any_schema :: schemas where
  "any_schema = \<lparr> sc_seats = (\<lambda>_. True), sc_payload = (\<lambda>_. True) \<rparr>"

lemma failed_call_changes_nothing_witness:
  "run_call any_schema (RuntimeCall (CommitPlayerInputMessage (plain_message ''s'' ''m''))) create_memory_state
     = (Inl NotCommittedInput, create_memory_state)"
proof -
  let ?r = "run_call any_schema (RuntimeCall (CommitPlayerInputMessage (plain_message ''s'' ''m''))) create_memory_state"
  have "?r = (Inl NotCommittedInput, snd ?r)"
    by (simp add: commit_player_input_def assert_committed_input_def metadata_object_def plain_message_def)
  from failed_call_changes_nothing[OF this] show ?thesis
    using \<open>?r = (Inl NotCommittedInput, snd ?r)\<close> by simp
qed

end
