(* ===== verification/StoreRollback.thy ===== *)
theory StoreRollback
  imports StoreTransactions
begin

text \<open>
  Transaction callbacks and their rollback (\<open>packages/store/src/memory/transaction-methods.ts\<close>). A callback is
  a program: it returns, throws, looks at the state (every read method is a function of the state), makes a
  call on the transaction scope or on the root store, tries to open another transaction, or opens a
  savepoint and goes on with its outcome. It awaits one call before the next. The methods of the store are
  the parameter \<open>base\<close>, as \<open>getScope\<close> is in the source.
\<close>

subsection \<open>Programs\<close>

datatype 'v script =
    Return 'v
  | Throw store_error
  | Query "memory_state \<Rightarrow> 'v script"
  | TxCall store_call "store_error + store_value \<Rightarrow> 'v script"
  | RootCall store_call "store_error + store_value \<Rightarrow> 'v script"
  | OpenTransaction "store_error \<Rightarrow> 'v script"
  | Savepoint "'v script" "store_error + 'v \<Rightarrow> 'v script"

text \<open>A snapshot: the captured collections in their order, with their contents.\<close>

record level =
  lv_keys :: "collection list"
  lv_saved :: memory_state

definition new_level :: level where
  "new_level = \<lparr> lv_keys = [], lv_saved = create_memory_state \<rparr>"

definition capture_collection :: "memory_state \<Rightarrow> level \<Rightarrow> collection \<Rightarrow> level" where
  "capture_collection s l key = (if key \<in> set (lv_keys l) then l
     else if key \<notin> set all_snapshot_keys then l
     else \<lparr> lv_keys = lv_keys l @ [key], lv_saved = take_collection key s (lv_saved l) \<rparr>)"

definition restore_snapshot :: "level \<Rightarrow> memory_state \<Rightarrow> memory_state" where
  "restore_snapshot l s = foldl (\<lambda>s key. take_collection key (lv_saved l) s) s (lv_keys l)"

definition on_touch :: "memory_state \<Rightarrow> string \<Rightarrow> level list \<Rightarrow> level list" where
  "on_touch s name levels = map (\<lambda>l. foldl (capture_collection s) l (touched_by name)) levels"

type_synonym store_methods = "store_call \<Rightarrow> memory_state \<Rightarrow> store_answer"

primrec run_script :: "store_methods \<Rightarrow> 'v script \<Rightarrow> level list \<Rightarrow> memory_state \<Rightarrow> (store_error + 'v) \<times> level list \<times> memory_state" where
  "run_script base (Return v) levels s = (Inr v, levels, s)"
| "run_script base (Throw e) levels s = (Inl e, levels, s)"
| "run_script base (Query k) levels s = run_script base (k s) levels s"
| "run_script base (TxCall c k) levels s =
     (let levels1 = on_touch s (method_name c) levels; (r, s1) = base c s in run_script base (k r) levels1 s1)"
| "run_script base (RootCall c k) levels s =
     (if method_name c \<in> set transactional_write_methods
      then run_script base (k (Inl (RootWriteInTransaction (method_name c)))) levels s
      else let (r, s1) = base c s in run_script base (k r) levels s1)"
| "run_script base (OpenTransaction k) levels s = run_script base (k NestedTransaction) levels s"
| "run_script base (Savepoint body k) levels s =
     (let (r, levels1, s1) = run_script base body (levels @ [new_level]) s;
          s2 = (case r of Inl _ \<Rightarrow> restore_snapshot (last levels1) s1 | Inr _ \<Rightarrow> s1)
      in run_script base (k r) (butlast levels1) s2)"

definition with_transaction :: "store_methods \<Rightarrow> 'v script \<Rightarrow> memory_state \<Rightarrow> (store_error + 'v) \<times> memory_state" where
  "with_transaction base p s = (let (r, levels, s1) = run_script base p [new_level] s
     in (r, case r of Inl _ \<Rightarrow> restore_snapshot (hd levels) s1 | Inr _ \<Rightarrow> s1))"

text \<open>The calls a program makes: those on the transaction scope satisfy \<open>P\<close>, those on the root store that its guard
  lets through satisfy \<open>Q\<close>.\<close>

primrec script_calls :: "(store_call \<Rightarrow> bool) \<Rightarrow> (store_call \<Rightarrow> bool) \<Rightarrow> 'v script \<Rightarrow> bool" where
  "script_calls P Q (Return v) = True"
| "script_calls P Q (Throw e) = True"
| "script_calls P Q (Query k) = (\<forall>s. script_calls P Q (k s))"
| "script_calls P Q (TxCall c k) = (P c \<and> (\<forall>r. script_calls P Q (k r)))"
| "script_calls P Q (RootCall c k) = ((method_name c \<in> set transactional_write_methods \<or> Q c) \<and> (\<forall>r. script_calls P Q (k r)))"
| "script_calls P Q (OpenTransaction k) = (\<forall>e. script_calls P Q (k e))"
| "script_calls P Q (Savepoint body k) = (script_calls P Q body \<and> (\<forall>r. script_calls P Q (k r)))"

text \<open>A program that makes no call on the root store past its guard.\<close>

abbreviation tx_calls_only :: "(store_call \<Rightarrow> bool) \<Rightarrow> 'v script \<Rightarrow> bool" where
  "tx_calls_only P \<equiv> script_calls P (\<lambda>_. False)"

definition past_guard :: "store_call \<Rightarrow> bool" where
  "past_guard c = (method_name c \<notin> set transactional_write_methods)"

lemma any_script: "script_calls (\<lambda>_. True) past_guard p"
  by (induction p) (auto simp: past_guard_def)

subsection \<open>Capture and restore\<close>

lemma same_take: "same k (take_collection c t s) u \<longleftrightarrow> (if k = c then same k t u else same k s u)"
  by (cases c; cases k) simp_all

lemma restore_snapshot_same:
  "same k (restore_snapshot l s) u \<longleftrightarrow> (if k \<in> set (lv_keys l) then same k (lv_saved l) u else same k s u)"
proof -
  have "same k (foldl (\<lambda>s key. take_collection key t s) s ks) u \<longleftrightarrow> (if k \<in> set ks then same k t u else same k s u)" for t ks
    by (induction ks arbitrary: s) (auto simp: same_take)
  then show ?thesis by (simp add: restore_snapshot_def)
qed

lemma capture_keys:
  "set (lv_keys (foldl (capture_collection s) l cs)) = set (lv_keys l) \<union> (set cs \<inter> set all_snapshot_keys)"
  by (induction cs arbitrary: l) (auto simp: capture_collection_def)

lemma capture_saved:
  "same k (lv_saved (foldl (capture_collection s) l cs)) u \<longleftrightarrow>
     (if k \<notin> set (lv_keys l) \<and> k \<in> set cs \<inter> set all_snapshot_keys then same k s u else same k (lv_saved l) u)"
  by (induction cs arbitrary: l) (auto simp: capture_collection_def same_take)


subsection \<open>Open levels\<close>

text \<open>
  A level that was opened in the state \<open>b\<close>: of each protected collection it holds what \<open>b\<close> had, or the
  collection still is what it was. An inner level has captured no more than an outer one.
\<close>

definition level_ok :: "collection set \<Rightarrow> memory_state \<Rightarrow> memory_state \<Rightarrow> level \<Rightarrow> bool" where
  "level_ok P s b l \<longleftrightarrow> (\<forall>k\<in>P. if k \<in> set (lv_keys l) then same k (lv_saved l) b else same k s b)"

definition nested :: "level list \<Rightarrow> bool" where
  "nested ls \<longleftrightarrow> sorted_wrt (\<lambda>l l'. set (lv_keys l') \<subseteq> set (lv_keys l)) ls"

lemma nested_touch: "nested ls \<Longrightarrow> nested (on_touch s name ls)"
  by (auto simp: nested_def on_touch_def sorted_wrt_map capture_keys intro: sorted_wrt_mono_rel[rotated])

lemma nested_new: "nested ls \<Longrightarrow> nested (ls @ [new_level])"
  by (simp add: nested_def sorted_wrt_append new_level_def)

lemma nested_butlast: "nested ls \<Longrightarrow> nested (butlast ls)"
  by (cases ls rule: rev_cases) (auto simp: nested_def sorted_wrt_append)

lemma level_ok_new: "level_ok P s s new_level"
  by (simp add: level_ok_def new_level_def)

lemma level_ok_restore_own: "level_ok P s b l \<Longrightarrow> k \<in> P \<Longrightarrow> same k (restore_snapshot l s) b"
  by (auto simp: level_ok_def restore_snapshot_same)

lemma level_ok_restore_inner:
  assumes "level_ok P s b l" "set (lv_keys inner) \<subseteq> set (lv_keys l)"
  shows "level_ok P (restore_snapshot inner s) b l"
  using assms by (auto simp: level_ok_def restore_snapshot_same)

locale transactional_scope =
  fixes base :: store_methods and allowed loose :: "store_call \<Rightarrow> bool" and protected :: "collection set"
  assumes protected_captured: "protected \<subseteq> set all_snapshot_keys"
    and frame: "allowed c \<Longrightarrow> k \<in> protected \<Longrightarrow> k \<notin> set (touched_by (method_name c)) \<Longrightarrow> same k (snd (base c s)) s"
    and loose_frame: "loose c \<Longrightarrow> method_name c \<notin> set transactional_write_methods \<Longrightarrow> k \<in> protected \<Longrightarrow> same k (snd (base c s)) s"
begin

lemma level_ok_call:
  assumes "level_ok protected s b l" "allowed c"
  shows "level_ok protected (snd (base c s)) b (foldl (capture_collection s) l (touched_by (method_name c)))"
proof -
  have "same k (snd (base c s)) b" if "k \<in> protected" "k \<notin> set (touched_by (method_name c))" "same k s b" for k
    using frame[OF assms(2) that(1,2)] that(3) by (rule same_trans)
  then show ?thesis
    using assms(1) protected_captured by (auto simp: level_ok_def capture_keys capture_saved)
qed

lemma level_ok_root:
  assumes "level_ok protected s b l" "loose c" "method_name c \<notin> set transactional_write_methods"
  shows "level_ok protected (snd (base c s)) b l"
proof -
  have "same k (snd (base c s)) b" if "k \<in> protected" "same k s b" for k
    using loose_frame[OF assms(2,3) that(1)] that(2) by (rule same_trans)
  then show ?thesis using assms(1) by (auto simp: level_ok_def)
qed

lemma run_levels:
  "script_calls allowed loose p \<Longrightarrow> list_all2 (level_ok protected s) bs ls \<Longrightarrow> nested ls \<Longrightarrow>
     run_script base p ls s = (r, ls', s') \<Longrightarrow> list_all2 (level_ok protected s') bs ls' \<and> nested ls'"
proof (induction p arbitrary: bs ls s r ls' s')
  case (Query k)
  show ?case using Query.IH[OF rangeI[of k s], of s bs ls] Query.prems by simp
next
  case (RootCall c k)
  show ?case
  proof (cases "method_name c \<in> set transactional_write_methods")
    case True
    then show ?thesis
      using RootCall.IH[OF rangeI[of k "Inl (RootWriteInTransaction (method_name c))"], of s bs ls] RootCall.prems by simp
  next
    case False
    obtain v s1 where b: "base c s = (v, s1)" by fastforce
    have "loose c" using RootCall.prems(1) False by simp
    from level_ok_root[OF _ this False] have "list_all2 (level_ok protected s1) bs ls"
      using RootCall.prems(2) b by (fastforce simp: list_all2_conv_all_nth)
    then show ?thesis
      using RootCall.IH[OF rangeI[of k v], of s1 bs ls] RootCall.prems b False by (simp add: Let_def)
  qed
next
  case (OpenTransaction k)
  show ?case using OpenTransaction.IH[OF rangeI[of k NestedTransaction], of s bs ls] OpenTransaction.prems by simp
next
  case (TxCall c k)
  obtain v s1 where b: "base c s = (v, s1)" by fastforce
  let ?ls = "on_touch s (method_name c) ls"
  have "list_all2 (level_ok protected s1) bs ?ls"
    using TxCall.prems(1,2) level_ok_call[of s _ _ c] b
    by (auto simp: on_touch_def list_all2_conv_all_nth)
  then show ?case
    using TxCall.IH[OF rangeI[of k v], of s1 bs ?ls] TxCall.prems b nested_touch by (simp add: Let_def)
next
  case (Savepoint body k)
  obtain v ls1 s1 where b: "run_script base body (ls @ [new_level]) s = (v, ls1, s1)" by (metis prod_cases3)
  have "list_all2 (level_ok protected s) (bs @ [s]) (ls @ [new_level])"
    using Savepoint.prems(2) by (simp add: list_all2_append level_ok_new list_all2_lengthD)
  then have one: "list_all2 (level_ok protected s1) (bs @ [s]) ls1" "nested ls1"
    using Savepoint.IH(1)[OF _ _ nested_new b] Savepoint.prems(1,3) by simp_all
  then obtain ls2 l where ls1: "ls1 = ls2 @ [l]" by (cases ls1 rule: rev_cases) auto
  let ?s2 = "case v of Inl _ \<Rightarrow> restore_snapshot l s1 | Inr _ \<Rightarrow> s1"
  have inner: "set (lv_keys l) \<subseteq> set (lv_keys m)" if "m \<in> set ls2" for m
    using one(2) that by (simp add: nested_def ls1 sorted_wrt_append)
  have "list_all2 (level_ok protected s1) bs ls2"
    using one(1) by (auto simp: ls1 list_all2_append2 list_all2_Cons2 dest: list_all2_lengthD)
  then have "list_all2 (level_ok protected ?s2) bs ls2"
    by (auto simp: list_all2_conv_all_nth split: sum.split intro!: level_ok_restore_inner inner)
  moreover have "nested ls2" using one(2) by (simp add: nested_def ls1 sorted_wrt_append)
  ultimately show ?case
    using Savepoint.IH(2)[OF rangeI[of k v], of ?s2 bs ls2] Savepoint.prems(1,4) b ls1
    by (simp add: Let_def cong: sum.case_cong)
qed auto

lemma failed_transaction_restores:
  assumes "script_calls allowed loose p" "with_transaction base p s = (Inl e, s')" "k \<in> protected"
  shows "same k s' s"
proof -
  obtain r ls s1 where run: "run_script base p [new_level] s = (r, ls, s1)" by (metis prod_cases3)
  have "list_all2 (level_ok protected s1) [s] ls"
    using run_levels[OF assms(1) _ _ run, of "[s]"] by (simp add: level_ok_new nested_def)
  then obtain l where "ls = [l]" "level_ok protected s1 s l" by (auto simp: list_all2_Cons1)
  then show ?thesis
    using assms(2,3) run level_ok_restore_own by (auto simp: with_transaction_def split: sum.splits)
qed

lemma failed_savepoint_restores:
  assumes "script_calls allowed loose body" "list_all2 (level_ok protected s) bs ls" "nested ls"
    "run_script base body (ls @ [new_level]) s = (Inl e, ls1, s1)" "k \<in> protected"
  shows "same k (restore_snapshot (last ls1) s1) s"
proof -
  have "list_all2 (level_ok protected s) (bs @ [s]) (ls @ [new_level])"
    using assms(2) by (simp add: list_all2_append level_ok_new list_all2_lengthD)
  then have "list_all2 (level_ok protected s1) (bs @ [s]) ls1"
    using run_levels[OF assms(1) _ nested_new[OF assms(3)] assms(4)] by blast
  then obtain ls2 l where "ls1 = ls2 @ [l]" "level_ok protected s1 s l"
    by (auto simp: list_all2_append1 list_all2_Cons1)
  then show ?thesis using level_ok_restore_own assms(5) by simp
qed

end


subsection \<open>Rollback of the memory store\<close>

lemma uncaptured_keys: "k \<in> set all_snapshot_keys \<Longrightarrow> k \<noteq> KCounters \<Longrightarrow> k \<notin> uncaptured"
  by (auto simp: all_snapshot_keys_def session_scoped_tables_def uncaptured_def)

text \<open>Only the vector methods pass the guard of the root store.\<close>

lemma transactional_methods_list:
  "transactional_write_methods = [''createSession'', ''updateSession'', ''deleteSession'', ''saveTurnResult'',
     ''setTurnResultCommitStatus'', ''saveToolCall'', ''saveEvent'', ''deleteEventsBefore'', ''addMessage'',
     ''commitPlayerInputMessage'', ''upsertCharacter'', ''upsertCharacterSchema'', ''deleteCharacter'',
     ''addTraceEvent'', ''deleteTraceEventsBefore'', ''saveRuntimeOutput'', ''saveInteractionRecord'',
     ''appendTurnMessage'', ''tagTurnMessagesCompacted'', ''retagCompactedTurnMessages'', ''savePlayerInput'',
     ''saveSessionSummary'', ''deleteSessionSummaries'', ''setPluginData'', ''setPluginDataBatch'',
     ''compareAndSetPluginData'', ''compareAndSetPluginDataBatch'', ''deletePluginData'',
     ''saveWorldDataImportLedgerBatch'', ''deleteWorldDataImportLedger'', ''upsertLorebookEntries'',
     ''deleteLorebookEntry'', ''saveSuspension'', ''updateSuspensionContinuation'', ''claimSuspension'',
     ''releaseSuspensionClaim'', ''markSuspensionResolved'', ''deleteSuspension'',
     ''releaseStaleSuspensionClaims'', ''saveSnapshot'', ''pruneAutoSnapshots'',
     ''insertLogicalTurnCompletion'', ''insertSetupAttempt'', ''updateSetupAttempt'', ''appendJobStatus'',
     ''deleteJobStatus'', ''appendRuntimeExport'', ''createWorld'', ''upsertWorld'', ''deleteWorld'',
     ''setServerSetting'', ''deleteServerSetting'']"
  by code_simp

lemma guarded_methods:
  "session_call_name c0 \<in> set transactional_write_methods"
  "runtime_call_name c1 \<in> set transactional_write_methods"
  "journal_call_name c2 \<in> set transactional_write_methods"
  "data_call_name c3 \<in> set transactional_write_methods"
  "world_call_name c4 \<in> set transactional_write_methods"
  "snapshot_call_name c5 \<in> set transactional_write_methods"
  "lifecycle_call_name c6 \<in> set transactional_write_methods"
  subgoal by (cases c0) (simp_all add: transactional_methods_list)
  subgoal by (cases c1) (simp_all add: transactional_methods_list)
  subgoal by (cases c2) (simp_all add: transactional_methods_list)
  subgoal by (cases c3) (simp_all add: transactional_methods_list)
  subgoal by (cases c4) (simp_all add: transactional_methods_list)
  subgoal by (cases c5) (simp_all add: transactional_methods_list)
  subgoal by (cases c6) (simp_all add: transactional_methods_list)
  done

lemma past_guard_vector: "past_guard c \<Longrightarrow> \<exists>d. c = VectorCall d"
  by (cases c) (simp_all add: past_guard_def guarded_methods)

lemma past_guard_frame:
  assumes "past_guard c" "k \<notin> {KCounters, KModels, KNextModel, KSessions, KVectors, KTargets, KProgress}"
  shows "same k (snd (run_call sc c s)) s"
proof -
  obtain d where "c = VectorCall d" using past_guard_vector[OF assms(1)] by blast
  then have "k \<notin> set (touched_by (method_name c))" using assms(2) by (cases d) (simp_all add: touched_by_method)
  then show ?thesis using assms(2) by (intro call_frame) (auto simp: uncaptured_def)
qed

interpretation plain: transactional_scope "run_call sc" "\<lambda>c. \<not> locks_model c" "\<lambda>_. False" "set all_snapshot_keys - {KCounters}" for sc
  by unfold_locales (auto intro!: call_frame dest: uncaptured_keys)

interpretation every: transactional_scope "run_call sc" "\<lambda>_. True" "\<lambda>_. False" "set all_snapshot_keys - {KCounters, KSessions}" for sc
  by unfold_locales (auto intro!: call_frame dest: uncaptured_keys)

abbreviation always_protected :: "collection set" where
  "always_protected \<equiv> set all_snapshot_keys - {KCounters, KSessions, KVectors, KTargets, KProgress}"

interpretation any: transactional_scope "run_call sc" "\<lambda>_. True" past_guard always_protected for sc
proof unfold_locales
  show "same k (snd (run_call sc c s)) s" if "k \<in> always_protected" "k \<notin> set (touched_by (method_name c))" for c k s
    using that by (auto intro!: call_frame dest: uncaptured_keys)
  show "same k (snd (run_call sc c s)) s" if "past_guard c" "k \<in> always_protected" for c k s
    using that(2) uncaptured_keys[of k] by (intro past_guard_frame[OF that(1)]) (auto simp: uncaptured_def)
qed auto

lemma same_all:
  assumes "\<And>k. k \<in> set all_snapshot_keys - {KCounters} \<Longrightarrow> same k s' s"
  shows "s' = s\<lparr> mem_counters := mem_counters s', mem_models := mem_models s', mem_next_model := mem_next_model s' \<rparr>"
proof -
  have "\<forall>k\<in>set all_snapshot_keys - {KCounters}. same k s' s" using assms by blast
  then show ?thesis
    by (simp add: all_snapshot_keys_def session_scoped_tables_def memory_state.equality insert_Diff_if)
qed

lemma same_but_sessions:
  assumes "\<And>k. k \<in> set all_snapshot_keys - {KCounters, KSessions} \<Longrightarrow> same k s' s"
  shows "s' = s\<lparr> mem_counters := mem_counters s', mem_models := mem_models s', mem_next_model := mem_next_model s',
    mem_sessions := mem_sessions s' \<rparr>"
proof -
  have "\<forall>k\<in>set all_snapshot_keys - {KCounters, KSessions}. same k s' s" using assms by blast
  then show ?thesis
    by (simp add: all_snapshot_keys_def session_scoped_tables_def memory_state.equality insert_Diff_if)
qed

lemma same_but_vectors:
  assumes "\<And>k. k \<in> always_protected \<Longrightarrow> same k s' s"
  shows "s' = s\<lparr> mem_counters := mem_counters s', mem_models := mem_models s', mem_next_model := mem_next_model s',
    mem_sessions := mem_sessions s', mem_vectors := mem_vectors s', mem_targets := mem_targets s', mem_progress := mem_progress s' \<rparr>"
proof -
  have "\<forall>k\<in>always_protected. same k s' s" using assms by blast
  then show ?thesis
    by (simp add: all_snapshot_keys_def session_scoped_tables_def memory_state.equality insert_Diff_if)
qed

text \<open>C17: A transaction whose callback throws leaves the store as it found it, whatever calls, caught errors, refused
  root writes and savepoints the callback went through: only the write counters and the registry of embedding
  models keep what the callback did to them. A callback that locks or resets a session's embedding model may
  besides change the session rows, and one that writes vectors on the root store, which its guard lets through,
  the vectors, their locks and progress; nothing else survives any callback.\<close>

theorem rollback_restores:
  assumes "with_transaction (run_call sc) p s = (Inl e, s')"
  shows "s' = s\<lparr> mem_counters := mem_counters s', mem_models := mem_models s', mem_next_model := mem_next_model s',
      mem_sessions := (if tx_calls_only (\<lambda>c. \<not> locks_model c) p then mem_sessions s else mem_sessions s'),
      mem_vectors := (if tx_calls_only (\<lambda>_. True) p then mem_vectors s else mem_vectors s'),
      mem_targets := (if tx_calls_only (\<lambda>_. True) p then mem_targets s else mem_targets s'),
      mem_progress := (if tx_calls_only (\<lambda>_. True) p then mem_progress s else mem_progress s') \<rparr>"
proof -
  have any: "s' = s\<lparr> mem_counters := mem_counters s', mem_models := mem_models s', mem_next_model := mem_next_model s',
    mem_sessions := mem_sessions s', mem_vectors := mem_vectors s', mem_targets := mem_targets s', mem_progress := mem_progress s' \<rparr>"
    by (rule same_but_vectors, rule any.failed_transaction_restores[OF any_script assms])
  have sessions: "mem_sessions s' = mem_sessions s" if "tx_calls_only (\<lambda>c. \<not> locks_model c) p"
    using arg_cong[OF same_all[OF plain.failed_transaction_restores[OF that assms]], of mem_sessions] by simp
  have "s' = s\<lparr> mem_counters := mem_counters s', mem_models := mem_models s', mem_next_model := mem_next_model s',
    mem_sessions := mem_sessions s' \<rparr>" if "tx_calls_only (\<lambda>_. True) p"
    by (rule same_but_sessions, rule every.failed_transaction_restores[OF that assms])
  from arg_cong[OF this, of mem_vectors] arg_cong[OF this, of mem_targets] arg_cong[OF this, of mem_progress]
  have "mem_vectors s' = mem_vectors s" "mem_targets s' = mem_targets s" "mem_progress s' = mem_progress s"
    if "tx_calls_only (\<lambda>_. True) p" using that by simp_all
  with sessions have "(if tx_calls_only (\<lambda>c. \<not> locks_model c) p then mem_sessions s else mem_sessions s') = mem_sessions s'"
    "(if tx_calls_only (\<lambda>_. True) p then mem_vectors s else mem_vectors s') = mem_vectors s'"
    "(if tx_calls_only (\<lambda>_. True) p then mem_targets s else mem_targets s') = mem_targets s'"
    "(if tx_calls_only (\<lambda>_. True) p then mem_progress s else mem_progress s') = mem_progress s'" by simp_all
  then show ?thesis using any by (simp only:)
qed

text \<open>A callback that adds a message, fails inside a savepoint, adds another one, and then throws.\<close>

definition failing_script :: "unit script" where
  "failing_script = TxCall (RuntimeCall (AddMessage (plain_message ''s'' ''a''))) (\<lambda>_.
     Savepoint (TxCall (WorldCall (DeleteWorld ''w'')) (\<lambda>_. Throw (CallbackError ''inner''))) (\<lambda>_.
     RootCall (RuntimeCall (AddMessage (plain_message ''s'' ''c''))) (\<lambda>_.
     TxCall (RuntimeCall (AddMessage (plain_message ''s'' ''b''))) (\<lambda>_. Throw (CallbackError ''outer'')))))"

lemma rollback_restores_witness:
  "fst (with_transaction (run_call any_schema) failing_script create_memory_state) = Inl (CallbackError ''outer'')
    \<and> mem_messages (snd (with_transaction (run_call any_schema) failing_script create_memory_state)) = []"
proof -
  let ?r = "with_transaction (run_call any_schema) failing_script create_memory_state"
  have e: "fst ?r = Inl (CallbackError ''outer'')" by code_simp
  then have r: "?r = (Inl (CallbackError ''outer''), snd ?r)" by (metis prod.collapse)
  from arg_cong[OF rollback_restores[OF r], of mem_messages]
  have "mem_messages (snd ?r) = mem_messages create_memory_state" by simp
  then show ?thesis using e by (simp add: create_memory_state_def)
qed


text \<open>The session row is one of the exceptions above. A transaction whose only call locks an unlocked session to an
  embedding model, and which then throws, takes the lock target back, which the table of touched collections
  names, but the session's row, which the table does not name, still says that it is locked to that model.\<close>

lemma model_lock_survives_rollback:
  assumes "jm_get (mem_sessions s) sid = Some r" "jm_get (mem_targets s) sid = None"
  shows "with_transaction (run_call sc) (TxCall (VectorCall (LockSessionEmbeddingModel now sid t)) (\<lambda>_. Throw e)) s
    = (Inl e :: store_error + unit,
       s\<lparr> mem_sessions := jm_set sid (r\<lparr> srec_model := Some (vt_registry t), srec_model_at := Some now \<rparr>) (mem_sessions s) \<rparr>)"
proof -
  have "sid \<notin> fst ` set (mem_targets s)" using assms(2) by (simp add: map_of_eq_None_iff)
  then show ?thesis
    using assms by (simp add: with_transaction_def lock_session_model_def on_touch_def touched_by_method new_level_def
      capture_collection_def restore_snapshot_def all_snapshot_keys_def session_scoped_tables_def)
qed

definition bare_session :: "string \<Rightarrow> session_record" where
  "bare_session sid = \<lparr> k_created = ''t'', k_id = sid, srec_world = None, srec_status = SessionActive, srec_locale = ''en'',
     srec_plugins = [], srec_updated = ''t'', srec_metadata = None, srec_model = None, srec_model_at = None,
     srec_overrides = None, srec_phase = PlayingPhase, srec_turns = 0, srec_setup = [], srec_seats = JArr [] \<rparr>"

definition one_session :: "string \<Rightarrow> memory_state" where
  "one_session sid = create_memory_state\<lparr> mem_sessions := [(sid, bare_session sid)] \<rparr>"

definition small_model :: vector_target where
  "small_model = \<lparr> vt_registry = 7, vt_model = ''m'', vt_dim = 3, vt_table = ''vec_mem_m7'' \<rparr>"

lemma model_lock_survives_rollback_witness:
  "\<exists>r. jm_get (mem_sessions (snd (with_transaction (run_call any_schema)
      (TxCall (VectorCall (LockSessionEmbeddingModel ''now'' ''s'' small_model)) (\<lambda>_. Throw NotCommittedInput) :: unit script)
      (one_session ''s'')))) ''s'' = Some r \<and> srec_model r = Some 7"
proof -
  have "jm_get (mem_sessions (one_session ''s'')) ''s'' = Some (bare_session ''s'')" by (simp add: one_session_def)
  moreover have "jm_get (mem_targets (one_session ''s'')) ''s'' = None"
    by (simp add: one_session_def create_memory_state_def)
  ultimately show ?thesis
    by (subst model_lock_survives_rollback[where e = NotCommittedInput]) (simp_all add: small_model_def)
qed

subsection \<open>Write counters\<close>

definition write_counter_of :: "string \<Rightarrow> memory_state \<Rightarrow> int" where
  "write_counter_of sid s = or_else (jm_get (mem_counters s) sid) 0"

definition counters_le :: "memory_state \<Rightarrow> memory_state \<Rightarrow> bool" where
  "counters_le s t \<longleftrightarrow> (\<forall>sid. write_counter_of sid s \<le> write_counter_of sid t)"

lemma counters_le_refl [simp]: "counters_le s s"
  by (simp add: counters_le_def)

lemma counters_le_trans: "counters_le s t \<Longrightarrow> counters_le t u \<Longrightarrow> counters_le s u"
  by (meson counters_le_def order_trans)

lemma counters_le_same: "mem_counters s = mem_counters t \<Longrightarrow> counters_le s t"
  by (simp add: counters_le_def write_counter_of_def)

lemma counters_le_data:
  "(\<And>sid. write_counter (data_of s) sid \<le> write_counter d sid) \<Longrightarrow> counters_le s (put_data d s)"
  by (simp add: counters_le_def write_counter_of_def write_counter_def)


lemma write_counter_data_of [simp]: "write_counter (data_of s) sid = write_counter_of sid s"
  by (simp add: write_counter_def write_counter_of_def)

lemma write_counter_put [simp]: "write_counter_of sid (put_data d s) = write_counter d sid"
  by (simp add: write_counter_def write_counter_of_def)

lemma counters_record_change: "counters_le s (record_store_change sid ch s)"
  by (simp add: counters_le_def record_store_change_def)

lemma write_counter_rows_le: "write_counter s sid \<le> write_counter (set_plugin_data_batch rs s) sid"
proof -
  have "write_counter s sid \<le> write_counter (write_row r s) sid" for r s
    by (simp add: write_row_def changed_def Let_def)
  then have "write_counter s sid \<le> write_counter (foldl (\<lambda>s r. write_row r s) s rs) sid"
    by (induction rs arbitrary: s) (auto intro: order_trans)
  then show ?thesis by (simp add: set_plugin_data_batch_def)
qed

lemma write_counter_cas_le:
  assumes "compare_and_set_batch uuid sid plugin es s = Inr (ok, s')"
  shows "write_counter s x \<le> write_counter s' x"
proof -
  have step: "write_counter s x \<le> write_counter (changed r (s\<lparr> da_rows := q \<rparr>)) x" for r q s
    by (simp add: changed_def)
  have "write_counter s x \<le> write_counter (foldl (\<lambda>s r. changed r (s\<lparr> da_rows := jm_set (plugin_data_key r) r (da_rows s) \<rparr>)) s rs) x" for rs s
    by (induction rs arbitrary: s) (auto intro: order_trans[OF step])
  then show ?thesis using assms by (auto simp: compare_and_set_batch_def Let_def split: if_splits)
qed

lemma counters_lorebook: "counters_le s (foldl upsert_lorebook_entry s rs)"
proof -
  have "counters_le s (upsert_lorebook_entry s r)" for s r
    unfolding upsert_lorebook_entry_def Let_def
    by (rule counters_le_trans[OF counters_le_same counters_record_change]) simp
  then show ?thesis by (induction rs arbitrary: s) (auto intro: counters_le_trans)
qed

lemma counters_after_change: "mem_counters t = mem_counters s \<Longrightarrow> counters_le s (record_store_change sid ch t)"
  by (rule counters_le_trans[OF counters_le_same counters_record_change]) simp

lemma counters_call:
  assumes "method_name c \<noteq> ''deleteSession''"
  shows "counters_le s (snd (run_call sc c s))"
proof (cases c)
  case (SessionCall d)
  then have "same KCounters (snd (run_session_call sc d s)) s"
    using assms by (intro session_frame; cases d) (simp_all add: touched_by_method)
  then show ?thesis using SessionCall by (simp add: counters_le_same)
next
  case (RuntimeCall d)
  then show ?thesis
    by (cases d) (auto simp: save_turn_result_def set_turn_result_commit_status_def save_tool_call_def save_event_def
      delete_events_before_def add_message_def commit_player_input_def upsert_character_def upsert_character_schema_def
      delete_character_def add_trace_event_def delete_traces_before_def save_runtime_output_def save_interaction_record_def
      Let_def split: option.split sum.split intro!: counters_le_same counters_after_change)
next
  case (JournalCall d)
  have "counters_le s ((snd (next_store_write sid s))\<lparr> mem_turn_messages := x \<rparr>)" for sid x
    by (simp add: counters_le_def write_counter_of_def next_store_write_def next_session_write_def Let_def)
  then show ?thesis using JournalCall
    by (cases d) (auto simp: append_turn_message_cases tag_turn_messages_def retag_turn_messages_def
      save_player_input_def save_session_summary_def delete_session_summaries_def split: sum.split intro!: counters_le_same)
next
  case (DataCall d)
  have "write_counter s x \<le> write_counter (snd (compare_and_set r u s)) x" "write_counter s x \<le> write_counter (delete_plugin_data key s) x" for s x r u key
    by (auto simp: compare_and_set_def write_row_def changed_def delete_plugin_data_def Let_def split: prod.splits)
  note cas = this
  show ?thesis using DataCall write_counter_cas_le[of _ _ _ _ "data_of s"] cas[of "data_of s"]
    by (cases d) (auto simp: set_plugin_data_rows_def cas_plugin_data_def cas_plugin_data_batch_def delete_plugin_data_row_def
      split_beta write_counter_rows_le split: sum.split intro!: counters_le_data simp del: write_counter_data_of)
next
  case (WorldCall d)
  then show ?thesis
    by (cases d) (auto simp: save_import_batch_def delete_import_def upsert_lorebook_entries_def delete_lorebook_entry_def
      create_world_def upsert_world_def delete_world_def set_server_setting_def delete_server_setting_def Let_def
      counters_lorebook split: sum.split intro!: counters_le_same counters_after_change)
next
  case (SnapshotCall d)
  have "same KCounters (snd (run_snapshot_call sc d s)) s"
    by (rule snapshot_frame; cases d) (simp_all add: touched_by_method)
  then show ?thesis using SnapshotCall by (simp add: counters_le_same)
next
  case (LifecycleCall d)
  have "same KCounters (snd (run_lifecycle_call d s)) s"
    by (rule lifecycle_frame; cases d) (simp_all add: touched_by_method)
  then show ?thesis using LifecycleCall by (simp add: counters_le_same)
next
  case (VectorCall d)
  have "KCounters \<notin> set (touched_by (vector_call_name d))" by (cases d) (simp_all add: touched_by_method)
  from vector_frame[OF this, of s] have "same KCounters (snd (run_vector_call d s)) s" by simp
  then show ?thesis using VectorCall by (simp add: counters_le_same)
qed


lemma counters_touched: "KCounters \<in> set (touched_by (method_name c)) \<Longrightarrow> method_name c = ''deleteSession''"
proof (cases c)
  case (SessionCall d)
  then show "KCounters \<in> set (touched_by (method_name c)) \<Longrightarrow> ?thesis" by (cases d) (simp_all add: touched_by_method)
next
  case (RuntimeCall d)
  then show "KCounters \<in> set (touched_by (method_name c)) \<Longrightarrow> ?thesis" by (cases d) (simp_all add: touched_by_method)
next
  case (JournalCall d)
  then show "KCounters \<in> set (touched_by (method_name c)) \<Longrightarrow> ?thesis" by (cases d) (simp_all add: touched_by_method)
next
  case (DataCall d)
  then show "KCounters \<in> set (touched_by (method_name c)) \<Longrightarrow> ?thesis" by (cases d) (simp_all add: touched_by_method)
next
  case (WorldCall d)
  then show "KCounters \<in> set (touched_by (method_name c)) \<Longrightarrow> ?thesis" by (cases d) (simp_all add: touched_by_method)
next
  case (SnapshotCall d)
  then show "KCounters \<in> set (touched_by (method_name c)) \<Longrightarrow> ?thesis" by (cases d) (simp_all add: touched_by_method)
next
  case (LifecycleCall d)
  then show "KCounters \<in> set (touched_by (method_name c)) \<Longrightarrow> ?thesis" by (cases d) (simp_all add: touched_by_method)
next
  case (VectorCall d)
  then show "KCounters \<in> set (touched_by (method_name c)) \<Longrightarrow> ?thesis" by (cases d) (simp_all add: touched_by_method)
qed

definition keeps_counters :: "level list \<Rightarrow> bool" where
  "keeps_counters ls = list_all (\<lambda>l. KCounters \<notin> set (lv_keys l)) ls"

lemma keeps_counters_touch: "method_name c \<noteq> ''deleteSession'' \<Longrightarrow> keeps_counters ls \<Longrightarrow> keeps_counters (on_touch s (method_name c) ls)"
  using counters_touched[of c] by (auto simp: keeps_counters_def on_touch_def list_all_iff capture_keys)

lemma restore_counters: "keeps_counters [l] \<Longrightarrow> mem_counters (restore_snapshot l s) = mem_counters s"
  using restore_snapshot_same[of KCounters l s s] by (simp add: keeps_counters_def)

lemma run_counters:
  "tx_calls_only (\<lambda>c. method_name c \<noteq> ''deleteSession'') p \<Longrightarrow> keeps_counters ls \<Longrightarrow> length ls > 0 \<Longrightarrow>
     run_script (run_call sc) p ls s = (r, ls', s') \<Longrightarrow> keeps_counters ls' \<and> length ls' = length ls \<and> counters_le s s'"
proof (induction p arbitrary: ls s r ls' s')
  case (Query k)
  show ?case using Query.IH[OF rangeI[of k s], of ls s] Query.prems by simp
next
  case (RootCall c k)
  show ?case using RootCall.IH[OF rangeI[of k "Inl (RootWriteInTransaction (method_name c))"], of ls s] RootCall.prems by simp
next
  case (OpenTransaction k)
  show ?case using OpenTransaction.IH[OF rangeI[of k NestedTransaction], of ls s] OpenTransaction.prems by simp
next
  case (TxCall c k)
  obtain v s1 where b: "run_call sc c s = (v, s1)" by fastforce
  let ?ls = "on_touch s (method_name c) ls"
  have c: "method_name c \<noteq> ''deleteSession''" and k: "tx_calls_only (\<lambda>c. method_name c \<noteq> ''deleteSession'') (k v)"
    using TxCall.prems(1) by simp_all
  have s1: "counters_le s s1" using counters_call[OF c, of s sc] by (simp only: b snd_conv)
  have len: "length ?ls = length ls" by (simp add: on_touch_def)
  have run: "run_script (run_call sc) (k v) ?ls s1 = (r, ls', s')"
    using TxCall.prems(4) by (simp only: run_script.simps Let_def b prod.case)
  have "0 < length ?ls" using TxCall.prems(3) len by (simp only: len)
  note ih = TxCall.IH[OF rangeI[of k v] k keeps_counters_touch[OF c TxCall.prems(2)] this run]
  then show ?case using counters_le_trans[OF s1] len by simp
next
  case (Savepoint body k)
  obtain v ls1 s1 where b: "run_script (run_call sc) body (ls @ [new_level]) s = (v, ls1, s1)" by (metis prod_cases3)
  have "keeps_counters (ls @ [new_level])" using Savepoint.prems(2) by (simp add: keeps_counters_def new_level_def)
  then have one: "keeps_counters ls1" "length ls1 = Suc (length ls)" "counters_le s s1"
    using Savepoint.IH(1)[OF _ _ _ b] Savepoint.prems(1) by simp_all
  then obtain ls2 l where ls1: "ls1 = ls2 @ [l]" by (cases ls1 rule: rev_cases) auto
  then have two: "keeps_counters ls2" "keeps_counters [l]" "length ls2 = length ls"
    using one by (simp_all add: keeps_counters_def)
  let ?s2 = "case v of Inl _ \<Rightarrow> restore_snapshot l s1 | Inr _ \<Rightarrow> s1"
  have "counters_le s ?s2"
    using one(3) restore_counters[OF two(2), of s1] counters_le_trans[OF one(3) counters_le_same]
    by (simp split: sum.split)
  then show ?case
    using Savepoint.IH(2)[OF rangeI[of k v], of ls2 ?s2] Savepoint.prems(1,3,4) b ls1 two counters_le_trans[of s ?s2 s']
    by (simp add: Let_def cong: sum.case_cong)
qed auto

definition plain_turn_message :: "string \<Rightarrow> string \<Rightarrow> turn_message" where
  "plain_turn_message sid rid = \<lparr> k_created = ''t'', k_id = rid, row_session = sid, tmsg_turn = ''t1'', tmsg_source = ''player'',
     tmsg_plugin = None, tmsg_runtime = None, tmsg_role = ''user'', tmsg_name = None, tmsg_content = ''hi'', tmsg_ui = None,
     tmsg_pending = None, tmsg_order = 0, tmsg_compacted = None \<rparr>"

definition rewinding_script :: "unit script" where
  "rewinding_script = TxCall (SessionCall (DeleteSession ''other'')) (\<lambda>_.
     TxCall (JournalCall (AppendTurnMessage (plain_turn_message ''s'' ''a''))) (\<lambda>_. Throw (CallbackError ''late'')))"

lemma rewound:
  "write_counter_of ''s'' (snd (snd (run_script (run_call any_schema) rewinding_script [new_level] (one_session ''s'')))) = 1"
  "write_counter_of ''s'' (snd (with_transaction (run_call any_schema) rewinding_script (one_session ''s''))) = 0"
proof -
  let ?s = "one_session ''s''"
  define s1 where "s1 = snd (delete_session ''other'' ?s)"
  define l where "l = foldl (capture_collection s1) (foldl (capture_collection ?s) new_level all_snapshot_keys) [KTurnMessages]"
  define s2 where "s2 = snd (append_turn_message (plain_turn_message ''s'' ''a'') s1)"
  have none: "mem_turn_messages s1 = []" "mem_counters s1 = []" "mem_counters ?s = []"
    by (simp_all add: s1_def delete_session_def cascade_session_def one_session_def create_memory_state_def
        delete_rows_by_session_def Let_def)
  then have s2: "append_turn_message (plain_turn_message ''s'' ''a'') s1 = (Inr NoValue, s2)" "write_counter_of ''s'' s2 = 1"
    by (simp_all add: s2_def append_turn_message_cases next_store_write_def next_session_write_def write_counter_of_def
        plain_turn_message_def)
  have "delete_session ''other'' ?s = (Inr NoValue, s1)" by (simp add: s1_def delete_session_def Let_def)
  then have run: "run_script (run_call any_schema) rewinding_script [new_level] ?s = (Inl (CallbackError ''late''), [l], s2)"
    by (simp add: rewinding_script_def on_touch_def touched_by_method s2(1) l_def del: foldl_Cons)
  have "KCounters \<in> set (lv_keys l)" "same KCounters (lv_saved l) ?s"
    unfolding l_def capture_keys capture_saved
    by (simp_all add: new_level_def all_snapshot_keys_def session_scoped_tables_def)
  then have "same KCounters (restore_snapshot l s2) ?s" by (simp add: restore_snapshot_same del: same.simps)
  then show "write_counter_of ''s'' (snd (with_transaction (run_call any_schema) rewinding_script ?s)) = 0"
    by (simp add: with_transaction_def run write_counter_of_def none)
  show "write_counter_of ''s'' (snd (snd (run_script (run_call any_schema) rewinding_script [new_level] ?s))) = 1"
    by (simp add: run s2(2))
qed

text \<open>C22: A rollback hands no write number out twice, as long as the transaction deletes no session: a session's
  counter never falls, and after a failed transaction it is what the callback had brought it to. A transaction
  that deletes any session breaks this: the deletion captures the counters of all sessions, so the rollback
  takes back the number that the callback's later message of another session had taken.\<close>

theorem rollback_keeps_write_numbers:
  assumes "tx_calls_only (\<lambda>c. method_name c \<noteq> ''deleteSession'') p"
  shows "counters_le s (snd (with_transaction (run_call sc) p s))
    \<and> mem_counters (snd (with_transaction (run_call sc) p s)) = mem_counters (snd (snd (run_script (run_call sc) p [new_level] s)))
    \<and> write_counter_of ''s'' (snd (snd (run_script (run_call any_schema) rewinding_script [new_level] (one_session ''s'')))) = 1
    \<and> write_counter_of ''s'' (snd (with_transaction (run_call any_schema) rewinding_script (one_session ''s''))) = 0"
proof -
  obtain r ls s1 where run: "run_script (run_call sc) p [new_level] s = (r, ls, s1)" by (metis prod_cases3)
  have "keeps_counters [new_level]" by (simp add: keeps_counters_def new_level_def)
  then have k: "keeps_counters ls" "length ls = 1" "counters_le s s1" using run_counters[OF assms _ _ run] by simp_all
  then obtain l where "ls = [l]" by (auto simp: length_Suc_conv)
  then have c: "mem_counters (snd (with_transaction (run_call sc) p s)) = mem_counters s1"
    using k(1) restore_counters by (simp add: with_transaction_def run split: sum.split)
  then have "counters_le s (snd (with_transaction (run_call sc) p s))"
    by (intro counters_le_trans[OF k(3)] counters_le_same) simp
  then show ?thesis using c run rewound by simp
qed

lemma rollback_keeps_write_numbers_witness:
  "counters_le (one_session ''s'') (snd (with_transaction (run_call any_schema) failing_script (one_session ''s'')))"
proof -
  have "tx_calls_only (\<lambda>c. method_name c \<noteq> ''deleteSession'') failing_script"
    by (simp add: failing_script_def transactional_write_methods_def write_method_touches_def vector_write_methods_def)
  from rollback_keeps_write_numbers[OF this, of "one_session ''s''" any_schema] show ?thesis by blast
qed

end
