(* ===== verification/StoreInvariant.thy ===== *)
theory StoreInvariant
  imports StoreRollback
begin

text \<open>
  What stays true of the memory store: row IDs are unique in every collection, every \<open>Map\<close> is keyed by its
  records, the position index is the index of the messages, write numbers are unique in a session and at most
  its counter, and the model registry has no two models under one ID. It stays true through every call, every
  transaction whether it commits or not, and every queue of them
  (\<open>packages/store/src/serialized-write-gate.ts\<close>).
\<close>

subsection \<open>The invariant\<close>

definition unique_ids :: "'a keyed_scheme list \<Rightarrow> bool" where
  "unique_ids rows = distinct (map k_id rows)"

definition vector_key :: "vector_row \<Rightarrow> plugin_key" where
  "vector_key r = (vec_session r, vec_plugin r, vec_namespace r, vec_key r)"

primrec collection_wf :: "collection \<Rightarrow> memory_state \<Rightarrow> bool" where
  "collection_wf KSessions s = keyed_by k_id (mem_sessions s)"
| "collection_wf KTurnResults s = unique_ids (mem_turn_results s)"
| "collection_wf KToolCalls s = unique_ids (mem_tool_calls s)"
| "collection_wf KEvents s = unique_ids (mem_events s)"
| "collection_wf KMessages s = True"
| "collection_wf KPositions s = True"
| "collection_wf KSchemas s = keyed_by sch_session (mem_schemas s)"
| "collection_wf KCharacters s = keyed_by (\<lambda>r. (row_session r, k_id r)) (mem_characters s)"
| "collection_wf KPluginData s = keyed_by plugin_data_key (mem_plugin_data s)"
| "collection_wf KSuspensions s = keyed_by k_id (mem_suspensions s)"
| "collection_wf KSnapshots s = keyed_by k_id (mem_snapshots s)"
| "collection_wf KProgress s = (jm_wf (mem_progress s) \<and> list_all (\<lambda>(k, v). fst k = fst v) (mem_progress s))"
| "collection_wf KVectors s = keyed_by vector_key (mem_vectors s)"
| "collection_wf KModels s = True"
| "collection_wf KNextModel s = True"
| "collection_wf KTargets s = jm_wf (mem_targets s)"
| "collection_wf KWorlds s = keyed_by k_id (mem_worlds s)"
| "collection_wf KSettings s = keyed_by stg_key (mem_settings s)"
| "collection_wf KTraces s = unique_ids (mem_traces s)"
| "collection_wf KOutputs s = unique_ids (mem_outputs s)"
| "collection_wf KInteractions s = unique_ids (mem_interactions s)"
| "collection_wf KTurnMessages s = unique_ids (mem_turn_messages s)"
| "collection_wf KInputs s = unique_ids (mem_inputs s)"
| "collection_wf KImports s = keyed_by imp_id (mem_imports s)"
| "collection_wf KLorebook s = keyed_by lorebook_key (mem_lorebook s)"
| "collection_wf KSummaries s = unique_ids (mem_summaries s)"
| "collection_wf KLedger s = keyed_by ledger_key_of (mem_ledger s)"
| "collection_wf KAttempts s = keyed_by attempt_key_of (mem_attempts s)"
| "collection_wf KJobs s = keyed_by job_key_of (mem_jobs s)"
| "collection_wf KExports s = keyed_by export_key (mem_exports s)"
| "collection_wf KChanges s = True"
| "collection_wf KCounters s = True"

definition index_wf :: "memory_state \<Rightarrow> bool" where
  "index_wf s \<longleftrightarrow> unique_ids (mem_messages s) \<and> jm_wf (mem_positions s)
     \<and> set (mem_positions s) = set (map (\<lambda>(i, r). (k_id r, i)) (enumerate 0 (mem_messages s)))"

text \<open>A turn message has a number of its session that neither another message nor a change has.\<close>

definition numbered :: "stored_turn_message list \<Rightarrow> data_state \<Rightarrow> bool" where
  "numbered rows d \<longleftrightarrow> distinct (map (\<lambda>r. (row_session r, tmsg_seq r)) rows)
     \<and> list_all (\<lambda>r. 0 < tmsg_seq r \<and> tmsg_seq r \<le> write_counter d (row_session r)
        \<and> list_all (\<lambda>c. (rc_session c, rc_seq c) \<noteq> (row_session r, tmsg_seq r)) (map snd (da_changes d))) rows"

definition numbers_wf :: "memory_state \<Rightarrow> bool" where
  "numbers_wf s \<longleftrightarrow> feed_inv (data_of s) \<and> numbered (mem_turn_messages s) (data_of s)"

definition registry_wf :: "memory_state \<Rightarrow> bool" where
  "registry_wf s \<longleftrightarrow> keyed_by (\<lambda>t. (vt_model t, vt_dim t)) (mem_models s)
     \<and> distinct (map vt_registry (map snd (mem_models s)))
     \<and> list_all (\<lambda>t. vt_registry t < mem_next_model s) (map snd (mem_models s))"

definition store_wf :: "memory_state \<Rightarrow> bool" where
  "store_wf s \<longleftrightarrow> list_all (\<lambda>k. collection_wf k s) all_snapshot_keys \<and> index_wf s \<and> numbers_wf s \<and> registry_wf s"

subsection \<open>Frames\<close>

lemma put_data_fields [simp]:
  "mem_sessions (put_data d s) = mem_sessions s"
  "mem_turn_results (put_data d s) = mem_turn_results s"
  "mem_tool_calls (put_data d s) = mem_tool_calls s"
  "mem_events (put_data d s) = mem_events s"
  "mem_messages (put_data d s) = mem_messages s"
  "mem_positions (put_data d s) = mem_positions s"
  "mem_schemas (put_data d s) = mem_schemas s"
  "mem_characters (put_data d s) = mem_characters s"
  "mem_suspensions (put_data d s) = mem_suspensions s"
  "mem_snapshots (put_data d s) = mem_snapshots s"
  "mem_progress (put_data d s) = mem_progress s"
  "mem_vectors (put_data d s) = mem_vectors s"
  "mem_models (put_data d s) = mem_models s"
  "mem_next_model (put_data d s) = mem_next_model s"
  "mem_targets (put_data d s) = mem_targets s"
  "mem_worlds (put_data d s) = mem_worlds s"
  "mem_settings (put_data d s) = mem_settings s"
  "mem_traces (put_data d s) = mem_traces s"
  "mem_outputs (put_data d s) = mem_outputs s"
  "mem_interactions (put_data d s) = mem_interactions s"
  "mem_turn_messages (put_data d s) = mem_turn_messages s"
  "mem_inputs (put_data d s) = mem_inputs s"
  "mem_imports (put_data d s) = mem_imports s"
  "mem_lorebook (put_data d s) = mem_lorebook s"
  "mem_summaries (put_data d s) = mem_summaries s"
  "mem_ledger (put_data d s) = mem_ledger s"
  "mem_attempts (put_data d s) = mem_attempts s"
  "mem_jobs (put_data d s) = mem_jobs s"
  "mem_exports (put_data d s) = mem_exports s"
  by (simp_all add: put_data_def)

lemma record_store_change_fields [simp]:
  "mem_sessions (record_store_change sid ch s) = mem_sessions s"
  "mem_turn_results (record_store_change sid ch s) = mem_turn_results s"
  "mem_tool_calls (record_store_change sid ch s) = mem_tool_calls s"
  "mem_events (record_store_change sid ch s) = mem_events s"
  "mem_messages (record_store_change sid ch s) = mem_messages s"
  "mem_positions (record_store_change sid ch s) = mem_positions s"
  "mem_schemas (record_store_change sid ch s) = mem_schemas s"
  "mem_characters (record_store_change sid ch s) = mem_characters s"
  "mem_plugin_data (record_store_change sid ch s) = mem_plugin_data s"
  "mem_suspensions (record_store_change sid ch s) = mem_suspensions s"
  "mem_snapshots (record_store_change sid ch s) = mem_snapshots s"
  "mem_progress (record_store_change sid ch s) = mem_progress s"
  "mem_vectors (record_store_change sid ch s) = mem_vectors s"
  "mem_models (record_store_change sid ch s) = mem_models s"
  "mem_next_model (record_store_change sid ch s) = mem_next_model s"
  "mem_targets (record_store_change sid ch s) = mem_targets s"
  "mem_worlds (record_store_change sid ch s) = mem_worlds s"
  "mem_settings (record_store_change sid ch s) = mem_settings s"
  "mem_traces (record_store_change sid ch s) = mem_traces s"
  "mem_outputs (record_store_change sid ch s) = mem_outputs s"
  "mem_interactions (record_store_change sid ch s) = mem_interactions s"
  "mem_turn_messages (record_store_change sid ch s) = mem_turn_messages s"
  "mem_inputs (record_store_change sid ch s) = mem_inputs s"
  "mem_imports (record_store_change sid ch s) = mem_imports s"
  "mem_lorebook (record_store_change sid ch s) = mem_lorebook s"
  "mem_summaries (record_store_change sid ch s) = mem_summaries s"
  "mem_ledger (record_store_change sid ch s) = mem_ledger s"
  "mem_attempts (record_store_change sid ch s) = mem_attempts s"
  "mem_jobs (record_store_change sid ch s) = mem_jobs s"
  "mem_exports (record_store_change sid ch s) = mem_exports s"
  by (simp_all add: record_store_change_def)

lemma next_store_write_fields [simp]:
  "mem_sessions (snd (next_store_write sid s)) = mem_sessions s"
  "mem_turn_results (snd (next_store_write sid s)) = mem_turn_results s"
  "mem_tool_calls (snd (next_store_write sid s)) = mem_tool_calls s"
  "mem_events (snd (next_store_write sid s)) = mem_events s"
  "mem_messages (snd (next_store_write sid s)) = mem_messages s"
  "mem_positions (snd (next_store_write sid s)) = mem_positions s"
  "mem_schemas (snd (next_store_write sid s)) = mem_schemas s"
  "mem_characters (snd (next_store_write sid s)) = mem_characters s"
  "mem_plugin_data (snd (next_store_write sid s)) = mem_plugin_data s"
  "mem_suspensions (snd (next_store_write sid s)) = mem_suspensions s"
  "mem_snapshots (snd (next_store_write sid s)) = mem_snapshots s"
  "mem_progress (snd (next_store_write sid s)) = mem_progress s"
  "mem_vectors (snd (next_store_write sid s)) = mem_vectors s"
  "mem_models (snd (next_store_write sid s)) = mem_models s"
  "mem_next_model (snd (next_store_write sid s)) = mem_next_model s"
  "mem_targets (snd (next_store_write sid s)) = mem_targets s"
  "mem_worlds (snd (next_store_write sid s)) = mem_worlds s"
  "mem_settings (snd (next_store_write sid s)) = mem_settings s"
  "mem_traces (snd (next_store_write sid s)) = mem_traces s"
  "mem_outputs (snd (next_store_write sid s)) = mem_outputs s"
  "mem_interactions (snd (next_store_write sid s)) = mem_interactions s"
  "mem_turn_messages (snd (next_store_write sid s)) = mem_turn_messages s"
  "mem_inputs (snd (next_store_write sid s)) = mem_inputs s"
  "mem_imports (snd (next_store_write sid s)) = mem_imports s"
  "mem_lorebook (snd (next_store_write sid s)) = mem_lorebook s"
  "mem_summaries (snd (next_store_write sid s)) = mem_summaries s"
  "mem_ledger (snd (next_store_write sid s)) = mem_ledger s"
  "mem_attempts (snd (next_store_write sid s)) = mem_attempts s"
  "mem_jobs (snd (next_store_write sid s)) = mem_jobs s"
  "mem_exports (snd (next_store_write sid s)) = mem_exports s"
  by (simp_all add: next_store_write_def next_session_write_def split_beta Let_def)

lemma collection_wf_same: "same k s t \<Longrightarrow> collection_wf k s \<longleftrightarrow> collection_wf k t"
  by (cases k) simp_all


subsection \<open>Unique IDs and keyed maps\<close>

lemma unique_append: "append_unique_row rows r label = Inr rows' \<Longrightarrow> unique_ids rows \<Longrightarrow> unique_ids rows'"
  by (auto simp: append_unique_row_def unique_ids_def split: if_splits)

lemma unique_filter [simp]: "unique_ids rows \<Longrightarrow> unique_ids (filter P rows)"
  by (simp add: unique_ids_def distinct_map_filter)

lemma unique_map [simp]: "(\<And>r. k_id (f r) = k_id r) \<Longrightarrow> unique_ids (map f rows) = unique_ids rows"
  by (simp add: unique_ids_def comp_def)

lemma unique_snoc: "unique_ids (rows @ [r]) \<longleftrightarrow> unique_ids rows \<and> k_id r \<notin> k_id ` set rows"
  by (auto simp: unique_ids_def)

lemma keyed_by_filter: "keyed_by f m \<Longrightarrow> keyed_by f (filter P m)"
  by (auto simp: keyed_by_def distinct_map_filter)

lemma keyed_by_map: "keyed_by f m \<Longrightarrow> (\<And>r. f (g r) = f r) \<Longrightarrow> keyed_by f (map (\<lambda>(k, r). (k, g r)) m)"
  by (auto simp: keyed_by_def comp_def split_beta)

lemma keyed_by_foldl_set: "keyed_by f m \<Longrightarrow> keyed_by f (foldl (\<lambda>m r. jm_set (f r) r m) m rs)"
  by (rule foldl_invariant) (auto intro: keyed_by_set)

lemma keyed_by_foldl_delete: "keyed_by f m \<Longrightarrow> keyed_by f (foldl (\<lambda>m c. jm_delete (g c) m) m rs)"
  by (rule foldl_invariant) (auto intro: keyed_by_delete)

lemma keyed_by_put: "keyed_by f m \<Longrightarrow> f r = k \<Longrightarrow> f v = f r \<Longrightarrow> keyed_by f (jm_set k v m)"
  by (rule keyed_by_set) simp_all

lemma merge_session_patch_id [simp]: "k_id (merge_session_patch r p) = k_id r"
  by (simp add: merge_session_patch_def Let_def)

lemma normalize_world_id [simp]: "k_id (normalize_world w) = k_id w"
  by (simp add: normalize_world_def Let_def split: option.split)

lemma settle_turn_result_id [simp]: "k_id (settle_turn_result sid turn st failed settled r) = k_id r"
  by (simp add: settle_turn_result_def)

subsection \<open>Each collection stays well-formed\<close>

lemma keyed_by_update: "keyed_by f m \<Longrightarrow> jm_get m k = Some old \<Longrightarrow> f v = f old \<Longrightarrow> keyed_by f (jm_set k v m)"
  using keyed_by_get[of f m k old] by (intro keyed_by_set) simp_all

lemma delete_session_state:
  "snd (delete_session sid s) = (cascade_session sid (s\<lparr> mem_sessions := jm_delete sid (mem_sessions s) \<rparr>))\<lparr>
     mem_positions := (if length (delete_rows_by_session sid (mem_messages s)) \<noteq> length (mem_messages s)
       then message_positions (delete_rows_by_session sid (mem_messages s)) else mem_positions s),
     mem_vectors := delete_map_by_session vec_session sid (mem_vectors s), mem_targets := jm_delete sid (mem_targets s) \<rparr>"
  by (simp add: delete_session_def cascade_session_def Let_def)

lemma delete_session_fields:
  "mem_sessions (snd (delete_session sid s)) = jm_delete sid (mem_sessions s)"
  "mem_turn_results (snd (delete_session sid s)) = filter (\<lambda>r. row_session r \<noteq> sid) (mem_turn_results s)"
  "mem_tool_calls (snd (delete_session sid s)) = filter (\<lambda>r. row_session r \<noteq> sid) (mem_tool_calls s)"
  "mem_events (snd (delete_session sid s)) = filter (\<lambda>r. row_session r \<noteq> sid) (mem_events s)"
  "mem_messages (snd (delete_session sid s)) = filter (\<lambda>r. row_session r \<noteq> sid) (mem_messages s)"
  "mem_schemas (snd (delete_session sid s)) = filter (\<lambda>(_, r). sch_session r \<noteq> sid) (mem_schemas s)"
  "mem_characters (snd (delete_session sid s)) = filter (\<lambda>(_, r). row_session r \<noteq> sid) (mem_characters s)"
  "mem_plugin_data (snd (delete_session sid s)) = filter (\<lambda>(_, r). pr_session r \<noteq> sid) (mem_plugin_data s)"
  "mem_suspensions (snd (delete_session sid s)) = filter (\<lambda>(_, r). row_session r \<noteq> sid) (mem_suspensions s)"
  "mem_snapshots (snd (delete_session sid s)) = filter (\<lambda>(_, r). row_session r \<noteq> sid) (mem_snapshots s)"
  "mem_progress (snd (delete_session sid s)) = filter (\<lambda>(_, r). fst r \<noteq> sid) (mem_progress s)"
  "mem_vectors (snd (delete_session sid s)) = filter (\<lambda>(_, r). vec_session r \<noteq> sid) (mem_vectors s)"
  "mem_targets (snd (delete_session sid s)) = jm_delete sid (mem_targets s)"
  "mem_traces (snd (delete_session sid s)) = filter (\<lambda>r. row_session r \<noteq> sid) (mem_traces s)"
  "mem_outputs (snd (delete_session sid s)) = filter (\<lambda>r. row_session r \<noteq> sid) (mem_outputs s)"
  "mem_interactions (snd (delete_session sid s)) = filter (\<lambda>r. row_session r \<noteq> sid) (mem_interactions s)"
  "mem_turn_messages (snd (delete_session sid s)) = filter (\<lambda>r. row_session r \<noteq> sid) (mem_turn_messages s)"
  "mem_inputs (snd (delete_session sid s)) = filter (\<lambda>r. row_session r \<noteq> sid) (mem_inputs s)"
  "mem_imports (snd (delete_session sid s)) = filter (\<lambda>(_, r). imp_session r \<noteq> sid) (mem_imports s)"
  "mem_lorebook (snd (delete_session sid s)) = filter (\<lambda>(_, r). row_session r \<noteq> sid) (mem_lorebook s)"
  "mem_summaries (snd (delete_session sid s)) = filter (\<lambda>r. row_session r \<noteq> sid) (mem_summaries s)"
  "mem_ledger (snd (delete_session sid s)) = filter (\<lambda>(_, r). lr_session r \<noteq> sid) (mem_ledger s)"
  "mem_attempts (snd (delete_session sid s)) = filter (\<lambda>(_, r). sa_session r \<noteq> sid) (mem_attempts s)"
  "mem_jobs (snd (delete_session sid s)) = filter (\<lambda>(_, r). js_session r \<noteq> sid) (mem_jobs s)"
  "mem_exports (snd (delete_session sid s)) = filter (\<lambda>(_, r). exp_session r \<noteq> sid) (mem_exports s)"
  "mem_changes (snd (delete_session sid s)) = filter (\<lambda>(_, r). rc_session r \<noteq> sid) (mem_changes s)"
  "mem_counters (snd (delete_session sid s)) = filter (\<lambda>(k, _). k \<noteq> sid) (mem_counters s)"
  unfolding delete_session_state cascade_session_def delete_rows_by_session_def delete_map_by_session_def by simp_all

lemma delete_session_others:
  "mem_worlds (snd (delete_session sid s)) = mem_worlds s" "mem_settings (snd (delete_session sid s)) = mem_settings s"
  unfolding delete_session_state cascade_session_def by simp_all

lemma session_collection_wf:
  "collection_wf k s \<Longrightarrow> collection_wf k (snd (run_session_call sc c s))"
proof (cases c)
  case (DeleteSession sid)
  assume "collection_wf k s"
  then show ?thesis unfolding DeleteSession
    by (cases k) (simp_all add: delete_session_fields delete_session_others distinct_map_filter keyed_by_filter
      keyed_by_delete list_all_iff)
qed (cases k; auto simp: create_session_def update_session_def simp: keyed_by_set keyed_by_update split: option.split)+

lemma runtime_collection_wf:
  assumes "collection_wf k s" "k \<in> set (touched_by (runtime_call_name c))"
  shows "collection_wf k (snd (run_runtime_call c s))"
  using assms
  by (cases c) (auto simp: touched_by_method save_turn_result_def set_turn_result_commit_status_def save_tool_call_def
      save_event_def delete_events_before_def add_message_def commit_player_input_def upsert_character_def
      upsert_character_schema_def delete_character_def add_trace_event_def delete_traces_before_def
      save_runtime_output_def save_interaction_record_def Let_def split: option.split sum.split
      simp: keyed_by_set intro: keyed_by_delete unique_append)

lemma journal_collection_wf:
  assumes "collection_wf k s" "k \<in> set (touched_by (journal_call_name c))"
  shows "collection_wf k (snd (run_journal_call c s))"
  using assms
  by (cases c) (auto simp: touched_by_method append_turn_message_cases tag_turn_messages_def retag_turn_messages_def
      save_player_input_def save_session_summary_def delete_session_summaries_def unique_snoc split: option.split sum.split
      intro: unique_append)

lemma keyed_by_cas_batch:
  assumes "compare_and_set_batch uuid sid plugin es d = Inr (ok, d')" "keyed_by plugin_data_key (da_rows d)"
  shows "keyed_by plugin_data_key (da_rows d')"
proof -
  have "keyed_by plugin_data_key (da_rows (foldl (\<lambda>s r. changed r (s\<lparr> da_rows := jm_set (plugin_data_key r) r (da_rows s) \<rparr>)) d rs))" for rs
    using assms(2) by (intro foldl_invariant[where P = "\<lambda>s. keyed_by plugin_data_key (da_rows s)"])
      (auto simp: changed_def intro: keyed_by_set)
  then show ?thesis using assms by (auto simp: compare_and_set_batch_def Let_def split: if_splits)
qed

lemma data_collection_wf:
  assumes "collection_wf k s" "k \<in> set (touched_by (data_call_name c))"
  shows "collection_wf k (snd (run_data_call c s))"
  using assms
  by (cases c) (auto simp: touched_by_method set_plugin_data_rows_def cas_plugin_data_def cas_plugin_data_batch_def
      delete_plugin_data_row_def compare_and_set_def delete_plugin_data_def Let_def split: sum.split prod.splits
      intro!: keyed_by_batch keyed_by_write keyed_by_delete dest: keyed_by_cas_batch)

lemma lorebook_entries_wf:
  "keyed_by lorebook_key (mem_lorebook s) \<Longrightarrow> keyed_by lorebook_key (mem_lorebook (foldl upsert_lorebook_entry s rs))"
  by (rule foldl_invariant[where P = "\<lambda>s. keyed_by lorebook_key (mem_lorebook s)"])
    (auto simp: upsert_lorebook_entry_def Let_def lorebook_key_def intro!: keyed_by_set split: option.split)

lemma world_collection_wf:
  assumes "collection_wf k s" "k \<in> set (touched_by (world_call_name c))"
  shows "collection_wf k (snd (run_world_call c s))"
  using assms
  by (cases c) (auto simp: touched_by_method save_import_batch_def delete_import_def upsert_lorebook_entries_def
      delete_lorebook_entry_def create_world_def upsert_world_def delete_world_def set_server_setting_def
      delete_server_setting_def Let_def lorebook_entries_wf split: sum.split option.split
      intro!: keyed_by_set keyed_by_delete keyed_by_foldl_set)

lemma snapshot_collection_wf:
  assumes "collection_wf k s" "k \<in> set (touched_by (snapshot_call_name c))"
  shows "collection_wf k (snd (run_snapshot_call sc c s))"
  using assms
  by (cases c) (auto simp: touched_by_method save_suspension_def update_suspension_continuation_def claim_suspension_def
      release_suspension_claim_def mark_suspension_resolved_def delete_suspension_def release_stale_claims_def
      save_snapshot_def prune_auto_snapshots_def Let_def split: sum.split option.split
      simp: keyed_by_set keyed_by_update intro!: keyed_by_delete keyed_by_foldl_delete keyed_by_map)

lemma lifecycle_collection_wf:
  assumes "collection_wf k s" "k \<in> set (touched_by (lifecycle_call_name c))"
  shows "collection_wf k (snd (run_lifecycle_call c s))"
proof (cases c)
  case (DeleteJobStatus sid ids)
  then show ?thesis using assms delete_job_status_wf[of "\<lparr> lf_ledger = [], lf_attempts = [], lf_jobs = mem_jobs s \<rparr>" sid ids]
    by (auto simp: touched_by_method remove_job_status_def put_lifecycle_def lifecycle_of_def lifecycle_wf_def delete_job_status_def)
qed (use assms in \<open>auto simp: touched_by_method append_runtime_export_def store_logical_turn_def store_setup_attempt_def
    patch_setup_attempt_def store_job_status_def put_lifecycle_def lifecycle_of_def insert_logical_turn_def
    insert_setup_attempt_def update_setup_attempt_def append_job_status_def Let_def split: option.split
    simp: keyed_by_set keyed_by_update\<close>)

lemma vector_rows_wf:
  assumes "prepare_vectors s is = Inr rows"
  shows "list_all (\<lambda>(k, r). vector_key r = k) rows"
  using assms
proof (induction "is" arbitrary: rows)
  case (Cons i "is")
  then show ?case
    by (auto simp: prepare_vector_def vector_key_def split: sum.splits option.splits if_splits)
qed simp

lemma vector_collection_wf:
  assumes "collection_wf k s" "k \<in> set (touched_by (vector_call_name c)) \<or> k = KSessions"
  shows "collection_wf k (snd (run_vector_call c s))"
proof (cases c)
  case (CommitVectorIndexBatch b)
  have set: "keyed_by vector_key m \<Longrightarrow> list_all (\<lambda>(k, r). vector_key r = k) rows \<Longrightarrow>
      keyed_by vector_key (foldl (\<lambda>m (k, r). jm_set k r m) m rows)" for m rows
    by (induction rows arbitrary: m) (auto intro: keyed_by_set)
  have del: "keyed_by vector_key m \<Longrightarrow> keyed_by vector_key (foldl (\<lambda>m (ns, k). jm_delete (x, y, ns, k) m) m ds)" for m x y ds
    by (induction ds arbitrary: m) (auto intro: keyed_by_delete)
  show ?thesis using assms CommitVectorIndexBatch
    by (auto simp: touched_by_method commit_vector_batch_def Let_def split: sum.split
        intro!: set del list_all_jm_set dest: vector_rows_wf)
qed (use assms in \<open>auto simp: touched_by_method upsert_vector_def delete_vectors_def lock_session_model_def
    reset_session_index_def ensure_vector_model_def resolve_vector_target_def prepare_vector_def vector_key_def Let_def
    distinct_map_filter list_all_iff split: sum.split option.split if_splits
    simp: keyed_by_set keyed_by_update intro: keyed_by_filter\<close>)

end
