(* ===== verification/StoreSound.thy ===== *)
theory StoreSound
  imports StoreInvariant
begin

text \<open>
  The invariant of the memory store holds after every call, every transaction and every queue of them.
\<close>

subsection \<open>Collections\<close>

lemma collection_wf_call:
  assumes "collection_wf k s"
  shows "collection_wf k (snd (run_call sc c s))"
proof (cases "k \<in> set (touched_by (method_name c)) \<or> k \<in> uncaptured \<or> (k = KSessions \<and> locks_model c)")
  case False
  then have "same k (snd (run_call sc c s)) s" by (intro call_frame) auto
  then show ?thesis using assms collection_wf_same by blast
next
  case True
  have out: "collection_wf k t" if "k \<in> uncaptured" for t using that by (auto simp: uncaptured_def)
  have lock: "\<exists>d. c = VectorCall d" if "locks_model c"
  proof (cases c)
    case (SessionCall d)
    then show ?thesis using that by (cases d) (simp_all add: locks_model_def)
  next
    case (RuntimeCall d)
    then show ?thesis using that by (cases d) (simp_all add: locks_model_def)
  next
    case (JournalCall d)
    then show ?thesis using that by (cases d) (simp_all add: locks_model_def)
  next
    case (DataCall d)
    then show ?thesis using that by (cases d) (simp_all add: locks_model_def)
  next
    case (WorldCall d)
    then show ?thesis using that by (cases d) (simp_all add: locks_model_def)
  next
    case (SnapshotCall d)
    then show ?thesis using that by (cases d) (simp_all add: locks_model_def)
  next
    case (LifecycleCall d)
    then show ?thesis using that by (cases d) (simp_all add: locks_model_def)
  qed simp
  show ?thesis
  proof (cases c)
    case (SessionCall d)
    then show ?thesis using assms session_collection_wf by simp
  next
    case (VectorCall d)
    then show ?thesis using assms True out vector_collection_wf by auto
  qed (use assms True out lock runtime_collection_wf journal_collection_wf data_collection_wf world_collection_wf
      snapshot_collection_wf lifecycle_collection_wf in auto)
qed

subsection \<open>The index of messages\<close>

lemma enumerate_zip: "map (\<lambda>(i, r). (k_id r, i)) (enumerate 0 rows) = zip (map k_id rows) [0..<length rows]"
  by (rule nth_equalityI) (simp_all add: nth_enumerate_eq)

lemma index_wf_iff:
  "index_wf s \<longleftrightarrow> unique_ids (mem_messages s) \<and> jm_wf (mem_positions s)
     \<and> set (mem_positions s) = set (zip (map k_id (mem_messages s)) [0..<length (mem_messages s)])"
  unfolding index_wf_def enumerate_zip ..

lemma positions_eq: "unique_ids rows \<Longrightarrow> message_positions rows = zip (map k_id rows) [0..<length rows]"
proof (induction rows rule: rev_induct)
  case (snoc r rows)
  then have e: "message_positions rows = zip (map k_id rows) [0..<length rows]" by (simp add: unique_snoc)
  have "message_positions (rows @ [r]) = jm_set (k_id r) (length rows) (message_positions rows)"
    by (simp add: message_positions_def enumerate_append_eq)
  moreover have "k_id r \<notin> fst ` set (zip (map k_id rows) [0..<length rows])"
    using snoc.prems by (metis (no_types, lifting) length_map length_upt diff_zero map_fst_zip set_map unique_snoc)
  ultimately show ?case by (simp add: e jm_set_snoc)
qed (simp add: message_positions_def)

lemma index_wf_positions:
  "unique_ids (mem_messages s) \<Longrightarrow> mem_positions s = message_positions (mem_messages s) \<Longrightarrow> index_wf s"
  by (simp add: index_wf_iff positions_eq unique_ids_def)

lemma index_wf_same:
  "mem_messages s = mem_messages t \<Longrightarrow> mem_positions s = mem_positions t \<Longrightarrow> index_wf s \<longleftrightarrow> index_wf t"
  by (simp add: index_wf_def)

lemma index_keys: "index_wf s \<Longrightarrow> fst ` set (mem_positions s) = k_id ` set (mem_messages s)"
  unfolding index_wf_iff
  by (metis (no_types, lifting) diff_zero length_map length_upt map_fst_zip set_map)

lemma index_get:
  assumes "index_wf s" "jm_get (mem_positions s) rid = Some i"
  shows "i < length (mem_messages s) \<and> k_id (mem_messages s ! i) = rid"
proof -
  have "(rid, i) \<in> set (zip (map k_id (mem_messages s)) [0..<length (mem_messages s)])"
    using assms map_of_SomeD unfolding index_wf_iff by metis
  then show ?thesis by (auto simp: in_set_zip)
qed

lemma index_wf_snoc:
  assumes w: "index_wf s" and new: "k_id r \<notin> fst ` set (mem_positions s)"
  shows "index_wf (s\<lparr> mem_positions := jm_set (k_id r) (length (mem_messages s)) (mem_positions s), mem_messages := mem_messages s @ [r] \<rparr>)"
proof -
  have "k_id r \<notin> k_id ` set (mem_messages s)" using new index_keys[OF w] by simp
  moreover have "jm_wf (jm_set (k_id r) (length (mem_messages s)) (mem_positions s))" using w by (simp add: index_wf_iff)
  ultimately show ?thesis using w new by (simp add: index_wf_iff unique_snoc jm_set_snoc)
qed

lemma index_wf_replace:
  assumes "index_wf s" "jm_get (mem_positions s) rid = Some i" "k_id m = k_id (mem_messages s ! i)"
  shows "index_wf (s\<lparr> mem_messages := (mem_messages s)[i := m] \<rparr>)"
proof -
  have "map k_id ((mem_messages s)[i := m]) = map k_id (mem_messages s)"
    using assms(3) index_get[OF assms(1,2)] by (simp add: map_update list_update_same_conv)
  then show ?thesis using assms(1) by (simp add: index_wf_iff unique_ids_def)
qed

lemma adopt_id: "adopt_input_message a b = Inr m \<Longrightarrow> k_id m = k_id a"
  by (auto simp: adopt_input_message_def Let_def split: sum.splits if_splits)

lemma filter_same_length: "length (filter P xs) = length xs \<Longrightarrow> filter P xs = xs"
  by (metis filter_True length_filter_less nat_neq_iff)

lemma index_delete_session:
  assumes w: "index_wf s"
  shows "index_wf (snd (delete_session sid s))"
proof -
  let ?kept = "delete_rows_by_session sid (mem_messages s)"
  have u: "unique_ids ?kept" using w by (simp add: index_wf_def delete_rows_by_session_def)
  show ?thesis
  proof (cases "length ?kept = length (mem_messages s)")
    case True
    then have "?kept = mem_messages s" unfolding delete_rows_by_session_def by (rule filter_same_length)
    then show ?thesis using w by (simp add: delete_session_def cascade_session_def Let_def index_wf_def)
  next
    case False
    then show ?thesis using u
      by (intro index_wf_positions) (simp_all add: delete_session_def cascade_session_def Let_def)
  qed
qed

lemma index_commit_input:
  assumes "index_wf s"
  shows "index_wf (snd (commit_player_input r s))"
proof (cases "jm_get (mem_positions s) (k_id r)")
  case None
  then have "k_id r \<notin> fst ` set (mem_positions s)" by (simp add: map_of_eq_None_iff)
  then show ?thesis using None assms index_wf_snoc[OF assms, of r] by (simp add: commit_player_input_def split: sum.split)
next
  case (Some i)
  then show ?thesis using assms index_wf_replace[OF assms Some] adopt_id
    by (auto simp: commit_player_input_def split: sum.split)
qed

lemma index_wf_call:
  assumes w: "index_wf s"
  shows "index_wf (snd (run_call sc c s))"
proof -
  have same: ?thesis if "KMessages \<notin> set (touched_by (method_name c))" "KPositions \<notin> set (touched_by (method_name c))"
  proof -
    have "mem_messages (snd (run_call sc c s)) = mem_messages s" "mem_positions (snd (run_call sc c s)) = mem_positions s"
      using call_frame[OF that(1), of sc s] call_frame[OF that(2), of sc s] by (simp_all add: uncaptured_def)
    from index_wf_same[OF this] show ?thesis using w by simp
  qed
  show ?thesis
  proof (cases c)
    case (SessionCall d)
    then show ?thesis using same index_delete_session[OF w] by (cases d) (simp_all add: touched_by_method)
  next
    case (RuntimeCall d)
    then show ?thesis using same w index_commit_input[OF w] index_wf_snoc[OF w]
      by (cases d) (simp_all add: touched_by_method add_message_def)
  next
    case (JournalCall d)
    then show ?thesis using same by (cases d) (simp_all add: touched_by_method)
  next
    case (DataCall d)
    then show ?thesis using same by (cases d) (simp_all add: touched_by_method)
  next
    case (WorldCall d)
    then show ?thesis using same by (cases d) (simp_all add: touched_by_method)
  next
    case (SnapshotCall d)
    then show ?thesis using same by (cases d) (simp_all add: touched_by_method)
  next
    case (LifecycleCall d)
    then show ?thesis using same by (cases d) (simp_all add: touched_by_method)
  next
    case (VectorCall d)
    then show ?thesis using same by (cases d) (simp_all add: touched_by_method)
  qed
qed


subsection \<open>Write numbers\<close>

text \<open>What a run of writes does to the change feed: a change it leaves is an old one or has a new number.\<close>

definition advances :: "data_state \<Rightarrow> data_state \<Rightarrow> bool" where
  "advances d d' \<longleftrightarrow> (\<forall>sid. write_counter d sid \<le> write_counter d' sid)
     \<and> (\<forall>c\<in>snd ` set (da_changes d'). c \<in> snd ` set (da_changes d) \<or> write_counter d (rc_session c) < rc_seq c)"

lemma numbers_advance_refl: "advances d d"
  by (simp add: advances_def)

lemma numbers_advance_trans: "advances d e \<Longrightarrow> advances e f \<Longrightarrow> advances d f"
  unfolding advances_def by (meson le_less_trans order_trans)

lemma advances_record: "da_changes e = da_changes d \<Longrightarrow> write_counter e = write_counter d \<Longrightarrow> advances d (record_change_of sid ch e)"
  using image_mono[OF set_jm_set_subset, of snd "(sid, ch)" _ "da_changes e"] by (fastforce simp: advances_def)

lemma advances_foldl: "(\<And>d r. advances d (f d r)) \<Longrightarrow> advances d (foldl f d rs)"
  by (induction rs arbitrary: d) (auto intro: numbers_advance_refl numbers_advance_trans)

lemma advances_write: "advances d (write_row r d)"
  unfolding write_row_def changed_def Let_def by (rule advances_record) simp_all

lemma advances_step: "advances d (data_step op d)"
proof (cases op)
  case (CasBatch uuid sid plugin es)
  have "advances d (foldl (\<lambda>s r. changed r (s\<lparr> da_rows := jm_set (plugin_data_key r) r (da_rows s) \<rparr>)) d rs)" for rs
    by (rule advances_foldl) (simp add: changed_def advances_record)
  then show ?thesis using CasBatch
    by (auto simp: compare_and_set_batch_def Let_def numbers_advance_refl split: sum.splits)
next
  case (DeleteRow key)
  then show ?thesis by (cases key) (auto simp: delete_plugin_data_def numbers_advance_refl intro: advances_record)
qed (auto simp: advances_write numbers_advance_refl set_plugin_data_batch_def compare_and_set_def Let_def
    intro: advances_foldl[OF advances_write])

lemma numbered_advances:
  assumes "numbered rows d" "advances d d'"
  shows "numbered rows d'"
proof -
  have "0 < tmsg_seq r \<and> tmsg_seq r \<le> write_counter d' (row_session r)
      \<and> (\<forall>c\<in>snd ` set (da_changes d'). (rc_session c, rc_seq c) \<noteq> (row_session r, tmsg_seq r))" if r: "r \<in> set rows" for r
  proof -
    have b: "0 < tmsg_seq r" "tmsg_seq r \<le> write_counter d (row_session r)"
      and new: "\<And>c. c \<in> snd ` set (da_changes d) \<Longrightarrow> (rc_session c, rc_seq c) \<noteq> (row_session r, tmsg_seq r)"
      using assms(1) r by (auto simp: numbered_def list_all_iff)
    have "(rc_session c, rc_seq c) \<noteq> (row_session r, tmsg_seq r)" if "c \<in> snd ` set (da_changes d')" for c
      using assms(2) that new[of c] b(2) unfolding advances_def by fastforce
    then show ?thesis using b assms(2) unfolding advances_def by (meson order_trans)
  qed
  then show ?thesis using assms(1) by (auto simp: numbered_def list_all_iff)
qed

lemma numbers_wf_same:
  assumes "mem_changes t = mem_changes s" "mem_counters t = mem_counters s" "mem_turn_messages t = mem_turn_messages s"
  shows "numbers_wf t = numbers_wf s"
proof -
  have "write_counter (data_of t) = write_counter (data_of s)"
    using assms(2) by (simp add: fun_eq_iff write_counter_of_def)
  then show ?thesis using assms by (simp add: numbers_wf_def feed_inv_def numbered_def)
qed

lemma numbers_put:
  assumes w: "numbers_wf s" and inv: "feed_inv d" and adv: "advances (data_of s) d"
  shows "numbers_wf (put_data d s)"
proof -
  have "write_counter (data_of (put_data d s)) = write_counter d" by (simp add: fun_eq_iff)
  moreover have "numbered (mem_turn_messages s) d" using w adv numbered_advances by (auto simp: numbers_wf_def)
  ultimately show ?thesis using inv by (simp add: numbers_wf_def feed_inv_def numbered_def)
qed

lemma numbers_step: "numbers_wf s \<Longrightarrow> numbers_wf (put_data (data_step op (data_of s)) s)"
  using feeds_step[of "data_of s" op] by (intro numbers_put advances_step) (auto simp: numbers_wf_def feeds_def)

lemma numbers_record:
  assumes "numbers_wf t"
  shows "numbers_wf (record_store_change sid ch t)"
  unfolding record_store_change_def
  by (rule numbers_put[OF assms feed_inv_record advances_record]) (use assms in \<open>simp_all add: numbers_wf_def\<close>)

lemma feed_inv_mono:
  assumes inv: "feed_inv d" and ch: "da_changes e = da_changes d" and le: "\<And>sid. write_counter d sid \<le> write_counter e sid"
  shows "feed_inv e"
proof -
  have "0 < rc_seq c \<and> rc_seq c \<le> write_counter e (rc_session c)" if "c \<in> snd ` set (da_changes e)" for c
    using inv that le[of "rc_session c"] unfolding ch feed_inv_def by fastforce
  moreover have "0 \<le> write_counter e sid" for sid
    using inv le[of sid] unfolding feed_inv_def by (meson order_trans)
  ultimately show ?thesis using inv unfolding feed_inv_def ch by blast
qed

lemma numbered_snoc:
  assumes num: "numbered rows d" and inv: "feed_inv d" and n: "tmsg_seq r = write_counter d (row_session r) + 1"
    and le: "\<And>sid. write_counter d sid \<le> write_counter e sid" "tmsg_seq r \<le> write_counter e (row_session r)"
    and ch: "da_changes e = da_changes d"
  shows "numbered (rows @ [r]) e"
proof -
  have "numbered rows e" by (rule numbered_advances[OF num]) (simp add: advances_def le(1) ch)
  moreover have "(row_session q, tmsg_seq q) \<noteq> (row_session r, tmsg_seq r)" if "q \<in> set rows" for q
    using num that n by (fastforce simp: numbered_def list_all_iff)
  then have "(row_session r, tmsg_seq r) \<notin> set (map (\<lambda>q. (row_session q, tmsg_seq q)) rows)"
    unfolding set_map image_iff by metis
  moreover have "(rc_session c, rc_seq c) \<noteq> (row_session r, tmsg_seq r)" if "c \<in> snd ` set (da_changes d)" for c
    using inv that n by (fastforce simp: feed_inv_def)
  moreover have "0 < tmsg_seq r" using inv n unfolding feed_inv_def by (metis add_nonneg_pos zero_less_one)
  ultimately show ?thesis using le(2) unfolding numbered_def ch map_append distinct_append list_all_append
    by (simp add: list_all_iff)
qed

lemma numbers_append:
  assumes w: "numbers_wf s"
  shows "numbers_wf (snd (append_turn_message r s))"
proof (cases "k_id r \<in> k_id ` set (mem_turn_messages s)")
  case False
  let ?sid = "row_session r" and ?d = "data_of s" and ?t = "snd (append_turn_message r s)"
  let ?n = "write_counter ?d ?sid + 1"
  let ?m = "turn_message.extend r \<lparr> tmsg_seq = ?n \<rparr>"
  have t: "mem_turn_messages ?t = mem_turn_messages s @ [?m]" "mem_changes ?t = mem_changes s"
    "mem_counters ?t = jm_set ?sid ?n (mem_counters s)"
    using False by (simp_all add: append_turn_message_cases next_store_write_def next_session_write_def Let_def write_counter_of_def)
  have m: "tmsg_seq ?m = ?n" "row_session ?m = ?sid" by (simp_all add: turn_message.defs)
  have c: "write_counter (data_of ?t) = (write_counter ?d)(?sid := ?n)"
    by (auto simp: fun_eq_iff write_counter_of_def t(3))
  have inv: "feed_inv ?d" and num: "numbered (mem_turn_messages s) ?d" using w by (simp_all add: numbers_wf_def)
  have le: "write_counter ?d sid \<le> write_counter (data_of ?t) sid" for sid by (simp add: c del: write_counter_data_of)
  have "feed_inv (data_of ?t)" by (rule feed_inv_mono[OF inv _ le]) (simp add: t(2))
  moreover have "numbered (mem_turn_messages s @ [?m]) (data_of ?t)"
    by (rule numbered_snoc[OF num inv _ le]) (simp_all only: m c fun_upd_same data_of_simps t(2) order_refl)
  ultimately show ?thesis by (simp add: numbers_wf_def t(1))
qed (use w in \<open>simp add: append_turn_message_cases\<close>)


lemma numbered_map:
  assumes "\<And>r. row_session (f r) = row_session r" "\<And>r. tmsg_seq (f r) = tmsg_seq r"
  shows "numbered (map f rows) d = numbered rows d"
  using assms by (simp add: numbered_def list_all_iff comp_def)

lemma numbers_retag:
  assumes "numbers_wf s" "\<And>r. row_session (f r) = row_session r" "\<And>r. tmsg_seq (f r) = tmsg_seq r"
  shows "numbers_wf (s\<lparr> mem_turn_messages := map f (mem_turn_messages s) \<rparr>)"
  using assms numbered_map[of f] by (simp add: numbers_wf_def data_of_def)

lemma counter_filtered: "jm_get (filter (\<lambda>(k, _). k \<noteq> sid) m) x = (if x = sid then None else jm_get m x)"
  by (induction m) auto

lemma numbers_delete_session:
  assumes w: "numbers_wf s"
  shows "numbers_wf (snd (delete_session sid s))"
proof -
  let ?t = "snd (delete_session sid s)" and ?d = "data_of s"
  have t: "mem_turn_messages ?t = delete_rows_by_session sid (mem_turn_messages s)"
    "mem_changes ?t = delete_map_by_session rc_session sid (mem_changes s)"
    "mem_counters ?t = filter (\<lambda>(k, _). k \<noteq> sid) (mem_counters s)"
    by (simp_all add: delete_session_def cascade_session_def Let_def)
  have c: "write_counter (data_of ?t) x = (if x = sid then 0 else write_counter ?d x)" for x
    by (simp add: write_counter_of_def t(3) counter_filtered)
  have ch: "snd ` set (mem_changes ?t) \<subseteq> {c \<in> snd ` set (mem_changes s). rc_session c \<noteq> sid}"
    by (auto simp: t(2) delete_map_by_session_def)
  have inv: "feed_inv ?d" and num: "numbered (mem_turn_messages s) ?d" using w by (simp_all add: numbers_wf_def)
  have "keyed_by (\<lambda>c. (rc_session c, rc_identity c)) (mem_changes ?t)"
    using inv by (simp add: feed_inv_def t(2) delete_map_by_session_def keyed_by_filter)
  moreover have "inj_on (\<lambda>c. (rc_session c, rc_seq c)) (snd ` set (mem_changes ?t))"
    using inv ch unfolding feed_inv_def data_of_simps by (elim conjE) (erule inj_on_subset, blast)
  moreover have "0 < rc_seq x \<and> rc_seq x \<le> write_counter (data_of ?t) (rc_session x)" if "x \<in> snd ` set (mem_changes ?t)" for x
  proof -
    have "x \<in> snd ` set (mem_changes s)" "rc_session x \<noteq> sid" using subsetD[OF ch that] by simp_all
    then show ?thesis using inv unfolding feed_inv_def c data_of_simps by simp blast
  qed
  moreover have "0 \<le> write_counter (data_of ?t) x" for x using inv unfolding c feed_inv_def by simp
  ultimately have "feed_inv (data_of ?t)" unfolding feed_inv_def data_of_simps by blast
  moreover have "numbered (mem_turn_messages ?t) (data_of ?t)"
    using num unfolding numbered_def c data_of_simps t(1,2) delete_rows_by_session_def delete_map_by_session_def
    by (simp add: list_all_iff distinct_map_filter split_beta) (metis snd_conv)
  ultimately show ?thesis by (simp add: numbers_wf_def)
qed

lemma numbers_keep:
  "numbers_wf s \<Longrightarrow> mem_changes t = mem_changes s \<Longrightarrow> mem_counters t = mem_counters s \<Longrightarrow>
     mem_turn_messages t = mem_turn_messages s \<Longrightarrow> numbers_wf t"
  by (simp only: numbers_wf_same[of t s])

lemma numbers_lorebook: "numbers_wf s \<Longrightarrow> numbers_wf (foldl upsert_lorebook_entry s rs)"
proof (rule foldl_invariant)
  fix s r assume w: "numbers_wf s"
  show "numbers_wf (upsert_lorebook_entry s r)"
    unfolding upsert_lorebook_entry_def Let_def by (rule numbers_record) (simp add: numbers_keep[OF w])
qed

lemma numbers_data:
  assumes "numbers_wf s"
  shows "numbers_wf (snd (run_data_call c s))"
proof (cases c)
  case (SetPluginData r)
  then show ?thesis using numbers_step[OF assms, of "SetBatch [r]"] by (simp add: set_plugin_data_rows_def)
next
  case (SetPluginDataBatch rs)
  then show ?thesis using numbers_step[OF assms, of "SetBatch rs"] by (simp add: set_plugin_data_rows_def)
next
  case (CompareAndSetPluginData r u)
  then show ?thesis using numbers_step[OF assms, of "CasRow r u"] by (simp add: cas_plugin_data_def split_beta)
next
  case (CompareAndSetPluginDataBatch uuid sid plugin es)
  then show ?thesis using numbers_step[OF assms, of "CasBatch uuid sid plugin es"] assms
    by (auto simp: cas_plugin_data_batch_def split: sum.splits prod.splits)
next
  case (DeletePluginData key)
  then show ?thesis using numbers_step[OF assms, of "DeleteRow key"] by (simp add: delete_plugin_data_row_def)
qed

lemma numbers_wf_call:
  assumes w: "numbers_wf s"
  shows "numbers_wf (snd (run_call sc c s))"
proof (cases c)
  case (SessionCall d)
  then show ?thesis using w numbers_delete_session[OF w]
    by (cases d) (auto simp: create_session_def update_session_def numbers_keep[OF w] split: option.split)
next
  case (RuntimeCall d)
  then show ?thesis using w
    by (cases d) (auto simp: save_turn_result_def set_turn_result_commit_status_def save_tool_call_def save_event_def
      delete_events_before_def add_message_def commit_player_input_def upsert_character_def upsert_character_schema_def
      delete_character_def add_trace_event_def delete_traces_before_def save_runtime_output_def
      save_interaction_record_def Let_def numbers_keep[OF w] split: option.split sum.split intro!: numbers_record)
next
  case (JournalCall d)
  then show ?thesis using w numbers_append[OF w]
    by (cases d) (auto simp: tag_turn_messages_def retag_turn_messages_def save_player_input_def save_session_summary_def
      delete_session_summaries_def numbers_keep[OF w] split: sum.split option.split intro!: numbers_retag)
next
  case (DataCall d)
  then show ?thesis using numbers_data[OF w] by simp
next
  case (WorldCall d)
  then show ?thesis using w numbers_lorebook[OF w]
    by (cases d) (auto simp: save_import_batch_def delete_import_def upsert_lorebook_entries_def delete_lorebook_entry_def
      create_world_def upsert_world_def delete_world_def set_server_setting_def delete_server_setting_def Let_def
      numbers_keep[OF w] split: sum.split option.split intro!: numbers_record)
next
  case (SnapshotCall d)
  then show ?thesis using w
    by (cases d) (auto simp: save_suspension_def update_suspension_continuation_def claim_suspension_def
      release_suspension_claim_def mark_suspension_resolved_def delete_suspension_def release_stale_claims_def
      save_snapshot_def prune_auto_snapshots_def Let_def numbers_keep[OF w] split: sum.split option.split)
next
  case (LifecycleCall d)
  then show ?thesis using w
    by (cases d) (auto simp: append_runtime_export_def store_logical_turn_def store_setup_attempt_def
      patch_setup_attempt_def store_job_status_def remove_job_status_def put_lifecycle_def Let_def split_beta
      numbers_keep[OF w])
next
  case (VectorCall d)
  then show ?thesis using w
    by (cases d) (auto simp: commit_vector_batch_def upsert_vector_def delete_vectors_def lock_session_model_def
      reset_session_index_def ensure_vector_model_def resolve_vector_target_def Let_def numbers_keep[OF w]
      split: sum.split option.split)
qed


subsection \<open>The model registry\<close>

lemma registry_same:
  "registry_wf s \<Longrightarrow> mem_models t = mem_models s \<Longrightarrow> mem_next_model t = mem_next_model s \<Longrightarrow> registry_wf t"
  by (simp add: registry_wf_def)

lemma registry_new:
  assumes w: "registry_wf s" and new: "jm_get (mem_models s) (model, width) = None"
  shows "registry_wf (s\<lparr> mem_next_model := mem_next_model s + 1, mem_models := jm_set (model, width)
    \<lparr> vt_registry = mem_next_model s, vt_model = model, vt_dim = width, vt_table = table \<rparr> (mem_models s) \<rparr>)"
proof -
  have "(model, width) \<notin> fst ` set (mem_models s)" using new by (simp add: map_of_eq_None_iff)
  then show ?thesis using w by (fastforce simp: registry_wf_def jm_set_snoc list_all_iff keyed_by_def)
qed

lemma registry_wf_call:
  assumes w: "registry_wf s"
  shows "registry_wf (snd (run_call sc c s))"
proof (cases c)
  case (SessionCall d)
  then show ?thesis using w
    by (cases d) (auto simp: create_session_def update_session_def delete_session_def cascade_session_def Let_def
      registry_same[OF w] split: option.split)
next
  case (VectorCall d)
  then show ?thesis using w registry_new[OF w]
    by (cases d) (auto simp: commit_vector_batch_def upsert_vector_def delete_vectors_def lock_session_model_def
      reset_session_index_def ensure_vector_model_def resolve_vector_target_def Let_def registry_same[OF w]
      split: sum.split option.split)
next
  case (RuntimeCall d)
  have "same KModels (snd (run_runtime_call d s)) s" "same KNextModel (snd (run_runtime_call d s)) s"
    by (rule runtime_frame; cases d; simp add: touched_by_method)+
  then show ?thesis using RuntimeCall registry_same[OF w] by simp
next
  case (JournalCall d)
  have "same KModels (snd (run_journal_call d s)) s" "same KNextModel (snd (run_journal_call d s)) s"
    by (rule journal_frame; cases d; simp add: touched_by_method)+
  then show ?thesis using JournalCall registry_same[OF w] by simp
next
  case (DataCall d)
  have "same KModels (snd (run_data_call d s)) s" "same KNextModel (snd (run_data_call d s)) s"
    by (rule data_frame; cases d; simp add: touched_by_method)+
  then show ?thesis using DataCall registry_same[OF w] by simp
next
  case (WorldCall d)
  have "same KModels (snd (run_world_call d s)) s" "same KNextModel (snd (run_world_call d s)) s"
    by (rule world_frame; cases d; simp add: touched_by_method)+
  then show ?thesis using WorldCall registry_same[OF w] by simp
next
  case (SnapshotCall d)
  have "same KModels (snd (run_snapshot_call sc d s)) s" "same KNextModel (snd (run_snapshot_call sc d s)) s"
    by (rule snapshot_frame; cases d; simp add: touched_by_method)+
  then show ?thesis using SnapshotCall registry_same[OF w] by simp
next
  case (LifecycleCall d)
  have "same KModels (snd (run_lifecycle_call d s)) s" "same KNextModel (snd (run_lifecycle_call d s)) s"
    by (rule lifecycle_frame; cases d; simp add: touched_by_method)+
  then show ?thesis using LifecycleCall registry_same[OF w] by simp
qed

lemma store_wf_call: "store_wf s \<Longrightarrow> store_wf (snd (run_call sc c s))"
  by (simp add: store_wf_def list_all_iff collection_wf_call index_wf_call numbers_wf_call registry_wf_call)

lemma store_wf_empty: "store_wf create_memory_state"
proof -
  have "collection_wf k create_memory_state" for k
    by (cases k) (simp_all add: create_memory_state_def unique_ids_def)
  moreover have "index_wf create_memory_state" by (simp add: index_wf_def create_memory_state_def unique_ids_def)
  moreover have "numbers_wf create_memory_state"
    by (simp add: numbers_wf_def feed_inv_def numbered_def create_memory_state_def write_counter_of_def)
  moreover have "registry_wf create_memory_state" by (simp add: registry_wf_def create_memory_state_def)
  ultimately show ?thesis by (simp add: store_wf_def list_all_iff)
qed


subsection \<open>Transactions\<close>

definition level_numbers :: "memory_state \<Rightarrow> memory_state \<Rightarrow> level \<Rightarrow> bool" where
  "level_numbers s b l \<longleftrightarrow> KModels \<notin> set (lv_keys l) \<and> KNextModel \<notin> set (lv_keys l)
     \<and> counters_le b (if KCounters \<in> set (lv_keys l) then lv_saved l else s)"

lemma counters_le_eq: "mem_counters t = mem_counters u \<Longrightarrow> counters_le s t = counters_le s u"
  by (simp add: counters_le_def write_counter_of_def)

lemma level_numbers_call:
  assumes l: "level_numbers s b l"
  shows "level_numbers (snd (run_call sc c s)) b (foldl (capture_collection s) l (touched_by (method_name c)))"
proof -
  let ?l = "foldl (capture_collection s) l (touched_by (method_name c))"
  have keys: "KModels \<notin> set (lv_keys ?l)" "KNextModel \<notin> set (lv_keys ?l)"
    using l by (auto simp: level_numbers_def capture_keys all_snapshot_keys_def session_scoped_tables_def)
  have "counters_le b (if KCounters \<in> set (lv_keys ?l) then lv_saved ?l else snd (run_call sc c s))"
  proof (cases "KCounters \<in> set (lv_keys l)")
    case True
    then have "same KCounters (lv_saved ?l) (lv_saved l)" by (simp add: capture_saved del: same.simps)
    then show ?thesis using l True by (simp add: level_numbers_def capture_keys counters_le_eq[of "lv_saved ?l" "lv_saved l"])
  next
    case False
    have le: "counters_le b s" using l False by (simp add: level_numbers_def)
    show ?thesis
    proof (cases "KCounters \<in> set (touched_by (method_name c))")
      case True
      then have "KCounters \<in> set (lv_keys ?l)" "same KCounters (lv_saved ?l) s"
        using False by (simp_all add: capture_keys capture_saved all_snapshot_keys_def session_scoped_tables_def del: same.simps)
      then show ?thesis using le by (simp add: counters_le_eq[of "lv_saved ?l" s])
    next
      case nt: False
      then have "method_name c \<noteq> ''deleteSession''"
        by (auto simp: touched_by_method all_snapshot_keys_def session_scoped_tables_def)
      then show ?thesis using False nt counters_le_trans[OF le counters_call] by (simp add: capture_keys)
    qed
  qed
  then show ?thesis using keys by (simp add: level_numbers_def)
qed

text \<open>What an open level holds was well-formed when it was captured.\<close>

definition saved_wf :: "level \<Rightarrow> bool" where
  "saved_wf l \<longleftrightarrow> (\<forall>k\<in>set (lv_keys l). collection_wf k (lv_saved l))"

lemma saved_wf_new [simp]: "saved_wf new_level"
  by (simp add: saved_wf_def new_level_def)

lemma saved_wf_call:
  assumes "saved_wf l" "store_wf s"
  shows "saved_wf (foldl (capture_collection s) l cs)"
  unfolding saved_wf_def
proof
  fix k assume k: "k \<in> set (lv_keys (foldl (capture_collection s) l cs))"
  let ?l = "foldl (capture_collection s) l cs"
  show "collection_wf k (lv_saved ?l)"
  proof (cases "k \<in> set (lv_keys l)")
    case True
    then have "same k (lv_saved ?l) (lv_saved l)" by (simp add: capture_saved del: same.simps)
    then show ?thesis using assms(1) True collection_wf_same by (auto simp: saved_wf_def)
  next
    case False
    then have "k \<in> set all_snapshot_keys" "same k (lv_saved ?l) s" using k by (auto simp: capture_keys capture_saved simp del: same.simps)
    then show ?thesis using assms(2) collection_wf_same[of k "lv_saved ?l" s] by (simp add: store_wf_def list_all_iff)
  qed
qed

lemma restored_wf:
  assumes l: "level_ok always_protected s1 b l" "level_numbers s1 b l" "saved_wf l" and wf: "store_wf b" "store_wf s1"
  shows "store_wf (restore_snapshot l s1)"
proof -
  let ?u = "restore_snapshot l s1"
  have eq: "same k ?u b" if "k \<in> always_protected" for k by (rule level_ok_restore_own[OF l(1) that])
  have "same KModels ?u s1" "same KNextModel ?u s1"
    using l(2) by (simp_all add: restore_snapshot_same level_numbers_def del: same.simps)
  then have "registry_wf ?u" using registry_same[of s1] wf(2) by (simp add: store_wf_def)
  moreover have "collection_wf k ?u" if "k \<in> set all_snapshot_keys" for k
  proof (cases "k \<in> set (lv_keys l)")
    case True
    then have "same k ?u (lv_saved l)" by (simp add: restore_snapshot_same del: same.simps)
    then show ?thesis using l(3) True collection_wf_same by (auto simp: saved_wf_def)
  next
    case False
    then have "same k ?u s1" by (simp add: restore_snapshot_same del: same.simps)
    then show ?thesis using wf(2) that collection_wf_same[of k ?u s1] by (simp add: store_wf_def list_all_iff)
  qed
  moreover have m: "mem_messages ?u = mem_messages b" "mem_positions ?u = mem_positions b" "mem_changes ?u = mem_changes b"
    "mem_turn_messages ?u = mem_turn_messages b"
    using eq[of KMessages] eq[of KPositions] eq[of KChanges] eq[of KTurnMessages]
    by (simp_all add: all_snapshot_keys_def session_scoped_tables_def)
  moreover have "index_wf ?u" using wf(1) index_wf_same[OF m(1,2)] by (simp add: store_wf_def)
  moreover have "numbers_wf ?u"
  proof -
    have "same KCounters ?u (if KCounters \<in> set (lv_keys l) then lv_saved l else s1)"
      by (simp add: restore_snapshot_same del: same.simps)
    then have le: "counters_le b ?u" using l(2) counters_le_eq[of ?u] by (simp add: level_numbers_def)
    have w: "write_counter (data_of b) sid \<le> write_counter (data_of ?u) sid" for sid using le by (simp add: counters_le_def)
    have inv: "feed_inv (data_of b)" and num: "numbered (mem_turn_messages b) (data_of b)"
      using wf(1) by (simp_all add: store_wf_def numbers_wf_def)
    have "advances (data_of b) (data_of ?u)" using w by (simp add: advances_def m(3))
    from numbered_advances[OF num this] feed_inv_mono[OF inv _ w] show ?thesis by (simp add: numbers_wf_def m(3,4))
  qed
  ultimately show ?thesis by (simp add: store_wf_def list_all_iff)
qed

lemma level_numbers_restore:
  assumes l: "level_numbers s1 b l" and sub: "set (lv_keys inner) \<subseteq> set (lv_keys l)"
  shows "level_numbers (restore_snapshot inner s1) b l"
proof (cases "KCounters \<in> set (lv_keys l)")
  case False
  then have "same KCounters (restore_snapshot inner s1) s1" using sub by (auto simp: restore_snapshot_same simp del: same.simps)
  then show ?thesis using l False by (simp add: level_numbers_def counters_le_eq[of "restore_snapshot inner s1" s1])
qed (use l in \<open>simp add: level_numbers_def\<close>)

lemma level_numbers_new: "level_numbers s s new_level"
  by (simp add: level_numbers_def new_level_def)

lemma past_guard_counters: "past_guard c \<Longrightarrow> mem_counters (snd (run_call sc c s)) = mem_counters s"
proof -
  assume "past_guard c"
  then obtain d where "c = VectorCall d" using past_guard_vector by blast
  then show ?thesis using vector_frame[of KCounters d s] by (cases d) (simp_all add: touched_by_method)
qed

lemma level_numbers_root: "past_guard c \<Longrightarrow> level_numbers s b l \<Longrightarrow> level_numbers (snd (run_call sc c s)) b l"
  by (auto simp: level_numbers_def counters_le_eq[OF past_guard_counters] split: if_splits)

lemma run_wf:
  "list_all2 (level_ok always_protected s) bs ls \<Longrightarrow> list_all2 (level_numbers s) bs ls \<Longrightarrow> list_all saved_wf ls \<Longrightarrow>
     nested ls \<Longrightarrow> store_wf s \<Longrightarrow> run_script (run_call sc) p ls s = (r, ls', s') \<Longrightarrow>
     store_wf s' \<and> list_all2 (level_numbers s') bs ls' \<and> list_all saved_wf ls'"
proof (induction p arbitrary: bs ls s r ls' s')
  case (Query k)
  show ?case using Query.IH[OF rangeI[of k s], of s bs ls] Query.prems by simp
next
  case (RootCall c k)
  show ?case
  proof (cases "method_name c \<in> set transactional_write_methods")
    case True
    then show ?thesis
      using RootCall.IH[OF rangeI[of k "Inl (RootWriteInTransaction (method_name c))"], of s bs ls] RootCall.prems by simp
  next
    case False
    then have p: "past_guard c" by (simp add: past_guard_def)
    obtain v s1 where b: "run_call sc c s = (v, s1)" by fastforce
    have s1: "s1 = snd (run_call sc c s)" by (simp add: b)
    have "list_all2 (level_ok always_protected s1) bs ls" "list_all2 (level_numbers s1) bs ls"
      using RootCall.prems(1,2) any.level_ok_root[OF _ p False] level_numbers_root[OF p] unfolding s1
      by (auto simp: list_all2_conv_all_nth)
    moreover have "store_wf s1" unfolding s1 by (rule store_wf_call[OF RootCall.prems(5)])
    moreover have "run_script (run_call sc) (k v) ls s1 = (r, ls', s')" using RootCall.prems(6) False by (simp add: b)
    ultimately show ?thesis using RootCall.IH[OF rangeI[of k v] _ _ RootCall.prems(3,4)] by blast
  qed
next
  case (OpenTransaction k)
  show ?case using OpenTransaction.IH[OF rangeI[of k NestedTransaction], of s bs ls] OpenTransaction.prems by simp
next
  case (TxCall c k)
  obtain v s1 where b: "run_call sc c s = (v, s1)" by fastforce
  let ?ls = "on_touch s (method_name c) ls"
  have s1: "s1 = snd (run_call sc c s)" by (simp add: b)
  have "list_all2 (level_ok always_protected s1) bs ?ls" "list_all2 (level_numbers s1) bs ?ls"
    using TxCall.prems(1,2) any.level_ok_call level_numbers_call unfolding s1
    by (auto simp: on_touch_def list_all2_conv_all_nth)
  moreover have "list_all saved_wf ?ls"
    using TxCall.prems(3) saved_wf_call[OF _ TxCall.prems(5)] by (auto simp: on_touch_def list_all_iff)
  moreover have "run_script (run_call sc) (k v) ?ls s1 = (r, ls', s')"
    using TxCall.prems(6) by (simp only: run_script.simps Let_def b prod.case)
  moreover have "store_wf s1" unfolding s1 by (rule store_wf_call[OF TxCall.prems(5)])
  ultimately show ?case using TxCall.IH[OF rangeI[of k v] _ _ _ nested_touch[OF TxCall.prems(4)]] by blast
next
  case (Savepoint body k)
  obtain v ls1 s1 where b: "run_script (run_call sc) body (ls @ [new_level]) s = (v, ls1, s1)" by (metis prod_cases3)
  have ok: "list_all2 (level_ok always_protected s) (bs @ [s]) (ls @ [new_level])"
    "list_all2 (level_numbers s) (bs @ [s]) (ls @ [new_level])" "list_all saved_wf (ls @ [new_level])"
    using Savepoint.prems(1-3) by (simp_all add: list_all2_append level_ok_new level_numbers_new list_all2_lengthD)
  have one: "list_all2 (level_ok always_protected s1) (bs @ [s]) ls1" "nested ls1"
    using any.run_levels[OF any_script ok(1) nested_new[OF Savepoint.prems(4)] b] by blast+
  have two: "store_wf s1" "list_all2 (level_numbers s1) (bs @ [s]) ls1" "list_all saved_wf ls1"
    using Savepoint.IH(1)[OF ok nested_new[OF Savepoint.prems(4)] Savepoint.prems(5) b] by blast+
  obtain ls2 l where ls1: "ls1 = ls2 @ [l]" using one(1) by (cases ls1 rule: rev_cases) auto
  have len: "length bs = length ls2" using list_all2_lengthD[OF one(1)] by (simp add: ls1)
  have lv: "list_all2 (level_ok always_protected s1) bs ls2" "level_ok always_protected s1 s l"
    "list_all2 (level_numbers s1) bs ls2" "level_numbers s1 s l" "list_all saved_wf ls2" "saved_wf l"
    using one(1) two(2,3) len by (simp_all add: ls1 list_all2_append)
  have inner: "set (lv_keys l) \<subseteq> set (lv_keys m)" if "m \<in> set ls2" for m
    using one(2) that by (simp add: nested_def ls1 sorted_wrt_append)
  let ?s2 = "case v of Inl _ \<Rightarrow> restore_snapshot l s1 | Inr _ \<Rightarrow> s1"
  have "store_wf ?s2" using restored_wf[OF lv(2,4,6) Savepoint.prems(5) two(1)] two(1) by (simp split: sum.split)
  moreover have "list_all2 (level_ok always_protected ?s2) bs ls2" "list_all2 (level_numbers ?s2) bs ls2"
    using lv(1,3) by (auto simp: list_all2_conv_all_nth split: sum.split intro!: level_ok_restore_inner level_numbers_restore inner)
  moreover have "nested ls2" using one(2) by (simp add: nested_def ls1 sorted_wrt_append)
  moreover have "run_script (run_call sc) (k v) ls2 ?s2 = (r, ls', s')"
    using Savepoint.prems(6) by (simp add: b ls1 Let_def cong: sum.case_cong)
  ultimately show ?case using Savepoint.IH(2)[OF rangeI[of k v] _ _ lv(5)] by blast
qed auto

lemma with_transaction_wf:
  assumes wf: "store_wf s"
  shows "store_wf (snd (with_transaction (run_call sc) p s))"
proof -
  obtain r ls s1 where run: "run_script (run_call sc) p [new_level] s = (r, ls, s1)" by (metis prod_cases3)
  have ok: "list_all2 (level_ok always_protected s) [s] [new_level]" "list_all2 (level_numbers s) [s] [new_level]"
    "list_all saved_wf [new_level]" "nested [new_level]"
    by (simp_all add: level_ok_new level_numbers_new nested_def)
  have one: "store_wf s1" "list_all2 (level_numbers s1) [s] ls" "list_all saved_wf ls" using run_wf[OF ok wf run] by blast+
  have two: "list_all2 (level_ok always_protected s1) [s] ls" using any.run_levels[OF any_script ok(1,4) run] by blast
  obtain l where "ls = [l]" "level_ok always_protected s1 s l" "level_numbers s1 s l"
    using one(2) two by (auto simp: list_all2_Cons1)
  then show ?thesis using restored_wf[of s1 s l] one(1,3) wf by (simp add: with_transaction_def run split: sum.split)
qed

subsection \<open>The queue of a store\<close>

text \<open>
  The gate runs the operations of all callers one after the other in the order in which they were enqueued: a
  root call, or a transaction for its whole span. An operation that fails does not stop the queue.
\<close>

datatype 'v task = RootTask store_call | TransactionTask "'v script"

primrec gate_task :: "schemas \<Rightarrow> 'v task \<Rightarrow> memory_state \<Rightarrow> memory_state" where
  "gate_task sc (RootTask c) s = snd (run_call sc c s)"
| "gate_task sc (TransactionTask p) s = snd (with_transaction (run_call sc) p s)"

definition gate_queue :: "schemas \<Rightarrow> 'v task list \<Rightarrow> memory_state \<Rightarrow> memory_state" where
  "gate_queue sc tasks s = foldl (\<lambda>s t. gate_task sc t s) s tasks"

lemma gate_queue_wf: "store_wf s \<Longrightarrow> store_wf (gate_queue sc tasks s)"
proof (induction tasks arbitrary: s)
  case (Cons t ts)
  have "store_wf (gate_task sc t s)"
    using Cons.prems by (cases t) (simp_all add: store_wf_call with_transaction_wf)
  then show ?case using Cons by (simp add: gate_queue_def)
qed (simp add: gate_queue_def)

text \<open>C18: The memory store is well-typed at all times: whatever calls and transactions run on it from its
  creation on, committed or rolled back, with savepoints or without, row IDs are unique, every map is keyed
  by its records, the position index leads to exactly the messages, each write number belongs to one row or
  change of its session and is at most the session's counter, and no two embedding models share a registry ID.\<close>

theorem store_stays_well_formed:
  "store_wf (gate_queue sc tasks create_memory_state)"
  by (rule gate_queue_wf[OF store_wf_empty])

subsection \<open>Deleting a session\<close>

text \<open>What the store holds of one session.\<close>

definition session_view :: "string \<Rightarrow> memory_state \<Rightarrow> memory_state" where
  "session_view sid s = create_memory_state\<lparr>
     mem_sessions := filter (\<lambda>(k, _). k = sid) (mem_sessions s),
     mem_turn_results := filter (\<lambda>r. row_session r = sid) (mem_turn_results s),
     mem_tool_calls := filter (\<lambda>r. row_session r = sid) (mem_tool_calls s),
     mem_events := filter (\<lambda>r. row_session r = sid) (mem_events s),
     mem_messages := filter (\<lambda>r. row_session r = sid) (mem_messages s),
     mem_schemas := filter (\<lambda>(_, r). sch_session r = sid) (mem_schemas s),
     mem_characters := filter (\<lambda>(_, r). row_session r = sid) (mem_characters s),
     mem_plugin_data := filter (\<lambda>(_, r). pr_session r = sid) (mem_plugin_data s),
     mem_suspensions := filter (\<lambda>(_, r). row_session r = sid) (mem_suspensions s),
     mem_snapshots := filter (\<lambda>(_, r). row_session r = sid) (mem_snapshots s),
     mem_progress := filter (\<lambda>(_, r). fst r = sid) (mem_progress s),
     mem_vectors := filter (\<lambda>(_, r). vec_session r = sid) (mem_vectors s),
     mem_targets := filter (\<lambda>(k, _). k = sid) (mem_targets s),
     mem_traces := filter (\<lambda>r. row_session r = sid) (mem_traces s),
     mem_outputs := filter (\<lambda>r. row_session r = sid) (mem_outputs s),
     mem_interactions := filter (\<lambda>r. row_session r = sid) (mem_interactions s),
     mem_turn_messages := filter (\<lambda>r. row_session r = sid) (mem_turn_messages s),
     mem_inputs := filter (\<lambda>r. row_session r = sid) (mem_inputs s),
     mem_imports := filter (\<lambda>(_, r). imp_session r = sid) (mem_imports s),
     mem_lorebook := filter (\<lambda>(_, r). row_session r = sid) (mem_lorebook s),
     mem_summaries := filter (\<lambda>r. row_session r = sid) (mem_summaries s),
     mem_ledger := filter (\<lambda>(_, r). lr_session r = sid) (mem_ledger s),
     mem_attempts := filter (\<lambda>(_, r). sa_session r = sid) (mem_attempts s),
     mem_jobs := filter (\<lambda>(_, r). js_session r = sid) (mem_jobs s),
     mem_exports := filter (\<lambda>(_, r). exp_session r = sid) (mem_exports s),
     mem_changes := filter (\<lambda>(_, r). rc_session r = sid) (mem_changes s),
     mem_counters := filter (\<lambda>(k, _). k = sid) (mem_counters s) \<rparr>"

lemma keep_other:
  "filter (\<lambda>r. f r = x) (filter (\<lambda>r. f r \<noteq> sid) rows) = (if x = sid then [] else filter (\<lambda>r. f r = x) rows)"
  "filter (\<lambda>(_, r). g r = x) (filter (\<lambda>(_, r). g r \<noteq> sid) m) = (if x = sid then [] else filter (\<lambda>(_, r). g r = x) m)"
  "filter (\<lambda>(k, _). k = x) (filter (\<lambda>(k, _). k \<noteq> sid) n) = (if x = sid then [] else filter (\<lambda>(k, _). k = x) n)"
  "filter (\<lambda>(k, _). k = x) (jm_delete sid n) = (if x = sid then [] else filter (\<lambda>(k, _). k = x) n)"
proof -
  show "filter (\<lambda>r. f r = x) (filter (\<lambda>r. f r \<noteq> sid) rows) = (if x = sid then [] else filter (\<lambda>r. f r = x) rows)"
    by (induction rows) auto
  show "filter (\<lambda>(_, r). g r = x) (filter (\<lambda>(_, r). g r \<noteq> sid) m) = (if x = sid then [] else filter (\<lambda>(_, r). g r = x) m)"
    by (induction m) auto
  show "filter (\<lambda>(k, _). k = x) (filter (\<lambda>(k, _). k \<noteq> sid) n) = (if x = sid then [] else filter (\<lambda>(k, _). k = x) n)"
    by (induction n) auto
  show "filter (\<lambda>(k, _). k = x) (jm_delete sid n) = (if x = sid then [] else filter (\<lambda>(k, _). k = x) n)"
    by (induction n) auto
qed

lemma delete_session_view:
  "session_view x (snd (delete_session sid s)) = (if x = sid then create_memory_state else session_view x s)"
proof (cases "x = sid")
  case True
  then show ?thesis unfolding session_view_def delete_session_fields keep_other by (simp add: create_memory_state_def)
next
  case False
  then show ?thesis unfolding session_view_def delete_session_fields keep_other by simp
qed

text \<open>C20: Deleting a session leaves nothing of it in the store: no collection has a row of the session, and
  no row, snapshot, vector, lock, change or counter of any other session is gone or changed.\<close>

theorem delete_session_complete:
  assumes "other \<noteq> sid"
  shows "session_view sid (snd (delete_session sid s)) = create_memory_state
    \<and> session_view other (snd (delete_session sid s)) = session_view other s"
  using assms by (simp add: delete_session_view)

lemma delete_session_complete_witness:
  "session_view ''s'' (snd (delete_session ''s'' (one_session ''s''))) = create_memory_state
    \<and> session_view ''t'' (snd (delete_session ''s'' (one_session ''t''))) = session_view ''t'' (one_session ''t'')"
  using delete_session_complete[of "''t''" "''s''" "one_session ''s''"] delete_session_complete[of "''t''" "''s''" "one_session ''t''"]
  by simp

end
