(* ===== verification/StoreReads.thy ===== *)
theory StoreReads
  imports MemoryStore
begin

text \<open>
  The methods of the memory store that read, file by file as under \<open>packages/store/src/memory\<close>, and what the
  methods around suspensions and snapshots promise: a suspension is resumed by one claim at a time, and
  pruning keeps the newest automatic snapshots and every snapshot another one was made from. The distance of
  two embeddings is a parameter.
\<close>

subsection \<open>Sessions and runtime records\<close>

definition in_session :: "string \<Rightarrow> 'a row_scheme list \<Rightarrow> 'a row_scheme list" where
  "in_session sid rows = filter (\<lambda>r. row_session r = sid) rows"

definition find_row :: "string \<Rightarrow> string \<Rightarrow> 'a row_scheme list \<Rightarrow> 'a row_scheme option" where
  "find_row sid rid rows = find (\<lambda>r. row_session r = sid \<and> k_id r = rid) rows"

definition first_rows :: "int option \<Rightarrow> 'a list \<Rightarrow> 'a list" where
  "first_rows limit rows = (case limit of None \<Rightarrow> rows | Some n \<Rightarrow> js_slice rows 0 n)"

definition get_session :: "string \<Rightarrow> memory_state \<Rightarrow> session_record option" where
  "get_session sid s = jm_get (mem_sessions s) sid"

definition list_sessions :: "memory_state \<Rightarrow> session_record list" where
  "list_sessions s = sort_by_cursor_asc (map snd (mem_sessions s))"

definition list_turn_results :: "string \<Rightarrow> int option \<Rightarrow> memory_state \<Rightarrow> turn_result list" where
  "list_turn_results sid limit s = first_rows limit (js_sort (text_key_cmp k_created) (in_session sid (mem_turn_results s)))"

record turn_query =
  tq_turn :: "string option"
  tq_since :: "string option"
  tq_origins :: "exec_origin list option"
  tq_status :: "commit_status option"
  tq_newest :: bool
  tq_limit :: "int option"

definition turn_selected :: "string \<Rightarrow> turn_query \<Rightarrow> turn_result \<Rightarrow> bool" where
  "turn_selected sid q r \<longleftrightarrow> row_session r = sid \<and> truthy (tres_parent r) = None \<and> tres_origin r \<noteq> RecursiveOrigin
     \<and> (case tq_turn q of None \<Rightarrow> True | Some t \<Rightarrow> tres_turn r = t)
     \<and> (case tq_since q of None \<Rightarrow> True | Some t \<Rightarrow> \<not> js_less (k_created r) t)
     \<and> (case tq_origins q of None \<Rightarrow> True | Some os \<Rightarrow> tres_origin r \<in> set os)
     \<and> (case tq_status q of None \<Rightarrow> True | Some st \<Rightarrow> tres_status r = st)"

definition query_turn_results :: "string \<Rightarrow> turn_query \<Rightarrow> memory_state \<Rightarrow> turn_result list" where
  "query_turn_results sid q s = (let rows = sort_by_write_order (filter (turn_selected sid q) (mem_turn_results s))
     in first_rows (tq_limit q) (if tq_newest q then rev rows else rows))"

definition list_tool_calls :: "string \<Rightarrow> string option \<Rightarrow> memory_state \<Rightarrow> tool_call_row list" where
  "list_tool_calls sid turn s = sort_by_cursor_asc (filter (\<lambda>r. row_session r = sid
     \<and> (turn = None \<or> Some (tcall_turn r) = turn)) (mem_tool_calls s))"

definition get_runtime_output :: "string \<Rightarrow> string \<Rightarrow> memory_state \<Rightarrow> runtime_output option" where
  "get_runtime_output sid rid s = find_row sid rid (mem_outputs s)"

definition newest_cmp :: "('a keyed_scheme \<Rightarrow> string) \<Rightarrow> 'a keyed_scheme \<Rightarrow> 'a keyed_scheme \<Rightarrow> int" where
  "newest_cmp stamp a b = then_cmp (\<lambda>a b. text_key_cmp stamp b a) (\<lambda>a b. compare_byte_order (units (k_id b)) (units (k_id a))) a b"

record output_filters =
  of_runtime :: "string option"
  of_plugin :: "string option"
  of_since :: "string option"
  of_limit :: "int option"
  of_offset :: "int option"

definition list_runtime_outputs :: "string \<Rightarrow> output_filters \<Rightarrow> memory_state \<Rightarrow> runtime_output list" where
  "list_runtime_outputs sid f s =
     (let rows = filter (\<lambda>r. (case truthy (of_runtime f) of None \<Rightarrow> True | Some x \<Rightarrow> rout_runtime r = x)
            \<and> (case truthy (of_plugin f) of None \<Rightarrow> True | Some x \<Rightarrow> rout_plugin r = x)
            \<and> (case truthy (of_since f) of None \<Rightarrow> True | Some x \<Rightarrow> \<not> js_less (rout_timestamp r) x)) (in_session sid (mem_outputs s));
          sorted_rows = js_sort (newest_cmp rout_timestamp) rows;
          offset = or_else (of_offset f) 0
      in if offset > 0 \<or> of_limit f \<noteq> None
         then (case of_limit f of None \<Rightarrow> js_slice_from sorted_rows offset | Some n \<Rightarrow> js_slice sorted_rows offset (offset + n))
         else sorted_rows)"

definition list_interactions :: "string \<Rightarrow> string option \<Rightarrow> string option \<Rightarrow> string option \<Rightarrow> int option \<Rightarrow> memory_state \<Rightarrow> interaction_row list" where
  "list_interactions sid ty source plugin limit s = first_rows limit (js_sort (newest_cmp inter_timestamp)
     (filter (\<lambda>r. (case truthy ty of None \<Rightarrow> True | Some x \<Rightarrow> inter_type r = x)
        \<and> (case truthy source of None \<Rightarrow> True | Some x \<Rightarrow> inter_source r = x)
        \<and> (case truthy plugin of None \<Rightarrow> True | Some x \<Rightarrow> inter_plugin r = Some x)) (in_session sid (mem_interactions s))))"

definition list_events :: "string \<Rightarrow> string option \<Rightarrow> int option \<Rightarrow> memory_state \<Rightarrow> event_row list" where
  "list_events sid topic limit s = first_rows limit (sort_by_cursor_asc
     (filter (\<lambda>r. topic = None \<or> Some (evt_topic r) = topic) (in_session sid (mem_events s))))"

definition get_event :: "string \<Rightarrow> string \<Rightarrow> memory_state \<Rightarrow> event_row option" where
  "get_event sid rid s = find_row sid rid (mem_events s)"

definition list_messages :: "string \<Rightarrow> pagination_opts option \<Rightarrow> memory_state \<Rightarrow> message_row list" where
  "list_messages sid p s = apply_pagination (sort_by_write_order (in_session sid (mem_messages s))) p"

definition list_messages_page :: "string \<Rightarrow> cursor_page_opts \<Rightarrow> memory_state \<Rightarrow> message_row list" where
  "list_messages_page sid p s = apply_write_order_page (sort_by_write_order (in_session sid (mem_messages s))) p"

text \<open>The index of a stored message leads to a row: \<open>None\<close> outside the array, as in JavaScript.\<close>

definition message_at :: "string \<Rightarrow> memory_state \<Rightarrow> message_row option" where
  "message_at rid s = (case jm_get (mem_positions s) rid of None \<Rightarrow> None
     | Some i \<Rightarrow> if i < length (mem_messages s) then Some (mem_messages s ! i) else None)"

definition get_message :: "string \<Rightarrow> string \<Rightarrow> memory_state \<Rightarrow> message_row option" where
  "get_message sid rid s = (case message_at rid s of Some r \<Rightarrow> if row_session r = sid then Some r else None | None \<Rightarrow> None)"

definition list_existing_message_ids :: "string \<Rightarrow> string list \<Rightarrow> memory_state \<Rightarrow> string list" where
  "list_existing_message_ids sid ids s = filter (\<lambda>rid. map_option row_session (message_at rid s) = Some sid) (js_add_all ids [])"

definition get_character_schema :: "string \<Rightarrow> memory_state \<Rightarrow> schema_row option" where
  "get_character_schema sid s = jm_get (mem_schemas s) sid"

definition get_character :: "string \<Rightarrow> string \<Rightarrow> memory_state \<Rightarrow> character_row option" where
  "get_character sid rid s = jm_get (mem_characters s) (sid, rid)"

definition list_characters :: "string \<Rightarrow> memory_state \<Rightarrow> character_row list" where
  "list_characters sid s = js_sort cursor_cmp (in_session sid (map snd (mem_characters s)))"

definition list_traces :: "string \<Rightarrow> pagination_opts option \<Rightarrow> memory_state \<Rightarrow> trace_row list" where
  "list_traces sid p s = apply_pagination (sort_by_write_order (in_session sid (mem_traces s))) p"

definition get_trace :: "string \<Rightarrow> string \<Rightarrow> memory_state \<Rightarrow> trace_row option" where
  "get_trace sid rid s = find_row sid rid (mem_traces s)"

definition query_traces :: "string \<Rightarrow> string option \<Rightarrow> string list option \<Rightarrow> string list option \<Rightarrow> bool \<Rightarrow> int option \<Rightarrow>
    memory_state \<Rightarrow> trace_row list" where
  "query_traces sid turn types excluded newest limit s =
     (let rows = sort_by_write_order (filter (\<lambda>r. (turn = None \<or> Some (trc_turn r) = turn)
            \<and> (case types of None \<Rightarrow> True | Some ts \<Rightarrow> trc_type r \<in> set ts)
            \<and> (case excluded of None \<Rightarrow> True | Some ts \<Rightarrow> trc_type r \<notin> set ts)) (in_session sid (mem_traces s)))
      in first_rows limit (if newest then rev rows else rows))"

definition list_traces_page :: "string \<Rightarrow> cursor_page_opts \<Rightarrow> memory_state \<Rightarrow> trace_row list" where
  "list_traces_page sid p s = apply_write_order_page (sort_by_write_order (in_session sid (mem_traces s))) p"

subsection \<open>The journal\<close>

definition without_write_seq :: "stored_turn_message \<Rightarrow> turn_message" where
  "without_write_seq r = turn_message.truncate r"

definition turn_message_cmp :: "stored_turn_message \<Rightarrow> stored_turn_message \<Rightarrow> int" where
  "turn_message_cmp a b = (if k_created a \<noteq> k_created b then (if js_less (k_created a) (k_created b) then - 1 else 1)
     else if tmsg_order a \<noteq> tmsg_order b then tmsg_order a - tmsg_order b
     else compare_byte_order (units (k_id a)) (units (k_id b)))"

definition sort_turn_messages :: "stored_turn_message list \<Rightarrow> turn_message list" where
  "sort_turn_messages rows = map without_write_seq (js_sort turn_message_cmp rows)"

definition list_turn_messages :: "string \<Rightarrow> string option \<Rightarrow> pagination_opts option \<Rightarrow> memory_state \<Rightarrow> turn_message list" where
  "list_turn_messages sid turn p s = apply_pagination (sort_turn_messages
     (filter (\<lambda>r. turn = None \<or> Some (tmsg_turn r) = turn) (in_session sid (mem_turn_messages s)))) p"

definition list_uncompacted :: "string \<Rightarrow> int \<Rightarrow> memory_state \<Rightarrow> turn_message list" where
  "list_uncompacted sid limit s = js_slice (sort_turn_messages
     (filter (\<lambda>r. tmsg_compacted r = None) (in_session sid (mem_turn_messages s)))) 0 limit"

definition turn_message_stats :: "string \<Rightarrow> memory_state \<Rightarrow> nat" where
  "turn_message_stats sid s = player_message_count (in_session sid (mem_turn_messages s))"

definition list_turn_messages_after :: "string \<Rightarrow> int option \<Rightarrow> int \<Rightarrow> memory_state \<Rightarrow> stored_turn_message list" where
  "list_turn_messages_after sid after limit s = (if limit \<le> 0 then []
     else js_slice (js_sort (\<lambda>a b. tmsg_seq a - tmsg_seq b)
       (filter (\<lambda>r. case after of None \<Rightarrow> True | Some n \<Rightarrow> n < tmsg_seq r) (in_session sid (mem_turn_messages s)))) 0 limit)"

definition list_recent_turn_messages :: "string \<Rightarrow> int \<Rightarrow> memory_state \<Rightarrow> turn_message list" where
  "list_recent_turn_messages sid limit s = (if limit \<le> 0 then []
     else js_slice_from (sort_turn_messages (in_session sid (mem_turn_messages s))) (- limit))"

definition list_compacted_tags :: "string \<Rightarrow> memory_state \<Rightarrow> (string \<times> string) list" where
  "list_compacted_tags sid s = List.map_filter (\<lambda>r. map_option (\<lambda>t. (k_id r, t)) (tmsg_compacted r))
     (sort_turn_messages (in_session sid (mem_turn_messages s)))"

definition later_input :: "string \<Rightarrow> player_input option \<Rightarrow> player_input \<Rightarrow> player_input option" where
  "later_input sid newest r = (if row_session r \<noteq> sid then newest else (case newest of None \<Rightarrow> Some r
     | Some n \<Rightarrow> if js_less (k_created n) (k_created r)
         \<or> (k_created r = k_created n \<and> compare_byte_order (units (k_id r)) (units (k_id n)) > 0) then Some r else newest))"

definition get_latest_input :: "string \<Rightarrow> memory_state \<Rightarrow> player_input option" where
  "get_latest_input sid s = foldl (later_input sid) None (mem_inputs s)"

definition list_player_inputs :: "string \<Rightarrow> memory_state \<Rightarrow> player_input list" where
  "list_player_inputs sid s = sort_by_cursor_asc (in_session sid (mem_inputs s))"

definition list_summaries :: "string \<Rightarrow> memory_state \<Rightarrow> session_summary list" where
  "list_summaries sid s = sort_by_cursor_asc (in_session sid (mem_summaries s))"


subsection \<open>World data, settings, suspensions, snapshots and exports\<close>

definition list_imports :: "string \<Rightarrow> memory_state \<Rightarrow> import_row list" where
  "list_imports sid s = js_sort (then_cmp (text_key_cmp imp_at) (\<lambda>a b. compare_byte_order (units (imp_id a)) (units (imp_id b))))
     (filter (\<lambda>r. imp_session r = sid) (map snd (mem_imports s)))"

definition lorebook_cmp :: "lorebook_row \<Rightarrow> lorebook_row \<Rightarrow> int" where
  "lorebook_cmp a b = (if lore_order a \<noteq> lore_order b then (if lore_order a < lore_order b then - 1 else 1)
     else then_cmp (\<lambda>a b. compare_byte_order (units (k_id a)) (units (k_id b)))
       (\<lambda>a b. compare_byte_order (units (lorebook_owner_key (lore_owner a))) (units (lorebook_owner_key (lore_owner b)))) a b)"

definition list_lorebook :: "string \<Rightarrow> memory_state \<Rightarrow> lorebook_row list" where
  "list_lorebook sid s = js_sort lorebook_cmp (in_session sid (map snd (mem_lorebook s)))"

definition get_lorebook_entry :: "string \<Rightarrow> lorebook_owner \<Rightarrow> string \<Rightarrow> memory_state \<Rightarrow> lorebook_row option" where
  "get_lorebook_entry sid ow rid s = jm_get (mem_lorebook s) (sid, lorebook_owner_key ow, rid)"

definition list_worlds :: "memory_state \<Rightarrow> world_row list" where
  "list_worlds s = map normalize_world (map snd (mem_worlds s))"

definition get_world :: "string \<Rightarrow> memory_state \<Rightarrow> world_row option" where
  "get_world rid s = map_option normalize_world (jm_get (mem_worlds s) rid)"

definition list_server_settings :: "memory_state \<Rightarrow> setting_row list" where
  "list_server_settings s = js_sort (\<lambda>a b. unit_cmp (stg_key a) (stg_key b)) (map snd (mem_settings s))"

definition get_suspension :: "string \<Rightarrow> memory_state \<Rightarrow> suspension_row option" where
  "get_suspension rid s = jm_get (mem_suspensions s) rid"

definition list_suspensions :: "string \<Rightarrow> memory_state \<Rightarrow> suspension_row list" where
  "list_suspensions sid s = sort_by_cursor_asc (in_session sid (map snd (mem_suspensions s)))"

definition list_expired_suspensions :: "string \<Rightarrow> memory_state \<Rightarrow> suspension_row list" where
  "list_expired_suspensions older s = sort_by_cursor_asc (filter (\<lambda>r. truthy (susp_resolved r) = None \<and> js_less (k_created r) older)
     (map snd (mem_suspensions s)))"

definition get_snapshot :: "string \<Rightarrow> memory_state \<Rightarrow> snapshot_row option" where
  "get_snapshot rid s = jm_get (mem_snapshots s) rid"

definition list_snapshots :: "string \<Rightarrow> memory_state \<Rightarrow> snapshot_row list" where
  "list_snapshots sid s = sort_by_cursor_asc (in_session sid (map snd (mem_snapshots s)))"

text \<open>A page holds the metadata of its snapshots; the length of a payload's JSON text is a parameter.\<close>

record snapshot_metadata = row +
  smeta_turn :: string
  smeta_kind :: snapshot_kind
  smeta_parent :: "string option"
  smeta_size :: nat

definition list_snapshots_page :: "(json \<Rightarrow> nat) \<Rightarrow> string \<Rightarrow> cursor_page_opts \<Rightarrow> memory_state \<Rightarrow> snapshot_metadata list" where
  "list_snapshots_page payload_length sid p s = map (\<lambda>r. \<lparr> k_created = k_created r, k_id = k_id r, row_session = row_session r,
       smeta_turn = snap_turn r, smeta_kind = snap_kind r, smeta_parent = snap_parent r, smeta_size = payload_length (snap_payload r) \<rparr>)
     (apply_cursor_page (list_snapshots sid s) p)"

definition latest_export :: "export_row option \<Rightarrow> export_row \<Rightarrow> export_row option" where
  "latest_export latest r = (case latest of None \<Rightarrow> Some r | Some l \<Rightarrow> if exp_revision r > exp_revision l then Some r else latest)"

definition get_latest_export :: "string \<Rightarrow> string \<Rightarrow> string \<Rightarrow> string option \<Rightarrow> memory_state \<Rightarrow> export_row option" where
  "get_latest_export sid runtime record_as until s = foldl latest_export None
     (filter (\<lambda>r. exp_session r = sid \<and> exp_runtime r = runtime \<and> exp_record r = record_as
        \<and> (case until of None \<Rightarrow> True | Some t \<Rightarrow> \<not> js_less t (exp_at r))) (map snd (mem_exports s)))"

definition export_cmp :: "export_row \<Rightarrow> export_row \<Rightarrow> int" where
  "export_cmp = then_cmp (\<lambda>a b. compare_byte_order (units (exp_runtime a)) (units (exp_runtime b)))
     (then_cmp (\<lambda>a b. compare_byte_order (units (exp_record a)) (units (exp_record b))) (\<lambda>a b. exp_revision a - exp_revision b))"

definition latest_by_series :: "export_row list \<Rightarrow> export_row list" where
  "latest_by_series rows = map snd (foldl (\<lambda>m r. let key = (exp_runtime r, exp_record r) in
     case jm_get m key of None \<Rightarrow> jm_set key r m
     | Some old \<Rightarrow> if exp_revision r > exp_revision old then jm_set key r m else m) [] rows)"

definition list_runtime_exports :: "string \<Rightarrow> string option \<Rightarrow> string option \<Rightarrow> bool \<Rightarrow> memory_state \<Rightarrow> export_row list" where
  "list_runtime_exports sid runtime record_as latest_only s =
     (let rows = filter (\<lambda>r. exp_session r = sid \<and> (runtime = None \<or> Some (exp_runtime r) = runtime)
            \<and> (record_as = None \<or> Some (exp_record r) = record_as)) (map snd (mem_exports s))
      in js_sort export_cmp (if latest_only then latest_by_series rows else rows))"

subsection \<open>Vectors\<close>

definition normalize_top_k :: "int option \<Rightarrow> nat option" where
  "normalize_top_k top_k = (let v = or_else top_k 8 in
     if \<bar>v\<bar> > 2 ^ 53 - 1 then None else Some (if v \<le> 0 then 0 else nat v))"

record search_vectors_input =
  sv_session :: string
  sv_query :: "rat list"
  sv_top_k :: "int option"
  sv_plugin :: "string option"
  sv_namespace :: "string option"

datatype search_error = TopKNotSafe | QueryDimension nat nat

definition search_vectors :: "(rat list \<Rightarrow> rat list \<Rightarrow> rat) \<Rightarrow> search_vectors_input \<Rightarrow> memory_state \<Rightarrow>
    search_error + (vector_row \<times> rat) list" where
  "search_vectors distance i s = (case normalize_top_k (sv_top_k i) of
     None \<Rightarrow> Inl TopKNotSafe
   | Some k \<Rightarrow> if k = 0 then Inr [] else (case jm_get (mem_targets s) (sv_session i) of
       None \<Rightarrow> Inr []
     | Some t \<Rightarrow> if length (sv_query i) \<noteq> vt_dim t then Inl (QueryDimension (length (sv_query i)) (vt_dim t))
         else Inr (take k (js_sort (\<lambda>a b. if snd a < snd b then - 1 else if snd b < snd a then 1 else 0)
           (map (\<lambda>r. (r, distance (sv_query i) (vec_embedding r)))
             (filter (\<lambda>r. vec_session r = sv_session i \<and> (sv_plugin i = None \<or> sv_plugin i = Some (vec_plugin r))
                \<and> (sv_namespace i = None \<or> sv_namespace i = Some (vec_namespace r))) (map snd (mem_vectors s))))))))"

definition get_vector_payloads :: "string \<Rightarrow> string \<Rightarrow> string \<Rightarrow> string list \<Rightarrow> memory_state \<Rightarrow> (string, string option) jmap" where
  "get_vector_payloads sid plugin ns keys s = foldl (\<lambda>m r. jm_set (vec_key r) (vec_payload r) m) []
     (filter (\<lambda>r. vec_session r = sid \<and> vec_plugin r = plugin \<and> vec_namespace r = ns \<and> vec_key r \<in> set keys) (map snd (mem_vectors s)))"

definition get_vector_progress :: "string \<Rightarrow> string \<Rightarrow> string \<Rightarrow> memory_state \<Rightarrow> string option" where
  "get_vector_progress sid plugin ns s = map_option snd (jm_get (mem_progress s) (sid, plugin, ns))"

subsection \<open>Claims\<close>

text \<open>C21: A suspension is resumed by one claim at a time. A claim of an unclaimed suspension succeeds; until that
  claim is released no other claim succeeds and no other token releases it, and releasing it restores the
  suspension and the store as they were. Once the suspension is resolved, no claim succeeds and its old claim
  can no longer be released.\<close>

theorem claims_are_exclusive:
  assumes "jm_get (mem_suspensions s) rid = Some r" "susp_resolved r = None"
    and claim: "claim_suspension now rid s = (answer, s1)" and other: "token \<noteq> claim_text now" "resolved_at \<noteq> claim_text now"
    and resolved: "resolved_at \<noteq> []"
  shows "answer = Inr (TextValue (Some (claim_text now)))
    \<and> claim_suspension later rid s1 = (Inr (TextValue None), s1)
    \<and> release_suspension_claim rid token s1 = (Inr (BoolValue False), s1)
    \<and> release_suspension_claim rid (claim_text now) s1 = (Inr (BoolValue True), s)
    \<and> fst (claim_suspension later rid (snd (mark_suspension_resolved resolved_at rid s1))) = Inr (TextValue None)
    \<and> fst (release_suspension_claim rid (claim_text now) (snd (mark_suspension_resolved resolved_at rid s1))) = Inr (BoolValue False)"
proof -
  have s1: "s1 = s\<lparr> mem_suspensions := jm_set rid (r\<lparr> susp_resolved := Some (claim_text now) \<rparr>) (mem_suspensions s) \<rparr>"
    and a: "answer = Inr (TextValue (Some (claim_text now)))"
    using assms(1-3) by (auto simp: claim_suspension_def truthy_def)
  have t: "truthy (Some (claim_text now)) \<noteq> None" by (simp add: truthy_def claim_text_def)
  have "jm_set rid r (mem_suspensions s) = mem_suspensions s" by (rule jm_set_same[OF assms(1)])
  moreover have "r\<lparr> susp_resolved := None \<rparr> = r" using assms(2) by simp
  moreover have "jm_set rid x (jm_set rid y m) = jm_set rid x m" for x y and m :: "(string, suspension_row) jmap"
    by (induction m) auto
  ultimately have "release_suspension_claim rid (claim_text now) s1 = (Inr (BoolValue True), s)"
    by (simp add: s1 release_suspension_claim_def)
  then show ?thesis
    using a t other resolved by (simp add: s1 claim_suspension_def release_suspension_claim_def mark_suspension_resolved_def truthy_def)
qed

definition claimed_store :: memory_state where
  "claimed_store = create_memory_state\<lparr> mem_suspensions := [(''x'', \<lparr> k_created = ''t'', k_id = ''x'', row_session = ''s'',
     susp_turn = ''u'', susp_runtime = ''r'', susp_plugin = ''p'', susp_reason = ''input'', susp_schema = JNull,
     susp_continuation = \<lparr> cont_lifecycle = JNull, cont_messages = [], cont_tool_calls = [], cont_proposals = [],
       cont_scopes = [], cont_context = JNull, cont_under = JNull, cont_locale = None, cont_logical = None,
       cont_number = None, cont_rest = [] \<rparr>, susp_resolved = None \<rparr>)] \<rparr>"

lemma claims_are_exclusive_witness:
  "release_suspension_claim ''x'' (claim_text ''now'') (snd (claim_suspension ''now'' ''x'' claimed_store))
    = (Inr (BoolValue True), claimed_store)"
proof -
  obtain r where r: "jm_get (mem_suspensions claimed_store) ''x'' = Some r" "susp_resolved r = None"
    by (simp add: claimed_store_def)
  have "''w'' \<noteq> claim_text ''now''" by (simp add: claim_text_def)
  moreover have "claim_suspension ''now'' ''x'' claimed_store
      = (fst (claim_suspension ''now'' ''x'' claimed_store), snd (claim_suspension ''now'' ''x'' claimed_store))" by simp
  ultimately have "release_suspension_claim ''x'' (claim_text ''now'') (snd (claim_suspension ''now'' ''x'' claimed_store))
      = (Inr (BoolValue True), claimed_store) \<and> True"
    using claims_are_exclusive[OF r, of "''now''" "fst (claim_suspension ''now'' ''x'' claimed_store)"
      "snd (claim_suspension ''now'' ''x'' claimed_store)" "''w''" "''w''" "''later''"] by simp
  then show ?thesis by simp
qed

subsection \<open>Pruning\<close>

definition auto_snapshots :: "string \<Rightarrow> memory_state \<Rightarrow> snapshot_row list" where
  "auto_snapshots sid s =
     sort_by_cursor_asc (filter (\<lambda>r. row_session r = sid \<and> snap_kind r = AutoSnapshot) (map snd (mem_snapshots s)))"

lemma jm_get_delete_all:
  "jm_get (foldl (\<lambda>m c. jm_delete (f c) m) m cs) k = (if k \<in> f ` set cs then None else jm_get m k)"
  by (induction cs arbitrary: m) auto

lemma prune_candidates_take:
  "prune_candidates sid keep s = take (nat (int (length (auto_snapshots sid s)) - keep)) (auto_snapshots sid s)"
  by (cases "keep \<le> int (length (auto_snapshots sid s))")
     (auto simp: prune_candidates_def auto_snapshots_def js_slice_def slice_index_def Let_def min_def)

text \<open>Pruning the automatic snapshots of a session removes exactly those of its automatic snapshots that are
  neither among the newest ones to keep nor the parent of any snapshot of the store. Manual and fork snapshots, other
  sessions and the origin of every snapshot that stays are left as they were.\<close>

lemma prune_keeps_lineage:
  assumes keyed: "keyed_by k_id (mem_snapshots s)" and got: "jm_get (mem_snapshots s) k = Some r"
  shows "jm_get (mem_snapshots (snd (prune_auto_snapshots sid keep s))) k = Some r
    \<longleftrightarrow> row_session r \<noteq> sid \<or> snap_kind r \<noteq> AutoSnapshot
      \<or> r \<in> set (drop (nat (int (length (auto_snapshots sid s)) - keep)) (auto_snapshots sid s))
      \<or> k \<in> set (snapshot_parents s)"
proof -
  let ?n = "nat (int (length (auto_snapshots sid s)) - keep)" and ?a = "auto_snapshots sid s"
  have key: "k_id r = k" using keyed_by_get[OF keyed got] .
  have ids: "distinct (map k_id (map snd (mem_snapshots s)))"
    using keyed by (rule keyed_by_keys)
  then have d: "distinct (map k_id ?a)"
    by (simp add: auto_snapshots_def sort_by_cursor_asc_def distinct_map_filter)
  then have split: "set (map k_id (take ?n ?a)) \<inter> set (map k_id (drop ?n ?a)) = {}"
    by (metis append_take_drop_id distinct_append map_append)
  have inj: "c = r" if "c \<in> set ?a" "k_id c = k" for c
  proof -
    from that have "c \<in> snd ` set (mem_snapshots s)" by (auto simp: auto_snapshots_def sort_by_cursor_asc_def)
    then have "jm_get (mem_snapshots s) k = Some c" using keyed that(2) by (force simp: keyed_by_def)
    with got show ?thesis by simp
  qed
  have mem: "r \<in> set ?a \<longleftrightarrow> row_session r = sid \<and> snap_kind r = AutoSnapshot"
    using jm_get_in_set[OF got] by (force simp: auto_snapshots_def sort_by_cursor_asc_def)
  have cand: "k \<in> k_id ` set (take ?n ?a) \<longleftrightarrow> r \<in> set ?a \<and> r \<notin> set (drop ?n ?a)"
  proof
    assume "k \<in> k_id ` set (take ?n ?a)"
    then obtain c where c: "c \<in> set (take ?n ?a)" "k_id c = k" by auto
    then have "c = r" by (intro inj) (auto dest: in_set_takeD)
    then show "r \<in> set ?a \<and> r \<notin> set (drop ?n ?a)" using c split by (auto dest: in_set_takeD)
  next
    assume "r \<in> set ?a \<and> r \<notin> set (drop ?n ?a)"
    then have "r \<in> set (take ?n ?a)" by (metis Un_iff append_take_drop_id set_append)
    then show "k \<in> k_id ` set (take ?n ?a)" using key by (metis image_eqI)
  qed
  show ?thesis
    using got cand mem key by (auto simp: prune_auto_snapshots_def prune_candidates_take Let_def jm_get_delete_all)
qed


definition snapshot_at :: "string \<Rightarrow> string \<Rightarrow> string option \<Rightarrow> snapshot_row" where
  "snapshot_at stamp sid parent = \<lparr> k_created = stamp, k_id = stamp, row_session = sid, snap_turn = ''u'',
     snap_kind = AutoSnapshot, snap_parent = parent, snap_payload = JNull \<rparr>"

definition three_snapshots :: memory_state where
  "three_snapshots = create_memory_state\<lparr> mem_snapshots := [(''a'', snapshot_at ''a'' ''s'' None),
     (''b'', snapshot_at ''b'' ''s'' None), (''c'', snapshot_at ''c'' ''s'' (Some ''a''))] \<rparr>"

end
