(* ===== verification/ContextBudget.thy ===== *)
theory ContextBudget
  imports Results
begin

text \<open>
  The token budget of a prompt (\<open>packages/context/src/budget.ts\<close>): the estimate of a message, the window of
  messages that is never pruned, and the pass that drops the oldest messages in whole steps of the cap.
  The token estimator and the JSON text of a value are parameters, and so is the Chinese version of an
  instruction text, which these theories cannot spell; an estimate is a natural number. The share
  \<open>PRUNE_STEP_RATIO\<close> is the exact fraction 3/10: for a cap below \<open>2 ^ 50\<close> the product in double precision has
  the same integral part.
\<close>

subsection \<open>Messages\<close>

datatype llm_role = RoleSystem | RoleUser | RoleAssistant | RoleTool

datatype content_part = TextPart string | ImagePart json | MediaPart json

datatype msg_content = Plain string | Parts "content_part list"

record llm_tool_call =
  tc_id :: string
  tc_name :: string
  tc_arguments :: string

record llm_message =
  lm_role :: llm_role
  lm_content :: msg_content
  lm_name :: "string option"
  lm_tool_call_id :: "string option"
  lm_tool_calls :: "llm_tool_call list option"
  lm_reasoning :: "string option"

text \<open>The estimator, JSON texts, the test for a Chinese instruction language, and the Chinese version of a text.\<close>

record llm_env =
  le_estimate :: "string \<Rightarrow> nat"
  le_stringify :: "json \<Rightarrow> string"
  le_chinese :: "string option \<Rightarrow> bool"
  le_zh :: "string \<Rightarrow> string"

definition instruction_text :: "llm_env \<Rightarrow> string option \<Rightarrow> string \<Rightarrow> string" where
  "instruction_text env locale en = (if le_chinese env locale then le_zh env en else en)"

fun join_text :: "string \<Rightarrow> string list \<Rightarrow> string" where
  "join_text sep [] = []"
| "join_text sep [x] = x"
| "join_text sep (x # xs) = x @ sep @ join_text sep xs"

definition newline :: string where
  "newline = [CHR 0x0A]"

definition part_text :: "content_part \<Rightarrow> string" where
  "part_text p = (case p of TextPart t \<Rightarrow> t | _ \<Rightarrow> ''[image]'')"

definition flatten_message_content :: "msg_content \<Rightarrow> string" where
  "flatten_message_content c = (case c of Plain t \<Rightarrow> t | Parts ps \<Rightarrow> join_text newline (map part_text ps))"

definition is_text_part :: "content_part \<Rightarrow> bool" where
  "is_text_part p = (case p of TextPart _ \<Rightarrow> True | _ \<Rightarrow> False)"

definition image_part_token_estimate :: nat where
  "image_part_token_estimate = 1500"

definition auxiliary_fields :: "llm_message \<Rightarrow> (string \<times> json) list" where
  "auxiliary_fields m =
     (case truthy (lm_name m) of Some n \<Rightarrow> [(''name'', JStr n)] | None \<Rightarrow> [])
   @ (case truthy (lm_tool_call_id m) of Some i \<Rightarrow> [(''toolCallId'', JStr i)] | None \<Rightarrow> [])
   @ (case lm_tool_calls m of Some cs \<Rightarrow> [(''toolCalls'', JArr (map (\<lambda>c. JObj [(''id'', JStr (tc_id c)),
         (''name'', JStr (tc_name c)), (''arguments'', JStr (tc_arguments c))]) cs))] | None \<Rightarrow> [])
   @ (case truthy (lm_reasoning m) of Some r \<Rightarrow> [(''reasoningContent'', JStr r)] | None \<Rightarrow> [])"

definition estimate_message_tokens :: "llm_env \<Rightarrow> llm_message \<Rightarrow> nat" where
  "estimate_message_tokens env m =
     (let images = (case lm_content m of Plain _ \<Rightarrow> 0 | Parts ps \<Rightarrow> length (filter (\<lambda>p. \<not> is_text_part p) ps));
          aux = auxiliary_fields m
      in le_estimate env (flatten_message_content (lm_content m)) + images * image_part_token_estimate
        + (if aux \<noteq> [] then le_estimate env (le_stringify env (JObj aux)) else 0))"

text \<open>The white space \<open>String.trimStart\<close> and \<open>String.trim\<close> remove, among the characters of the model.\<close>

definition is_space :: "char \<Rightarrow> bool" where
  "is_space c = (c \<in> set [CHR 0x09, CHR 0x0A, CHR 0x0B, CHR 0x0C, CHR 0x0D, CHR 0x20, CHR 0xA0])"

definition trim_start :: "string \<Rightarrow> string" where
  "trim_start t = dropWhile is_space t"

definition trim_text :: "string \<Rightarrow> string" where
  "trim_text t = rev (dropWhile is_space (rev (trim_start t)))"

definition is_compacted_envelope :: "llm_message \<Rightarrow> bool" where
  "is_compacted_envelope m = (case lm_content m of
     Plain t \<Rightarrow> starts_with (trim_start t) (''<compacted_history>'' @ newline) | Parts _ \<Rightarrow> False)"

subsection \<open>Limits\<close>

record budget_options =
  bo_max_input :: rat
  bo_window_limit :: "rat option"
  bo_reserved :: "rat option"
  bo_protect :: "rat option"
  bo_locale :: "string option"

record resolved_budget =
  rb_max_input :: int
  rb_reserved :: int
  rb_protect :: int

datatype budget_error = BadMaxInput rat | BadReserved rat | BadProtect rat

definition integral :: "rat \<Rightarrow> bool" where
  "integral q = (snd (quotient_of q) = 1)"

definition resolve_budget_options :: "budget_options \<Rightarrow> budget_error + resolved_budget" where
  "resolve_budget_options o1 =
     (let max_input = bo_max_input o1; reserved = or_else (bo_reserved o1) 4000; protect = or_else (bo_protect o1) 1 in
      if \<not> integral max_input \<or> max_input \<le> 0 then Inl (BadMaxInput max_input)
      else if \<not> integral reserved \<or> reserved < 0 \<or> reserved \<ge> max_input then Inl (BadReserved reserved)
      else if \<not> integral protect \<or> protect < 0 then Inl (BadProtect protect)
      else Inr \<lparr> rb_max_input = \<lfloor>max_input\<rfloor>, rb_reserved = \<lfloor>reserved\<rfloor>, rb_protect = \<lfloor>protect\<rfloor> \<rparr>)"

subsection \<open>The window that is never pruned\<close>

text \<open>The walk back over the system messages directly ahead of a user message.\<close>

fun system_start :: "llm_message list \<Rightarrow> nat \<Rightarrow> nat" where
  "system_start msgs 0 = 0"
| "system_start msgs (Suc i) = (if lm_role (msgs ! i) = RoleSystem then system_start msgs i else Suc i)"

text \<open>The loop from index \<open>i - 1\<close> down, with the user messages seen so far.\<close>

fun protect_scan :: "llm_message list \<Rightarrow> int \<Rightarrow> int \<Rightarrow> nat \<Rightarrow> nat" where
  "protect_scan msgs wanted seen 0 = 0"
| "protect_scan msgs wanted seen (Suc i) =
     (if lm_role (msgs ! i) = RoleUser
      then if seen + 1 \<ge> wanted then system_start msgs i else protect_scan msgs wanted (seen + 1) i
      else protect_scan msgs wanted seen i)"

definition protect_start_index :: "llm_message list \<Rightarrow> int \<Rightarrow> nat" where
  "protect_start_index msgs protect =
     (if protect \<le> 0 \<or> length msgs = 0 then length msgs else protect_scan msgs protect 0 (length msgs))"

subsection \<open>Pruning\<close>

text \<open>The variables of the pass: the cursor, the running total and the pruned indices, the newest first.\<close>

record prune_state =
  ps_cursor :: nat
  ps_total :: int
  ps_pruned :: "nat list"

definition pruned_marker :: "llm_env \<Rightarrow> string option \<Rightarrow> string" where
  "pruned_marker env locale = instruction_text env locale ''[... older messages pruned to stay within token budget ...]''"

definition preserved_summaries :: "llm_message list \<Rightarrow> nat \<Rightarrow> nat list" where
  "preserved_summaries msgs protect = filter (\<lambda>i. is_compacted_envelope (msgs ! i)) [0 ..< protect]"

function skip_preserved :: "nat \<Rightarrow> nat list \<Rightarrow> nat \<Rightarrow> nat" where
  "skip_preserved protect preserved cursor =
     (if cursor < protect \<and> cursor \<in> set preserved then skip_preserved protect preserved (cursor + 1) else cursor)"
  by auto
termination by (relation "measure (\<lambda>(protect, preserved, cursor). protect - cursor)") auto

declare skip_preserved.simps [simp del]

definition prune_at :: "nat list \<Rightarrow> nat \<Rightarrow> prune_state \<Rightarrow> prune_state" where
  "prune_at tokens i st = st\<lparr> ps_total := ps_total st - int (tokens ! i), ps_pruned := i # ps_pruned st \<rparr>"

definition prune_next :: "nat \<Rightarrow> nat list \<Rightarrow> nat list \<Rightarrow> prune_state \<Rightarrow> bool \<times> prune_state" where
  "prune_next protect preserved tokens st =
     (let cursor = skip_preserved protect preserved (ps_cursor st) in
      if cursor \<ge> protect then (False, st\<lparr> ps_cursor := cursor \<rparr>)
      else (True, (prune_at tokens cursor st)\<lparr> ps_cursor := cursor + 1 \<rparr>))"

lemma skip_preserved_le: "cursor \<le> skip_preserved protect preserved cursor"
  by (induction protect preserved cursor rule: skip_preserved.induct) (metis Suc_eq_plus1 Suc_leD order_refl skip_preserved.simps)

function prune_loop :: "nat \<Rightarrow> nat list \<Rightarrow> nat list \<Rightarrow> int \<Rightarrow> prune_state \<Rightarrow> prune_state" where
  "prune_loop protect preserved tokens floor_total st =
     (if ps_total st > floor_total
      then let (again, st') = prune_next protect preserved tokens st
        in if again then prune_loop protect preserved tokens floor_total st' else st'
      else st)"
  by auto
termination
proof (relation "measure (\<lambda>(protect, preserved, tokens, floor_total, st). protect - ps_cursor st)")
  fix protect preserved tokens floor_total st x again st'
  assume x: "x = prune_next protect preserved tokens st" "(again, st') = x" and "again"
  then have "skip_preserved protect preserved (ps_cursor st) < protect"
    and "ps_cursor st' = skip_preserved protect preserved (ps_cursor st) + 1"
    by (auto simp: prune_next_def Let_def split: if_splits)
  then show "((protect, preserved, tokens, floor_total, st'), protect, preserved, tokens, floor_total, st)
      \<in> measure (\<lambda>(protect, preserved, tokens, floor_total, st). protect - ps_cursor st)"
    using skip_preserved_le[of "ps_cursor st" protect preserved] by simp
qed simp

text \<open>Leading tool messages that the cut has separated from the message that requested them.\<close>

function drop_orphans :: "llm_message list \<Rightarrow> nat list \<Rightarrow> prune_state \<Rightarrow> prune_state" where
  "drop_orphans msgs tokens st =
     (if ps_cursor st < length msgs \<and> ps_pruned st \<noteq> [] \<and> lm_role (msgs ! ps_cursor st) = RoleTool
      then drop_orphans msgs tokens
        ((if ps_cursor st \<in> set (ps_pruned st) then st else prune_at tokens (ps_cursor st) st)\<lparr> ps_cursor := ps_cursor st + 1 \<rparr>)
      else st)"
  by auto
termination by (relation "measure (\<lambda>(msgs, tokens, st). length msgs - ps_cursor st)") auto

record budget_result =
  br_messages :: "llm_message list"
  br_total :: int
  br_pruned :: nat
  br_over :: bool

definition marker_message :: "string \<Rightarrow> llm_message" where
  "marker_message text = \<lparr> lm_role = RoleSystem, lm_content = Plain text, lm_name = None, lm_tool_call_id = None,
     lm_tool_calls = None, lm_reasoning = None \<rparr>"

text \<open>\<open>Math.floor(budgetCap * 0.3)\<close>, and the amount to prune, rounded up to whole steps.\<close>

definition prune_step :: "int \<Rightarrow> int" where
  "prune_step cap = max 1 (cap * 3 div 10)"

definition prune_target :: "int \<Rightarrow> int \<Rightarrow> int" where
  "prune_target cap excess = - (- excess div prune_step cap) * prune_step cap"

definition apply_budget :: "llm_env \<Rightarrow> string \<Rightarrow> llm_message list \<Rightarrow> budget_options \<Rightarrow> budget_error + budget_result" where
  "apply_budget env system msgs opts = (case resolve_budget_options opts of
     Inl e \<Rightarrow> Inl e
   | Inr limits \<Rightarrow>
      (let cap = rb_max_input limits - rb_reserved limits;
           tokens = map (estimate_message_tokens env) msgs;
           full = int (le_estimate env system + sum_list tokens)
       in if full \<le> cap then Inr \<lparr> br_messages = msgs, br_total = full, br_pruned = 0, br_over = False \<rparr>
         else let protect = protect_start_index msgs (rb_protect limits);
                  marker = pruned_marker env (bo_locale opts);
                  marker_tokens = int (le_estimate env marker);
                  target = prune_target cap (full + marker_tokens - cap);
                  st = drop_orphans msgs tokens (prune_loop protect (preserved_summaries msgs protect) tokens (full - target)
                    \<lparr> ps_cursor = 0, ps_total = full, ps_pruned = [] \<rparr>)
              in if ps_pruned st = [] then Inr \<lparr> br_messages = msgs, br_total = ps_total st, br_pruned = 0, br_over = True \<rparr>
                else Inr \<lparr> br_messages = marker_message marker # map (\<lambda>i. msgs ! i) (filter (\<lambda>i. i \<notin> set (ps_pruned st)) [0 ..< length msgs]),
                  br_total = ps_total st + marker_tokens, br_pruned = length (ps_pruned st),
                  br_over = (ps_total st + marker_tokens > cap) \<rparr>))"

subsection \<open>The form of a pruned list\<close>

lemma skip_preserved_step: "cursor < protect \<and> cursor \<in> set preserved \<Longrightarrow>
    skip_preserved protect preserved cursor = skip_preserved protect preserved (cursor + 1)"
  by (subst skip_preserved.simps) (rule if_P)

lemma skip_preserved_stop: "\<not> (cursor < protect \<and> cursor \<in> set preserved) \<Longrightarrow> skip_preserved protect preserved cursor = cursor"
  by (subst skip_preserved.simps) (rule if_not_P)

lemma skip_preserved_facts:
  "(\<forall>i. cursor \<le> i \<and> i < skip_preserved protect preserved cursor \<longrightarrow> i \<in> set preserved)
    \<and> (skip_preserved protect preserved cursor < protect \<longrightarrow> skip_preserved protect preserved cursor \<notin> set preserved)
    \<and> (cursor \<le> protect \<longrightarrow> skip_preserved protect preserved cursor \<le> protect)"
proof (induction protect preserved cursor rule: skip_preserved.induct)
  case (1 protect preserved cursor)
  show ?case
  proof (cases "cursor < protect \<and> cursor \<in> set preserved")
    case True
    note skip_preserved_step[OF True]
    then show ?thesis using 1[OF True] True by (metis Suc_eq_plus1 Suc_leI le_neq_implies_less)
  next
    case False
    then show ?thesis using skip_preserved_stop[OF False] by auto
  qed
qed

declare prune_loop.simps [simp del] drop_orphans.simps [simp del]

text \<open>What the first loop keeps: everything before the cursor that is not preserved is pruned and paid for.\<close>

definition pruned_to :: "nat \<Rightarrow> nat list \<Rightarrow> nat list \<Rightarrow> int \<Rightarrow> prune_state \<Rightarrow> bool" where
  "pruned_to protect preserved tokens full st \<longleftrightarrow> ps_cursor st \<le> protect \<and> distinct (ps_pruned st)
     \<and> (\<forall>i. i \<in> set (ps_pruned st) \<longleftrightarrow> i < ps_cursor st \<and> i \<notin> set preserved)
     \<and> ps_total st = full - int (sum_list (map (\<lambda>i. tokens ! i) (ps_pruned st)))"

lemma prune_next_pruned_to:
  assumes "pruned_to protect preserved tokens full st" "prune_next protect preserved tokens st = (again, st')"
  shows "pruned_to protect preserved tokens full st'" and "again \<or> ps_cursor st' = protect"
proof -
  let ?c = "skip_preserved protect preserved (ps_cursor st)"
  have c: "ps_cursor st \<le> ?c" "?c \<le> protect" "\<forall>i. ps_cursor st \<le> i \<and> i < ?c \<longrightarrow> i \<in> set preserved"
    "?c < protect \<longrightarrow> ?c \<notin> set preserved"
    using skip_preserved_facts[of "ps_cursor st" protect preserved] skip_preserved_le assms(1)
    by (auto simp: pruned_to_def)
  have p: "i \<in> set (ps_pruned st) \<longleftrightarrow> i < ?c \<and> i \<notin> set preserved" for i
    using assms(1) c(1,3) unfolding pruned_to_def by (metis leI less_le_trans)
  show "pruned_to protect preserved tokens full st'"
    using assms c p by (auto simp: pruned_to_def prune_next_def prune_at_def Let_def less_Suc_eq split: if_splits)
  show "again \<or> ps_cursor st' = protect"
    using assms(2) c(2) by (auto simp: prune_next_def Let_def split: if_splits)
qed

lemma prune_loop_pruned_to:
  "pruned_to protect preserved tokens full st \<Longrightarrow>
     pruned_to protect preserved tokens full (prune_loop protect preserved tokens floor_total st)
     \<and> (ps_total (prune_loop protect preserved tokens floor_total st) \<le> floor_total
        \<or> ps_cursor (prune_loop protect preserved tokens floor_total st) = protect)"
proof (induction protect preserved tokens floor_total st rule: prune_loop.induct)
  case (1 protect preserved tokens floor_total st)
  obtain again st' where n: "prune_next protect preserved tokens st = (again, st')" by fastforce
  note step = prune_next_pruned_to[OF 1(2) n]
  have r: "prune_loop protect preserved tokens floor_total st =
      (if ps_total st > floor_total then if again then prune_loop protect preserved tokens floor_total st' else st' else st)"
    by (subst prune_loop.simps) (simp add: n)
  show ?case
  proof (cases "ps_total st > floor_total \<and> again")
    case True
    then show ?thesis using 1(1)[OF _ n[symmetric] refl] step(1) r by auto
  next
    case False
    then show ?thesis using 1(2) step r by auto
  qed
qed

text \<open>The state after both loops: the second one prunes a run of tool messages from the cursor on.\<close>

definition cut :: "llm_message list \<Rightarrow> nat list \<Rightarrow> nat list \<Rightarrow> int \<Rightarrow> nat \<Rightarrow> prune_state \<Rightarrow> bool" where
  "cut msgs preserved tokens full start st \<longleftrightarrow> start \<le> ps_cursor st \<and> ps_cursor st \<le> length msgs \<and> distinct (ps_pruned st)
     \<and> (\<forall>i. start \<le> i \<and> i < ps_cursor st \<longrightarrow> lm_role (msgs ! i) = RoleTool)
     \<and> (\<forall>i. i \<in> set (ps_pruned st) \<longleftrightarrow> (i < start \<and> i \<notin> set preserved) \<or> (start \<le> i \<and> i < ps_cursor st))
     \<and> ps_total st = full - int (sum_list (map (\<lambda>i. tokens ! i) (ps_pruned st)))"

definition orphan_ahead :: "llm_message list \<Rightarrow> prune_state \<Rightarrow> bool" where
  "orphan_ahead msgs st \<longleftrightarrow> ps_cursor st < length msgs \<and> ps_pruned st \<noteq> [] \<and> lm_role (msgs ! ps_cursor st) = RoleTool"

lemma drop_orphans_stop: "\<not> orphan_ahead msgs st \<Longrightarrow> drop_orphans msgs tokens st = st"
  by (subst drop_orphans.simps) (simp only: orphan_ahead_def if_False)

lemma drop_orphans_step: "orphan_ahead msgs st \<Longrightarrow> drop_orphans msgs tokens st = drop_orphans msgs tokens
    ((if ps_cursor st \<in> set (ps_pruned st) then st else prune_at tokens (ps_cursor st) st)\<lparr> ps_cursor := ps_cursor st + 1 \<rparr>)"
  by (subst drop_orphans.simps) (rule if_P, simp add: orphan_ahead_def)

lemma drop_orphans_cut:
  "cut msgs preserved tokens full start st \<Longrightarrow> cut msgs preserved tokens full start (drop_orphans msgs tokens st)
     \<and> (ps_pruned st = [] \<longrightarrow> drop_orphans msgs tokens st = st)
     \<and> (ps_pruned st \<noteq> [] \<longrightarrow> ps_pruned (drop_orphans msgs tokens st) \<noteq> []
        \<and> (ps_cursor (drop_orphans msgs tokens st) < length msgs
           \<longrightarrow> lm_role (msgs ! ps_cursor (drop_orphans msgs tokens st)) \<noteq> RoleTool))"
proof (induction msgs tokens st rule: drop_orphans.induct)
  case (1 msgs tokens st)
  show ?case
  proof (cases "ps_cursor st < length msgs \<and> ps_pruned st \<noteq> [] \<and> lm_role (msgs ! ps_cursor st) = RoleTool")
    case True
    let ?st = "(if ps_cursor st \<in> set (ps_pruned st) then st else prune_at tokens (ps_cursor st) st)\<lparr> ps_cursor := ps_cursor st + 1 \<rparr>"
    have new: "ps_cursor st \<notin> set (ps_pruned st)" using 1(2) by (auto simp: cut_def)
    have "cut msgs preserved tokens full start ?st"
      using 1(2) True new by (auto simp: cut_def prune_at_def less_Suc_eq)
    moreover have "drop_orphans msgs tokens st = drop_orphans msgs tokens ?st"
      using True by (intro drop_orphans_step) (simp add: orphan_ahead_def)
    moreover have "ps_pruned ?st \<noteq> []" using True by (simp add: prune_at_def)
    ultimately show ?thesis using 1(1)[OF True] True by metis
  next
    case False
    then have "drop_orphans msgs tokens st = st" by (intro drop_orphans_stop) (simp add: orphan_ahead_def)
    then show ?thesis using 1(2) False by auto
  qed
qed

lemma map_nth_upt: "n \<le> length xs \<Longrightarrow> map (\<lambda>i. xs ! i) [0 ..< n] = take n xs"
  by (rule nth_equalityI) auto

lemma map_nth_drop: "map (\<lambda>i. xs ! i) [n ..< length xs] = drop n xs"
  by (rule nth_equalityI) auto

text \<open>What is left of the list: the summaries ahead of the cut, and everything behind it.\<close>

lemma kept_form:
  assumes c: "cut msgs (preserved_summaries msgs protect) tokens full start st" and s: "start \<le> protect" "start \<le> length msgs"
  shows "map (\<lambda>i. msgs ! i) (filter (\<lambda>i. i \<notin> set (ps_pruned st)) [0 ..< length msgs])
    = filter is_compacted_envelope (take start msgs) @ drop (ps_cursor st) msgs"
proof -
  let ?P = "\<lambda>i. i \<notin> set (ps_pruned st)"
  have c': "start \<le> ps_cursor st" "ps_cursor st \<le> length msgs"
    and p: "\<And>i. i \<in> set (ps_pruned st) \<longleftrightarrow> (i < start \<and> i \<notin> set (preserved_summaries msgs protect)) \<or> (start \<le> i \<and> i < ps_cursor st)"
    using c by (auto simp: cut_def)
  have u: "[0 ..< length msgs] = [0 ..< start] @ [start ..< ps_cursor st] @ [ps_cursor st ..< length msgs]"
    using c' s by (metis le_add_diff_inverse upt_add_eq_append le0 append_assoc le_trans)
  have "filter ?P [0 ..< start] = filter (\<lambda>i. is_compacted_envelope (msgs ! i)) [0 ..< start]"
    by (rule filter_cong[OF refl]) (use s in \<open>auto simp: p preserved_summaries_def\<close>)
  then have "map (\<lambda>i. msgs ! i) (filter ?P [0 ..< start]) = filter is_compacted_envelope (map (\<lambda>i. msgs ! i) [0 ..< start])"
    by (simp add: filter_map comp_def)
  moreover have "filter ?P [start ..< ps_cursor st] = []" by (auto simp: p filter_empty_conv)
  moreover have "filter ?P [ps_cursor st ..< length msgs] = [ps_cursor st ..< length msgs]"
    using c' by (auto simp: p intro!: filter_True)
  ultimately show ?thesis unfolding u filter_append map_append by (simp add: map_nth_upt[OF s(2)] map_nth_drop)
qed

lemma kept_sum:
  assumes "distinct ds" "set ds \<subseteq> {..< n}"
  shows "sum_list (map f (filter (\<lambda>i. i \<notin> set ds) [0 ..< n])) + sum_list (map f ds) = (sum_list (map f [0 ..< n]) :: nat)"
proof -
  have "sum f ({..< n} - set ds) + sum f (set ds) = sum f {..< n}" by (rule sum.subset_diff[symmetric]) (use assms in auto)
  moreover have "{x. x < n \<and> x \<notin> set ds} = {..< n} - set ds" by auto
  ultimately show ?thesis
    using assms(1) by (simp add: sum_list_distinct_conv_sum_set atLeast0LessThan)
qed

subsection \<open>The protected window\<close>

definition is_user :: "llm_message \<Rightarrow> bool" where
  "is_user m = (lm_role m = RoleUser)"

lemma system_start_facts:
  "system_start msgs i \<le> i \<and> (\<forall>k. system_start msgs i \<le> k \<and> k < i \<longrightarrow> lm_role (msgs ! k) = RoleSystem)"
  by (induction i) (auto simp: less_Suc_eq)

lemma drop_user_system:
  assumes "s \<le> i" "i \<le> length msgs" "\<forall>k. s \<le> k \<and> k < i \<longrightarrow> lm_role (msgs ! k) = RoleSystem"
  shows "filter is_user (drop s msgs) = filter is_user (drop i msgs)"
  using assms
proof (induction "i - s" arbitrary: s)
  case (Suc n)
  then have "drop s msgs = msgs ! s # drop (Suc s) msgs" by (simp add: Cons_nth_drop_Suc)
  moreover have "filter is_user (drop (Suc s) msgs) = filter is_user (drop i msgs)" using Suc by auto
  ultimately show ?case using Suc by (auto simp: is_user_def)
qed simp

text \<open>The scan stops at the wanted number of user messages, or at the start of the list.\<close>

lemma protect_scan_facts:
  assumes "i \<le> length msgs" "int (length (filter is_user (drop i msgs))) = seen" "seen < wanted"
  shows "protect_scan msgs wanted seen i \<le> i
    \<and> (protect_scan msgs wanted seen i = 0 \<or> lm_role (msgs ! protect_scan msgs wanted seen i) \<in> {RoleUser, RoleSystem})
    \<and> (protect_scan msgs wanted seen i = 0 \<or> int (length (filter is_user (drop (protect_scan msgs wanted seen i) msgs))) = wanted)"
  using assms
proof (induction msgs wanted seen i rule: protect_scan.induct)
  case (2 msgs wanted seen i)
  have d: "drop i msgs = msgs ! i # drop (Suc i) msgs" using 2(3) by (simp add: Cons_nth_drop_Suc)
  note s = system_start_facts[of msgs i]
  show ?case
  proof (cases "lm_role (msgs ! i) = RoleUser \<and> wanted \<le> seen + 1")
    case True
    let ?s = "system_start msgs i"
    have "filter is_user (drop ?s msgs) = filter is_user (drop i msgs)"
      using s 2(3) by (intro drop_user_system) auto
    moreover have "is_user (msgs ! i)" using True by (simp add: is_user_def)
    ultimately have n: "int (length (filter is_user (drop ?s msgs))) = wanted"
      using True 2(4,5) d by simp
    have "lm_role (msgs ! ?s) \<in> {RoleUser, RoleSystem}" using s True by (cases "?s = i") auto
    then show ?thesis using True s n by auto
  next
    case False
    then show ?thesis
      using 2 d by (cases "lm_role (msgs ! i) = RoleUser") (auto simp: is_user_def)
  qed
qed simp

lemma protect_start_facts:
  "protect_start_index msgs n \<le> length msgs
    \<and> (protect_start_index msgs n = 0 \<or> protect_start_index msgs n = length msgs
       \<or> lm_role (msgs ! protect_start_index msgs n) \<in> {RoleUser, RoleSystem})
    \<and> (protect_start_index msgs n = 0 \<or> int (length (filter is_user (drop (protect_start_index msgs n) msgs))) = max 0 n)"
proof (cases "n \<le> 0 \<or> length msgs = 0")
  case False
  then show ?thesis using protect_scan_facts[of "length msgs" msgs 0 n] by (auto simp: protect_start_index_def)
qed (auto simp: protect_start_index_def)

subsection \<open>The whole pass\<close>

lemma drop_orphans_total: "ps_total (drop_orphans msgs tokens st) \<le> ps_total st"
proof (induction msgs tokens st rule: drop_orphans.induct)
  case (1 msgs tokens st)
  show ?case
  proof (cases "orphan_ahead msgs st")
    case True
    from 1[OF this[unfolded orphan_ahead_def]] show ?thesis
      unfolding drop_orphans_step[OF True] by (auto simp: prune_at_def split: if_splits)
  qed (simp add: drop_orphans_stop)
qed

lemma prune_run_facts:
  assumes p_def: "p = protect_start_index msgs n"
    and st_def: "st = drop_orphans msgs tokens (prune_loop p (preserved_summaries msgs p) tokens floor_total
      \<lparr> ps_cursor = 0, ps_total = full, ps_pruned = [] \<rparr>)"
  shows "\<exists>start. start \<le> p \<and> cut msgs (preserved_summaries msgs p) tokens full start st \<and> ps_cursor st \<le> p
    \<and> (ps_total st > floor_total \<longrightarrow> start = p) \<and> (ps_pruned st = [] \<longrightarrow> ps_cursor st = start)
    \<and> (ps_pruned st \<noteq> [] \<longrightarrow> ps_cursor st < length msgs \<longrightarrow> lm_role (msgs ! ps_cursor st) \<noteq> RoleTool)"
proof -
  let ?pres = "preserved_summaries msgs p"
  define lp where "lp = prune_loop p ?pres tokens floor_total \<lparr> ps_cursor = 0, ps_total = full, ps_pruned = [] \<rparr>"
  have p: "p \<le> length msgs" "p = 0 \<or> p = length msgs \<or> lm_role (msgs ! p) \<noteq> RoleTool"
    using protect_start_facts[of msgs n] by (auto simp: p_def)
  have "pruned_to p ?pres tokens full \<lparr> ps_cursor = 0, ps_total = full, ps_pruned = [] \<rparr>" by (simp add: pruned_to_def)
  from prune_loop_pruned_to[OF this, of floor_total, folded lp_def]
  have l: "pruned_to p ?pres tokens full lp" "ps_total lp \<le> floor_total \<or> ps_cursor lp = p" by simp_all
  then have s: "ps_cursor lp \<le> p" by (simp add: pruned_to_def)
  have c: "cut msgs ?pres tokens full (ps_cursor lp) lp"
  proof -
    have "(i < ps_cursor lp \<and> A) = (i < ps_cursor lp \<and> A \<or> ps_cursor lp \<le> i \<and> i < ps_cursor lp)" for i A by auto
    moreover have "\<not> (ps_cursor lp \<le> i \<and> i < ps_cursor lp)" for i by auto
    ultimately show ?thesis unfolding cut_def using l(1)[unfolded pruned_to_def] p(1) by (metis order_refl le_trans)
  qed
  have st: "st = drop_orphans msgs tokens lp" by (simp add: st_def lp_def)
  note d = drop_orphans_cut[OF c, folded st]
  have "ps_cursor st \<le> p"
  proof (rule ccontr)
    assume over: "\<not> ps_cursor st \<le> p"
    then have "lm_role (msgs ! p) = RoleTool" "p < length msgs" using d s by (auto simp: cut_def)
    then have "p = 0" using p by auto
    then have "ps_pruned lp = []" using l(1) s by (auto simp: pruned_to_def)
    then have "st = lp" using d by simp
    then show False using over s by simp
  qed
  moreover have "ps_cursor lp = p" if "ps_total st > floor_total"
    using that l(2) drop_orphans_total[of msgs tokens lp] by (auto simp: st)
  moreover have "ps_cursor st = ps_cursor lp" if "ps_pruned st = []"
    using that d by metis
  ultimately show ?thesis using d s by (intro exI[of _ "ps_cursor lp"]) metis
qed

lemma prune_step_pos: "0 < prune_step cap"
  by (simp add: prune_step_def)

lemma prune_target_ge: "excess \<le> prune_target cap excess"
proof -
  have "(- excess div prune_step cap) * prune_step cap \<le> - excess"
    using div_mult_mod_eq[of "- excess" "prune_step cap"] pos_mod_sign[OF prune_step_pos, of "- excess" cap] by linarith
  then show ?thesis by (simp add: prune_target_def)
qed

definition estimated :: "llm_env \<Rightarrow> llm_message list \<Rightarrow> int" where
  "estimated env msgs = int (sum_list (map (estimate_message_tokens env) msgs))"

lemma estimated_simps [simp]:
  "estimated env [] = 0" "estimated env (m # ms) = int (estimate_message_tokens env m) + estimated env ms"
  "estimated env (xs @ ys) = estimated env xs + estimated env ys"
  by (simp_all add: estimated_def)

lemma estimate_marker [simp]: "estimate_message_tokens env (marker_message t) = le_estimate env t"
  by (simp add: estimate_message_tokens_def marker_message_def auxiliary_fields_def flatten_message_content_def truthy_def)

text \<open>What the state after both loops says of the messages kept and of what they cost.\<close>

definition kept_messages :: "llm_message list \<Rightarrow> prune_state \<Rightarrow> llm_message list" where
  "kept_messages msgs st = map (\<lambda>i. msgs ! i) (filter (\<lambda>i. i \<notin> set (ps_pruned st)) [0 ..< length msgs])"

lemma cut_accounts:
  assumes c: "cut msgs (preserved_summaries msgs p) (map (estimate_message_tokens env) msgs) (sys + estimated env msgs) a st"
    and p: "a \<le> p" "p \<le> length msgs"
  shows "kept_messages msgs st = filter is_compacted_envelope (take a msgs) @ drop (ps_cursor st) msgs"
    and "ps_total st = sys + estimated env (kept_messages msgs st)"
    and "length (ps_pruned st) + length (kept_messages msgs st) = length msgs"
proof -
  let ?tokens = "map (estimate_message_tokens env) msgs" and ?left = "filter (\<lambda>i. i \<notin> set (ps_pruned st)) [0 ..< length msgs]"
  show "kept_messages msgs st = filter is_compacted_envelope (take a msgs) @ drop (ps_cursor st) msgs"
    unfolding kept_messages_def by (rule kept_form[OF c]) (use p in auto)
  have ds: "distinct (ps_pruned st)" "set (ps_pruned st) \<subseteq> {..< length msgs}"
    using c p by (auto simp: cut_def)
  have "map ((!) ?tokens) ?left = map (estimate_message_tokens env) (kept_messages msgs st)"
    by (auto simp: kept_messages_def comp_def intro!: map_cong)
  moreover have "map ((!) ?tokens) [0 ..< length msgs] = ?tokens" using map_nth[of ?tokens] by simp
  ultimately have "estimated env (kept_messages msgs st) + int (sum_list (map ((!) ?tokens) (ps_pruned st))) = estimated env msgs"
    using kept_sum[OF ds, of "(!) ?tokens"] unfolding estimated_def by (metis of_nat_add)
  then show "ps_total st = sys + estimated env (kept_messages msgs st)"
    using c by (simp add: cut_def)
  show "length (ps_pruned st) + length (kept_messages msgs st) = length msgs"
    using kept_sum[OF ds, of "\<lambda>_. 1"] by (simp add: kept_messages_def sum_list_triv)
qed

text \<open>The form of a result: the messages \<open>kept\<close>, summaries ahead of \<open>a\<close> and everything behind \<open>c\<close>.\<close>

definition budget_form :: "llm_message list \<Rightarrow> string \<Rightarrow> int \<Rightarrow> int \<Rightarrow> llm_env \<Rightarrow> nat \<Rightarrow> nat \<Rightarrow> nat \<Rightarrow> llm_message list \<Rightarrow> budget_result \<Rightarrow> bool" where
  "budget_form msgs marker sys cap env p a c kept r \<longleftrightarrow>
     br_messages r = (if br_pruned r = 0 then [] else [marker_message marker]) @ kept
   \<and> br_pruned r + length kept = length msgs \<and> br_total r = sys + estimated env (br_messages r)
   \<and> br_over r = (br_total r > cap) \<and> a \<le> c \<and> c \<le> p \<and> (\<forall>i. a \<le> i \<and> i < c \<longrightarrow> lm_role (msgs ! i) = RoleTool)
   \<and> (br_pruned r = 0 \<longrightarrow> kept = msgs)
   \<and> (br_pruned r \<noteq> 0 \<longrightarrow> kept = filter is_compacted_envelope (take a msgs) @ drop c msgs
        \<and> (c < length msgs \<longrightarrow> lm_role (msgs ! c) \<noteq> RoleTool))
   \<and> (br_over r \<longrightarrow> kept = filter is_compacted_envelope (take p msgs) @ drop p msgs)"

lemma prune_run_form:
  assumes p: "p = protect_start_index msgs n" and "sys = int (le_estimate env system)" and over: "sys + estimated env msgs > cap"
    and st: "st = drop_orphans msgs (map (estimate_message_tokens env) msgs)
      (prune_loop p (preserved_summaries msgs p) (map (estimate_message_tokens env) msgs)
        (sys + estimated env msgs - prune_target cap (sys + estimated env msgs + int (le_estimate env marker) - cap))
        \<lparr> ps_cursor = 0, ps_total = sys + estimated env msgs, ps_pruned = [] \<rparr>)"
    and r: "r = (if ps_pruned st = [] then \<lparr> br_messages = msgs, br_total = ps_total st, br_pruned = 0, br_over = True \<rparr>
        else \<lparr> br_messages = marker_message marker # kept_messages msgs st, br_total = ps_total st + int (le_estimate env marker),
          br_pruned = length (ps_pruned st), br_over = (ps_total st + int (le_estimate env marker) > cap) \<rparr>)"
  shows "\<exists>a c kept. budget_form msgs marker sys cap env p a c kept r"
proof -
  obtain a where a: "a \<le> p" "cut msgs (preserved_summaries msgs p) (map (estimate_message_tokens env) msgs) (sys + estimated env msgs) a st"
      "ps_cursor st \<le> p"
      "ps_total st > sys + estimated env msgs - prune_target cap (sys + estimated env msgs + int (le_estimate env marker) - cap) \<Longrightarrow> a = p"
      "ps_pruned st = [] \<Longrightarrow> ps_cursor st = a"
      "ps_pruned st \<noteq> [] \<Longrightarrow> ps_cursor st < length msgs \<Longrightarrow> lm_role (msgs ! ps_cursor st) \<noteq> RoleTool"
    using prune_run_facts[OF p st] by blast
  have "p \<le> length msgs" using protect_start_facts by (simp add: p)
  note acc = cut_accounts[OF a(2,1) this]
  have ac: "a \<le> ps_cursor st" "\<forall>i. a \<le> i \<and> i < ps_cursor st \<longrightarrow> lm_role (msgs ! i) = RoleTool"
    using a(2) by (simp_all add: cut_def)
  have full: "a = p \<and> ps_cursor st = p" if "ps_total st + int (le_estimate env marker) > cap"
    using that prune_target_ge[of "sys + estimated env msgs + int (le_estimate env marker) - cap" cap] a(3,4) ac(1) by simp
  show ?thesis
  proof (cases "ps_pruned st = []")
    case True
    then have k: "kept_messages msgs st = msgs" by (simp add: kept_messages_def map_nth)
    then have "a = p \<and> ps_cursor st = p" using over acc(2) by (intro full) simp
    then have "budget_form msgs marker sys cap env p p p msgs r"
      using True k acc over unfolding budget_form_def r by auto
    then show ?thesis by blast
  next
    case False
    then have m: "br_messages r = marker_message marker # kept_messages msgs st" "br_pruned r = length (ps_pruned st)"
        "br_total r = ps_total st + int (le_estimate env marker)" "br_over r = (ps_total st + int (le_estimate env marker) > cap)"
      by (simp_all add: r)
    have ov: "ps_total st + int (le_estimate env marker) > cap \<longrightarrow>
        kept_messages msgs st = filter is_compacted_envelope (take p msgs) @ drop p msgs" using full acc(1) by simp
    have "budget_form msgs marker sys cap env p a (ps_cursor st) (kept_messages msgs st) r"
      unfolding budget_form_def m using False acc(2,3) a(3) ac ov a(6)[OF False] by (simp add: acc(1)[symmetric])
    then show ?thesis by blast
  qed
qed

lemma apply_budget_form:
  assumes r: "apply_budget env system msgs opts = Inr r" and l: "resolve_budget_options opts = Inr limits"
  shows "\<exists>a c kept. budget_form msgs (pruned_marker env (bo_locale opts)) (int (le_estimate env system))
    (rb_max_input limits - rb_reserved limits) env (protect_start_index msgs (rb_protect limits)) a c kept r"
proof (cases "int (le_estimate env system) + estimated env msgs \<le> rb_max_input limits - rb_reserved limits")
  case True
  then have "r = \<lparr> br_messages = msgs, br_total = int (le_estimate env system) + estimated env msgs, br_pruned = 0, br_over = False \<rparr>"
    using r l by (simp add: apply_budget_def estimated_def Let_def)
  then show ?thesis using True by (intro exI[of _ 0] exI[of _ msgs]) (simp add: budget_form_def)
next
  case False
  show ?thesis
    by (rule prune_run_form[OF refl refl _ refl])
      (use r l False in \<open>simp_all add: apply_budget_def estimated_def kept_messages_def Let_def split: if_splits\<close>)
qed

definition is_summary :: "llm_message \<Rightarrow> bool" where
  "is_summary m \<longleftrightarrow> is_compacted_envelope m \<and> lm_role m \<noteq> RoleTool"

lemma budget_form_kept:
  assumes f: "budget_form msgs marker sys cap env p a c kept r" and "p \<le> length msgs"
  shows "subseq kept msgs \<and> suffix (drop p msgs) kept \<and> filter is_summary kept = filter is_summary msgs"
proof -
  have k: "a \<le> c" "c \<le> p" "\<forall>i. a \<le> i \<and> i < c \<longrightarrow> lm_role (msgs ! i) = RoleTool"
      "br_pruned r = 0 \<Longrightarrow> kept = msgs" "br_pruned r \<noteq> 0 \<Longrightarrow> kept = filter is_compacted_envelope (take a msgs) @ drop c msgs"
    using f by (simp_all add: budget_form_def)
  have cl: "c \<le> length msgs" using k(2) assms(2) by simp
  have m: "msgs = take a msgs @ take (c - a) (drop a msgs) @ drop c msgs"
    using k(1) by (metis append_assoc append_take_drop_id le_add_diff_inverse take_add)
  show ?thesis
  proof (cases "br_pruned r = 0")
    case False
    then have e: "kept = filter is_compacted_envelope (take a msgs) @ drop c msgs" by (rule k(5))
    have "subseq kept msgs"
      unfolding e by (subst m) (intro list_emb_append_mono subseq_filter_left list_emb_append2 subseq_order.refl)
    moreover have "suffix (drop p msgs) kept"
      unfolding e using k(2) by (metis le_add_diff_inverse drop_drop suffix_appendI suffix_drop add.commute)
    moreover have "filter is_summary (take (c - a) (drop a msgs)) = []"
      using k(1,3) cl by (auto simp: filter_empty_conv in_set_conv_nth is_summary_def)
    then have "filter is_summary kept = filter is_summary msgs"
      using arg_cong[OF m, of "filter is_summary"] unfolding e by (simp add: is_summary_def[abs_def] conj_commute)
    ultimately show ?thesis by blast
  qed (use k(4) suffix_drop in auto)
qed

text \<open>C27: A budget pass that returns has dropped old messages only: what is left is the given list without some
  of the messages ahead of the protected window, in order, behind one marker if anything was dropped. The
  protected window survives whole, and so does every summary of compacted history. The reported total is the
  estimate of exactly the returned request, the request is reported over budget exactly when that total
  exceeds the cap, and then nothing that may be dropped is left.\<close>

theorem budget_pass_exact:
  assumes "apply_budget env system msgs opts = Inr r" "resolve_budget_options opts = Inr limits"
  shows "\<exists>kept. br_messages r = (if br_pruned r = 0 then [] else [marker_message (pruned_marker env (bo_locale opts))]) @ kept
    \<and> subseq kept msgs \<and> br_pruned r + length kept = length msgs
    \<and> suffix (drop (protect_start_index msgs (rb_protect limits)) msgs) kept
    \<and> filter is_summary kept = filter is_summary msgs
    \<and> br_total r = int (le_estimate env system) + estimated env (br_messages r)
    \<and> br_over r = (br_total r > rb_max_input limits - rb_reserved limits)
    \<and> (if br_over r then kept = filter is_compacted_envelope (take (protect_start_index msgs (rb_protect limits)) msgs)
          @ drop (protect_start_index msgs (rb_protect limits)) msgs else True)"
proof -
  obtain a c kept where f: "budget_form msgs (pruned_marker env (bo_locale opts)) (int (le_estimate env system))
      (rb_max_input limits - rb_reserved limits) env (protect_start_index msgs (rb_protect limits)) a c kept r"
    using apply_budget_form[OF assms] by blast
  have "protect_start_index msgs (rb_protect limits) \<le> length msgs" using protect_start_facts by simp
  note k = budget_form_kept[OF f this]
  from f have "br_messages r = (if br_pruned r = 0 then [] else [marker_message (pruned_marker env (bo_locale opts))]) @ kept"
      "br_pruned r + length kept = length msgs" "br_total r = int (le_estimate env system) + estimated env (br_messages r)"
      "br_over r = (br_total r > rb_max_input limits - rb_reserved limits)"
      "br_over r \<longrightarrow> kept = filter is_compacted_envelope (take (protect_start_index msgs (rb_protect limits)) msgs)
        @ drop (protect_start_index msgs (rb_protect limits)) msgs"
    unfolding budget_form_def by blast+
  then show ?thesis using k by (intro exI[of _ kept]) presburger
qed

text \<open>A transcript in which every tool message follows the assistant message that asked for it, or another
  tool message.\<close>

fun tool_pairs :: "bool \<Rightarrow> llm_message list \<Rightarrow> bool" where
  "tool_pairs open_call [] = True"
| "tool_pairs open_call (m # ms) = ((lm_role m = RoleTool \<longrightarrow> open_call) \<and> tool_pairs (lm_role m = RoleAssistant \<or> lm_role m = RoleTool) ms)"

lemma tool_pairs_weaken: "tool_pairs b ms \<Longrightarrow> ms = [] \<or> lm_role (hd ms) \<noteq> RoleTool \<Longrightarrow> tool_pairs b' ms"
  by (cases ms) auto

lemma tool_pairs_mono: "tool_pairs False ms \<Longrightarrow> tool_pairs b ms"
  by (cases ms) auto

lemma tool_pairs_drop: "tool_pairs b ms \<Longrightarrow> \<exists>b'. tool_pairs b' (drop n ms)"
  by (induction ms arbitrary: b n) (auto simp: drop_Cons split: nat.split)

lemma tool_pairs_summaries:
  "(\<forall>m. m \<in> set ms \<longrightarrow> lm_role m \<noteq> RoleTool) \<Longrightarrow> tool_pairs False ns \<Longrightarrow> tool_pairs b (ms @ ns)"
  by (induction ms arbitrary: b) (auto intro: tool_pairs_mono)

text \<open>C28: A budget pass never separates a tool result from its call: if in the given transcript every tool
  message follows its assistant message or another tool message, and no tool message looks like a summary of
  compacted history, then the same holds of the messages the pass returns.\<close>

theorem budget_keeps_tool_pairs:
  assumes r: "apply_budget env system msgs opts = Inr r" and pairs: "tool_pairs False msgs"
    and plain: "list_all (\<lambda>m. lm_role m \<noteq> RoleTool \<or> \<not> is_compacted_envelope m) msgs"
  shows "tool_pairs False (br_messages r)"
proof -
  obtain limits where l: "resolve_budget_options opts = Inr limits"
    using r by (auto simp: apply_budget_def split: sum.splits)
  obtain a c kept where f: "budget_form msgs (pruned_marker env (bo_locale opts)) (int (le_estimate env system))
      (rb_max_input limits - rb_reserved limits) env (protect_start_index msgs (rb_protect limits)) a c kept r"
    using apply_budget_form[OF r l] by blast
  then have k: "br_messages r = (if br_pruned r = 0 then [] else [marker_message (pruned_marker env (bo_locale opts))]) @ kept"
      "br_pruned r = 0 \<Longrightarrow> kept = msgs"
      "br_pruned r \<noteq> 0 \<Longrightarrow> kept = filter is_compacted_envelope (take a msgs) @ drop c msgs
        \<and> (c < length msgs \<longrightarrow> lm_role (msgs ! c) \<noteq> RoleTool)"
    by (simp_all add: budget_form_def)
  show ?thesis
  proof (cases "br_pruned r = 0")
    case True
    then show ?thesis using k(1,2) pairs by simp
  next
    case False
    then have e: "kept = filter is_compacted_envelope (take a msgs) @ drop c msgs" using k(3) by simp
    obtain b' where "tool_pairs b' (drop c msgs)" using tool_pairs_drop[OF pairs] by blast
    then have "tool_pairs False (drop c msgs)"
      by (rule tool_pairs_weaken) (use False k(3) in \<open>cases "c < length msgs"; auto simp: hd_drop_conv_nth\<close>)
    moreover have "\<forall>m. m \<in> set (filter is_compacted_envelope (take a msgs)) \<longrightarrow> lm_role m \<noteq> RoleTool"
      using plain by (auto simp: list_all_iff dest: in_set_takeD)
    ultimately have "tool_pairs False kept" unfolding e by (intro tool_pairs_summaries)
    then show ?thesis using False k(1) by (simp add: marker_message_def tool_pairs_mono)
  qed
qed

text \<open>A transcript of four messages of forty characters, under a cap of a hundred.\<close>

definition length_env :: llm_env where
  "length_env = \<lparr> le_estimate = length, le_stringify = (\<lambda>_. ''json''), le_chinese = (\<lambda>_. False), le_zh = id \<rparr>"

definition forty :: "llm_role \<Rightarrow> llm_message" where
  "forty role = \<lparr> lm_role = role, lm_content = Plain (replicate 40 CHR ''x''), lm_name = None, lm_tool_call_id = None,
     lm_tool_calls = None, lm_reasoning = None \<rparr>"

definition sample_transcript :: "llm_message list" where
  "sample_transcript = [forty RoleUser, forty RoleAssistant, forty RoleTool, forty RoleUser]"

definition sample_options :: budget_options where
  "sample_options = \<lparr> bo_max_input = 200, bo_window_limit = None, bo_reserved = Some 100, bo_protect = None, bo_locale = None \<rparr>"

lemma sample_budget:
  "apply_budget length_env [] sample_transcript sample_options = Inr \<lparr> br_messages = [marker_message
      ''[... older messages pruned to stay within token budget ...]'', forty RoleUser], br_total = 99, br_pruned = 3, br_over = False \<rparr>"
  by code_simp

lemma budget_pass_exact_witness:
  "\<exists>r. apply_budget length_env [] sample_transcript sample_options = Inr r \<and> br_pruned r = 3
    \<and> br_total r = estimated length_env (br_messages r) \<and> br_over r = (br_total r > 100)"
proof -
  have l: "resolve_budget_options sample_options = Inr \<lparr> rb_max_input = 200, rb_reserved = 100, rb_protect = 1 \<rparr>" by code_simp
  obtain r where r: "apply_budget length_env [] sample_transcript sample_options = Inr r" "br_pruned r = 3"
    using sample_budget by simp
  have "le_estimate length_env [] = 0" by (simp add: length_env_def)
  then show ?thesis using budget_pass_exact[OF r(1) l] r by (intro exI[of _ r]) auto
qed

lemma budget_keeps_tool_pairs_witness:
  "\<exists>r. apply_budget length_env [] sample_transcript sample_options = Inr r \<and> br_pruned r \<noteq> 0 \<and> tool_pairs False (br_messages r)"
proof -
  have "tool_pairs False sample_transcript" by (simp add: sample_transcript_def forty_def)
  moreover have "list_all (\<lambda>m. lm_role m \<noteq> RoleTool \<or> \<not> is_compacted_envelope m) sample_transcript" by code_simp
  moreover obtain r where r: "apply_budget length_env [] sample_transcript sample_options = Inr r" "br_pruned r = 3"
    using sample_budget by simp
  ultimately have "tool_pairs False (br_messages r)" by (intro budget_keeps_tool_pairs[OF r(1)])
  then show ?thesis using r by (intro exI[of _ r]) simp
qed

end
