(* ===== verification/Compaction.thy ===== *)
theory Compaction
  imports StoreReads StoreInvariant StoreRollback ContextBudget
begin

text \<open>
  History compaction (\<open>maybeCompact\<close> of \<open>packages/context/src/history-budget.ts\<close>) over the memory store: the
  admission by the estimated size, the check of the provider's result, and the transaction that saves the new
  summaries and tags the messages they stand for. The compaction provider is a parameter, and so are fresh
  IDs, the clock and the two conversions of a time. The provider runs for a while, so the transaction starts
  on a store that may have changed since the summaries were read. A context window is a natural number; the
  shares 0.12 and 0.04 of it are taken exactly.
\<close>

subsection \<open>The request and the answer of a provider\<close>

record summary_budget =
  sb_max_tokens :: nat
  sb_max_segment :: nat
  sb_max_segments :: nat

record compaction_request =
  cr_messages :: "turn_message list"
  cr_summaries :: "session_summary list"
  cr_window :: nat
  cr_input_window :: nat
  cr_budget :: summary_budget
  cr_estimated :: nat
  cr_locale :: string

record compaction_segment =
  seg_messages :: "string list"
  seg_replaces :: "string list"
  seg_content :: string
  seg_focus :: "string list"
  seg_truncated :: "bool option"

record compaction_output =
  co_summaries :: "compaction_segment list"
  co_deferred :: "string option"

record compactor =
  cp_estimate :: "string \<Rightarrow> nat"
  cp_window :: nat
  cp_input_window :: "nat option"
  cp_compact :: "compaction_request \<Rightarrow> compaction_output option"
  cp_uuid :: "nat \<Rightarrow> string"
  cp_now :: string
  cp_parse :: "string \<Rightarrow> int"
  cp_iso :: "int \<Rightarrow> string"

record compactor_options =
  cpo_threshold :: "rat option"
  cpo_locale :: "string option"
  cpo_trace :: "string option"

definition untagged_messages :: "'a turn_message_scheme list \<Rightarrow> 'a turn_message_scheme list" where
  "untagged_messages ms = filter (\<lambda>m. tmsg_compacted m = None) ms"

definition estimated_history :: "compactor \<Rightarrow> string \<Rightarrow> turn_message list \<Rightarrow> session_summary list \<Rightarrow> nat" where
  "estimated_history c system ms summaries = cp_estimate c system
     + sum_list (map (\<lambda>m. cp_estimate c (tmsg_content m)) (untagged_messages ms))
     + sum_list (map (\<lambda>s. cp_estimate c (sum_content s)) summaries)"

definition summary_budget_of :: "nat \<Rightarrow> summary_budget" where
  "summary_budget_of window =
     (let max_tokens = max 1 (min window (max 128 (min 8192 (window * 12 div 100)))) in
      \<lparr> sb_max_tokens = max_tokens, sb_max_segment = min max_tokens (max 128 (min 2048 (window * 4 div 100))),
         sb_max_segments = 8 \<rparr>)"

subsection \<open>Checking the answer\<close>

text \<open>The variables of the walk over the segments; \<open>wk_next\<close> is the time of the next new summary.\<close>

record segment_walk =
  wk_replaced :: "string list"
  wk_messages :: "string list"
  wk_cursor :: nat
  wk_tokens :: nat
  wk_next :: int

text \<open>The summaries a segment replaces: the next ones of the list, each of the session and none twice.\<close>

fun take_replaced :: "string \<Rightarrow> session_summary list \<Rightarrow> string list \<Rightarrow> string list \<Rightarrow> (session_summary list \<times> string list) option" where
  "take_replaced sid next [] replaced = Some ([], replaced)"
| "take_replaced sid [] (rid # ids) replaced = None"
| "take_replaced sid (s # next) (rid # ids) replaced =
     (if k_id s \<noteq> rid \<or> row_session s \<noteq> sid \<or> rid \<in> set replaced then None
      else map_option (\<lambda>(ss, r). (s # ss, r)) (take_replaced sid next ids (rid # replaced)))"

definition segment_bad :: "compactor \<Rightarrow> summary_budget \<Rightarrow> compaction_segment \<Rightarrow> bool" where
  "segment_bad c budget g \<longleftrightarrow> trim_text (seg_content g) = [] \<or> ((length (seg_messages g) = 0) = (length (seg_replaces g) = 0))
     \<or> cp_estimate c (seg_content g) > sb_max_segment budget"

definition segment_record :: "compactor \<Rightarrow> string \<Rightarrow> nat \<Rightarrow> session_summary list \<Rightarrow> turn_message list \<Rightarrow> int \<Rightarrow> compaction_segment \<Rightarrow> session_summary" where
  "segment_record c sid i replaced source next g = (case replaced of
     [] \<Rightarrow> \<lparr> k_created = cp_iso c next, k_id = cp_uuid c i, row_session = sid, sum_start = tmsg_turn (hd source),
        sum_end = tmsg_turn (last source), sum_content = seg_content g, sum_focus = seg_focus g \<rparr>
   | s # ss \<Rightarrow> \<lparr> k_created = k_created s, k_id = k_id s, row_session = sid, sum_start = sum_start s,
        sum_end = sum_end (last (s # ss)), sum_content = seg_content g, sum_focus = seg_focus g \<rparr>)"

definition segment_step :: "compactor \<Rightarrow> string \<Rightarrow> summary_budget \<Rightarrow> session_summary list \<Rightarrow> turn_message list \<Rightarrow> nat \<Rightarrow> compaction_segment
    \<Rightarrow> segment_walk \<Rightarrow> (session_summary \<times> segment_walk) option" where
  "segment_step c sid budget existing untagged i g w =
     (if segment_bad c budget g then None
      else case take_replaced sid (drop (wk_cursor w) existing) (seg_replaces g) (wk_replaced w) of
        None \<Rightarrow> None
      | Some (replaced, ids) \<Rightarrow>
          (let source = take (length (seg_messages g)) (drop (length (wk_messages w)) untagged) in
           if map k_id source \<noteq> seg_messages g \<or> list_ex (\<lambda>m. row_session m \<noteq> sid) source then None
           else Some (segment_record c sid i replaced source (wk_next w) g,
             \<lparr> wk_replaced = ids, wk_messages = wk_messages w @ seg_messages g, wk_cursor = wk_cursor w + length replaced,
                wk_tokens = wk_tokens w + cp_estimate c (seg_content g),
                wk_next = (if replaced = [] then wk_next w + 1 else wk_next w) \<rparr>)))"

fun segment_records :: "compactor \<Rightarrow> string \<Rightarrow> summary_budget \<Rightarrow> session_summary list \<Rightarrow> turn_message list \<Rightarrow> nat \<Rightarrow> compaction_segment list
    \<Rightarrow> segment_walk \<Rightarrow> (session_summary list \<times> segment_walk) option" where
  "segment_records c sid budget existing untagged i [] w = Some ([], w)"
| "segment_records c sid budget existing untagged i (g # gs) w =
     (case segment_step c sid budget existing untagged i g w of
        None \<Rightarrow> None
      | Some (r, w') \<Rightarrow> map_option (\<lambda>(rs, w''). (r # rs, w'')) (segment_records c sid budget existing untagged (i + 1) gs w'))"

definition retained_summaries :: "session_summary list \<Rightarrow> segment_walk \<Rightarrow> session_summary list" where
  "retained_summaries existing w = filter (\<lambda>s. k_id s \<notin> set (wk_replaced w)) existing"

definition over_allowance :: "compactor \<Rightarrow> summary_budget \<Rightarrow> compaction_output \<Rightarrow> session_summary list \<Rightarrow> session_summary list \<Rightarrow> nat \<Rightarrow> bool" where
  "over_allowance c budget out retained records tokens =
     (let slack = (if co_deferred out \<noteq> None then 2 else 1) in
      length retained + length records > sb_max_segments budget * slack
      \<or> tokens + sum_list (map (\<lambda>s. cp_estimate c (sum_content s)) retained) > sb_max_tokens budget * slack)"

definition check_output :: "compactor \<Rightarrow> string \<Rightarrow> summary_budget \<Rightarrow> session_summary list \<Rightarrow> turn_message list \<Rightarrow> compaction_output
    \<Rightarrow> (session_summary list \<times> segment_walk) option" where
  "check_output c sid budget existing ms out =
     (if co_summaries out = [] then None
      else let start = foldl (\<lambda>latest s. max latest (cp_parse c (k_created s) + 1)) (cp_parse c (cp_now c)) existing in
        case segment_records c sid budget existing (untagged_messages ms) 0 (co_summaries out)
          \<lparr> wk_replaced = [], wk_messages = [], wk_cursor = 0, wk_tokens = 0, wk_next = start \<rparr> of
          None \<Rightarrow> None
        | Some (records, w) \<Rightarrow>
            if \<not> distinct (wk_messages w) \<or> over_allowance c budget out (retained_summaries existing w) records (wk_tokens w)
            then None else Some (records, w))"

subsection \<open>Saving the summaries\<close>

text \<open>A call of the transaction scope whose error ends the callback.\<close>

definition call_then :: "store_call \<Rightarrow> 'v script \<Rightarrow> 'v script" where
  "call_then call next = TxCall call (\<lambda>r. case r of Inl e \<Rightarrow> Throw e | Inr _ \<Rightarrow> next)"

definition write_segment :: "string \<Rightarrow> session_summary \<Rightarrow> compaction_segment \<Rightarrow> 'v script \<Rightarrow> 'v script" where
  "write_segment sid r g next =
     (let tag = (if seg_messages g = [] then next
            else call_then (JournalCall (TagTurnMessagesCompacted sid (seg_messages g) (k_id r))) next);
          save = call_then (JournalCall (SaveSessionSummary r)) tag
      in if seg_replaces g = [] then save
         else call_then (JournalCall (RetagCompactedTurnMessages sid (k_id r) (Some (seg_replaces g))))
           (call_then (JournalCall (DeleteSessionSummaries sid (Some (seg_replaces g)))) save))"

fun write_segments :: "string \<Rightarrow> (session_summary \<times> compaction_segment) list \<Rightarrow> bool script" where
  "write_segments sid [] = Return True"
| "write_segments sid ((r, g) # rest) = write_segment sid r g (write_segments sid rest)"

definition summaries_changed :: "session_summary list \<Rightarrow> session_summary list \<Rightarrow> bool" where
  "summaries_changed current existing \<longleftrightarrow>
     map (\<lambda>s. (k_id s, sum_content s)) current \<noteq> map (\<lambda>s. (k_id s, sum_content s)) existing"

definition persist_script :: "string \<Rightarrow> session_summary list \<Rightarrow> string list \<Rightarrow> (session_summary \<times> compaction_segment) list \<Rightarrow> bool script" where
  "persist_script sid existing ids segments = Query (\<lambda>s.
     if summaries_changed (list_summaries sid s) existing then Throw (CallbackError ''History summaries changed during compaction'')
     else if ids \<noteq> [] \<and> map k_id (list_uncompacted sid (int (length ids)) s) \<noteq> ids then Return False
     else write_segments sid segments)"

subsection \<open>The compactor\<close>

datatype compaction_error = InvalidCompaction | PersistError store_error

record compaction_result =
  cres_compacted :: bool
  cres_summary :: "string option"
  cres_deferred :: "string option"

definition not_compacted :: compaction_result where
  "not_compacted = \<lparr> cres_compacted = False, cres_summary = None, cres_deferred = None \<rparr>"

definition compaction_trace :: "compactor \<Rightarrow> compactor_options \<Rightarrow> string \<Rightarrow> turn_message list \<Rightarrow> session_summary list \<Rightarrow> compaction_output
    \<Rightarrow> session_summary list \<Rightarrow> segment_walk \<Rightarrow> trace_row" where
  "compaction_trace c opts sid ms existing out records w =
     (let n = (\<lambda>k. JNum (rat_of_nat k)); summary_id = k_id (last records) in
      \<lparr> k_created = cp_now c, k_id = cp_uuid c (length records), row_session = sid, trc_type = ''context.compacted'',
         trc_trace = or_else (cpo_trace opts) summary_id, trc_turn = sum_end (last records),
         trc_payload = JObj [(''summaryId'', JStr summary_id), (''summaryIds'', JArr (map (\<lambda>r. JStr (k_id r)) records)),
           (''messagesCompacted'', n (length (wk_messages w))),
           (''tokenSavings'', n (sum_list (map (\<lambda>m. cp_estimate c (tmsg_content m)) (take (length (wk_messages w)) (untagged_messages ms))))),
           (''focusSections'', JArr (map JStr (js_add_all (concat (map sum_focus records)) []))),
           (''summariesMerged'', n (length (wk_replaced w))), (''summaryTokens'', n (wk_tokens w)),
           (''totalSummaryTokens'', n (wk_tokens w + sum_list (map (\<lambda>s. cp_estimate c (sum_content s)) (retained_summaries existing w)))),
           (''summaryTruncated'', JBool (list_ex (\<lambda>g. seg_truncated g = Some True) (co_summaries out)))] \<rparr>)"

text \<open>\<open>s0\<close> is the store when the summaries are read, \<open>s1\<close> the store when the transaction starts.\<close>

definition persist_compaction :: "schemas \<Rightarrow> compactor \<Rightarrow> compactor_options \<Rightarrow> string \<Rightarrow> turn_message list \<Rightarrow> session_summary list \<Rightarrow> compaction_output
    \<Rightarrow> session_summary list \<Rightarrow> segment_walk \<Rightarrow> memory_state \<Rightarrow> (compaction_error + compaction_result) \<times> memory_state" where
  "persist_compaction sc c opts sid ms existing out records w s1 =
     (case with_transaction (run_call sc) (persist_script sid existing (wk_messages w) (zip records (co_summaries out))) s1 of
        (Inl e, s2) \<Rightarrow> (Inl (PersistError e), s2)
      | (Inr persisted, s2) \<Rightarrow>
          if \<not> persisted then (Inr not_compacted, s2)
          else (Inr \<lparr> cres_compacted = True, cres_summary = Some (k_id (last records)), cres_deferred = co_deferred out \<rparr>,
            snd (run_call sc (RuntimeCall (AddTraceEvent (compaction_trace c opts sid ms existing out records w))) s2)))"

definition maybe_compact :: "schemas \<Rightarrow> compactor \<Rightarrow> compactor_options \<Rightarrow> string \<Rightarrow> string \<Rightarrow> turn_message list \<Rightarrow> memory_state \<Rightarrow> memory_state
    \<Rightarrow> (compaction_error + compaction_result) \<times> memory_state" where
  "maybe_compact sc c opts sid system ms s0 s1 =
     (let existing = list_summaries sid s0;
          estimate = estimated_history c system ms existing;
          budget = summary_budget_of (cp_window c)
      in if rat_of_nat estimate \<le> rat_of_nat (cp_window c) * or_else (cpo_threshold opts) (3 / 5) then (Inr not_compacted, s1)
         else case cp_compact c \<lparr> cr_messages = ms, cr_summaries = existing, cr_window = cp_window c,
                cr_input_window = or_else (cp_input_window c) (cp_window c), cr_budget = budget, cr_estimated = estimate,
                cr_locale = or_else (cpo_locale opts) ''zh-CN'' \<rparr> of
            None \<Rightarrow> (Inr not_compacted, s1)
          | Some out \<Rightarrow> (case check_output c sid budget existing ms out of
                None \<Rightarrow> (Inl InvalidCompaction, s1)
              | Some (records, w) \<Rightarrow> persist_compaction sc c opts sid ms existing out records w s1))"

subsection \<open>The stable sort, filters and maps\<close>

context js_comparator
begin

lemma filter_insert:
  "sorted_wrt (\<lambda>x y. cmp x y \<le> 0) ys \<Longrightarrow>
     filter P (js_insert cmp x ys) = (if P x then js_insert cmp x (filter P ys) else filter P ys)"
proof (induction ys)
  case (Cons y ys)
  have "js_insert cmp x (filter P ys) = x # filter P ys" if "cmp x y \<le> 0"
    using Cons.prems cmp_trans[OF that] by (intro insert_front) auto
  then show ?case using Cons by auto
qed simp

lemma filter_sort: "filter P (js_sort cmp xs) = js_sort cmp (filter P xs)"
  by (induction xs) (simp_all add: filter_insert sort_sorted)

end

lemma map_js_insert: "(\<And>x y. cmp (f x) (f y) = cmp x y) \<Longrightarrow> js_insert cmp (f x) (map f ys) = map f (js_insert cmp x ys)"
  by (induction ys) auto

lemma map_js_sort: "(\<And>x y. cmp (f x) (f y) = cmp x y) \<Longrightarrow> js_sort cmp (map f xs) = map f (js_sort cmp xs)"
  by (induction xs) (simp_all add: map_js_insert)

lemma turn_message_cmp_eq: "turn_message_cmp = then_cmp write_order_cmp
    (then_cmp (\<lambda>a b. tmsg_order a - tmsg_order b) (\<lambda>a b. compare_byte_order (units (k_id a)) (units (k_id b))))"
  by (intro ext) (auto simp: turn_message_cmp_def then_cmp_def write_order_cmp_def)

interpretation message_order: js_comparator turn_message_cmp
  unfolding turn_message_cmp_eq
  by (rule then_cmp_comparator[OF write_order.js_comparator_axioms then_cmp_comparator];
      unfold_locales; (use byte_order.cmp_swap byte_order.cmp_trans in blast)?) (auto simp: sgn_if)

subsection \<open>The history of a session\<close>

definition session_history :: "string \<Rightarrow> memory_state \<Rightarrow> turn_message list" where
  "session_history sid s = sort_turn_messages (in_session sid (mem_turn_messages s))"

definition compacted_prefix :: "string \<Rightarrow> memory_state \<Rightarrow> bool" where
  "compacted_prefix sid s \<longleftrightarrow>
     list_all (\<lambda>m. tmsg_compacted m = None) (dropWhile (\<lambda>m. tmsg_compacted m \<noteq> None) (session_history sid s))"

definition tags_live :: "string \<Rightarrow> memory_state \<Rightarrow> bool" where
  "tags_live sid s \<longleftrightarrow> list_all (\<lambda>m. case tmsg_compacted m of None \<Rightarrow> True
     | Some t \<Rightarrow> t \<in> k_id ` set (list_summaries sid s)) (session_history sid s)"

definition strip_tag :: "'a turn_message_scheme \<Rightarrow> 'a turn_message_scheme" where
  "strip_tag m = m\<lparr> tmsg_compacted := None \<rparr>"

text \<open>What the writes of a compaction do to the messages and the summaries.\<close>

definition retagging :: "string \<Rightarrow> string set \<Rightarrow> (stored_turn_message \<Rightarrow> stored_turn_message) \<Rightarrow> bool" where
  "retagging sid ids f \<longleftrightarrow> (\<forall>m. strip_tag (f m) = strip_tag m \<and> (row_session m \<noteq> sid \<longrightarrow> f m = m)
     \<and> (tmsg_compacted (f m) \<noteq> None \<longleftrightarrow> tmsg_compacted m \<noteq> None \<or> row_session m = sid \<and> k_id m \<in> ids))"

definition live :: "string \<Rightarrow> memory_state \<Rightarrow> bool" where
  "live sid s \<longleftrightarrow> (\<forall>m\<in>set (mem_turn_messages s). row_session m = sid \<longrightarrow>
     (\<forall>t. tmsg_compacted m = Some t \<longrightarrow> (\<exists>r\<in>set (mem_summaries s). row_session r = sid \<and> k_id r = t)))"

definition summary_writes :: "string \<Rightarrow> string set \<Rightarrow> memory_state \<Rightarrow> memory_state \<Rightarrow> bool" where
  "summary_writes sid ids s s' \<longleftrightarrow> (\<exists>f. retagging sid ids f \<and> mem_turn_messages s' = map f (mem_turn_messages s))
     \<and> delete_rows_by_session sid (mem_summaries s') = delete_rows_by_session sid (mem_summaries s)
     \<and> (live sid s \<longrightarrow> live sid s')"

lemma strip_tag_fields:
  assumes "strip_tag (a :: stored_turn_message) = strip_tag b"
  shows "k_created a = k_created b" "k_id a = k_id b" "row_session a = row_session b" "tmsg_order a = tmsg_order b"
  using assms by (cases a; cases b; simp add: strip_tag_def)+

lemma retagging_trans: "retagging sid a f \<Longrightarrow> retagging sid b g \<Longrightarrow> retagging sid (a \<union> b) (g \<circ> f)"
  unfolding retagging_def
proof (intro allI conjI impI)
  fix m
  assume f: "\<forall>m. strip_tag (f m) = strip_tag m \<and> (row_session m \<noteq> sid \<longrightarrow> f m = m)
     \<and> (tmsg_compacted (f m) \<noteq> None \<longleftrightarrow> tmsg_compacted m \<noteq> None \<or> row_session m = sid \<and> k_id m \<in> a)"
    and g: "\<forall>m. strip_tag (g m) = strip_tag m \<and> (row_session m \<noteq> sid \<longrightarrow> g m = m)
     \<and> (tmsg_compacted (g m) \<noteq> None \<longleftrightarrow> tmsg_compacted m \<noteq> None \<or> row_session m = sid \<and> k_id m \<in> b)"
  have "k_id (f m) = k_id m" "row_session (f m) = row_session m" using f by (auto dest: strip_tag_fields)
  with f[rule_format, of m] g[rule_format, of "f m"]
  show "strip_tag ((g \<circ> f) m) = strip_tag m" "row_session m \<noteq> sid \<Longrightarrow> (g \<circ> f) m = m"
    "tmsg_compacted ((g \<circ> f) m) \<noteq> None \<longleftrightarrow> tmsg_compacted m \<noteq> None \<or> row_session m = sid \<and> k_id m \<in> a \<union> b"
    by auto
qed

lemma summary_writes_refl: "summary_writes sid {} s s"
  by (auto simp: summary_writes_def retagging_def intro!: exI[of _ id])

lemma summary_writes_trans:
  assumes "summary_writes sid a s t" "summary_writes sid b t u"
  shows "summary_writes sid (a \<union> b) s u"
proof -
  obtain f g where "retagging sid a f" "mem_turn_messages t = map f (mem_turn_messages s)"
    "retagging sid b g" "mem_turn_messages u = map g (mem_turn_messages t)"
    using assms by (auto simp: summary_writes_def)
  then have "\<exists>h. retagging sid (a \<union> b) h \<and> mem_turn_messages u = map h (mem_turn_messages s)"
    using retagging_trans by (intro exI[of _ "g \<circ> f"]) auto
  then show ?thesis using assms by (auto simp: summary_writes_def)
qed

definition tag_with :: "string \<Rightarrow> string list \<Rightarrow> string list \<Rightarrow> string \<Rightarrow> stored_turn_message \<Rightarrow> stored_turn_message" where
  "tag_with sid olds ids new m = (if row_session m = sid \<and> (k_id m \<in> set ids \<or> (\<exists>t\<in>set olds. tmsg_compacted m = Some t))
     then m\<lparr> tmsg_compacted := Some new \<rparr> else m)"

lemma tag_with_cases:
  "tag_with sid olds ids new m = m \<or> tag_with sid olds ids new m = m\<lparr> tmsg_compacted := Some new \<rparr>"
  by (simp add: tag_with_def)

lemma retagging_tag_with: "retagging sid (set ids) (tag_with sid olds ids new)"
  by (auto simp: retagging_def tag_with_def strip_tag_def)

definition written :: "string \<Rightarrow> session_summary \<Rightarrow> compaction_segment \<Rightarrow> memory_state \<Rightarrow> memory_state" where
  "written sid r g s = s\<lparr>
     mem_summaries := filter (\<lambda>x. \<not> (row_session x = sid \<and> k_id x \<in> set (seg_replaces g))) (mem_summaries s) @ [r],
     mem_turn_messages := map (tag_with sid (seg_replaces g) (seg_messages g) (k_id r)) (mem_turn_messages s) \<rparr>"

lemma summary_writes_written:
  assumes "row_session r = sid"
  shows "summary_writes sid (set (seg_messages g)) s (written sid r g s)"
proof -
  have "live sid (written sid r g s)" if l: "live sid s"
    unfolding live_def
  proof (intro ballI impI allI)
    fix m' t
    assume m': "m' \<in> set (mem_turn_messages (written sid r g s))" "row_session m' = sid" "tmsg_compacted m' = Some t"
    then obtain m where m: "m \<in> set (mem_turn_messages s)" "m' = tag_with sid (seg_replaces g) (seg_messages g) (k_id r) m"
      by (auto simp: written_def)
    show "\<exists>x\<in>set (mem_summaries (written sid r g s)). row_session x = sid \<and> k_id x = t"
    proof (cases "t = k_id r")
      case False
      have tag: "tmsg_compacted m' = (if row_session m = sid \<and> (k_id m \<in> set (seg_messages g)
          \<or> (\<exists>t\<in>set (seg_replaces g). tmsg_compacted m = Some t)) then Some (k_id r) else tmsg_compacted m)"
        unfolding m(2) by (auto simp: tag_with_def)
      have sid: "row_session m = sid" using m'(2) unfolding m(2) by (simp add: tag_with_def split: if_splits)
      then have keep: "tmsg_compacted m = Some t" "t \<notin> set (seg_replaces g)"
        using tag m'(3) False by (auto split: if_splits)
      then obtain x where "x \<in> set (mem_summaries s)" "row_session x = sid" "k_id x = t"
        using l m(1) sid by (auto simp: live_def)
      then show ?thesis using keep(2) by (auto simp: written_def intro!: bexI[of _ x])
    qed (use assms in \<open>auto simp: written_def\<close>)
  qed
  moreover have "\<exists>f. retagging sid (set (seg_messages g)) f \<and> mem_turn_messages (written sid r g s) = map f (mem_turn_messages s)"
    using retagging_tag_with[of sid "seg_messages g" "seg_replaces g" "k_id r"]
    by (intro exI[of _ "tag_with sid (seg_replaces g) (seg_messages g) (k_id r)"]) (simp add: written_def)
  moreover have "delete_rows_by_session sid (mem_summaries (written sid r g s)) = delete_rows_by_session sid (mem_summaries s)"
    using assms by (auto simp: written_def delete_rows_by_session_def intro!: filter_cong)
  ultimately show ?thesis by (simp add: summary_writes_def)
qed

lemma retag_alt: "retag_turn_messages sid new (Some olds) s
    = (Inr NoValue, s\<lparr> mem_turn_messages := map (tag_with sid olds [] new) (mem_turn_messages s) \<rparr>)"
  by (auto simp: retag_turn_messages_def tag_with_def split: option.split)

lemma tag_alt: "tag_turn_messages sid ids new s
    = (Inr NoValue, s\<lparr> mem_turn_messages := map (tag_with sid [] ids new) (mem_turn_messages s) \<rparr>)"
  by (simp add: tag_turn_messages_def tag_with_def)

lemma call_then_run:
  "run_script base (call_then c next) ls s = (case base c s of
     (Inl e, s1) \<Rightarrow> (Inl e, on_touch s (method_name c) ls, s1)
   | (Inr _, s1) \<Rightarrow> run_script base next (on_touch s (method_name c) ls) s1)"
  by (simp add: call_then_def Let_def split: prod.split sum.split)

lemma save_summary_run:
  "run_script (run_call sc) (call_then (JournalCall (SaveSessionSummary r)) next) ls s = (Inr v, ls', s') \<Longrightarrow>
     \<exists>ls1. run_script (run_call sc) next ls1 (s\<lparr> mem_summaries := mem_summaries s @ [r] \<rparr>) = (Inr v, ls', s')"
  by (auto simp: call_then_run save_session_summary_def append_unique_row_def split: if_splits)

lemma tag_run:
  "\<exists>ls1. run_script (run_call sc) (if seg_messages g = [] then next
      else call_then (JournalCall (TagTurnMessagesCompacted sid (seg_messages g) new)) next) ls s
    = run_script (run_call sc) next ls1
        (s\<lparr> mem_turn_messages := map (tag_with sid [] (seg_messages g) new) (mem_turn_messages s) \<rparr>)"
proof (cases "seg_messages g = []")
  case True
  have "tag_with sid [] [] new = id" by (auto simp: tag_with_def)
  then show ?thesis using True by auto
next
  case False
  then show ?thesis by (auto simp: call_then_run tag_alt)
qed

lemma write_segment_run:
  assumes "run_script (run_call sc) (write_segment sid r g next) ls s = (Inr v, ls', s')"
  shows "\<exists>ls1. run_script (run_call sc) next ls1 (written sid r g s) = (Inr v, ls', s')"
proof -
  let ?tag = "if seg_messages g = [] then next
      else call_then (JournalCall (TagTurnMessagesCompacted sid (seg_messages g) (k_id r))) next"
  let ?save = "call_then (JournalCall (SaveSessionSummary r)) ?tag"
  let ?s1 = "s\<lparr> mem_turn_messages := map (tag_with sid (seg_replaces g) [] (k_id r)) (mem_turn_messages s),
     mem_summaries := filter (\<lambda>x. \<not> (row_session x = sid \<and> k_id x \<in> set (seg_replaces g))) (mem_summaries s) \<rparr>"
  have "\<exists>ls1. run_script (run_call sc) ?save ls1 ?s1 = (Inr v, ls', s')"
  proof (cases "seg_replaces g = []")
    case True
    have "tag_with sid [] [] (k_id r) = id" by (auto simp: tag_with_def)
    then show ?thesis using True assms by (auto simp: write_segment_def Let_def)
  next
    case False
    then show ?thesis using assms
      by (auto simp: write_segment_def Let_def call_then_run[where c = "JournalCall (RetagCompactedTurnMessages a b d)" for a b d]
        call_then_run[where c = "JournalCall (DeleteSessionSummaries a b)" for a b] retag_alt delete_session_summaries_def)
  qed
  then obtain ls1 where "run_script (run_call sc) ?save ls1 ?s1 = (Inr v, ls', s')" by blast
  from save_summary_run[OF this] obtain ls2 where
    "run_script (run_call sc) ?tag ls2 (?s1\<lparr> mem_summaries := mem_summaries ?s1 @ [r] \<rparr>) = (Inr v, ls', s')" by blast
  moreover obtain ls3 where "run_script (run_call sc) ?tag ls2 (?s1\<lparr> mem_summaries := mem_summaries ?s1 @ [r] \<rparr>)
    = run_script (run_call sc) next ls3 (?s1\<lparr> mem_summaries := mem_summaries ?s1 @ [r],
        mem_turn_messages := map (tag_with sid [] (seg_messages g) (k_id r)) (mem_turn_messages ?s1) \<rparr>)"
    using tag_run[of sc g "next" sid "k_id r" ls2 "?s1\<lparr> mem_summaries := mem_summaries ?s1 @ [r] \<rparr>"] by auto
  moreover have "tag_with sid [] (seg_messages g) (k_id r) \<circ> tag_with sid (seg_replaces g) [] (k_id r)
    = tag_with sid (seg_replaces g) (seg_messages g) (k_id r)"
    by (intro ext) (auto simp: tag_with_def)
  ultimately show ?thesis by (auto simp: written_def)
qed

lemma write_segments_run:
  "run_script (run_call sc) (write_segments sid segs) ls s = (Inr v, ls', s') \<Longrightarrow> \<forall>(r, g)\<in>set segs. row_session r = sid \<Longrightarrow>
     v \<and> summary_writes sid (\<Union>(r, g)\<in>set segs. set (seg_messages g)) s s'"
proof (induction sid segs arbitrary: ls s rule: write_segments.induct)
  case (1 sid)
  then show ?case using summary_writes_refl by simp
next
  case (2 sid r g rest)
  then obtain ls1 where "run_script (run_call sc) (write_segments sid rest) ls1 (written sid r g s) = (Inr v, ls', s')"
    using write_segment_run by (metis write_segments.simps(2))
  then have "v \<and> summary_writes sid (\<Union>(r, g)\<in>set rest. set (seg_messages g)) (written sid r g s) s'"
    using "2.IH" "2.prems"(2) by (metis (no_types, lifting) list.set_intros(2))
  moreover have "summary_writes sid (set (seg_messages g)) s (written sid r g s)"
    using "2.prems"(2) by (intro summary_writes_written) simp
  ultimately show ?case using summary_writes_trans by fastforce
qed

lemma write_segments_calls: "tx_calls_only (\<lambda>c. \<not> locks_model c) (write_segments sid segs)"
  by (induction sid segs rule: write_segments.induct)
    (auto simp: write_segment_def call_then_def Let_def locks_model_def split: sum.split)

lemma persist_calls: "tx_calls_only (\<lambda>c. \<not> locks_model c) (persist_script sid existing ids segs)"
  by (simp add: persist_script_def write_segments_calls)

text \<open>A transaction that throws, and one whose callback returns false.\<close>

lemma persist_fails:
  assumes "with_transaction (run_call sc) (persist_script sid existing ids segs) s = (r, s')" "r \<noteq> Inr True"
    "\<forall>(r, g)\<in>set segs. row_session r = sid"
  shows "mem_turn_messages s' = mem_turn_messages s \<and> mem_summaries s' = mem_summaries s"
proof (cases r)
  case (Inl e)
  note restored = plain.failed_transaction_restores[OF persist_calls assms(1)[unfolded Inl]]
  show ?thesis using restored[of KTurnMessages] restored[of KSummaries]
    by (simp add: all_snapshot_keys_def session_scoped_tables_def)
next
  case (Inr v)
  then show ?thesis using assms write_segments_run[of sc sid segs "[new_level]" s v]
    by (auto simp: with_transaction_def persist_script_def split: if_splits prod.splits)
qed

lemma persist_succeeds:
  assumes "with_transaction (run_call sc) (persist_script sid existing ids segs) s = (Inr True, s')"
    "\<forall>(r, g)\<in>set segs. row_session r = sid"
  shows "summary_writes sid (\<Union>(r, g)\<in>set segs. set (seg_messages g)) s s'
    \<and> (ids \<noteq> [] \<longrightarrow> map k_id (list_uncompacted sid (int (length ids)) s) = ids)"
  using assms write_segments_run[of sc sid segs "[new_level]" s True]
  by (auto simp: with_transaction_def persist_script_def split: if_splits prod.splits)

lemma segment_records_segments:
  "segment_records c sid budget existing untagged i gs w = Some (records, w') \<Longrightarrow>
     length records = length gs \<and> (\<forall>r\<in>set records. row_session r = sid)
     \<and> wk_messages w' = wk_messages w @ concat (map seg_messages gs)"
  by (induction gs arbitrary: i w records)
    (auto simp: segment_step_def segment_record_def Let_def split: if_splits option.splits list.splits)

lemma check_output_segments:
  assumes "check_output c sid budget existing ms out = Some (records, w)"
  shows "length records = length (co_summaries out)" "\<forall>r\<in>set records. row_session r = sid"
    "wk_messages w = concat (map seg_messages (co_summaries out))"
  using assms segment_records_segments by (auto simp: check_output_def Let_def split: if_splits option.splits; fastforce)+

text \<open>Marking the first messages of the untagged rest keeps the tagged ones in front.\<close>

lemma tagged_prefix:
  assumes "list_all (\<lambda>m. \<not> P m) (dropWhile P xs)" "\<And>m. m \<in> set xs \<Longrightarrow> Q (f m) \<longleftrightarrow> P m \<or> m \<in> set (take n (filter (\<lambda>m. \<not> P m) xs))"
    "distinct xs"
  shows "list_all (\<lambda>m. \<not> Q m) (dropWhile Q (map f xs))"
proof -
  define C U where "C = takeWhile P xs" "U = dropWhile P xs"
  have xs: "xs = C @ U" by (simp add: C_U_def)
  have C: "\<forall>m\<in>set C. P m" by (auto simp: C_U_def dest: set_takeWhileD)
  have U: "\<forall>m\<in>set U. \<not> P m" using assms(1) by (simp add: C_U_def list_all_iff)
  have rest: "filter (\<lambda>m. \<not> P m) xs = U" using C U by (simp add: xs filter_empty_conv)
  have cut: "xs = (C @ take n U) @ drop n U" using xs by simp
  have "\<forall>m\<in>set (C @ take n U). Q (f m)" using assms(2) C rest xs by auto (metis in_set_takeD)
  moreover have "\<forall>m\<in>set (drop n U). \<not> Q (f m)"
  proof
    fix m assume m: "m \<in> set (drop n U)"
    then have "m \<in> set U" by (rule in_set_dropD)
    moreover have "m \<notin> set (take n U)" using m assms(3) xs by (metis disjoint_iff distinct_append set_take_disj_set_drop_if_distinct order_refl)
    ultimately show "\<not> Q (f m)" using assms(2) U rest xs by auto
  qed
  moreover have "dropWhile Q (map f (drop n U)) = map f (drop n U)" if "\<forall>m\<in>set (drop n U). \<not> Q (f m)"
    using that by (cases "drop n U") auto
  ultimately have "dropWhile Q (map f (C @ take n U) @ map f (drop n U)) = map f (drop n U)"
    by (subst dropWhile_append2) auto
  then have "dropWhile Q (map f xs) = map f (drop n U)" using cut by (metis map_append)
  then show ?thesis using \<open>\<forall>m\<in>set (drop n U). \<not> Q (f m)\<close> by (simp add: list_all_iff)
qed

definition history_rows :: "string \<Rightarrow> memory_state \<Rightarrow> stored_turn_message list" where
  "history_rows sid s = js_sort turn_message_cmp (in_session sid (mem_turn_messages s))"

lemma tag_without_seq [simp]: "tmsg_compacted (without_write_seq r) = tmsg_compacted r" "k_id (without_write_seq r) = k_id r"
  by (simp_all add: without_write_seq_def turn_message.truncate_def)

lemma set_history_rows: "set (history_rows sid s) = {m \<in> set (mem_turn_messages s). row_session m = sid}"
  by (auto simp: history_rows_def in_session_def)

lemma compacted_prefix_rows:
  "compacted_prefix sid s \<longleftrightarrow>
     list_all (\<lambda>m. \<not> tmsg_compacted m \<noteq> None) (dropWhile (\<lambda>m. tmsg_compacted m \<noteq> None) (history_rows sid s))"
  by (simp add: compacted_prefix_def session_history_def sort_turn_messages_def history_rows_def dropWhile_map list_all_iff comp_def)

lemma tags_live_rows: "tags_live sid s \<longleftrightarrow> live sid s"
  by (auto simp: tags_live_def live_def session_history_def sort_turn_messages_def list_all_iff list_summaries_def
      sort_by_cursor_asc_def in_session_def image_iff split: option.splits)

lemma list_uncompacted_rows:
  "list_uncompacted sid (int n) s = map without_write_seq (take n (filter (\<lambda>m. \<not> tmsg_compacted m \<noteq> None) (history_rows sid s)))"
  by (simp add: list_uncompacted_def sort_turn_messages_def history_rows_def message_order.filter_sort js_slice_def
      slice_index_def take_map in_session_def Let_def min_def)

lemma history_rows_retagged:
  assumes "retagging sid ids f" "mem_turn_messages s' = map f (mem_turn_messages s)"
  shows "history_rows sid s' = map f (history_rows sid s)"
proof -
  have same: "strip_tag (f m) = strip_tag m" for m using assms(1) by (simp add: retagging_def)
  have "in_session sid (map f rows) = map f (in_session sid rows)" for rows
    using strip_tag_fields(3)[OF same] by (simp add: in_session_def filter_map comp_def)
  moreover have "turn_message_cmp (f x) (f y) = turn_message_cmp x y" for x y
    using strip_tag_fields[OF same] by (simp add: turn_message_cmp_def)
  ultimately show ?thesis by (simp add: history_rows_def assms(2) map_js_sort)
qed

lemma unique_rows: "unique_ids (mem_turn_messages s) \<Longrightarrow> inj_on k_id (set (history_rows sid s)) \<and> distinct (history_rows sid s)"
  by (auto simp: unique_ids_def distinct_map history_rows_def in_session_def intro: inj_on_subset)

lemma marked_rows:
  assumes "retagging sid (set ids) f" "mem_turn_messages s' = map f (mem_turn_messages s)" "unique_ids (mem_turn_messages s)"
    "ids \<noteq> [] \<longrightarrow> map k_id (list_uncompacted sid (int (length ids)) s) = ids"
    and m: "m \<in> set (history_rows sid s)"
  shows "tmsg_compacted (f m) \<noteq> None \<longleftrightarrow> tmsg_compacted m \<noteq> None
    \<or> m \<in> set (take (length ids) (filter (\<lambda>m. \<not> tmsg_compacted m \<noteq> None) (history_rows sid s)))"
proof -
  let ?marked = "take (length ids) (filter (\<lambda>m. \<not> tmsg_compacted m \<noteq> None) (history_rows sid s))"
  have ids: "set ids = k_id ` set ?marked"
    using assms(4) by (cases "ids = []") (simp_all add: list_uncompacted_rows comp_def flip: set_map)
  have sub: "set ?marked \<subseteq> set (history_rows sid s)" by (auto dest: in_set_takeD)
  have "k_id m \<in> set ids \<longleftrightarrow> m \<in> set ?marked"
    unfolding ids using inj_on_image_mem_iff[OF conjunct1[OF unique_rows[OF assms(3)]] m sub] .
  then show ?thesis using assms(1) m by (auto simp: retagging_def set_history_rows)
qed

lemma writes_keep_prefix:
  assumes "summary_writes sid (set ids) s s'" "unique_ids (mem_turn_messages s)" "compacted_prefix sid s"
    "ids \<noteq> [] \<longrightarrow> map k_id (list_uncompacted sid (int (length ids)) s) = ids"
  shows "compacted_prefix sid s'"
proof -
  obtain f where f: "retagging sid (set ids) f" "mem_turn_messages s' = map f (mem_turn_messages s)"
    using assms(1) by (auto simp: summary_writes_def)
  show ?thesis
    unfolding compacted_prefix_rows history_rows_retagged[OF f]
    by (rule tagged_prefix[where P = "\<lambda>m. tmsg_compacted m \<noteq> None", OF assms(3)[unfolded compacted_prefix_rows]])
      (use unique_rows[OF assms(2)] marked_rows[OF f assms(2,4)] in blast)+
qed

lemma untagged_rows: "untagged_messages (session_history sid s)
    = map without_write_seq (filter (\<lambda>m. \<not> tmsg_compacted m \<noteq> None) (history_rows sid s))"
  by (simp add: untagged_messages_def session_history_def sort_turn_messages_def history_rows_def filter_map comp_def)

lemma writes_tag_first:
  assumes "summary_writes sid (set ids) s s'" "unique_ids (mem_turn_messages s)"
    "ids \<noteq> [] \<longrightarrow> map k_id (list_uncompacted sid (int (length ids)) s) = ids"
  shows "\<exists>n. untagged_messages (session_history sid s') = drop n (untagged_messages (session_history sid s))"
proof -
  obtain f where f: "retagging sid (set ids) f" "mem_turn_messages s' = map f (mem_turn_messages s)"
    using assms(1) by (auto simp: summary_writes_def)
  let ?fresh = "filter (\<lambda>m. \<not> tmsg_compacted m \<noteq> None) (history_rows sid s)"
  let ?n = "length ids"
  have still: "tmsg_compacted (f m) = None \<longleftrightarrow> tmsg_compacted m = None \<and> m \<notin> set (take ?n ?fresh)"
    if "m \<in> set (history_rows sid s)" for m
    using marked_rows[OF f assms(2,3) that] by auto
  have same: "f m = m" if "tmsg_compacted (f m) = None" for m
  proof -
    have "strip_tag (f m) = strip_tag m" "tmsg_compacted m = None" using f(1) that unfolding retagging_def by metis+
    then show ?thesis using that by (cases m; cases "f m") (simp add: strip_tag_def)
  qed
  have "filter (\<lambda>m. \<not> tmsg_compacted m \<noteq> None) (map f (history_rows sid s)) = map f (filter (\<lambda>m. tmsg_compacted (f m) = None) (history_rows sid s))"
    by (simp add: filter_map comp_def)
  also have "\<dots> = filter (\<lambda>m. tmsg_compacted (f m) = None) (history_rows sid s)"
    by (intro map_idI) (use same in auto)
  also have "\<dots> = filter (\<lambda>m. m \<notin> set (take ?n ?fresh)) ?fresh"
    unfolding filter_filter by (rule filter_cong) (use still in auto)
  also have "\<dots> = drop ?n ?fresh"
  proof -
    have d: "distinct ?fresh" using unique_rows[OF assms(2)] by simp
    then have "\<forall>m\<in>set (drop ?n ?fresh). m \<notin> set (take ?n ?fresh)"
      using set_take_disj_set_drop_if_distinct[OF d order_refl] by blast
    then have "filter (\<lambda>m. m \<notin> set (take ?n ?fresh)) (take ?n ?fresh @ drop ?n ?fresh) = drop ?n ?fresh"
      by (simp del: append_take_drop_id add: filter_empty_conv filter_id_conv)
    then show ?thesis by simp
  qed
  finally have "filter (\<lambda>m. \<not> tmsg_compacted m \<noteq> None) (history_rows sid s') = drop ?n ?fresh"
    by (simp add: history_rows_retagged[OF f])
  then show ?thesis unfolding untagged_rows by (auto simp: drop_map)
qed

text \<open>What a compaction did: nothing to the history, or the writes of its segments.\<close>

lemma compaction_writes:
  assumes "maybe_compact sc c opts sid system ms s0 s1 = (r, s2)"
  obtains (kept) "mem_turn_messages s2 = mem_turn_messages s1" "mem_summaries s2 = mem_summaries s1"
    | (saved) ids res where "r = Inr res" "cres_compacted res" "summary_writes sid (set ids) s1 s2"
        "ids \<noteq> [] \<longrightarrow> map k_id (list_uncompacted sid (int (length ids)) s1) = ids"
proof -
  have trace: "mem_turn_messages (snd (run_call sc (RuntimeCall (AddTraceEvent t)) s)) = mem_turn_messages s"
    "mem_summaries (snd (run_call sc (RuntimeCall (AddTraceEvent t)) s)) = mem_summaries s" for t s
    by (simp_all add: add_trace_event_def split: sum.split)
  consider "s2 = s1" | out records w where "check_output c sid (summary_budget_of (cp_window c)) (list_summaries sid s0) ms out = Some (records, w)"
      "persist_compaction sc c opts sid ms (list_summaries sid s0) out records w s1 = (r, s2)"
    using assms by (auto simp: maybe_compact_def Let_def split: if_splits option.splits)
  then show thesis
  proof cases
    case 1
    then show ?thesis using kept by simp
  next
    case 2
    let ?segs = "zip records (co_summaries out)"
    note segs = check_output_segments[OF 2(1)]
    have owner: "\<forall>(r, g)\<in>set ?segs. row_session r = sid" using segs(2) by (auto dest: set_zip_leftD)
    have "(\<Union>(r, g)\<in>set ?segs. set (seg_messages g)) = (\<Union>g\<in>set (map snd ?segs). set (seg_messages g))" by auto
    then have ids: "(\<Union>(r, g)\<in>set ?segs. set (seg_messages g)) = set (wk_messages w)" using segs(1,3) by simp
    obtain p s where run: "with_transaction (run_call sc) (persist_script sid (list_summaries sid s0) (wk_messages w) ?segs) s1 = (p, s)"
      by fastforce
    show ?thesis
    proof (cases "p = Inr True")
      case False
      then show ?thesis using persist_fails[OF run False owner] 2(2) run kept
        by (auto simp: persist_compaction_def split: sum.splits if_splits)
    next
      case True
      from persist_succeeds[OF run[unfolded True] owner]
      have w: "summary_writes sid (set (wk_messages w)) s1 s"
        "wk_messages w \<noteq> [] \<longrightarrow> map k_id (list_uncompacted sid (int (length (wk_messages w))) s1) = wk_messages w"
        unfolding ids by blast+
      have "summary_writes sid (set (wk_messages w)) s1 s2"
        using w(1) 2(2) run True trace by (auto simp: persist_compaction_def summary_writes_def live_def split: sum.splits)
      moreover obtain res where "r = Inr res" "cres_compacted res"
        using 2(2) run True by (auto simp: persist_compaction_def)
      ultimately show ?thesis using saved[OF _ _ _ w(2)] by blast
    qed
  qed
qed

subsection \<open>The history after a compaction\<close>

text \<open>C36: The messages that summaries stand for are the oldest ones of a session: if in the log of the store the
  messages with a tag come before those without, and every tag names a stored summary, then both still hold
  after a compaction, however it ended and whatever the provider answered. The compaction changes
  nothing in a message but its tag, and no message and no summary of another session.\<close>

theorem compaction_keeps_prefix:
  assumes "maybe_compact sc c opts sid system ms s0 s1 = (r, s2)" "unique_ids (mem_turn_messages s1)"
    "compacted_prefix sid s1" "tags_live sid s1"
  shows "compacted_prefix sid s2 \<and> tags_live sid s2
    \<and> map strip_tag (mem_turn_messages s2) = map strip_tag (mem_turn_messages s1)
    \<and> delete_rows_by_session sid (mem_turn_messages s2) = delete_rows_by_session sid (mem_turn_messages s1)
    \<and> delete_rows_by_session sid (mem_summaries s2) = delete_rows_by_session sid (mem_summaries s1)"
  using assms(1)
proof (cases rule: compaction_writes)
  case kept
  have "tags_live sid s2" using assms(4) unfolding tags_live_rows live_def kept .
  moreover have "compacted_prefix sid s2" using assms(3) unfolding compacted_prefix_def session_history_def kept .
  ultimately show ?thesis using kept by simp
next
  case (saved ids res)
  obtain f where f: "retagging sid (set ids) f" "mem_turn_messages s2 = map f (mem_turn_messages s1)"
    using saved(3) by (auto simp: summary_writes_def)
  have "map strip_tag (mem_turn_messages s2) = map strip_tag (mem_turn_messages s1)"
    using f by (simp add: retagging_def)
  moreover have "delete_rows_by_session sid (map f rows) = delete_rows_by_session sid rows" for rows
    by (induction rows) (use f(1) in \<open>auto simp: retagging_def delete_rows_by_session_def dest: strip_tag_fields(3)\<close>)
  moreover have "tags_live sid s2" using saved(3) assms(4) by (simp add: tags_live_rows summary_writes_def)
  ultimately show ?thesis
    using writes_keep_prefix[OF saved(3) assms(2,3) saved(4)] saved(3) f(2) by (simp add: summary_writes_def)
qed

text \<open>A session with a summary of its first message; the provider rewrites that summary and adds another one.\<close>

definition said :: "string \<Rightarrow> int \<Rightarrow> string option \<Rightarrow> stored_turn_message" where
  "said i n tag = \<lparr> k_created = ''t'', k_id = i, row_session = ''s'', tmsg_turn = ''turn-'' @ i, tmsg_source = ''player'',
     tmsg_plugin = None, tmsg_runtime = None, tmsg_role = ''user'', tmsg_name = None, tmsg_content = ''text'', tmsg_ui = None,
     tmsg_pending = None, tmsg_order = n, tmsg_compacted = tag, tmsg_seq = n \<rparr>"

definition first_summary :: session_summary where
  "first_summary = \<lparr> k_created = ''t'', k_id = ''k'', row_session = ''s'', sum_start = ''turn-a'', sum_end = ''turn-a'',
     sum_content = ''old'', sum_focus = [] \<rparr>"

definition long_history :: memory_state where
  "long_history = create_memory_state\<lparr> mem_summaries := [first_summary],
     mem_turn_messages := [said ''c'' 3 None, said ''a'' 1 (Some ''k''), said ''b'' 2 None] \<rparr>"

definition sample_compactor :: "compaction_output option \<Rightarrow> compactor" where
  "sample_compactor out = \<lparr> cp_estimate = length, cp_window = 10, cp_input_window = None, cp_compact = (\<lambda>_. out),
     cp_uuid = (\<lambda>n. replicate (n + 1) CHR ''u''), cp_now = ''now'', cp_parse = (\<lambda>_. 0), cp_iso = (\<lambda>_. ''t1'') \<rparr>"

definition two_segments :: compaction_output where
  "two_segments = \<lparr> co_summaries = [
     \<lparr> seg_messages = [], seg_replaces = [''k''], seg_content = ''older'', seg_focus = [], seg_truncated = None \<rparr>,
     \<lparr> seg_messages = [''b''], seg_replaces = [], seg_content = ''more'', seg_focus = [], seg_truncated = None \<rparr>], co_deferred = None \<rparr>"

definition default_options :: compactor_options where
  "default_options = \<lparr> cpo_threshold = None, cpo_locale = None, cpo_trace = None \<rparr>"

abbreviation compact_sample :: "compaction_output option \<Rightarrow> (compaction_error + compaction_result) \<times> memory_state" where
  "compact_sample out \<equiv> maybe_compact any_schema (sample_compactor out) default_options ''s'' ''''
     (session_history ''s'' long_history) long_history long_history"

lemma compaction_keeps_prefix_witness:
  "compacted_prefix ''s'' (snd (compact_sample (Some two_segments))) \<and> tags_live ''s'' (snd (compact_sample (Some two_segments)))
    \<and> list_compacted_tags ''s'' (snd (compact_sample (Some two_segments))) = [(''a'', ''k''), (''b'', ''uu'')]"
proof -
  have "unique_ids (mem_turn_messages long_history)" "compacted_prefix ''s'' long_history" "tags_live ''s'' long_history"
    by code_simp+
  moreover have "list_compacted_tags ''s'' (snd (compact_sample (Some two_segments))) = [(''a'', ''k''), (''b'', ''uu'')]"
    by code_simp
  ultimately show ?thesis using compaction_keeps_prefix[OF prod.collapse[symmetric], where ?s1.0 = long_history
      and sc = any_schema and c = "sample_compactor (Some two_segments)" and opts = default_options and sid = "''s''"
      and system = "''''" and ms = "session_history ''s'' long_history" and ?s0.0 = long_history] by blast
qed

text \<open>C37: A compaction that was not needed, was refused or failed leaves the history alone: unless it answers
  that it compacted, no message and no summary of the store has changed. After one that did, the messages
  still without a tag are the last ones of those that had none.\<close>

theorem compaction_all_or_nothing:
  assumes "maybe_compact sc c opts sid system ms s0 s1 = (r, s2)" "unique_ids (mem_turn_messages s1)"
  shows "if \<exists>res. r = Inr res \<and> cres_compacted res
    then \<exists>n. untagged_messages (session_history sid s2) = drop n (untagged_messages (session_history sid s1))
    else mem_turn_messages s2 = mem_turn_messages s1 \<and> mem_summaries s2 = mem_summaries s1"
  using assms(1)
proof (cases rule: compaction_writes)
  case kept
  then have "untagged_messages (session_history sid s2) = drop 0 (untagged_messages (session_history sid s1))"
    by (simp add: session_history_def)
  then have "\<exists>n. untagged_messages (session_history sid s2) = drop n (untagged_messages (session_history sid s1))" by blast
  then show ?thesis using kept by presburger
next
  case (saved ids res)
  then show ?thesis using writes_tag_first[OF saved(3) assms(2) saved(4)] by auto
qed

lemma compaction_all_or_nothing_witness:
  "mem_summaries (snd (compact_sample (Some \<lparr> co_summaries = [], co_deferred = None \<rparr>))) = [first_summary]
    \<and> (\<exists>n. untagged_messages (session_history ''s'' (snd (compact_sample (Some two_segments))))
        = drop n (untagged_messages (session_history ''s'' long_history)))"
proof -
  have u: "unique_ids (mem_turn_messages long_history)" by code_simp
  have bad: "fst (compact_sample (Some \<lparr> co_summaries = [], co_deferred = None \<rparr>)) = Inl InvalidCompaction" by code_simp
  have "map_sum (\<lambda>_. ()) cres_compacted (fst (compact_sample (Some two_segments))) = Inr True" by code_simp
  then have ok: "\<exists>res. fst (compact_sample (Some two_segments)) = Inr res \<and> cres_compacted res"
    by (cases "fst (compact_sample (Some two_segments))") auto
  have "mem_summaries long_history = [first_summary]" by (simp add: long_history_def)
  then show ?thesis
    using compaction_all_or_nothing[OF prod.collapse[symmetric] u] bad ok by (metis (no_types, lifting) Inl_Inr_False)
qed

end
