(* ===== verification/RequestBudget.thy ===== *)
theory RequestBudget
  imports ContextBudget Digits
begin

text \<open>
  The budget of one provider request: the limits of the target (\<open>packages/shared/src/utils/llm-token-limits.ts\<close>),
  the fixed input and the fitting of the messages
  (\<open>packages/runtime/src/agent-loop/request-context-budget.ts\<close>), and the hint a retry appends
  (\<open>retryHint\<close> of \<open>packages/runtime/src/retry/retry-common.ts\<close>). The budget the model adapter resolves for a slot
  and the context policy of a loop are arguments. The text of an error is not modelled, its kind and its
  figures are.
\<close>

subsection \<open>The limits of the target\<close>

record target_budget =
  tgt_window :: "rat option"
  tgt_max_output :: "rat option"
  tgt_requested :: "rat option"

record token_options = target_budget +
  tgt_default_output :: "rat option"

record token_limits =
  tl_window :: rat
  tl_max_output :: rat

datatype limits_error = BadWindow | BadCapacity | BadRequested | NoInputSpace rat rat

definition safe_integer :: "rat \<Rightarrow> bool" where
  "safe_integer q = (integral q \<and> \<bar>q\<bar> \<le> 2 ^ 53 - 1)"

definition default_llm_context_window :: rat where
  "default_llm_context_window = 262144"

definition default_llm_output_tokens :: rat where
  "default_llm_output_tokens = 16384"

definition requested_output :: "token_options \<Rightarrow> rat \<Rightarrow> rat" where
  "requested_output o1 window = or_else (tgt_requested o1)
     (min (or_else (tgt_default_output o1) default_llm_output_tokens) (of_int \<lfloor>window / 2\<rfloor>))"

definition resolve_llm_token_limits :: "token_options \<Rightarrow> limits_error + token_limits" where
  "resolve_llm_token_limits o1 =
     (let window = or_else (tgt_window o1) default_llm_context_window; capacity = tgt_max_output o1;
          requested = requested_output o1 window
      in if \<not> safe_integer window \<or> window < 2 then Inl BadWindow
         else if (case capacity of None \<Rightarrow> False | Some c \<Rightarrow> \<not> safe_integer c \<or> c \<le> 0) then Inl BadCapacity
         else if \<not> safe_integer requested \<or> requested < 0 \<or> (tgt_requested o1 \<noteq> None \<and> requested = 0) then Inl BadRequested
         else let output = (case capacity of None \<Rightarrow> requested | Some c \<Rightarrow> min requested c)
           in if output \<ge> window then Inl (NoInputSpace output window)
              else Inr \<lparr> tl_window = window, tl_max_output = output \<rparr>)"

datatype invalid_limits = TokenLimits limits_error | BudgetLimits budget_error

definition resolve_request_budget :: "budget_options \<Rightarrow> target_budget option \<Rightarrow> invalid_limits + budget_options" where
  "resolve_request_budget base target =
     (let window = or_else (Option.bind target tgt_window) (bo_max_input base);
          window = (case bo_window_limit base of None \<Rightarrow> window | Some limit \<Rightarrow> min window limit)
      in case resolve_llm_token_limits \<lparr> tgt_window = Some window, tgt_max_output = Option.bind target tgt_max_output,
          tgt_requested = Option.bind target tgt_requested, tgt_default_output = bo_reserved base \<rparr> of
         Inl e \<Rightarrow> Inl (TokenLimits e)
       | Inr limits \<Rightarrow> (case resolve_budget_options (base\<lparr> bo_max_input := tl_window limits, bo_reserved := Some (tl_max_output limits) \<rparr>) of
           Inl e \<Rightarrow> Inl (BudgetLimits e)
         | Inr rb \<Rightarrow> Inr (base\<lparr> bo_max_input := of_int (rb_max_input rb), bo_reserved := Some (of_int (rb_reserved rb)),
             bo_protect := Some (of_int (rb_protect rb)) \<rparr>)))"

subsection \<open>The hint of a retry\<close>

datatype retry_reason = FirstTokenTimeout | IdleTimeout | CallTimeout | TransientError | ToolLoopDetected | OutputTruncated | UnknownReason

definition retry_hint :: "llm_env \<Rightarrow> nat \<Rightarrow> retry_reason option \<Rightarrow> string option \<Rightarrow> string" where
  "retry_hint env attempt reason locale = ''[retry '' @ show_nat attempt @ ''] '' @ instruction_text env locale (case reason of
       Some ToolLoopDetected \<Rightarrow>
         ''The previous attempt called the same tool repeatedly. Vary your approach, or finish as the instructions say.''
     | Some OutputTruncated \<Rightarrow>
         ''The previous attempt reached the output limit before it finished. Write only what the task needs, then finish as the instructions say.''
     | _ \<Rightarrow> ''The previous attempt did not complete. Do the task again and finish as the instructions say.'')
   @ replicate attempt CHR '' ''"

subsection \<open>Shortening a text\<close>

text \<open>The binary search for the longest head and tail; \<open>high\<close> may become \<open>- 1\<close>.\<close>

definition head_tail :: "string \<Rightarrow> string \<Rightarrow> nat \<Rightarrow> string" where
  "head_tail content marker keep = (let head = (keep + 1) div 2; tail = keep div 2 in
     take head content @ marker @ (if tail > 0 then drop (length content - tail) content else []))"

function head_tail_search :: "llm_env \<Rightarrow> string \<Rightarrow> string \<Rightarrow> nat \<Rightarrow> int \<Rightarrow> int \<Rightarrow> string \<Rightarrow> string" where
  "head_tail_search env content marker max_tokens low high best =
     (if low \<le> high
      then let keep = (low + high) div 2; candidate = head_tail content marker (nat keep)
        in if le_estimate env candidate \<le> max_tokens
           then head_tail_search env content marker max_tokens (keep + 1) high candidate
           else head_tail_search env content marker max_tokens low (keep - 1) best
      else best)"
  by auto
termination by (relation "measure (\<lambda>(env, content, marker, max_tokens, low, high, best). nat (high - low + 1))") auto

declare head_tail_search.simps [simp del]

definition truncate_content :: "llm_env \<Rightarrow> string \<Rightarrow> nat \<Rightarrow> string \<Rightarrow> string" where
  "truncate_content env content max_tokens marker =
     (if le_estimate env content \<le> max_tokens then content
      else if le_estimate env marker \<ge> max_tokens then trim_text marker
      else head_tail_search env content marker max_tokens 0 (int (length content)) marker)"

text \<open>The variables of the walk over the messages.\<close>

record truncation =
  tr_messages :: "llm_message list"
  tr_saved :: nat
  tr_count :: nat

definition truncate_one :: "llm_env \<Rightarrow> string \<Rightarrow> (llm_message \<Rightarrow> bool) \<Rightarrow> nat \<Rightarrow> llm_message \<Rightarrow> (llm_message \<times> nat) option" where
  "truncate_one env marker eligible remaining m = (case lm_content m of
     Parts _ \<Rightarrow> None
   | Plain content \<Rightarrow>
       (let original = le_estimate env content; minimum = le_estimate env marker in
        if \<not> eligible m \<or> original \<le> minimum then None
        else let text = truncate_content env content (max minimum (original - remaining - 1)) marker;
                 saved = original - le_estimate env text
          in if saved = 0 then None else Some (m\<lparr> lm_content := Plain text \<rparr>, saved)))"

fun truncate_all :: "llm_env \<Rightarrow> string \<Rightarrow> (llm_message \<Rightarrow> bool) \<Rightarrow> nat \<Rightarrow> llm_message list \<Rightarrow> truncation" where
  "truncate_all env marker eligible remaining [] = \<lparr> tr_messages = [], tr_saved = 0, tr_count = 0 \<rparr>"
| "truncate_all env marker eligible remaining (m # ms) =
     (if remaining = 0 then \<lparr> tr_messages = m # ms, tr_saved = 0, tr_count = 0 \<rparr>
      else case truncate_one env marker eligible remaining m of
        None \<Rightarrow> (let t = truncate_all env marker eligible remaining ms in t\<lparr> tr_messages := m # tr_messages t \<rparr>)
      | Some (m', saved) \<Rightarrow> (let t = truncate_all env marker eligible (remaining - saved) ms
          in \<lparr> tr_messages = m' # tr_messages t, tr_saved = saved + tr_saved t, tr_count = 1 + tr_count t \<rparr>))"

definition truncate_messages_to_fit :: "llm_env \<Rightarrow> llm_message list \<Rightarrow> int \<Rightarrow> string \<Rightarrow> (llm_message \<Rightarrow> bool) \<Rightarrow> truncation" where
  "truncate_messages_to_fit env msgs to_save marker eligible =
     (if to_save \<le> 0 then \<lparr> tr_messages = msgs, tr_saved = 0, tr_count = 0 \<rparr>
      else truncate_all env marker eligible (nat to_save) msgs)"

subsection \<open>The request\<close>

datatype trim_mode = NormalTrim | EmergencyTrim

record fit_context =
  fc_limit :: int
  fc_fixed :: nat
  fc_mode :: trim_mode

record fit_result =
  fit_messages :: "llm_message list"
  fit_elided :: nat
  fit_collapsed :: nat

record provider_request =
  rq_messages :: "llm_message list"
  rq_tools :: "json list option"
  rq_format :: "json option"
  rq_retries :: nat
  rq_locale :: "string option"
  rq_fit :: "(llm_message list \<Rightarrow> fit_context \<Rightarrow> fit_result) option"
  rq_trim :: "trim_mode option"

record overflow_details =
  od_estimated :: int
  od_limit :: int
  od_fixed :: nat
  od_system :: nat
  od_tools :: nat
  od_format :: nat
  od_messages :: int
  od_tool_saved :: nat
  od_summary_saved :: nat

datatype request_error = OverLimit overflow_details | InvalidLimits invalid_limits

record budgeted_request =
  bq_messages :: "llm_message list"
  bq_pruned :: nat
  bq_tool_results :: nat
  bq_summaries :: nat
  bq_max_output :: int
  bq_elided :: nat
  bq_collapsed :: nat

definition primary_system :: "llm_message list \<Rightarrow> llm_message list" where
  "primary_system msgs = (case msgs of [] \<Rightarrow> [] | m # ms \<Rightarrow> if lm_role m = RoleSystem then [m] else [])"

definition system_text :: "provider_request \<Rightarrow> string" where
  "system_text rq = (case primary_system (rq_messages rq) of [] \<Rightarrow> [] | m # _ \<Rightarrow> flatten_message_content (lm_content m))"

definition tools_text :: "llm_env \<Rightarrow> provider_request \<Rightarrow> string" where
  "tools_text env rq = (case rq_tools rq of None \<Rightarrow> [] | Some tools \<Rightarrow> if tools = [] then []
     else ''<tool_definitions>'' @ le_stringify env (JArr tools) @ ''</tool_definitions>'')"

definition format_text :: "llm_env \<Rightarrow> provider_request \<Rightarrow> string" where
  "format_text env rq = (let copy = (case rq_format rq of None \<Rightarrow> []
     | Some f \<Rightarrow> ''<response_format>'' @ le_stringify env f @ ''</response_format>'') in copy @ copy)"

definition fixed_input :: "llm_env \<Rightarrow> provider_request \<Rightarrow> string" where
  "fixed_input env rq = join_text newline (filter (\<lambda>t. t \<noteq> []) [system_text rq, tools_text env rq, format_text env rq,
     if rq_retries rq > 0 then retry_hint env (rq_retries rq) (Some ToolLoopDetected) (rq_locale rq) else []])"

definition tool_result_marker :: "llm_env \<Rightarrow> provider_request \<Rightarrow> string" where
  "tool_result_marker env rq = newline @ instruction_text env (rq_locale rq)
     ''...[tool result truncated; query a narrower scope if needed]...'' @ newline"

definition summary_marker :: "llm_env \<Rightarrow> provider_request \<Rightarrow> string" where
  "summary_marker env rq = newline @ instruction_text env (rq_locale rq)
     ''...[compacted history truncated; durable copy unchanged]...'' @ newline"

text \<open>The messages the budget works on, and what the policy of the loop makes of them.\<close>

definition fitted_messages :: "llm_env \<Rightarrow> provider_request \<Rightarrow> int \<Rightarrow> llm_message list \<times> nat \<times> nat" where
  "fitted_messages env rq limit =
     (let given = drop (length (primary_system (rq_messages rq))) (rq_messages rq) in
      case rq_fit rq of None \<Rightarrow> (given, 0, 0)
      | Some fit \<Rightarrow> (let f = fit given \<lparr> fc_limit = limit, fc_fixed = le_estimate env (fixed_input env rq),
            fc_mode = or_else (rq_trim rq) NormalTrim \<rparr> in (fit_messages f, fit_elided f, fit_collapsed f)))"

definition budget_provider_request :: "llm_env \<Rightarrow> provider_request \<Rightarrow> budget_options \<Rightarrow> request_error + budgeted_request" where
  "budget_provider_request env rq opts = (case resolve_budget_options opts of
     Inl e \<Rightarrow> Inl (InvalidLimits (BudgetLimits e))
   | Inr limits \<Rightarrow>
      (let fixed = fixed_input env rq; limit = rb_max_input limits - rb_reserved limits;
           (msgs, elided, collapsed) = fitted_messages env rq limit
       in case apply_budget env fixed msgs (opts\<lparr> bo_locale := rq_locale rq \<rparr>) of
            Inl e \<Rightarrow> Inl (InvalidLimits (BudgetLimits e))
          | Inr b \<Rightarrow>
             (let tools = truncate_messages_to_fit env (br_messages b) (br_total b - limit) (tool_result_marker env rq) (\<lambda>m. lm_role m = RoleTool);
                  after_tools = br_total b - int (tr_saved tools);
                  summaries = truncate_messages_to_fit env (tr_messages tools) (after_tools - limit) (summary_marker env rq) is_compacted_envelope;
                  total = after_tools - int (tr_saved summaries);
                  fixed_tokens = le_estimate env fixed
              in if total > limit
                 then Inl (OverLimit \<lparr> od_estimated = total, od_limit = limit, od_fixed = fixed_tokens,
                   od_system = le_estimate env (system_text rq), od_tools = le_estimate env (tools_text env rq),
                   od_format = le_estimate env (format_text env rq), od_messages = br_total b - int fixed_tokens,
                   od_tool_saved = tr_saved tools, od_summary_saved = tr_saved summaries \<rparr>)
                 else Inr \<lparr> bq_messages = primary_system (rq_messages rq) @ tr_messages summaries, bq_pruned = br_pruned b,
                   bq_tool_results = tr_count tools, bq_summaries = tr_count summaries, bq_max_output = rb_reserved limits,
                   bq_elided = elided, bq_collapsed = collapsed \<rparr>)))"

definition apply_per_call_budget :: "llm_env \<Rightarrow> provider_request \<Rightarrow> budget_options \<Rightarrow> target_budget option \<Rightarrow> request_error + budgeted_request" where
  "apply_per_call_budget env rq base target = (case resolve_request_budget base target of
     Inl e \<Rightarrow> Inl (InvalidLimits e)
   | Inr opts \<Rightarrow> budget_provider_request env rq opts)"

subsection \<open>What a shortened text keeps\<close>

text \<open>The invariant of the search: the best candidate fits, and with an estimator that grows with the number of
  characters kept, everything above \<open>high\<close> is too long and the best candidate is the one below \<open>low\<close>.\<close>

definition growing :: "llm_env \<Rightarrow> string \<Rightarrow> string \<Rightarrow> bool" where
  "growing env content marker \<longleftrightarrow> (\<forall>j\<le>length content. \<forall>i\<le>j.
     le_estimate env (head_tail content marker i) \<le> le_estimate env (head_tail content marker j))"

definition search_ok :: "llm_env \<Rightarrow> string \<Rightarrow> string \<Rightarrow> nat \<Rightarrow> int \<Rightarrow> int \<Rightarrow> string \<Rightarrow> bool" where
  "search_ok env content marker max_tokens low high best \<longleftrightarrow> 0 \<le> low \<and> low \<le> high + 1 \<and> high \<le> int (length content)
     \<and> best = head_tail content marker (nat (low - 1)) \<and> le_estimate env best \<le> max_tokens
     \<and> (growing env content marker \<longrightarrow> (\<forall>j. high < int j \<and> j \<le> length content \<longrightarrow> le_estimate env (head_tail content marker j) > max_tokens))"

lemma search_longest:
  "search_ok env content marker max_tokens low high best \<Longrightarrow>
     \<exists>h. search_ok env content marker max_tokens (h + 1) h (head_tail_search env content marker max_tokens low high best)"
proof (induction env content marker max_tokens low high best rule: head_tail_search.induct)
  case (1 env content marker max_tokens low high best)
  note ok = 1(3)[unfolded search_ok_def]
  show ?case
  proof (cases "low \<le> high")
    case False
    then have "low = high + 1" using ok by simp
    then show ?thesis using 1(3) False by (subst head_tail_search.simps) auto
  next
    case True
    let ?keep = "(low + high) div 2"
    have k: "low \<le> ?keep" "?keep \<le> high" using True by auto
    show ?thesis
    proof (cases "le_estimate env (head_tail content marker (nat ?keep)) \<le> max_tokens")
      case fits: True
      have "search_ok env content marker max_tokens (?keep + 1) high (head_tail content marker (nat ?keep))"
        using ok k fits by (auto simp: search_ok_def)
      then show ?thesis using 1(1)[OF True refl refl fits] True fits by (subst head_tail_search.simps) (simp add: Let_def)
    next
      case long: False
      have "le_estimate env (head_tail content marker j) > max_tokens"
        if "growing env content marker" "?keep - 1 < int j" "j \<le> length content" for j
      proof -
        have "nat ?keep \<le> j" using that(2) by simp
        then have "le_estimate env (head_tail content marker (nat ?keep)) \<le> le_estimate env (head_tail content marker j)"
          using that(1,3) by (simp add: growing_def)
        then show ?thesis using long by simp
      qed
      then have "search_ok env content marker max_tokens low (?keep - 1) best"
        using ok k by (auto simp: search_ok_def)
      then show ?thesis using 1(2)[OF True refl refl long] True long by (subst head_tail_search.simps) (simp add: Let_def)
    qed
  qed
qed

lemma head_tail_0: "head_tail content marker 0 = marker"
  by (simp add: head_tail_def)

text \<open>A text that is too long, with a marker that fits, is cut to a head and a tail around the marker that fit
  under the wanted estimate. If keeping more characters never lowers the estimate, no longer head and tail
  would have fit.\<close>

lemma truncation_keeps_most:
  assumes "le_estimate env content > max_tokens" "le_estimate env marker < max_tokens"
  shows "\<exists>k\<le>length content. truncate_content env content max_tokens marker = head_tail content marker k
    \<and> le_estimate env (head_tail content marker k) \<le> max_tokens
    \<and> (growing env content marker \<longrightarrow> (\<forall>j. k < j \<and> j \<le> length content \<longrightarrow> le_estimate env (head_tail content marker j) > max_tokens))"
proof -
  have "search_ok env content marker max_tokens 0 (int (length content)) marker"
    using assms(2) by (simp add: search_ok_def head_tail_0)
  from search_longest[OF this] obtain h where h: "search_ok env content marker max_tokens (h + 1) h
      (head_tail_search env content marker max_tokens 0 (int (length content)) marker)" by blast
  have t: "truncate_content env content max_tokens marker = head_tail_search env content marker max_tokens 0 (int (length content)) marker"
    using assms by (simp add: truncate_content_def)
  have "h < int j" if "nat h < j" for j using that by simp
  then show ?thesis unfolding t using h by (intro exI[of _ "nat h"]) (auto simp: search_ok_def)
qed

definition twenty :: string where
  "twenty = ''abcdefghijklmnopqrst''"

subsection \<open>What the truncations save\<close>

lemma truncate_one_saves:
  assumes "truncate_one env marker eligible remaining m = Some (m', saved)"
  shows "estimate_message_tokens env m' + saved = estimate_message_tokens env m"
    and "lm_role m' = lm_role m \<and> lm_tool_calls m' = lm_tool_calls m \<and> lm_tool_call_id m' = lm_tool_call_id m"
proof -
  obtain content short where c: "lm_content m = Plain content" "m' = m\<lparr> lm_content := Plain short \<rparr>"
      "saved = le_estimate env content - le_estimate env short" "saved \<noteq> 0"
    using assms by (auto simp: truncate_one_def Let_def split: msg_content.splits if_splits)
  have "auxiliary_fields m' = auxiliary_fields m" by (simp add: auxiliary_fields_def c(2))
  then show "estimate_message_tokens env m' + saved = estimate_message_tokens env m"
    using c by (simp add: estimate_message_tokens_def flatten_message_content_def Let_def)
  show "lm_role m' = lm_role m \<and> lm_tool_calls m' = lm_tool_calls m \<and> lm_tool_call_id m' = lm_tool_call_id m"
    by (simp add: c(2))
qed

definition call_shape :: "llm_message \<Rightarrow> llm_role \<times> llm_tool_call list option \<times> string option" where
  "call_shape m = (lm_role m, lm_tool_calls m, lm_tool_call_id m)"

lemma truncate_all_saves:
  "estimated env (tr_messages (truncate_all env marker eligible remaining ms)) + int (tr_saved (truncate_all env marker eligible remaining ms))
     = estimated env ms \<and> map call_shape (tr_messages (truncate_all env marker eligible remaining ms)) = map call_shape ms"
proof (induction env marker eligible remaining ms rule: truncate_all.induct)
  case (2 env marker eligible remaining m ms)
  show ?case
  proof (cases "remaining = 0 \<or> truncate_one env marker eligible remaining m = None")
    case True
    then show ?thesis using 2(1) by (auto simp: Let_def)
  next
    case False
    then obtain m' saved where one: "truncate_one env marker eligible remaining m = Some (m', saved)" "remaining \<noteq> 0" by auto
    from truncate_one_saves[OF one(1)] have "int (estimate_message_tokens env m) = int (estimate_message_tokens env m') + int saved"
      "call_shape m' = call_shape m" by (simp_all add: call_shape_def flip: of_nat_add)
    then show ?thesis using one 2(2)[OF one(2,1) refl] by (simp add: Let_def)
  qed
qed simp

lemma truncate_saves:
  assumes "t = truncate_messages_to_fit env ms to_save marker eligible"
  shows "estimated env (tr_messages t) + int (tr_saved t) = estimated env ms" "map call_shape (tr_messages t) = map call_shape ms"
  using truncate_all_saves by (simp_all add: assms truncate_messages_to_fit_def)

lemma estimate_without_system:
  "drop (length (primary_system ms)) (primary_system ms @ ns) = ns"
  by (simp add: primary_system_def split: list.split)

lemma resolved_integral:
  assumes "resolve_budget_options opts = Inr rb"
  shows "of_int (rb_max_input rb) = bo_max_input opts \<and> of_int (rb_reserved rb) = or_else (bo_reserved opts) 4000
    \<and> 0 \<le> rb_reserved rb \<and> rb_reserved rb < rb_max_input rb"
proof -
  have i: "of_int \<lfloor>q\<rfloor> = q" if "integral q" for q
  proof -
    obtain a b where q: "quotient_of q = (a, b)" by fastforce
    then have "q = of_int a" using that quotient_of_div[OF q] by (simp add: integral_def)
    then show ?thesis by simp
  qed
  have a: "integral (bo_max_input opts)" "integral (or_else (bo_reserved opts) 4000)" "or_else (bo_reserved opts) 4000 \<ge> 0"
    "or_else (bo_reserved opts) 4000 < bo_max_input opts" "rb = \<lparr> rb_max_input = \<lfloor>bo_max_input opts\<rfloor>,
       rb_reserved = \<lfloor>or_else (bo_reserved opts) 4000\<rfloor>, rb_protect = \<lfloor>or_else (bo_protect opts) 1\<rfloor> \<rparr>"
    using assms by (auto simp: resolve_budget_options_def Let_def split: if_splits)
  have e: "of_int (rb_max_input rb) = bo_max_input opts" "of_int (rb_reserved rb) = or_else (bo_reserved opts) 4000"
    using a(5) i[OF a(1)] i[OF a(2)] by simp_all
  have "(of_int (rb_reserved rb) :: rat) < of_int (rb_max_input rb)" "(0 :: rat) \<le> of_int (rb_reserved rb)"
    unfolding e using a(4,3) .
  then have "rb_reserved rb < rb_max_input rb" "0 \<le> rb_reserved rb" by simp_all
  then show ?thesis using e by blast
qed

text \<open>The window of the target under the limit of the deployment.\<close>

definition request_window :: "budget_options \<Rightarrow> target_budget option \<Rightarrow> rat" where
  "request_window base target = (let window = or_else (Option.bind target tgt_window) (bo_max_input base) in
     case bo_window_limit base of None \<Rightarrow> window | Some limit \<Rightarrow> min window limit)"

lemma request_budget_window:
  assumes "resolve_request_budget base target = Inr opts"
  shows "bo_max_input opts = request_window base target"
proof -
  obtain tl rb where tl: "resolve_llm_token_limits \<lparr> tgt_window = Some (request_window base target),
      tgt_max_output = Option.bind target tgt_max_output, tgt_requested = Option.bind target tgt_requested,
      tgt_default_output = bo_reserved base \<rparr> = Inr tl"
    and rb: "resolve_budget_options (base\<lparr> bo_max_input := tl_window tl, bo_reserved := Some (tl_max_output tl) \<rparr>) = Inr rb"
    and o: "bo_max_input opts = of_int (rb_max_input rb)"
    using assms by (auto simp: resolve_request_budget_def request_window_def Let_def split: sum.splits)
  have "tl_window tl = request_window base target"
    using tl by (auto simp: resolve_llm_token_limits_def Let_def split: if_splits option.splits)
  then show ?thesis using o resolved_integral[OF rb] by simp
qed

text \<open>The request before the truncations: what the budget pass made of the fitted messages.\<close>

lemma budget_provider_cases:
  assumes "budget_provider_request env rq opts = res" "resolve_budget_options opts = Inr rb"
    and f: "fitted_messages env rq (rb_max_input rb - rb_reserved rb) = (msgs, elided, collapsed)"
    and b: "apply_budget env (fixed_input env rq) msgs (opts\<lparr> bo_locale := rq_locale rq \<rparr>) = Inr b"
  obtains (fits) r out where "res = Inr r" "bq_messages r = primary_system (rq_messages rq) @ out"
      "int (le_estimate env (fixed_input env rq)) + estimated env out \<le> rb_max_input rb - rb_reserved rb"
      "map call_shape out = map call_shape (br_messages b)" "bq_max_output r = rb_reserved rb"
    | (over) d out where "res = Inl (OverLimit d)" "od_estimated d = int (le_estimate env (fixed_input env rq)) + estimated env out"
      "map call_shape out = map call_shape (br_messages b)" "od_limit d = rb_max_input rb - rb_reserved rb" "od_estimated d > od_limit d"
      "od_estimated d = int (od_fixed d) + od_messages d - int (od_tool_saved d) - int (od_summary_saved d)"
proof -
  let ?limit = "rb_max_input rb - rb_reserved rb"
  define t where "t = truncate_messages_to_fit env (br_messages b) (br_total b - ?limit) (tool_result_marker env rq) (\<lambda>m. lm_role m = RoleTool)"
  define u where "u = truncate_messages_to_fit env (tr_messages t) (br_total b - int (tr_saved t) - ?limit) (summary_marker env rq) is_compacted_envelope"
  have "resolve_budget_options (opts\<lparr> bo_locale := rq_locale rq \<rparr>) = Inr rb"
    using assms(2) by (simp add: resolve_budget_options_def)
  from apply_budget_form[OF b this] have total: "br_total b = int (le_estimate env (fixed_input env rq)) + estimated env (br_messages b)"
    by (auto simp: budget_form_def)
  have u': "br_total b - int (tr_saved t) - int (tr_saved u) = int (le_estimate env (fixed_input env rq)) + estimated env (tr_messages u)"
    "map call_shape (tr_messages u) = map call_shape (br_messages b)"
    using total truncate_saves[OF t_def] truncate_saves[OF u_def] by simp_all
  show thesis
  proof (cases "br_total b - int (tr_saved t) - int (tr_saved u) > ?limit")
    case True
    then show ?thesis using over[of _ "tr_messages u"] assms(1,2) f b u'
      by (auto simp: budget_provider_request_def Let_def t_def u_def)
  next
    case False
    then show ?thesis using fits[of _ "tr_messages u"] assms(1,2) f b u'
      by (auto simp: budget_provider_request_def Let_def t_def u_def)
  qed
qed

subsection \<open>A request fits, or the error says by how much it does not\<close>

text \<open>C29: A provider request that is returned fits: it is the primary system message and other messages, and the
  estimate of the fixed input and of those messages, plus the output reserved for the answer, is within the
  window of the target and the limit of the deployment. A request that is refused as too long carries an
  estimate above its limit, and that estimate is what the parts it lists add up to, less what the
  truncations saved.\<close>

theorem request_within_window:
  "case apply_per_call_budget env rq base target of
     Inr r \<Rightarrow> (\<exists>out. bq_messages r = primary_system (rq_messages rq) @ out
       \<and> rat_of_int (int (le_estimate env (fixed_input env rq)) + estimated env out + bq_max_output r) \<le> request_window base target)
   | Inl (OverLimit d) \<Rightarrow> od_estimated d > od_limit d
       \<and> od_estimated d = int (od_fixed d) + od_messages d - int (od_tool_saved d) - int (od_summary_saved d)
   | Inl (InvalidLimits e) \<Rightarrow> True"
proof (cases "resolve_request_budget base target")
  case (Inl e)
  then show ?thesis by (simp add: apply_per_call_budget_def)
next
  case (Inr opts)
  then have res: "apply_per_call_budget env rq base target = budget_provider_request env rq opts"
    by (simp add: apply_per_call_budget_def)
  note window = request_budget_window[OF Inr]
  show ?thesis
  proof (cases "resolve_budget_options opts")
    case (Inl e)
    then show ?thesis by (simp add: res budget_provider_request_def)
  next
    case rb: (Inr rb)
    obtain msgs elided collapsed where f: "fitted_messages env rq (rb_max_input rb - rb_reserved rb) = (msgs, elided, collapsed)"
      by (metis prod_cases3)
    show ?thesis
    proof (cases "apply_budget env (fixed_input env rq) msgs (opts\<lparr> bo_locale := rq_locale rq \<rparr>)")
      case (Inl e)
      then show ?thesis using rb f by (simp add: res budget_provider_request_def Let_def)
    next
      case b: (Inr b)
      from refl rb f b show ?thesis
      proof (cases rule: budget_provider_cases)
        case (fits r out)
        have "rat_of_int (int (le_estimate env (fixed_input env rq)) + estimated env out + bq_max_output r) \<le> rat_of_int (rb_max_input rb)"
          using fits(3,5) by (simp only: of_int_le_iff)
        then have "rat_of_int (int (le_estimate env (fixed_input env rq)) + estimated env out + bq_max_output r) \<le> request_window base target"
          using resolved_integral[OF rb] window by simp
        then show ?thesis using fits(1,2) by (auto simp: res)
      next
        case (over d out)
        then show ?thesis by (simp add: res)
      qed
    qed
  qed
qed

subsection \<open>The hint a retry appends\<close>

definition perturb_messages :: "llm_env \<Rightarrow> llm_message list \<Rightarrow> nat \<Rightarrow> retry_reason option \<Rightarrow> string option \<Rightarrow> llm_message list" where
  "perturb_messages env msgs attempt reason locale =
     (if attempt = 0 then msgs else msgs @ [marker_message (retry_hint env attempt reason locale)])"

end
