(* ===== verification/Retry.thy ===== *)
theory Retry
  imports RequestBudget
begin

text \<open>
  Bounded retries of a model call: the budget every transport attempt of a call shares
  (\<open>packages/shared/src/llm-request-budget.ts\<close>), the reasons a generation ends
  (\<open>packages/shared/src/llm-finish-reason.ts\<close>), the retry policy and the classes of errors
  (\<open>packages/runtime/src/retry/retry-common.ts\<close>), and the two retry loops (\<open>callLLMWithRetry\<close> and
  \<open>streamLLMWithRetry\<close> of \<open>llm-retry.ts\<close>). Times are whole milliseconds. What an attempt meets is an argument: the
  clock, the abort signals, the time spent queued, the transport attempts of the adapter, and its answer,
  all of which may depend on the messages sent. Trace events are not modelled.
\<close>

subsection \<open>The budget of a request\<close>

record request_budget =
  qb_max :: int
  qb_attempts :: int
  qb_deadline :: int
  qb_idle :: "int option"
  qb_ceiling :: int

record request_options =
  qo_max :: "int option"
  qo_timeout :: "int option"
  qo_deadline :: "int option"
  qo_idle :: "int option"
  qo_ceiling :: "int option"

datatype request_option_error = BadAttempts | BadTimeout | BadIdle | BadCeiling

definition min_opt :: "int \<Rightarrow> int option \<Rightarrow> int" where
  "min_opt t limit = (case limit of None \<Rightarrow> t | Some l \<Rightarrow> min t l)"

definition create_request_budget :: "request_options \<Rightarrow> int \<Rightarrow> request_option_error + request_budget" where
  "create_request_budget o1 now =
     (let attempts = or_else (qo_max o1) 8; timeout = or_else (qo_timeout o1) 120000;
          fixed = (qo_timeout o1 \<noteq> None \<or> qo_deadline o1 \<noteq> None);
          idle = (case qo_idle o1 of Some t \<Rightarrow> Some t | None \<Rightarrow> if fixed then None else Some 120000);
          ceiling = or_else (qo_ceiling o1) (30 * 60000);
          deadline = min_opt (now + timeout) (qo_deadline o1)
      in if \<bar>attempts\<bar> > 2 ^ 53 - 1 \<or> attempts < 1 then Inl BadAttempts
         else if timeout \<le> 0 then Inl BadTimeout
         else if (case idle of None \<Rightarrow> False | Some t \<Rightarrow> t \<le> 0) then Inl BadIdle
         else if ceiling \<le> 0 then Inl BadCeiling
         else Inr \<lparr> qb_max = attempts, qb_attempts = 0, qb_deadline = deadline, qb_idle = idle,
           qb_ceiling = (if idle = None then deadline else max deadline (min_opt (now + ceiling) (qo_deadline o1))) \<rparr>)"

definition note_progress :: "int \<Rightarrow> request_budget \<Rightarrow> request_budget" where
  "note_progress now b = (case qb_idle b of None \<Rightarrow> b
   | Some idle \<Rightarrow> let next = min (now + idle) (qb_ceiling b) in if next > qb_deadline b then b\<lparr> qb_deadline := next \<rparr> else b)"

datatype spent_reason = AttemptsSpent | DeadlinePassed

text \<open>The checks on the clock and the attempts; an aborted signal is thrown before them.\<close>

definition assert_request_budget :: "int \<Rightarrow> bool \<Rightarrow> bool \<Rightarrow> request_budget \<Rightarrow> spent_reason + request_budget" where
  "assert_request_budget now require consume b =
     (if now \<ge> qb_deadline b then Inl DeadlinePassed
      else if (require \<or> consume) \<and> qb_attempts b \<ge> qb_max b then Inl AttemptsSpent
      else Inr (if consume then b\<lparr> qb_attempts := qb_attempts b + 1 \<rparr> else b))"

subsection \<open>Why a generation ended\<close>

datatype finish_reason = FinishStop | FinishLength | FinishToolCalls | FinishContentFilter | FinishError | FinishOther

definition unified_reasons :: "(string \<times> finish_reason) list" where
  "unified_reasons = map (\<lambda>w. (w, FinishStop)) [''stop'', ''end_turn'', ''stop_sequence'', ''complete'', ''completed'']
   @ map (\<lambda>w. (w, FinishLength)) [''length'', ''max_tokens'', ''max_output_tokens'', ''model_length'',
       ''model_context_window_exceeded'', ''error_limit'']
   @ map (\<lambda>w. (w, FinishToolCalls)) [''tool_calls'', ''tool_call'', ''tool_use'', ''function_call'']
   @ map (\<lambda>w. (w, FinishContentFilter)) [''content_filter'', ''refusal'', ''safety'', ''recitation'', ''blocklist'',
       ''prohibited_content'', ''spii'', ''image_safety'', ''error_toxic'']
   @ map (\<lambda>w. (w, FinishError)) [''error'', ''malformed_function_call'']"

definition lower_char :: "char \<Rightarrow> char" where
  "lower_char c = (let n = (of_char c :: nat) in if 65 \<le> n \<and> n \<le> 90 then char_of (n + 32) else c)"

definition lower_text :: "string \<Rightarrow> string" where
  "lower_text t = map lower_char t"

definition unify_finish_reason :: "string option \<Rightarrow> finish_reason" where
  "unify_finish_reason raw = (case truthy raw of None \<Rightarrow> FinishStop
   | Some word \<Rightarrow> or_else (map_of unified_reasons
       (map (\<lambda>c. if c = CHR ''-'' then CHR ''_'' else c) (lower_text (trim_text word)))) FinishOther)"

definition is_complete_finish :: "finish_reason \<Rightarrow> bool" where
  "is_complete_finish r \<longleftrightarrow> r = FinishStop \<or> r = FinishToolCalls"

subsection \<open>Errors\<close>

datatype provider_code = MissingApiKey | Refusal | RequestBudgetExceeded | RateLimited | SchemaValidationFailed | ProviderFailed | ConfigError

text \<open>
  An error of the gateway, with the finish reason among its details and with what \<open>classifyProviderFailure\<close>
  says of it: whether the account is at fault.
\<close>

record provider_error =
  pe_code :: provider_code
  pe_retriable :: bool
  pe_status :: "int option"
  pe_finish :: "string option"
  pe_account :: bool
  pe_message :: string

text \<open>Any other error; \<open>er_status\<close> is its \<open>statusCode\<close>, or its \<open>status\<close> when that is no number.\<close>

record plain_error =
  er_name :: string
  er_message :: string
  er_code :: "string option"
  er_status :: "int option"
  er_retryable :: "bool option"

datatype llm_error = BudgetError spent_reason int | ProviderError provider_error | PlainError plain_error
  | RetryError retry_reason nat llm_error

definition error_named :: "string \<Rightarrow> llm_error" where
  "error_named message = PlainError \<lparr> er_name = ''Error'', er_message = message, er_code = None, er_status = None, er_retryable = None \<rparr>"

definition truncated_message :: string where
  "truncated_message = ''Model output reached the output limit and was truncated. Increase the maximum output tokens or choose another model, then retry this task.''"

definition stopped_message :: "string option \<Rightarrow> string" where
  "stopped_message reason = ''The model stopped before it finished its answer (finish reason: '' @ or_else reason ''undefined''
     @ ''). Retry this task or choose another model.''"

text \<open>The error of a response that may not be used; a refused one has the code of a refusal.\<close>

definition require_complete_output :: "string option \<Rightarrow> llm_error + finish_reason" where
  "require_complete_output reason =
     (let unified = unify_finish_reason reason;
          stopped = \<lparr> pe_code = ProviderFailed, pe_retriable = False, pe_status = None, pe_finish = None, pe_account = False, pe_message = [] \<rparr>
      in if is_complete_finish unified then Inr unified
         else if unified = FinishError then Inl (error_named ''PROVIDER_ERROR: model generation ended with an error'')
         else if unified = FinishLength then Inl (ProviderError (stopped\<lparr> pe_finish := Some ''length'', pe_message := truncated_message \<rparr>))
         else if unified = FinishContentFilter then Inl (ProviderError (stopped\<lparr> pe_code := Refusal, pe_message := stopped_message reason, pe_finish := Some ''content_filter'' \<rparr>))
         else Inl (ProviderError (stopped\<lparr> pe_finish := Some ''other'', pe_message := stopped_message reason \<rparr>)))"

definition is_output_truncated :: "llm_error \<Rightarrow> bool" where
  "is_output_truncated e = (case e of ProviderError p \<Rightarrow> pe_finish p = Some ''length'' | _ \<Rightarrow> False)"

definition is_terminal_error :: "llm_error \<Rightarrow> bool" where
  "is_terminal_error e = (case e of BudgetError _ _ \<Rightarrow> True
   | ProviderError p \<Rightarrow> pe_code p = Refusal \<or> pe_code p = RequestBudgetExceeded | _ \<Rightarrow> False)"

fun includes_text :: "string \<Rightarrow> string \<Rightarrow> bool" where
  "includes_text [] sub = (sub = [])"
| "includes_text (c # t) sub = (starts_with (c # t) sub \<or> includes_text t sub)"

definition is_word_char :: "char \<Rightarrow> bool" where
  "is_word_char c = (let n = (of_char c :: nat) in is_digit c \<or> (65 \<le> n \<and> n \<le> 90) \<or> (97 \<le> n \<and> n \<le> 122) \<or> c = CHR ''_'')"

text \<open>The first three digits behind the word \<open>http\<close>: the match of \<open>\b http (\d{3})\b\<close> on one line.\<close>

definition http_here :: "string \<Rightarrow> nat option" where
  "http_here t = (let code = take 3 (drop 5 t); rest = drop 8 t in
     if starts_with t ''http '' \<and> length code = 3 \<and> list_all is_digit code \<and> (rest = [] \<or> \<not> is_word_char (hd rest))
     then read_nat code else None)"

fun http_status :: "bool \<Rightarrow> string \<Rightarrow> nat option" where
  "http_status in_word [] = None"
| "http_status in_word (c # t) = (case (if in_word then None else http_here (c # t)) of
     Some n \<Rightarrow> Some n | None \<Rightarrow> http_status (is_word_char c) t)"

definition transient_text :: "string \<Rightarrow> bool" where
  "transient_text message = (let m = lower_text message in
     list_ex (includes_text m) [''abort'', ''timeout'', ''timed out'', ''econnreset'', ''econnrefused'', ''socket hang up'', ''network'',
       ''fetch failed'', ''rate_limited'', ''rate limit'', ''provider_error'']
     \<or> (case http_status False m of None \<Rightarrow> False | Some n \<Rightarrow> 500 \<le> n \<and> n < 600))"

definition structured_transience :: "plain_error \<Rightarrow> bool option" where
  "structured_transience e = (case er_retryable e of Some b \<Rightarrow> Some b
   | None \<Rightarrow> (case er_status e of Some n \<Rightarrow> Some (n = 408 \<or> n = 409 \<or> n = 429 \<or> n \<ge> 500)
     | None \<Rightarrow> if er_name e \<in> set [''AbortError'', ''TimeoutError''] then Some True
         else if (case er_code e of None \<Rightarrow> False | Some c \<Rightarrow> c \<in> set [''ECONNRESET'', ''ECONNREFUSED'', ''ETIMEDOUT'', ''EPIPE'',
             ''UND_ERR_SOCKET'', ''UND_ERR_CONNECT_TIMEOUT'', ''UND_ERR_HEADERS_TIMEOUT'', ''UND_ERR_BODY_TIMEOUT'']) then Some True
         else None))"

definition transient_provider :: "provider_error \<Rightarrow> bool" where
  "transient_provider p =
     (if pe_code p \<in> set [ConfigError, SchemaValidationFailed, Refusal, RequestBudgetExceeded] then False
      else if pe_account p then False
      else if pe_status p = Some 429 then True
      else if (case pe_status p of None \<Rightarrow> False | Some n \<Rightarrow> 400 \<le> n \<and> n < 500) then False
      else pe_code p = RateLimited \<or> pe_retriable p)"

definition is_transient_error :: "llm_error \<Rightarrow> bool" where
  "is_transient_error e = (case e of BudgetError _ _ \<Rightarrow> False
   | ProviderError p \<Rightarrow> \<not> is_terminal_error e \<and> transient_provider p
   | RetryError _ _ cause \<Rightarrow> \<not> is_terminal_error cause
   | PlainError p \<Rightarrow> or_else (structured_transience p) (transient_text (er_message p)))"

subsection \<open>The policy of a runtime\<close>

record retry_policy =
  rp_retries :: nat
  rp_call_timeout :: int
  rp_first_token :: int
  rp_first_fixed :: bool
  rp_idle :: int
  rp_loop :: int

record retry_input =
  ri_retries :: "int option"
  ri_call_timeout :: "int option"
  ri_first_token :: "int option"
  ri_idle :: "int option"
  ri_loop :: "int option"
  ri_runtime_timeout :: int

definition clamp :: "int \<Rightarrow> int \<Rightarrow> int \<Rightarrow> int" where
  "clamp n lo hi = max lo (min hi n)"

definition build_retry_policy :: "retry_input \<Rightarrow> retry_policy" where
  "build_retry_policy i =
     (let retries = clamp (or_else (ri_retries i) 1) 0 5;
          share = ri_runtime_timeout i div (retries + 1);
          derived = max 5000 (min 60000 share)
      in \<lparr> rp_retries = nat retries,
           rp_call_timeout = (case ri_call_timeout i of Some t \<Rightarrow> max 1 t | None \<Rightarrow> derived),
           rp_first_token = max 1000 (or_else (ri_first_token i) 120000),
           rp_first_fixed = (ri_first_token i \<noteq> None),
           rp_idle = max 1000 (or_else (ri_idle i) 120000),
           rp_loop = max 0 (or_else (ri_loop i) 3) \<rparr>)"

definition stall_wait_ms :: "int \<Rightarrow> int \<Rightarrow> rat" where
  "stall_wait_ms remaining attempts_left =
     (if attempts_left \<le> 1 then of_int remaining
      else max (of_int remaining / of_int attempts_left) (min 60000 (of_int remaining / 2)))"

definition first_token_wait_ms :: "retry_policy \<Rightarrow> int \<Rightarrow> int \<Rightarrow> int" where
  "first_token_wait_ms p attempts_left remaining =
     (if rp_first_fixed p then rp_first_token p
      else max 1000 (min (rp_first_token p) \<lfloor>stall_wait_ms remaining attempts_left\<rfloor>))"

definition compute_deadline_budget :: "int \<Rightarrow> int \<Rightarrow> int" where
  "compute_deadline_budget now deadline = (if deadline - now \<le> 0 then 0 else max 1000 (deadline - now))"

definition compute_attempt_budget :: "retry_policy \<Rightarrow> int \<Rightarrow> int \<Rightarrow> int" where
  "compute_attempt_budget p now deadline = min (rp_call_timeout p) (compute_deadline_budget now deadline)"

text \<open>The last \<open>threshold\<close> calls are the same call.\<close>

definition detect_tool_loop :: "(string \<times> string) list \<Rightarrow> int \<Rightarrow> bool" where
  "detect_tool_loop calls threshold =
     (if threshold \<le> 0 \<or> int (length calls) < threshold then False
      else let recent = drop (length calls - nat threshold) calls in list_all (\<lambda>c. c = hd recent) recent)"

subsection \<open>One attempt\<close>

text \<open>
  What an attempt meets: the clock and the signals when it starts, the time it queued for a slot, the times at
  which its stream wrote, the transport attempts the adapter spent, its answer or error, and the signals and the clock
  after it. \<open>ae_scope\<close> is the reason for which the scope of the request was aborted; \<open>ae_guard\<close> says which
  guard of this module cut the attempt off, and whether the model had already written.
\<close>

datatype stream_guard = CallGuard | FirstTokenGuard | IdleGuard

record 'r attempt_env =
  ae_now :: int
  ae_aborted :: bool
  ae_scope :: "llm_error option"
  ae_waited :: int
  ae_outputs :: "int list"
  ae_sent :: int
  ae_answer :: "llm_error + 'r"
  ae_guard :: "(stream_guard \<times> bool) option"
  ae_aborted_after :: bool
  ae_scope_after :: "llm_error option"
  ae_now_after :: int

text \<open>The time a failed stream wrote, from its first output to its last.\<close>

definition streamed_ms :: "'r attempt_env \<Rightarrow> int" where
  "streamed_ms env = (if ae_outputs env = [] then 0 else last (ae_outputs env) - hd (ae_outputs env))"

text \<open>A response without its usage, diagnostics and continuation, which the loop only hands on.\<close>

record llm_response =
  lr_content :: "string option"
  lr_tool_calls :: "llm_tool_call list"
  lr_finish :: string
  lr_raw_finish :: "string option"
  lr_reasoning :: "string option"

definition timeout_text :: "string \<Rightarrow> bool" where
  "timeout_text message = (let m = lower_text message in includes_text m ''timeout'' \<or> includes_text m ''timed out'')"

definition reason_word :: "retry_reason \<Rightarrow> string" where
  "reason_word r = (case r of FirstTokenTimeout \<Rightarrow> ''first-token-timeout'' | IdleTimeout \<Rightarrow> ''idle-timeout''
     | CallTimeout \<Rightarrow> ''call-timeout'' | TransientError \<Rightarrow> ''transient-error'' | ToolLoopDetected \<Rightarrow> ''tool-loop-detected''
     | OutputTruncated \<Rightarrow> ''output-truncated'' | UnknownReason \<Rightarrow> ''unknown'')"

text \<open>The message of an error; the message of a retry error names its cause.\<close>

fun error_message :: "llm_error \<Rightarrow> string" where
  "error_message (BudgetError AttemptsSpent n) = ''LLM request exhausted its '' @ show_nat (nat n) @ '' transport attempts''"
| "error_message (BudgetError DeadlinePassed n) = ''LLM request deadline exceeded''"
| "error_message (ProviderError p) = pe_message p"
| "error_message (PlainError p) = er_message p"
| "error_message (RetryError r n cause) =
     (let base = (if r = UnknownReason then ''LLM call failed after '' @ show_nat n @ '' attempt(s)''
          else ''LLM retry exhausted after '' @ show_nat n @ '' attempt(s) ('' @ reason_word r @ '')'')
      in if error_message cause = [] then base else base @ '': '' @ error_message cause)"

definition is_call_timeout :: "llm_error \<Rightarrow> bool \<Rightarrow> bool" where
  "is_call_timeout e timed_out =
     (if is_terminal_error e then False else if timed_out then True
      else case e of ProviderError _ \<Rightarrow> False
        | PlainError p \<Rightarrow> er_name p = ''TimeoutError'' \<or> timeout_text (er_message p)
        | _ \<Rightarrow> timeout_text (error_message e))"

definition call_reason :: "'r attempt_env \<Rightarrow> llm_error \<Rightarrow> retry_reason" where
  "call_reason env e =
     (if is_output_truncated e then OutputTruncated
      else if is_call_timeout e (ae_guard env \<noteq> None) then CallTimeout
      else if is_transient_error e then TransientError else UnknownReason)"

definition stream_reason :: "'r attempt_env \<Rightarrow> llm_error \<Rightarrow> retry_reason" where
  "stream_reason env e =
     (if is_output_truncated e then OutputTruncated
      else case ae_guard env of
        Some (FirstTokenGuard, _) \<Rightarrow> FirstTokenTimeout
      | Some (IdleGuard, _) \<Rightarrow> IdleTimeout
      | Some (CallGuard, seen) \<Rightarrow> if \<not> seen then FirstTokenTimeout else CallTimeout
      | None \<Rightarrow> if is_transient_error e then TransientError else UnknownReason)"

subsection \<open>The loop\<close>

text \<open>
  The variables of the loop, and the attempts made so far: the number, the messages sent and, when the attempt
  failed and was retried, its error. A transport attempt is counted when it is sent.
\<close>

record sent_attempt =
  sat_number :: nat
  sat_messages :: "llm_message list"
  sat_reason :: "retry_reason option"

record retry_state =
  rt_deadline :: int
  rt_budget :: request_budget
  rt_error :: llm_error
  rt_reason :: retry_reason
  rt_truncations :: nat
  rt_sent :: "sent_attempt list"

datatype 'a call_end = Answered 'a nat | TurnAborted | CallFailed llm_error

datatype 'a attempt_step = Ended "'a call_end" retry_state | Again retry_state

record 'r retry_config =
  rc_env :: llm_env
  rc_policy :: retry_policy
  rc_messages :: "llm_message list"
  rc_locale :: "string option"
  rc_classify :: "'r attempt_env \<Rightarrow> llm_error \<Rightarrow> retry_reason"
  rc_meet :: "nat \<Rightarrow> llm_message list \<Rightarrow> 'r attempt_env"

definition budget_check :: "int \<Rightarrow> llm_error option \<Rightarrow> request_budget \<Rightarrow> llm_error option" where
  "budget_check now scope b = (case scope of Some e \<Rightarrow> Some e
   | None \<Rightarrow> (case assert_request_budget now True False b of Inl r \<Rightarrow> Some (BudgetError r (qb_max b)) | Inr _ \<Rightarrow> None))"

text \<open>The guards at the head of an attempt.\<close>

definition attempt_refused :: "'r attempt_env \<Rightarrow> nat \<Rightarrow> retry_state \<Rightarrow> 'a call_end option" where
  "attempt_refused env attempt st =
     (if ae_aborted env then Some TurnAborted
      else case budget_check (ae_now env) (ae_scope env) (rt_budget st) of
        Some e \<Rightarrow> Some (CallFailed e)
      | None \<Rightarrow> if ae_now env \<ge> rt_deadline st then Some (CallFailed (RetryError CallTimeout attempt (rt_error st))) else None)"

text \<open>A failed attempt: it ends the call, or the loop goes on.\<close>

definition after_failure :: "'r retry_config \<Rightarrow> 'r attempt_env \<Rightarrow> nat \<Rightarrow> llm_error \<Rightarrow> retry_state \<Rightarrow> 'a attempt_step" where
  "after_failure cfg env attempt e st =
     (if ae_aborted_after env then Ended TurnAborted st
      else case ae_scope_after env of Some reason \<Rightarrow> Ended (CallFailed reason) st
      | None \<Rightarrow> if is_terminal_error e then Ended (CallFailed e) st
        else let truncations = (if is_output_truncated e then rt_truncations st + 1 else rt_truncations st);
                 reason = rc_classify cfg env e
          in if attempt \<ge> rp_retries (rc_policy cfg) \<or> reason = UnknownReason \<or> truncations > 1
             then Ended (CallFailed (RetryError reason (attempt + 1) e)) st
             else (case budget_check (ae_now_after env) None (rt_budget st) of
                 Some b \<Rightarrow> Ended (CallFailed b) st
               | None \<Rightarrow> Again (st\<lparr> rt_deadline := rt_deadline st + streamed_ms env, rt_error := e, rt_reason := reason,
                   rt_truncations := truncations,
                   rt_sent := butlast (rt_sent st) @ [(last (rt_sent st))\<lparr> sat_reason := Some reason \<rparr>] \<rparr>)))"

definition attempt_messages :: "'r retry_config \<Rightarrow> nat \<Rightarrow> retry_state \<Rightarrow> llm_message list" where
  "attempt_messages cfg attempt st = perturb_messages (rc_env cfg) (rc_messages cfg) attempt (Some (rt_reason st)) (rc_locale cfg)"

definition run_attempt :: "'r retry_config \<Rightarrow> ('r \<Rightarrow> llm_error + 'a) \<Rightarrow> nat \<Rightarrow> retry_state \<Rightarrow> 'a attempt_step" where
  "run_attempt cfg accept attempt st =
     (let messages = attempt_messages cfg attempt st; env = rc_meet cfg attempt messages in
      case attempt_refused env attempt st of
        Some e \<Rightarrow> Ended e st
      | None \<Rightarrow>
         (let st1 = st\<lparr> rt_deadline := rt_deadline st + ae_waited env,
              rt_budget := fold note_progress (ae_outputs env) ((rt_budget st)\<lparr> qb_attempts := qb_attempts (rt_budget st) + ae_sent env \<rparr>),
              rt_sent := rt_sent st @ [\<lparr> sat_number = attempt, sat_messages = messages, sat_reason = None \<rparr>] \<rparr>
          in case (case ae_answer env of Inl e \<Rightarrow> Inl e | Inr r \<Rightarrow> accept r) of
               Inl e \<Rightarrow> after_failure cfg env attempt e st1
             | Inr a \<Rightarrow> if ae_aborted_after env then Ended TurnAborted st1 else Ended (Answered a attempt) st1))"

fun retry_loop :: "'r retry_config \<Rightarrow> ('r \<Rightarrow> llm_error + 'a) \<Rightarrow> nat \<Rightarrow> nat \<Rightarrow> retry_state \<Rightarrow> 'a call_end \<times> retry_state" where
  "retry_loop cfg accept 0 attempt st =
     (CallFailed (RetryError (rt_reason st) (rp_retries (rc_policy cfg) + 1) (rt_error st)), st)"
| "retry_loop cfg accept (Suc left) attempt st = (case run_attempt cfg accept attempt st of
     Ended e st' \<Rightarrow> (e, st') | Again st' \<Rightarrow> retry_loop cfg accept left (attempt + 1) st')"

record call_start =
  cs_aborted :: bool
  cs_now :: int
  cs_deadline :: int
  cs_budget :: request_budget

definition start_retries :: "'r retry_config \<Rightarrow> ('r \<Rightarrow> llm_error + 'a) \<Rightarrow> string \<Rightarrow> call_start \<Rightarrow> 'a call_end \<times> retry_state" where
  "start_retries cfg accept message cs =
     (let st = \<lparr> rt_deadline = cs_deadline cs, rt_budget = cs_budget cs, rt_error = error_named message, rt_reason = UnknownReason,
            rt_truncations = 0, rt_sent = [] \<rparr>
      in if cs_aborted cs then (TurnAborted, st)
         else if cs_now cs \<ge> cs_deadline cs then (CallFailed (RetryError CallTimeout 0 (rt_error st)), st)
         else case assert_request_budget (cs_now cs) False False (cs_budget cs) of
           Inl r \<Rightarrow> (CallFailed (BudgetError r (qb_max (cs_budget cs))), st)
         | Inr _ \<Rightarrow> retry_loop cfg accept (rp_retries (rc_policy cfg) + 1) 0 st)"

subsection \<open>Plain calls and streams\<close>

definition accept_response :: "llm_response \<Rightarrow> llm_error + llm_response" where
  "accept_response r = (case require_complete_output (case lr_raw_finish r of Some raw \<Rightarrow> Some raw | None \<Rightarrow> Some (lr_finish r)) of
     Inl e \<Rightarrow> Inl e | Inr _ \<Rightarrow> Inr r)"

definition call_llm_with_retry :: "llm_response retry_config \<Rightarrow> call_start \<Rightarrow> llm_response call_end \<times> retry_state" where
  "call_llm_with_retry cfg cs =
     start_retries (cfg\<lparr> rc_classify := call_reason, rc_meet := (\<lambda>n ms. (rc_meet cfg n ms)\<lparr> ae_outputs := [] \<rparr>) \<rparr>)
       accept_response ''retry loop did not execute'' cs"

datatype stream_event = TextDelta string | ReasoningDelta string | ToolArgumentDelta | StreamReset
  | ToolCallEvent llm_tool_call | DoneEvent string "string option" "string option"

record stream_buffer =
  sb_content :: string
  sb_reasoning :: string
  sb_calls :: "llm_tool_call list"
  sb_finish :: "finish_reason option"
  sb_raw :: "string option"

fun buffer_stream :: "stream_event list \<Rightarrow> stream_buffer \<Rightarrow> llm_error + stream_buffer" where
  "buffer_stream [] b = Inr b"
| "buffer_stream (TextDelta t # es) b = buffer_stream es (b\<lparr> sb_content := sb_content b @ t \<rparr>)"
| "buffer_stream (ReasoningDelta t # es) b = buffer_stream es (b\<lparr> sb_reasoning := sb_reasoning b @ t \<rparr>)"
| "buffer_stream (ToolArgumentDelta # es) b = buffer_stream es b"
| "buffer_stream (StreamReset # es) b = buffer_stream es b"
| "buffer_stream (ToolCallEvent c # es) b = buffer_stream es (b\<lparr> sb_calls := sb_calls b @ [c] \<rparr>)"
| "buffer_stream (DoneEvent finish raw reasoning # es) b =
     (case require_complete_output (case raw of Some r \<Rightarrow> Some r | None \<Rightarrow> Some finish) of
        Inl e \<Rightarrow> Inl e
      | Inr f \<Rightarrow> buffer_stream es (b\<lparr> sb_finish := Some f, sb_raw := raw,
          sb_reasoning := (case truthy reasoning of None \<Rightarrow> sb_reasoning b | Some t \<Rightarrow> t) \<rparr>))"

definition finish_word :: "finish_reason \<Rightarrow> string" where
  "finish_word f = (case f of FinishStop \<Rightarrow> ''stop'' | FinishLength \<Rightarrow> ''length'' | FinishToolCalls \<Rightarrow> ''tool_calls''
     | FinishContentFilter \<Rightarrow> ''content_filter'' | FinishError \<Rightarrow> ''error'' | FinishOther \<Rightarrow> ''other'')"

text \<open>The events of a stream and the error that broke it off, if one did.\<close>

definition accept_stream :: "stream_event list \<times> llm_error option \<Rightarrow> llm_error + llm_response" where
  "accept_stream s = (case buffer_stream (fst s) \<lparr> sb_content = [], sb_reasoning = [], sb_calls = [], sb_finish = None, sb_raw = None \<rparr> of
     Inl e \<Rightarrow> Inl e
   | Inr b \<Rightarrow> (case snd s of Some e \<Rightarrow> Inl e
     | None \<Rightarrow> (case sb_finish b of
         None \<Rightarrow> Inl (error_named ''PROVIDER_ERROR: model stream ended without a terminal event'')
       | Some f \<Rightarrow> Inr \<lparr> lr_content = truthy (Some (sb_content b)), lr_tool_calls = sb_calls b, lr_finish = finish_word f,
           lr_raw_finish = truthy (sb_raw b), lr_reasoning = truthy (Some (sb_reasoning b)) \<rparr>)))"

definition stream_llm_with_retry :: "(stream_event list \<times> llm_error option) retry_config \<Rightarrow> call_start \<Rightarrow> llm_response call_end \<times> retry_state" where
  "stream_llm_with_retry cfg cs = start_retries (cfg\<lparr> rc_classify := stream_reason \<rparr>) accept_stream ''stream retry loop did not execute'' cs"

subsection \<open>What the loop sends\<close>

text \<open>The messages of attempt \<open>i\<close>: the given ones, and a hint that names the attempt and why the one before failed.\<close>

definition sent_as :: "'r retry_config \<Rightarrow> sent_attempt list \<Rightarrow> nat \<Rightarrow> llm_message list" where
  "sent_as cfg sent i = (case i of 0 \<Rightarrow> rc_messages cfg
     | Suc j \<Rightarrow> rc_messages cfg @ [marker_message (retry_hint (rc_env cfg) i (sat_reason (sent ! j)) (rc_locale cfg))])"

definition attempts_ok :: "'r retry_config \<Rightarrow> sent_attempt list \<Rightarrow> bool" where
  "attempts_ok cfg sent \<longleftrightarrow> length sent \<le> rp_retries (rc_policy cfg) + 1
     \<and> (\<forall>i<length sent. sat_number (sent ! i) = i \<and> sat_messages (sent ! i) = sent_as cfg sent i)
     \<and> list_all (\<lambda>a. sat_reason a \<noteq> None \<and> sat_reason a \<noteq> Some UnknownReason) (butlast sent)
     \<and> length (filter (\<lambda>a. sat_reason a = Some OutputTruncated) sent) \<le> 1"

lemma show_nat_prefix: "show_nat m @ CHR '']'' # t = show_nat n @ CHR '']'' # u \<Longrightarrow> m = n"
proof -
  assume e: "show_nat m @ CHR '']'' # t = show_nat n @ CHR '']'' # u"
  have "takeWhile is_digit (show_nat k @ CHR '']'' # v) = show_nat k" for k v
    using show_nat_digits[of k] by (simp add: takeWhile_append list_all_iff is_digit_def)
  then have "show_nat m = show_nat n" using e by metis
  then show ?thesis by simp
qed

lemma hint_names_attempt: "retry_hint env m r locale = retry_hint env n r' locale' \<Longrightarrow> m = n"
  by (auto simp: retry_hint_def dest: show_nat_prefix)

lemma marker_inject [simp]: "marker_message s = marker_message t \<longleftrightarrow> s = t"
  by (simp add: marker_message_def)

lemma sent_as_inject: "sent_as cfg sent i = sent_as cfg sent j \<Longrightarrow> i = j"
  by (auto simp: sent_as_def split: nat.splits dest: hint_names_attempt)

lemma attempts_distinct:
  assumes "attempts_ok cfg sent"
  shows "distinct (map sat_messages sent)"
  using assms by (auto simp: attempts_ok_def distinct_conv_nth dest: sent_as_inject)

text \<open>The invariant at the head of attempt \<open>n\<close>: as many attempts were sent, all failed with a known reason.\<close>

definition retry_inv :: "'r retry_config \<Rightarrow> nat \<Rightarrow> retry_state \<Rightarrow> bool" where
  "retry_inv cfg n st \<longleftrightarrow> length (rt_sent st) = n
     \<and> (\<forall>i<n. sat_number (rt_sent st ! i) = i \<and> sat_messages (rt_sent st ! i) = sent_as cfg (rt_sent st) i)
     \<and> list_all (\<lambda>a. sat_reason a \<noteq> None \<and> sat_reason a \<noteq> Some UnknownReason) (rt_sent st)
     \<and> length (filter (\<lambda>a. sat_reason a = Some OutputTruncated) (rt_sent st)) = rt_truncations st \<and> rt_truncations st \<le> 1
     \<and> (n > 0 \<longrightarrow> sat_reason (last (rt_sent st)) = Some (rt_reason st))"

definition truncation_marks :: "'r retry_config \<Rightarrow> bool" where
  "truncation_marks cfg \<longleftrightarrow> (\<forall>env e. rc_classify cfg env e = OutputTruncated \<longleftrightarrow> is_output_truncated e)"

lemma call_reason_truncated: "call_reason env e = OutputTruncated \<longleftrightarrow> is_output_truncated e"
  by (simp add: call_reason_def)

lemma stream_reason_truncated: "stream_reason env e = OutputTruncated \<longleftrightarrow> is_output_truncated e"
  by (simp add: stream_reason_def split: option.split stream_guard.split)

lemma sent_as_prefix: "i \<le> length sent \<Longrightarrow> sent_as cfg (sent @ later) i = sent_as cfg sent i"
  by (cases i) (simp_all add: sent_as_def nth_append)

lemma attempt_messages_sent_as: "retry_inv cfg n st \<Longrightarrow> attempt_messages cfg n st = sent_as cfg (rt_sent st) n"
proof (cases n)
  case (Suc k)
  assume inv: "retry_inv cfg n st"
  then have "last (rt_sent st) = rt_sent st ! k" using Suc by (cases "rt_sent st" rule: rev_cases) (auto simp: retry_inv_def nth_append)
  then have "sat_reason (rt_sent st ! k) = Some (rt_reason st)" using inv Suc by (simp add: retry_inv_def)
  then show ?thesis using Suc by (simp add: attempt_messages_def perturb_messages_def sent_as_def)
qed (simp add: attempt_messages_def perturb_messages_def sent_as_def)

lemma retry_inv_ok: "retry_inv cfg n st \<Longrightarrow> n \<le> rp_retries (rc_policy cfg) + 1 \<Longrightarrow> attempts_ok cfg (rt_sent st)"
  by (auto simp: retry_inv_def attempts_ok_def list_all_iff dest: in_set_butlastD)

lemma sent_ok:
  assumes "retry_inv cfg n st" "n \<le> rp_retries (rc_policy cfg)" "m = attempt_messages cfg n st"
    "r \<noteq> Some OutputTruncated"
  shows "attempts_ok cfg (rt_sent st @ [\<lparr> sat_number = n, sat_messages = m, sat_reason = r \<rparr>])"
  using assms attempt_messages_sent_as[OF assms(1)]
  by (auto simp: attempts_ok_def retry_inv_def nth_append sent_as_prefix less_Suc_eq)

lemma retry_inv_step:
  fixes accept :: "'r \<Rightarrow> llm_error + 'a"
  assumes "retry_inv cfg n st" "truncation_marks cfg" "n \<le> rp_retries (rc_policy cfg)" "run_attempt cfg accept n st = step"
  shows "case step of Ended e st' \<Rightarrow> attempts_ok cfg (rt_sent st')
    | Again st' \<Rightarrow> retry_inv cfg (n + 1) st' \<and> n < rp_retries (rc_policy cfg)"
proof -
  define env where "env = rc_meet cfg n (attempt_messages cfg n st)"
  define st1 where "st1 = st\<lparr> rt_deadline := rt_deadline st + ae_waited env,
     rt_budget := fold note_progress (ae_outputs env) ((rt_budget st)\<lparr> qb_attempts := qb_attempts (rt_budget st) + ae_sent env \<rparr>),
     rt_sent := rt_sent st @ [\<lparr> sat_number = n, sat_messages = attempt_messages cfg n st, sat_reason = None \<rparr>] \<rparr>"
  have ok: "attempts_ok cfg (rt_sent st1)" using sent_ok[OF assms(1,3) refl, of None] by (simp add: st1_def)
  have "case s of Ended x st' \<Rightarrow> attempts_ok cfg (rt_sent st')
    | Again st' \<Rightarrow> retry_inv cfg (n + 1) st' \<and> n < rp_retries (rc_policy cfg)"
    if s: "after_failure cfg env n e st1 = s" for e and s :: "'a attempt_step"
  proof (cases s)
    case (Ended x st')
    then have "st' = st1"
      using s by (auto simp: after_failure_def Let_def split: if_splits option.splits)
    then show ?thesis using ok Ended by simp
  next
    case (Again st')
    let ?reason = "rc_classify cfg env e"
    have st': "n < rp_retries (rc_policy cfg)" "?reason \<noteq> UnknownReason"
      "rt_sent st' = rt_sent st @ [\<lparr> sat_number = n, sat_messages = attempt_messages cfg n st, sat_reason = Some ?reason \<rparr>]"
      "rt_reason st' = ?reason" "rt_truncations st' = (if is_output_truncated e then rt_truncations st + 1 else rt_truncations st)"
      "rt_truncations st' \<le> 1"
      using s Again by (auto simp: after_failure_def Let_def st1_def split: if_splits option.splits)
    moreover have "?reason = OutputTruncated \<longleftrightarrow> is_output_truncated e" using assms(2) by (simp add: truncation_marks_def)
    ultimately have "retry_inv cfg (n + 1) st'"
      using assms(1) attempt_messages_sent_as[OF assms(1)]
      by (auto simp: retry_inv_def nth_append sent_as_prefix less_Suc_eq)
    then show ?thesis using Again st'(1) by simp
  qed
  moreover have "attempts_ok cfg (rt_sent st)" using retry_inv_ok[OF assms(1)] assms(3) by simp
  ultimately show ?thesis
    using assms(4) ok by (auto simp: run_attempt_def Let_def env_def[symmetric] st1_def[symmetric] split: option.splits sum.splits if_splits)
qed

lemma retry_loop_ok:
  assumes "truncation_marks cfg"
  shows "retry_inv cfg n st \<Longrightarrow> left + n = rp_retries (rc_policy cfg) + 1 \<Longrightarrow> attempts_ok cfg (rt_sent (snd (retry_loop cfg accept left n st)))"
proof (induction left arbitrary: n st)
  case 0
  then show ?case using retry_inv_ok[of cfg n st] by simp
next
  case (Suc left)
  have "n \<le> rp_retries (rc_policy cfg)" using Suc.prems(2) by simp
  note step = retry_inv_step[OF Suc.prems(1) assms this refl, of accept]
  show ?case
  proof (cases "run_attempt cfg accept n st")
    case (Ended e st')
    then show ?thesis using step by simp
  next
    case (Again st')
    then show ?thesis using step Suc by simp
  qed
qed

lemma start_retries_ok:
  assumes "truncation_marks cfg"
  shows "attempts_ok cfg (rt_sent (snd (start_retries cfg accept message cs)))"
proof -
  have "attempts_ok cfg []" by (simp add: attempts_ok_def)
  moreover have "retry_inv cfg 0 \<lparr> rt_deadline = cs_deadline cs, rt_budget = cs_budget cs, rt_error = error_named message,
      rt_reason = UnknownReason, rt_truncations = 0, rt_sent = [] \<rparr>" by (simp add: retry_inv_def)
  ultimately show ?thesis
    using retry_loop_ok[OF assms, of 0] by (auto simp: start_retries_def Let_def simp del: retry_loop.simps split: sum.split)
qed

lemma sent_as_update:
  "sent_as (c\<lparr> rc_classify := k, rc_meet := m \<rparr>) sent i = sent_as c sent i" "sent_as (c\<lparr> rc_classify := k \<rparr>) sent i = sent_as c sent i"
  by (cases i; simp add: sent_as_def)+

text \<open>C30: A model call is retried a bounded number of times, and never the same way twice. Whatever the attempts
  meet, a plain call and a streamed one send at most one request more than the policy has retries. The first
  carries the given messages, each later one the same messages and one hint that names the attempt and the
  reason the attempt before it failed, so no two requests are equal. No attempt is repeated
  without a known reason, and only one because its answer was cut at the output limit.\<close>

theorem retries_bounded:
  "attempts_ok cfg (rt_sent (snd (call_llm_with_retry cfg cs)))
    \<and> distinct (map sat_messages (rt_sent (snd (call_llm_with_retry cfg cs))))
    \<and> attempts_ok cfg' (rt_sent (snd (stream_llm_with_retry cfg' cs)))
    \<and> distinct (map sat_messages (rt_sent (snd (stream_llm_with_retry cfg' cs))))"
proof -
  have same: "attempts_ok (c\<lparr> rc_classify := k, rc_meet := m \<rparr>) sent = attempts_ok c sent"
    "attempts_ok (d\<lparr> rc_classify := h \<rparr>) sent = attempts_ok d sent"
    for c :: "llm_response retry_config" and d :: "(stream_event list \<times> llm_error option) retry_config" and k h m sent
    by (simp_all add: attempts_ok_def sent_as_update)
  have "truncation_marks (cfg\<lparr> rc_classify := call_reason, rc_meet := (\<lambda>n ms. (rc_meet cfg n ms)\<lparr> ae_outputs := [] \<rparr>) \<rparr>)"
    by (simp add: truncation_marks_def call_reason_truncated)
  from start_retries_ok[OF this, where accept = accept_response and message = "''retry loop did not execute''" and cs = cs]
  have "attempts_ok cfg (rt_sent (snd (call_llm_with_retry cfg cs)))" by (simp add: call_llm_with_retry_def same)
  moreover have "truncation_marks (cfg'\<lparr> rc_classify := stream_reason \<rparr>)"
    by (simp add: truncation_marks_def stream_reason_truncated)
  from start_retries_ok[OF this, where accept = accept_stream and message = "''stream retry loop did not execute''" and cs = cs]
  have "attempts_ok cfg' (rt_sent (snd (stream_llm_with_retry cfg' cs)))" by (simp add: stream_llm_with_retry_def same)
  ultimately show ?thesis by (simp add: attempts_distinct)
qed

subsection \<open>What the loop returns\<close>

definition answered_by :: "'r retry_config \<Rightarrow> ('r \<Rightarrow> llm_error + 'a) \<Rightarrow> 'a \<Rightarrow> nat \<Rightarrow> retry_state \<Rightarrow> bool" where
  "answered_by cfg accept a n st \<longleftrightarrow> rt_sent st \<noteq> [] \<and> sat_number (last (rt_sent st)) = n
     \<and> (let env = rc_meet cfg n (sat_messages (last (rt_sent st))) in
        \<not> ae_aborted env \<and> \<not> ae_aborted_after env \<and> (\<exists>r. ae_answer env = Inr r \<and> accept r = Inr a))"

lemma run_attempt_answered:
  "run_attempt cfg accept n st = Ended (Answered a k) st' \<Longrightarrow> answered_by cfg accept a k st'"
  by (auto simp: run_attempt_def attempt_refused_def after_failure_def answered_by_def Let_def
      split: option.splits sum.splits if_splits)

lemma retry_loop_answered:
  "retry_loop cfg accept left n st = (Answered a k, st') \<Longrightarrow> answered_by cfg accept a k st'"
  by (induction left arbitrary: n st) (auto split: attempt_step.splits dest: run_attempt_answered)

lemma start_retries_answered:
  "start_retries cfg accept message cs = (Answered a n, st) \<Longrightarrow> answered_by cfg accept a n st"
  by (auto simp: start_retries_def Let_def simp del: retry_loop.simps split: if_splits sum.splits dest: retry_loop_answered)

lemma require_complete: "require_complete_output r = Inr f \<Longrightarrow> is_complete_finish f"
  by (auto simp: require_complete_output_def Let_def split: if_splits)

lemma buffer_stream_complete:
  "buffer_stream es b = Inr b' \<Longrightarrow> (\<forall>f. sb_finish b = Some f \<longrightarrow> is_complete_finish f) \<Longrightarrow>
     (\<forall>f. sb_finish b' = Some f \<longrightarrow> is_complete_finish f)"
  by (induction es b rule: buffer_stream.induct) (auto split: sum.splits dest: require_complete)

lemma accept_stream_whole:
  assumes "accept_stream s = Inr a"
  shows "snd s = None \<and> lr_finish a \<in> {''stop'', ''tool_calls''}"
proof -
  obtain b f where b: "buffer_stream (fst s) \<lparr> sb_content = [], sb_reasoning = [], sb_calls = [], sb_finish = None, sb_raw = None \<rparr> = Inr b"
      "snd s = None" "sb_finish b = Some f" "lr_finish a = finish_word f"
    using assms by (auto simp: accept_stream_def split: sum.splits option.splits)
  then have "is_complete_finish f" using buffer_stream_complete[OF b(1)] by simp
  then show ?thesis using b by (auto simp: is_complete_finish_def finish_word_def)
qed

text \<open>C31: An answer a model call returns is the whole answer of its last attempt, and of no other: the stream of that
  attempt reached its end without an error, nothing of a failed attempt is in the answer, its finish reason says
  that the model ended by itself or asked for tools, and the player had not aborted the turn.\<close>

theorem answers_are_whole:
  assumes "stream_llm_with_retry cfg cs = (Answered a n, st)"
  shows "rt_sent st \<noteq> [] \<and> sat_number (last (rt_sent st)) = n
    \<and> (let env = rc_meet cfg n (sat_messages (last (rt_sent st))) in \<not> ae_aborted env \<and> \<not> ae_aborted_after env
        \<and> (\<exists>events. ae_answer env = Inr (events, None) \<and> accept_stream (events, None) = Inr a))
    \<and> lr_finish a \<in> {''stop'', ''tool_calls''}"
proof -
  have "answered_by (cfg\<lparr> rc_classify := stream_reason \<rparr>) accept_stream a n st"
    using assms by (auto simp: stream_llm_with_retry_def dest: start_retries_answered)
  then obtain r where r: "rt_sent st \<noteq> []" "sat_number (last (rt_sent st)) = n"
      "\<not> ae_aborted (rc_meet cfg n (sat_messages (last (rt_sent st))))" "\<not> ae_aborted_after (rc_meet cfg n (sat_messages (last (rt_sent st))))"
      "ae_answer (rc_meet cfg n (sat_messages (last (rt_sent st)))) = Inr r" "accept_stream r = Inr a"
    by (auto simp: answered_by_def Let_def)
  moreover have "r = (fst r, None)" using accept_stream_whole[OF r(6)] by (metis prod.collapse)
  ultimately show ?thesis using accept_stream_whole[OF r(6)] by (metis (no_types, lifting))
qed

text \<open>A stream that breaks off after some text, and its repetition, which ends.\<close>

definition calm :: "'r \<Rightarrow> 'r attempt_env" where
  "calm r = \<lparr> ae_now = 0, ae_aborted = False, ae_scope = None, ae_waited = 0, ae_outputs = [], ae_sent = 1, ae_answer = Inr r,
     ae_guard = None, ae_aborted_after = False, ae_scope_after = None, ae_now_after = 0 \<rparr>"

definition broken_then_whole :: "(stream_event list \<times> llm_error option) retry_config" where
  "broken_then_whole = \<lparr> rc_env = length_env, rc_policy = build_retry_policy \<lparr> ri_retries = None, ri_call_timeout = None,
       ri_first_token = None, ri_idle = None, ri_loop = None, ri_runtime_timeout = 60000 \<rparr>,
     rc_messages = [marker_message ''go''], rc_locale = None, rc_classify = stream_reason,
     rc_meet = (\<lambda>n _. calm (if n = 0 then ([TextDelta ''half''], Some (error_named ''socket hang up''))
       else ([TextDelta ''Hi'', DoneEvent ''end_turn'' None None], None))) \<rparr>"

definition calm_start :: call_start where
  "calm_start = \<lparr> cs_aborted = False, cs_now = 0, cs_deadline = 60000,
     cs_budget = \<lparr> qb_max = 8, qb_attempts = 0, qb_deadline = 60000, qb_idle = None, qb_ceiling = 60000 \<rparr> \<rparr>"

lemma answers_are_whole_witness:
  "\<exists>a st. stream_llm_with_retry broken_then_whole calm_start = (Answered a 1, st) \<and> lr_content a = Some ''Hi''
    \<and> length (rt_sent st) = 2 \<and> lr_finish a \<in> {''stop'', ''tool_calls''}"
proof -
  let ?run = "stream_llm_with_retry broken_then_whole calm_start"
  have r: "(case fst ?run of Answered a n \<Rightarrow> Some (lr_content a, n) | _ \<Rightarrow> None) = Some (Some ''Hi'', 1)"
    and l: "length (rt_sent (snd ?run)) = 2" by code_simp+
  from r obtain a where a: "?run = (Answered a 1, snd ?run)" "lr_content a = Some ''Hi''"
    by (cases ?run) (auto split: call_end.splits)
  then show ?thesis using answers_are_whole[OF a(1)] l by blast
qed

subsection \<open>Waiting for a silent model\<close>

lemma stall_wait_bounds:
  assumes "attempts_left > 1" "0 \<le> remaining"
  shows "2 * \<lfloor>stall_wait_ms remaining attempts_left\<rfloor> \<le> remaining"
    and "remaining div attempts_left \<le> \<lfloor>stall_wait_ms remaining attempts_left\<rfloor>"
proof -
  let ?s = "stall_wait_ms remaining attempts_left"
  have half: "rat_of_int remaining / of_int attempts_left \<le> of_int remaining / 2"
    using assms by (intro divide_left_mono) auto
  then have s: "?s \<le> of_int remaining / 2" "?s \<ge> rat_of_int remaining / of_int attempts_left"
    using assms(1) by (auto simp: stall_wait_ms_def)
  have "of_int \<lfloor>?s\<rfloor> \<le> rat_of_int remaining / 2" using s(1) of_int_floor_le order_trans by blast
  then have "rat_of_int (2 * \<lfloor>?s\<rfloor>) \<le> of_int remaining" by simp
  then show "2 * \<lfloor>?s\<rfloor> \<le> remaining" by (simp only: of_int_le_iff)
  show "remaining div attempts_left \<le> \<lfloor>?s\<rfloor>"
    using floor_mono[OF s(2)] by (simp add: floor_divide_of_int_eq)
qed

text \<open>C32: A model that stays silent cannot use up the time of the attempts behind it: under a policy whose wait the
  author did not fix, an attempt with others behind it waits for its first output at most half of the remaining
  time, or one second where that is longer, never more than two minutes, and at least its equal share of the
  remaining time or those two minutes. This holds for whatever time remains.\<close>

theorem silent_attempts_leave_time:
  assumes "ri_first_token i = None" "attempts_left > 1"
  shows "first_token_wait_ms (build_retry_policy i) attempts_left remaining \<le> max 1000 (remaining div 2)
    \<and> first_token_wait_ms (build_retry_policy i) attempts_left remaining \<le> 120000
    \<and> first_token_wait_ms (build_retry_policy i) attempts_left remaining \<ge> min 120000 (remaining div attempts_left)"
proof -
  have p: "\<not> rp_first_fixed (build_retry_policy i)" "rp_first_token (build_retry_policy i) = 120000"
    using assms(1) by (simp_all add: build_retry_policy_def Let_def)
  show ?thesis
  proof (cases "0 \<le> remaining")
    case True
    then show ?thesis using stall_wait_bounds[OF assms(2) True] p by (simp add: first_token_wait_ms_def) linarith
  next
    case False
    then have "stall_wait_ms remaining attempts_left \<le> 0"
      using assms(2) by (auto simp: stall_wait_ms_def min_def divide_nonpos_pos)
    then have "\<lfloor>stall_wait_ms remaining attempts_left\<rfloor> \<le> 0" by (simp add: floor_le_iff)
    moreover have "remaining div attempts_left < 0" using False assms(2) by (simp add: div_neg_pos_less0)
    ultimately show ?thesis using p by (simp add: first_token_wait_ms_def)
  qed
qed

definition plain_policy_input :: retry_input where
  "plain_policy_input = \<lparr> ri_retries = Some 3, ri_call_timeout = None, ri_first_token = None,
     ri_idle = None, ri_loop = None, ri_runtime_timeout = 120000 \<rparr>"

lemma silent_attempts_leave_time_witness:
  "map (\<lambda>(left, remaining). first_token_wait_ms (build_retry_policy plain_policy_input) left remaining)
      [(4, 120000), (3, 60000), (2, 30000), (2, 1500), (1, 15000)] = [60000, 30000, 15000, 1000, 15000]
   \<and> first_token_wait_ms (build_retry_policy plain_policy_input) 4 120000 \<le> 60000"
proof -
  have "ri_first_token plain_policy_input = None" by (simp add: plain_policy_input_def)
  from silent_attempts_leave_time[OF this, of 4 120000]
  have "first_token_wait_ms (build_retry_policy plain_policy_input) 4 120000 \<le> 60000" by simp
  moreover have "map (\<lambda>(left, remaining). first_token_wait_ms (build_retry_policy plain_policy_input) left remaining)
      [(4, 120000), (3, 60000), (2, 30000), (2, 1500), (1, 15000)] = [60000, 30000, 15000, 1000, 15000]" by code_simp
  ultimately show ?thesis by blast
qed

subsection \<open>The life of a request budget\<close>

text \<open>The budgets a call can reach: output of a stream moves the deadline, a transport that sends takes an attempt.\<close>

inductive reachable_budget :: "request_budget \<Rightarrow> request_budget \<Rightarrow> bool" for b0 where
  created: "reachable_budget b0 b0"
| wrote: "reachable_budget b0 b \<Longrightarrow> reachable_budget b0 (note_progress now b)"
| sent: "reachable_budget b0 b \<Longrightarrow> assert_request_budget now require True b = Inr b' \<Longrightarrow> reachable_budget b0 b'"

lemma reachable_budget_limits:
  assumes "reachable_budget b0 b" "0 \<le> qb_attempts b0" "qb_attempts b0 \<le> qb_max b0" "qb_deadline b0 \<le> qb_ceiling b0"
  shows "qb_max b = qb_max b0 \<and> qb_idle b = qb_idle b0 \<and> qb_ceiling b = qb_ceiling b0
    \<and> qb_attempts b0 \<le> qb_attempts b \<and> qb_attempts b \<le> qb_max b
    \<and> qb_deadline b0 \<le> qb_deadline b \<and> qb_deadline b \<le> qb_ceiling b \<and> (qb_idle b = None \<longrightarrow> qb_deadline b = qb_deadline b0)"
  using assms by induction (auto simp: note_progress_def assert_request_budget_def Let_def split: option.splits if_splits)

text \<open>C33: However long a call streams and retries, its budget holds: the transport attempts stay within the
  maximum, the deadline never moves back and never past the ceiling fixed at the start or an absolute
  deadline the caller gave, and without an idle timeout it does not move at all.\<close>

theorem request_budget_holds:
  assumes "create_request_budget o1 now = Inr b0" "reachable_budget b0 b"
  shows "0 \<le> qb_attempts b \<and> qb_attempts b \<le> or_else (qo_max o1) 8
    \<and> qb_deadline b0 \<le> qb_deadline b \<and> qb_deadline b \<le> qb_ceiling b0
    \<and> (qo_deadline o1 = None \<or> qb_deadline b \<le> the (qo_deadline o1))
    \<and> (if qo_idle o1 = None \<and> (qo_timeout o1 \<noteq> None \<or> qo_deadline o1 \<noteq> None) then qb_deadline b = qb_deadline b0
       else qb_ceiling b0 \<le> max (qb_deadline b0) (now + or_else (qo_ceiling o1) (30 * 60000)))"
proof -
  have b0: "qb_attempts b0 = 0" "qb_max b0 = or_else (qo_max o1) 8" "1 \<le> qb_max b0" "qb_deadline b0 \<le> qb_ceiling b0"
    "qo_deadline o1 = None \<or> qb_ceiling b0 \<le> the (qo_deadline o1)"
    "qo_idle o1 = None \<and> (qo_timeout o1 \<noteq> None \<or> qo_deadline o1 \<noteq> None) \<longrightarrow> qb_idle b0 = None"
    "\<not> (qo_idle o1 = None \<and> (qo_timeout o1 \<noteq> None \<or> qo_deadline o1 \<noteq> None)) \<longrightarrow>
       qb_ceiling b0 \<le> max (qb_deadline b0) (now + or_else (qo_ceiling o1) (30 * 60000))"
    using assms(1) by (auto simp: create_request_budget_def Let_def min_opt_def split: if_splits option.splits)
  have "0 \<le> qb_attempts b0" "qb_attempts b0 \<le> qb_max b0" using b0 by simp_all
  note limits = reachable_budget_limits[OF assms(2) this b0(4)]
  then have "qo_deadline o1 = None \<or> qb_deadline b \<le> the (qo_deadline o1)" using b0(5) by auto
  then show ?thesis using limits b0 by auto
qed

lemma request_budget_holds_witness:
  "\<exists>b0. create_request_budget \<lparr> qo_max = Some 2, qo_timeout = None, qo_deadline = Some 150000, qo_idle = Some 50000, qo_ceiling = None \<rparr> 0 = Inr b0
    \<and> qb_deadline b0 = 120000 \<and> qb_deadline (note_progress 90000 b0) = 140000
    \<and> qb_deadline (note_progress 140000 (note_progress 90000 b0)) \<le> 150000"
proof -
  let ?o = "\<lparr> qo_max = Some 2, qo_timeout = None, qo_deadline = Some 150000, qo_idle = Some 50000, qo_ceiling = None \<rparr> :: request_options"
  obtain b0 where b0: "create_request_budget ?o 0 = Inr b0" "qb_deadline b0 = 120000" "qb_deadline (note_progress 90000 b0) = 140000"
    by (simp add: create_request_budget_def note_progress_def min_opt_def Let_def)
  have "reachable_budget b0 (note_progress 140000 (note_progress 90000 b0))"
    by (intro reachable_budget.wrote reachable_budget.created)
  then show ?thesis using b0 request_budget_holds[OF b0(1)] by auto
qed

end
