(* ===== verification/OperationStage.thy ===== *)
theory OperationStage
  imports Prelude
begin

text \<open>
  The operation stage of a run (\<open>packages/runtime/src/operations/operation-stage.ts\<close>) and the records of its
  calls (\<open>operation-records.ts\<close>). The stages of one run form a tree whose nodes live in a ledger; a
  node is the number under which it was created, and the root is node 0. Writes and read scopes of a call are opaque, and so are its
  request and result: the texts a record shows of them are not modelled. The identity of a call
  (\<open>crypto.randomUUID\<close>) is an argument.
\<close>

subsection \<open>Calls and their records\<close>

record op_caller =
  oc_plugin :: string
  oc_runtime :: string
  oc_run :: "string option"

record ('w, 's) staged_operation =
  so_id :: string
  so_seq :: nat
  so_contract :: string
  so_provider :: string
  so_service :: string
  so_invoked_by :: op_caller
  so_tool_call :: "string option"
  so_writes :: "'w list"
  so_read_scopes :: "'s list option"

datatype operation_status = OpStaged | OpCommitted | OpFailed | OpDiscarded

datatype operation_failure = OpRejected | OpConflict | CallerDropped | ExecutionFailed | StoreUnsupported

record operation_record =
  or_id :: string
  or_contract :: string
  or_provider :: string
  or_service :: string
  or_plugin :: string
  or_runtime :: string
  or_tool_call :: "string option"
  or_seq :: nat
  or_status :: operation_status
  or_reason :: "operation_failure option"

definition build_operation_record :: "('w, 's) staged_operation \<Rightarrow> operation_status \<Rightarrow> operation_failure option \<Rightarrow> operation_record" where
  "build_operation_record p status reason =
     \<lparr> or_id = so_id p, or_contract = so_contract p, or_provider = so_provider p, or_service = so_service p,
       or_plugin = oc_plugin (so_invoked_by p), or_runtime = oc_runtime (so_invoked_by p),
       or_tool_call = so_tool_call p, or_seq = so_seq p, or_status = status, or_reason = reason \<rparr>"

text \<open>What a run's result carries of its operations; the read scopes are attached beside it.\<close>

record ('w, 's) operation_result =
  ot_operations :: "operation_record list"
  ot_writes :: "(string, 'w list) jmap option"
  ot_scopes :: "(string, 's list) jmap option"

definition operation_records_of :: "('w, 's) operation_result list \<Rightarrow> operation_record list" where
  "operation_records_of results = sort_key or_seq (concat (map ot_operations results))"

definition has_operation_writes :: "('w, 's) operation_result list \<Rightarrow> bool" where
  "has_operation_writes results = list_ex (\<lambda>r. or_else (ot_writes r) [] \<noteq> []) results"

subsection \<open>The scope of an execution\<close>

text \<open>
  The sequence, the retained records and the providers whose datasets are loading or loaded. A load that
  ends is reported by \<open>load_ended\<close>; \<open>calls\<close> counts the loads that were started.
\<close>

datatype 'd load_state = Loading | Loaded 'd

record 'd operation_scope =
  sc_seq :: nat
  sc_records :: "(string, operation_record) jmap"
  sc_loaded :: "(string, 'd load_state) jmap"
  sc_settled :: "(string, 'd) jmap"
  sc_loads :: nat

definition next_seq :: "'d operation_scope \<Rightarrow> nat \<times> 'd operation_scope" where
  "next_seq s = (let n = sc_seq s + 1 in (n, s\<lparr> sc_seq := n \<rparr>))"

definition retain_records :: "operation_record list \<Rightarrow> 'd operation_scope \<Rightarrow> 'd operation_scope" where
  "retain_records entries s = s\<lparr> sc_records := fold (\<lambda>r. jm_set (or_id r) r) entries (sc_records s) \<rparr>"

definition prepare_provider :: "string \<Rightarrow> 'd operation_scope \<Rightarrow> 'd operation_scope" where
  "prepare_provider plugin s = (case jm_get (sc_loaded s) plugin of
     None \<Rightarrow> s\<lparr> sc_loaded := jm_set plugin Loading (sc_loaded s), sc_loads := sc_loads s + 1 \<rparr> | Some _ \<Rightarrow> s)"

text \<open>A load without datasets fails, and the next call starts it again.\<close>

definition load_ended :: "string \<Rightarrow> 'd option \<Rightarrow> 'd operation_scope \<Rightarrow> 'd operation_scope" where
  "load_ended plugin datasets s = (case jm_get (sc_loaded s) plugin of
     Some Loading \<Rightarrow> (case datasets of
       None \<Rightarrow> s\<lparr> sc_loaded := jm_delete plugin (sc_loaded s) \<rparr>
     | Some d \<Rightarrow> s\<lparr> sc_loaded := jm_set plugin (Loaded d) (sc_loaded s), sc_settled := jm_set plugin d (sc_settled s) \<rparr>)
   | _ \<Rightarrow> s)"

subsection \<open>The ledger of a run\<close>

record stage_node =
  sn_parent :: "nat option"
  sn_closed :: bool

record ('w, 's) stage_entry =
  se_operation :: "('w, 's) staged_operation"
  se_owner :: nat
  se_discarded :: bool

record ('w, 's, 'd) stage_ledger =
  sl_scope :: "'d operation_scope"
  sl_entries :: "('w, 's) stage_entry list"
  sl_nodes :: "stage_node list"
  sl_attached :: bool

datatype stage_error = StageEnded | RootDoesNotCommit

definition create_root_stage :: "'d operation_scope \<Rightarrow> ('w, 's, 'd) stage_ledger" where
  "create_root_stage scope = \<lparr> sl_scope = scope, sl_entries = [], sl_nodes = [\<lparr> sn_parent = None, sn_closed = False \<rparr>], sl_attached = False \<rparr>"

definition stage_parent :: "stage_node list \<Rightarrow> nat \<Rightarrow> nat option" where
  "stage_parent nodes n = (if n < length nodes then sn_parent (nodes ! n) else None)"

text \<open>A node is created behind its parent; the walk to the root uses it to end.\<close>

function within :: "stage_node list \<Rightarrow> nat \<Rightarrow> nat \<Rightarrow> bool" where
  "within nodes n ancestor = (if n = ancestor then True
     else case stage_parent nodes n of None \<Rightarrow> False | Some p \<Rightarrow> if p < n then within nodes p ancestor else False)"
  by pat_completeness auto
termination by (relation "measure (\<lambda>(nodes, n, a). n)") auto

declare within.simps [simp del]

definition stage_closed :: "('w, 's, 'd) stage_ledger \<Rightarrow> nat \<Rightarrow> bool" where
  "stage_closed l n = sn_closed (sl_nodes l ! n)"

definition close_stage :: "nat \<Rightarrow> ('w, 's, 'd) stage_ledger \<Rightarrow> ('w, 's, 'd) stage_ledger" where
  "close_stage n l = l\<lparr> sl_nodes := (sl_nodes l)[n := (sl_nodes l ! n)\<lparr> sn_closed := True \<rparr>] \<rparr>"

definition stage_child :: "nat \<Rightarrow> ('w, 's, 'd) stage_ledger \<Rightarrow> (stage_error + nat) \<times> ('w, 's, 'd) stage_ledger" where
  "stage_child n l = (if stage_closed l n then (Inl StageEnded, l)
     else (Inr (length (sl_nodes l)), l\<lparr> sl_nodes := sl_nodes l @ [\<lparr> sn_parent = Some n, sn_closed = False \<rparr>] \<rparr>))"

definition staged_writes :: "string \<Rightarrow> ('w, 's, 'd) stage_ledger \<Rightarrow> 'w list" where
  "staged_writes provider l = concat (map (so_writes \<circ> se_operation)
     (filter (\<lambda>e. \<not> se_discarded e \<and> so_provider (se_operation e) = provider) (sl_entries l)))"

text \<open>The operation as the caller passes it has no identity yet; \<open>record\<close> fills in the three fields.\<close>

definition stage_record :: "nat \<Rightarrow> op_caller \<Rightarrow> string \<Rightarrow> ('w, 's) staged_operation \<Rightarrow> ('w, 's, 'd) stage_ledger
    \<Rightarrow> (stage_error + ('w, 's) staged_operation) \<times> ('w, 's, 'd) stage_ledger" where
  "stage_record n caller uuid p l =
     (if stage_closed l n \<or> sl_attached l then (Inl StageEnded, l)
      else let (q, scope) = next_seq (sl_scope l); staged = p\<lparr> so_id := uuid, so_seq := q, so_invoked_by := caller \<rparr>
        in (Inr staged, l\<lparr> sl_scope := scope,
             sl_entries := sl_entries l @ [\<lparr> se_operation = staged, se_owner = n, se_discarded = False \<rparr>] \<rparr>))"

definition stage_held :: "nat \<Rightarrow> ('w, 's, 'd) stage_ledger \<Rightarrow> ('w, 's) staged_operation list" where
  "stage_held n l = map se_operation (filter (\<lambda>e. \<not> se_discarded e \<and> se_owner e = n) (sl_entries l))"

definition stage_commit :: "nat \<Rightarrow> ('w, 's, 'd) stage_ledger \<Rightarrow> (stage_error + unit) \<times> ('w, 's, 'd) stage_ledger" where
  "stage_commit n l = (case stage_parent (sl_nodes l) n of
     None \<Rightarrow> (Inl RootDoesNotCommit, l)
   | Some p \<Rightarrow> if stage_closed l n then (Inr (), l)
       else (Inr (), close_stage n l\<lparr> sl_entries :=
         map (\<lambda>e. if \<not> se_discarded e \<and> se_owner e = n then e\<lparr> se_owner := p \<rparr> else e) (sl_entries l) \<rparr>))"

definition stage_discard :: "nat \<Rightarrow> ('w, 's, 'd) stage_ledger \<Rightarrow> ('w, 's, 'd) stage_ledger" where
  "stage_discard n l =
     (if stage_closed l n \<and> stage_parent (sl_nodes l) n \<noteq> None then l
      else close_stage n l\<lparr> sl_entries :=
        map (\<lambda>e. if \<not> se_discarded e \<and> within (sl_nodes l) (se_owner e) n then e\<lparr> se_discarded := True \<rparr> else e) (sl_entries l) \<rparr>)"

definition has_operations :: "('w, 's, 'd) stage_ledger \<Rightarrow> bool" where
  "has_operations l = list_ex (\<lambda>e. \<not> se_discarded e \<and> se_owner e = 0) (sl_entries l)"

definition entry_kept :: "bool \<Rightarrow> ('w, 's) stage_entry \<Rightarrow> bool" where
  "entry_kept succeeded e \<longleftrightarrow> succeeded \<and> \<not> se_discarded e \<and> se_owner e = 0"

text \<open>The entries in call order, each with its record, and the writes and read scopes of those that are kept.\<close>

definition attach_to :: "('w, 's) operation_result \<Rightarrow> bool \<Rightarrow> ('w, 's, 'd) stage_ledger \<Rightarrow> ('w, 's) operation_result \<times> ('w, 's, 'd) stage_ledger" where
  "attach_to result succeeded l =
     (if sl_attached l then (result, l)
      else let l1 = close_stage 0 l\<lparr> sl_attached := True \<rparr> in
        if sl_entries l = [] then (result, l1)
        else let es = sort_key (so_seq \<circ> se_operation) (sl_entries l);
             records = map (\<lambda>e. if entry_kept succeeded e then build_operation_record (se_operation e) OpStaged None
                 else build_operation_record (se_operation e) OpDiscarded (Some CallerDropped)) es;
             kept = map se_operation (filter (entry_kept succeeded) es);
             writes = foldl (\<lambda>m p. jm_set (so_id p) (so_writes p) m) [] kept;
             scopes = foldl (\<lambda>m p. jm_set (so_id p) (or_else (so_read_scopes p) []) m) [] kept
          in (result\<lparr> ot_operations := ot_operations result @ records,
                ot_writes := (if writes = [] then ot_writes result else Some (jm_merge (or_else (ot_writes result) []) writes)),
                ot_scopes := Some scopes \<rparr>,
              l1\<lparr> sl_scope := retain_records records (sl_scope l),
                sl_entries := map (\<lambda>e. if entry_kept succeeded e then e else e\<lparr> se_discarded := True \<rparr>) (sl_entries l) \<rparr>))"

subsection \<open>The life of the stages of a run\<close>

text \<open>
  What the code of a run does with its stages, in order. \<open>OtherCall\<close> is a call that another run of the
  execution records, which takes a number of the shared sequence.
\<close>

datatype ('w, 's) stage_event =
    OpenChild nat
  | RecordCall nat op_caller string "('w, 's) staged_operation"
  | CommitStage nat
  | DiscardStage nat
  | OtherCall

definition stage_step :: "('w, 's) stage_event \<Rightarrow> ('w, 's, 'd) stage_ledger \<Rightarrow> ('w, 's, 'd) stage_ledger" where
  "stage_step ev l = (case ev of
     OpenChild n \<Rightarrow> if n < length (sl_nodes l) then snd (stage_child n l) else l
   | RecordCall n caller uuid p \<Rightarrow> if n < length (sl_nodes l) then snd (stage_record n caller uuid p l) else l
   | CommitStage n \<Rightarrow> if n < length (sl_nodes l) then snd (stage_commit n l) else l
   | DiscardStage n \<Rightarrow> if n < length (sl_nodes l) then stage_discard n l else l
   | OtherCall \<Rightarrow> l\<lparr> sl_scope := snd (next_seq (sl_scope l)) \<rparr>)"

definition run_stages :: "'d operation_scope \<Rightarrow> ('w, 's) stage_event list \<Rightarrow> ('w, 's, 'd) stage_ledger" where
  "run_stages scope evs = fold stage_step evs (create_root_stage scope)"

lemma run_stages_Nil [simp]: "run_stages scope [] = create_root_stage scope"
  by (simp add: run_stages_def)

lemma run_stages_snoc [simp]: "run_stages scope (evs @ [ev]) = stage_step ev (run_stages scope evs)"
  by (simp add: run_stages_def)

lemmas stage_step_defs = stage_step_def stage_child_def stage_record_def stage_commit_def stage_discard_def close_stage_def

text \<open>Nodes are only added, keep their parent and stay closed.\<close>

definition nodes_grow :: "stage_node list \<Rightarrow> stage_node list \<Rightarrow> bool" where
  "nodes_grow ns ns' \<longleftrightarrow> length ns \<le> length ns'
     \<and> (\<forall>i<length ns. sn_parent (ns' ! i) = sn_parent (ns ! i) \<and> (sn_closed (ns ! i) \<longrightarrow> sn_closed (ns' ! i)))"

lemma nodes_grow_refl [simp]: "nodes_grow ns ns"
  by (simp add: nodes_grow_def)

lemma nodes_grow_trans: "nodes_grow a b \<Longrightarrow> nodes_grow b c \<Longrightarrow> nodes_grow a c"
  by (auto simp: nodes_grow_def)

lemma nodes_grow_step: "nodes_grow (sl_nodes l) (sl_nodes (stage_step ev l))"
  by (cases ev) (auto simp: stage_step_defs nodes_grow_def nth_append nth_list_update next_seq_def Let_def split: option.splits)

lemma nodes_grow_run: "nodes_grow (sl_nodes (run_stages scope evs)) (sl_nodes (run_stages scope (evs @ later)))"
proof (induction later rule: rev_induct)
  case (snoc ev later)
  then show ?case using nodes_grow_trans nodes_grow_step by (metis append_assoc run_stages_snoc)
qed simp

text \<open>The invariant of a ledger: the root has no parent, every other node one before it, owners are nodes.\<close>

definition stages_ok :: "('w, 's, 'd) stage_ledger \<Rightarrow> bool" where
  "stages_ok l \<longleftrightarrow> sl_nodes l \<noteq> [] \<and> sn_parent (sl_nodes l ! 0) = None
     \<and> (\<forall>i<length (sl_nodes l). i > 0 \<longrightarrow> (\<exists>p<i. sn_parent (sl_nodes l ! i) = Some p))
     \<and> (\<forall>e\<in>set (sl_entries l). se_owner e < length (sl_nodes l))
     \<and> sorted_wrt (<) (map (so_seq \<circ> se_operation) (sl_entries l))
     \<and> (\<forall>e\<in>set (sl_entries l). so_seq (se_operation e) \<le> sc_seq (sl_scope l))
     \<and> \<not> sl_attached l"

lemma stages_ok_parent:
  assumes "stages_ok l" "n < length (sl_nodes l)"
  shows "stage_parent (sl_nodes l) n = None \<longleftrightarrow> n = 0" "stage_parent (sl_nodes l) n = Some p \<Longrightarrow> p < n"
  using assms by (auto simp: stages_ok_def stage_parent_def)

lemma create_root_ok: "stages_ok (create_root_stage scope)"
  by (simp add: create_root_stage_def stages_ok_def)

lemma close_keeps: "length (sl_nodes (close_stage n l)) = length (sl_nodes l)"
  "i < length (sl_nodes l) \<Longrightarrow> sn_parent (sl_nodes (close_stage n l) ! i) = sn_parent (sl_nodes l ! i)"
  "sl_entries (close_stage n l) = sl_entries l" "sl_scope (close_stage n l) = sl_scope l" "sl_attached (close_stage n l) = sl_attached l"
  "(sl_nodes (close_stage n l) = []) = (sl_nodes l = [])"
  by (cases "n = i"; simp add: close_stage_def)+

lemma stages_ok_entries:
  assumes "stages_ok l" "\<And>e. e \<in> set (sl_entries l) \<Longrightarrow> se_operation (f e) = se_operation e \<and> se_owner (f e) < length (sl_nodes l)"
  shows "stages_ok (close_stage n l\<lparr> sl_entries := map f (sl_entries l) \<rparr>)"
proof -
  have "map (so_seq \<circ> se_operation) (map f (sl_entries l)) = map (so_seq \<circ> se_operation) (sl_entries l)" using assms(2) by simp
  moreover have "\<exists>p<i. sn_parent (sl_nodes (close_stage n l) ! i) = Some p" if "i < length (sl_nodes l)" "i > 0" for i
    using assms(1) that by (simp add: stages_ok_def close_keeps)
  ultimately show ?thesis using assms by (auto simp: stages_ok_def close_keeps simp del: map_map)
qed

lemma stages_ok_step:
  assumes ok: "stages_ok l"
  shows "stages_ok (stage_step ev l)"
proof (cases ev)
  case (OpenChild n)
  then show ?thesis using ok by (auto simp: stages_ok_def stage_step_def stage_child_def nth_append less_Suc_eq)
next
  case (RecordCall n caller uuid p)
  then show ?thesis using ok
    by (auto simp: stages_ok_def stage_step_def stage_record_def next_seq_def Let_def sorted_wrt_append less_Suc_eq_le) 
next
  case (CommitStage n)
  show ?thesis
  proof (cases "n < length (sl_nodes l) \<and> stage_parent (sl_nodes l) n \<noteq> None \<and> \<not> stage_closed l n")
    case True
    then obtain p where p: "stage_parent (sl_nodes l) n = Some p" by blast
    have "p < length (sl_nodes l)" using stages_ok_parent(2)[OF ok _ p] True by simp
    then show ?thesis using True CommitStage p ok
      by (simp add: stage_step_def stage_commit_def, intro stages_ok_entries[OF ok]) (auto simp: stages_ok_def)
  qed (use ok CommitStage in \<open>auto simp: stage_step_def stage_commit_def split: option.split\<close>)
next
  case (DiscardStage n)
  show ?thesis
  proof (cases "n < length (sl_nodes l) \<and> \<not> (stage_closed l n \<and> stage_parent (sl_nodes l) n \<noteq> None)")
    case True
    have "stage_step ev l = stage_discard n l" using True DiscardStage by (simp add: stage_step_def)
    moreover have "stages_ok (stage_discard n l)"
      unfolding stage_discard_def if_not_P[OF conjunct2[OF True]] using ok by (intro stages_ok_entries[OF ok]) (auto simp: stages_ok_def)
    ultimately show ?thesis by simp
  qed (use ok DiscardStage in \<open>auto simp: stage_step_def stage_discard_def\<close>)
next
  case OtherCall
  then show ?thesis using ok by (auto simp: stages_ok_def stage_step_def next_seq_def Let_def)
qed

lemma stages_ok_run: "stages_ok (run_stages scope evs)"
  by (induction evs rule: rev_induct) (auto intro: create_root_ok stages_ok_step)

text \<open>Stage \<open>n\<close> ends by a commit at place \<open>u\<close> of the history.\<close>

definition commits_at :: "'d operation_scope \<Rightarrow> ('w, 's) stage_event list \<Rightarrow> nat \<Rightarrow> nat \<Rightarrow> bool" where
  "commits_at scope evs n u \<longleftrightarrow> u < length evs \<and> evs ! u = CommitStage n
     \<and> n < length (sl_nodes (run_stages scope (take u evs) :: ('w, 's, 'd) stage_ledger))
     \<and> \<not> stage_closed (run_stages scope (take u evs) :: ('w, 's, 'd) stage_ledger) n"

text \<open>From place \<open>t\<close> on, stage \<open>n\<close> commits, behind that its parent, and so on up to the root.\<close>

inductive reaches_root :: "'d operation_scope \<Rightarrow> ('w, 's) stage_event list \<Rightarrow> nat \<Rightarrow> nat \<Rightarrow> bool"
  for scope evs where
  root: "reaches_root scope evs t 0"
| parent: "t \<le> u \<Longrightarrow> commits_at scope evs n u
    \<Longrightarrow> stage_parent (sl_nodes (run_stages scope evs :: ('w, 's, 'd) stage_ledger)) n = Some p
    \<Longrightarrow> reaches_root scope evs (u + 1) p \<Longrightarrow> reaches_root scope evs t n"

text \<open>What a step does with an entry of the ledger.\<close>

definition entry_step :: "('w, 's) stage_event \<Rightarrow> ('w, 's, 'd) stage_ledger \<Rightarrow> ('w, 's) stage_entry \<Rightarrow> ('w, 's) stage_entry" where
  "entry_step ev l e = (if se_discarded e then e else case ev of
     CommitStage n \<Rightarrow> (case stage_parent (sl_nodes l) n of
         Some p \<Rightarrow> if \<not> stage_closed l n \<and> se_owner e = n then e\<lparr> se_owner := p \<rparr> else e | None \<Rightarrow> e)
   | DiscardStage n \<Rightarrow> if n < length (sl_nodes l) \<and> (n = 0 \<or> \<not> stage_closed l n) \<and> within (sl_nodes l) (se_owner e) n
       then e\<lparr> se_discarded := True \<rparr> else e
   | _ \<Rightarrow> e)"

lemma entry_step_operation [simp]: "se_operation (entry_step ev l e) = se_operation e"
  by (simp add: entry_step_def split: stage_event.split option.split)

lemma entry_step_discarded [simp]: "se_discarded e \<Longrightarrow> entry_step ev l e = e"
  by (simp add: entry_step_def)

lemma entries_step:
  assumes "stages_ok l"
  shows "\<exists>new. sl_entries (stage_step ev l) = map (entry_step ev l) (sl_entries l) @ new \<and> length new \<le> 1"
proof (cases ev)
  case (DiscardStage n)
  have "n < length (sl_nodes l) \<Longrightarrow> stage_parent (sl_nodes l) n = None \<longleftrightarrow> n = 0" using stages_ok_parent(1)[OF assms] .
  then have "sl_entries (stage_step ev l) = map (entry_step ev l) (sl_entries l)"
    using DiscardStage by (auto simp: stage_step_def stage_discard_def entry_step_def close_keeps map_idI)
  then show ?thesis by simp
next
  case (CommitStage n)
  have "sl_entries (stage_step ev l) = map (entry_step ev l) (sl_entries l)"
    using CommitStage by (cases "stage_parent (sl_nodes l) n")
      (auto simp: stage_step_def stage_commit_def entry_step_def close_keeps map_idI stage_parent_def split: if_splits)
  then show ?thesis by simp
qed (auto simp: stage_step_def stage_child_def stage_record_def next_seq_def Let_def entry_step_def map_idI)

lemma entry_step_nth:
  assumes "k < length (sl_entries (run_stages scope evs))"
  shows "k < length (sl_entries (run_stages scope (evs @ [ev])))"
    "sl_entries (run_stages scope (evs @ [ev])) ! k = entry_step ev (run_stages scope evs) (sl_entries (run_stages scope evs) ! k)"
proof -
  obtain new where "sl_entries (run_stages scope (evs @ [ev])) = map (entry_step ev (run_stages scope evs)) (sl_entries (run_stages scope evs)) @ new"
    using entries_step[OF stages_ok_run] by (metis run_stages_snoc)
  then show "k < length (sl_entries (run_stages scope (evs @ [ev])))"
    "sl_entries (run_stages scope (evs @ [ev])) ! k = entry_step ev (run_stages scope evs) (sl_entries (run_stages scope evs) ! k)"
    using assms by (simp_all add: nth_append)
qed

lemma entry_kept_from:
  assumes "k < length (sl_entries (run_stages scope evs))"
  shows "k < length (sl_entries (run_stages scope (evs @ later)))
    \<and> se_operation (sl_entries (run_stages scope (evs @ later)) ! k) = se_operation (sl_entries (run_stages scope evs) ! k)
    \<and> (se_discarded (sl_entries (run_stages scope evs) ! k) \<longrightarrow> se_discarded (sl_entries (run_stages scope (evs @ later)) ! k))"
proof (induction later rule: rev_induct)
  case (snoc ev later)
  then show ?case using entry_step_nth[of k scope "evs @ later" ev] by auto
qed (use assms in simp)

lemma closed_stays:
  "n < length (sl_nodes (run_stages scope evs)) \<Longrightarrow> stage_closed (run_stages scope evs) n \<Longrightarrow> stage_closed (run_stages scope (evs @ later)) n"
  using nodes_grow_run[of scope evs later] by (simp add: nodes_grow_def stage_closed_def)

lemma parent_stays:
  "n < length (sl_nodes (run_stages scope evs)) \<Longrightarrow>
     stage_parent (sl_nodes (run_stages scope (evs @ later))) n = stage_parent (sl_nodes (run_stages scope evs)) n"
  using nodes_grow_run[of scope evs later] by (simp add: nodes_grow_def stage_parent_def)

lemma commits_split:
  "commits_at scope (pre @ ev # suf) n (length pre) \<longleftrightarrow> ev = CommitStage n \<and> n < length (sl_nodes (run_stages scope pre))
     \<and> \<not> stage_closed (run_stages scope pre) n"
  by (auto simp: commits_at_def)

text \<open>A stage that has ended does not commit later.\<close>

lemma no_commit_after_close:
  assumes "n < length (sl_nodes (run_stages scope pre))" "stage_closed (run_stages scope pre) n" "length pre \<le> u"
  shows "\<not> commits_at scope (pre @ suf) n u"
proof
  assume "commits_at scope (pre @ suf) n u"
  moreover have "take u (pre @ suf) = pre @ take (u - length pre) suf" using assms(3) by simp
  ultimately show False using closed_stays[OF assms(1,2)] by (auto simp: commits_at_def)
qed

lemma reaches_earlier: "reaches_root scope evs t' n \<Longrightarrow> t \<le> t' \<Longrightarrow> reaches_root scope evs t n"
  by (erule reaches_root.cases) (auto intro: reaches_root.intros order_trans)

lemma reaches_end: "reaches_root scope evs (length evs) n \<longleftrightarrow> n = 0"
  by (auto simp: commits_at_def elim: reaches_root.cases intro: reaches_root.root)

lemma reaches_skip:
  assumes "\<not> commits_at scope (pre @ ev # suf) n (length pre)"
  shows "reaches_root scope (pre @ ev # suf) (length pre) n \<longleftrightarrow> reaches_root scope (pre @ ev # suf) (length pre + 1) n"
proof
  assume "reaches_root scope (pre @ ev # suf) (length pre) n"
  then show "reaches_root scope (pre @ ev # suf) (length pre + 1) n"
  proof cases
    case (parent u p)
    then have "length pre + 1 \<le> u" using assms by (metis Suc_eq_plus1 Suc_leI le_neq_implies_less)
    then show ?thesis using parent reaches_root.parent by blast
  qed (simp add: reaches_root.root)
qed (rule reaches_earlier, assumption, simp)

lemma reaches_commit:
  assumes "commits_at scope (pre @ ev # suf) n (length pre)" "stage_parent (sl_nodes (run_stages scope pre)) n = Some p"
  shows "reaches_root scope (pre @ ev # suf) (length pre) n \<longleftrightarrow> reaches_root scope (pre @ ev # suf) (length pre + 1) p"
proof -
  have n: "n < length (sl_nodes (run_stages scope pre))" "ev = CommitStage n" using assms(1) by (simp_all add: commits_split)
  have p: "stage_parent (sl_nodes (run_stages scope (pre @ ev # suf))) n = Some p" using parent_stays[OF n(1)] assms(2) by simp
  have "n \<noteq> 0" using stages_ok_parent(1)[OF stages_ok_run n(1)] assms(2) by force
  have "stage_closed (run_stages scope (pre @ [ev])) n"
    using n assms by (simp add: stage_step_def stage_commit_def close_stage_def stage_closed_def)
  moreover have "n < length (sl_nodes (run_stages scope (pre @ [ev])))"
    using n(1) nodes_grow_run[of scope pre "[ev]"] by (simp add: nodes_grow_def)
  ultimately have later: "length pre + 1 \<le> u \<Longrightarrow> \<not> commits_at scope (pre @ ev # suf) n u" for u
    using no_commit_after_close[of n scope "pre @ [ev]" u suf] by simp
  show ?thesis
  proof
    assume "reaches_root scope (pre @ ev # suf) (length pre) n"
    then show "reaches_root scope (pre @ ev # suf) (length pre + 1) p"
    proof cases
      case (parent u q)
      then have "u = length pre" using later[of u] by (metis Suc_eq_plus1 Suc_leI le_neq_implies_less)
      then show ?thesis using parent p by simp
    qed (use \<open>n \<noteq> 0\<close> in simp)
  qed (rule reaches_root.parent[OF order_refl assms(1) p])
qed

lemma reaches_through:
  assumes "reaches_root scope evs t n"
  shows "n < length (sl_nodes (run_stages scope evs)) \<Longrightarrow> within (sl_nodes (run_stages scope evs)) n m \<Longrightarrow> m \<noteq> 0
    \<Longrightarrow> \<exists>u\<ge>t. commits_at scope evs m u"
  using assms
proof induction
  case (root t)
  then have "stage_parent (sl_nodes (run_stages scope evs)) 0 = None" using stages_ok_parent(1)[OF stages_ok_run] by blast
  then show ?case using root by (subst (asm) within.simps) simp
next
  case (parent t u n p)
  have "p < n" using stages_ok_parent(2)[OF stages_ok_run parent.prems(1) parent.hyps(3)] .
  then show ?case
  proof (cases "n = m")
    case False
    then have "within (sl_nodes (run_stages scope evs)) p m" using parent.prems parent.hyps(3) \<open>p < n\<close> by (subst (asm) within.simps) simp
    then obtain v where "v \<ge> u + 1" "commits_at scope evs m v" using parent \<open>p < n\<close> by fastforce
    then show ?thesis using parent.hyps(1) by (intro exI[of _ v]) simp
  qed (use parent.hyps in blast)
qed

lemma within_stays:
  "n < length (sl_nodes (run_stages scope evs)) \<Longrightarrow> within (sl_nodes (run_stages scope evs)) n m
    \<Longrightarrow> within (sl_nodes (run_stages scope (evs @ later))) n m"
proof (induction n rule: less_induct)
  case (less n)
  show ?case
  proof (cases "n = m")
    case False
    then obtain p where p: "stage_parent (sl_nodes (run_stages scope evs)) n = Some p" "p < n" "within (sl_nodes (run_stages scope evs)) p m"
      using less.prems(2) by (subst (asm) within.simps) (auto split: option.splits if_splits)
    then have "within (sl_nodes (run_stages scope (evs @ later))) p m" using less by simp
    then show ?thesis using p parent_stays[OF less.prems(1), of later] by (subst within.simps) simp
  qed (subst within.simps, simp)
qed

lemma kept_exactly:
  assumes "k < length (sl_entries (run_stages scope pre))" "\<not> se_discarded (sl_entries (run_stages scope pre) ! k)"
  shows "entry_kept True (sl_entries (run_stages scope (pre @ suf)) ! k)
    \<longleftrightarrow> DiscardStage 0 \<notin> set suf \<and> reaches_root scope (pre @ suf) (length pre) (se_owner (sl_entries (run_stages scope pre) ! k))"
  using assms
proof (induction suf arbitrary: pre)
  case Nil
  then show ?case by (simp add: entry_kept_def reaches_end)
next
  case (Cons ev suf)
  let ?l = "run_stages scope pre" let ?e = "sl_entries ?l ! k" let ?n = "se_owner ?e"
  have n: "?n < length (sl_nodes ?l)" using stages_ok_run[of scope pre] Cons.prems(1) by (simp add: stages_ok_def)
  note step = entry_step_nth[OF Cons.prems(1), of ev]
  note IH = Cons.IH[of "pre @ [ev]", simplified append.assoc append_Cons append_Nil]
  show ?case
  proof (cases "se_discarded (entry_step ev ?l ?e)")
    case True
    then obtain m where m: "ev = DiscardStage m" "m < length (sl_nodes ?l)" "m = 0 \<or> \<not> stage_closed ?l m" "within (sl_nodes ?l) ?n m"
      using Cons.prems(2) by (auto simp: entry_step_def split: stage_event.splits option.splits if_splits)
    have gone: "\<not> reaches_root scope (pre @ ev # suf) (length pre) ?n" if "m \<noteq> 0"
    proof
      assume "reaches_root scope (pre @ ev # suf) (length pre) ?n"
      then have "\<exists>u\<ge>length pre. commits_at scope (pre @ ev # suf) m u"
        using reaches_through[OF _ _ within_stays[OF n m(4), of "ev # suf"] that] n nodes_grow_run[of scope pre "ev # suf"]
        by (simp add: nodes_grow_def)
      then obtain u where u: "length pre \<le> u" "commits_at scope (pre @ ev # suf) m u" by blast
      then have "u \<noteq> length pre" using m(1) commits_split[of scope pre ev suf m] by auto
      moreover have "stage_closed (run_stages scope (pre @ [ev])) m" "m < length (sl_nodes (run_stages scope (pre @ [ev])))"
        using m that by (simp_all add: stage_step_def stage_discard_def close_stage_def stage_closed_def)
      ultimately show False using no_commit_after_close[of m scope "pre @ [ev]" u suf] u by simp
    qed
    have "se_discarded (sl_entries (run_stages scope (pre @ ev # suf)) ! k)"
      using entry_kept_from[OF step(1), of suf] True step(2) by simp
    then show ?thesis using gone m(1) by (auto simp: entry_kept_def)
  next
    case False
    then have "entry_kept True (sl_entries (run_stages scope (pre @ ev # suf)) ! k)
      \<longleftrightarrow> DiscardStage 0 \<notin> set suf \<and> reaches_root scope (pre @ ev # suf) (length pre + 1) (se_owner (entry_step ev ?l ?e))"
      using IH step by simp
    moreover have "reaches_root scope (pre @ ev # suf) (length pre + 1) (se_owner (entry_step ev ?l ?e))
      \<longleftrightarrow> reaches_root scope (pre @ ev # suf) (length pre) ?n"
    proof (cases "commits_at scope (pre @ ev # suf) ?n (length pre) \<and> ?n \<noteq> 0")
      case True
      then obtain p where "stage_parent (sl_nodes ?l) ?n = Some p" using stages_ok_parent(1)[OF stages_ok_run n] by (cases "stage_parent (sl_nodes ?l) ?n") auto
      then show ?thesis using True Cons.prems(2) reaches_commit[of scope pre ev suf ?n p] by (simp add: commits_split entry_step_def)
    next
      case False
      have "se_owner (entry_step ev ?l ?e) = ?n"
        using False n stages_ok_parent(1)[OF stages_ok_run n] by (auto simp: commits_split entry_step_def split: stage_event.split option.split)
      then show ?thesis using False reaches_skip[of scope pre ev suf ?n] reaches_root.root by metis
    qed
    moreover have "ev \<noteq> DiscardStage 0"
    proof
      assume "ev = DiscardStage 0"
      moreover have "within (sl_nodes ?l) i 0" if "i < length (sl_nodes ?l)" for i
        using that
      proof (induction i rule: less_induct)
        case (less i)
        then show ?case using stages_ok_parent[OF stages_ok_run less.prems]
          by (cases "stage_parent (sl_nodes ?l) i") (subst within.simps, auto)+
      qed
      ultimately show False using False n Cons.prems(2) by (auto simp: entry_step_def split: if_splits)
    qed
    ultimately show ?thesis by simp
  qed
qed

lemma kept_of: "entry_kept succeeded e \<longleftrightarrow> succeeded \<and> entry_kept True e"
  by (auto simp: entry_kept_def)

lemma attach_to_ok:
  assumes "stages_ok l" "sl_entries l \<noteq> []" "distinct (map (so_id \<circ> se_operation) (sl_entries l))" "ot_writes result = None"
  shows "ot_operations (fst (attach_to result succeeded l)) = ot_operations result
      @ map (\<lambda>e. if entry_kept succeeded e then build_operation_record (se_operation e) OpStaged None
          else build_operation_record (se_operation e) OpDiscarded (Some CallerDropped)) (sl_entries l)"
    "or_else (ot_writes (fst (attach_to result succeeded l))) []
      = map (\<lambda>p. (so_id p, so_writes p)) (map se_operation (filter (entry_kept succeeded) (sl_entries l)))"
proof -
  let ?kept = "map se_operation (filter (entry_kept succeeded) (sl_entries l))"
  have "sort_key (so_seq \<circ> se_operation) (sl_entries l) = sl_entries l"
    using assms(1) by (intro sort_key_id_if_sorted strict_sorted_imp_sorted) (simp add: stages_ok_def)
  moreover have "\<not> sl_attached l" using assms(1) by (simp add: stages_ok_def)
  moreover have d: "distinct (map so_id ?kept)" using assms(3) by (simp add: distinct_map_filter)
  moreover have "jm_merge [] (map (\<lambda>p. (so_id p, so_writes p)) ?kept) = map (\<lambda>p. (so_id p, so_writes p)) ?kept"
    using foldl_map_of_keys[OF d, of so_writes] by (simp add: jm_merge_def foldl_map)
  ultimately show "ot_operations (fst (attach_to result succeeded l)) = ot_operations result
      @ map (\<lambda>e. if entry_kept succeeded e then build_operation_record (se_operation e) OpStaged None
          else build_operation_record (se_operation e) OpDiscarded (Some CallerDropped)) (sl_entries l)"
    "or_else (ot_writes (fst (attach_to result succeeded l))) [] = map (\<lambda>p. (so_id p, so_writes p)) ?kept"
    using assms(2,4) foldl_map_of_keys[OF d, of so_writes] by (simp_all add: attach_to_def Let_def del: map_map)
qed

lemma recorded_entry:
  assumes "r < length evs" "evs ! r = RecordCall n caller uuid p" "n < length (sl_nodes (run_stages scope (take r evs)))"
    "\<not> stage_closed (run_stages scope (take r evs)) n"
  shows "sl_entries (run_stages scope (take (r + 1) evs)) = sl_entries (run_stages scope (take r evs))
    @ [\<lparr> se_operation = p\<lparr> so_id := uuid, so_seq := sc_seq (sl_scope (run_stages scope (take r evs))) + 1, so_invoked_by := caller \<rparr>,
         se_owner = n, se_discarded = False \<rparr>]"
proof -
  have "\<not> sl_attached (run_stages scope (take r evs))" using stages_ok_run[of scope "take r evs"] by (simp add: stages_ok_def)
  then show ?thesis using assms by (simp add: take_Suc_conv_app_nth stage_step_def stage_record_def next_seq_def Let_def)
qed

text \<open>C25: A write-service call counts exactly when every piece of code that asked for it succeeded. For any history of the
  stages of a run, in which children open, record, commit and discard in any order and other runs record calls in between, the
  record of an accepted call ends up staged, and its writes on the result, if the run succeeded, its root did not
  take the call back, and behind the call every stage around it committed, each before the stage it is in; otherwise the
  record says discarded and none of its writes is on the result. The records are those of all calls, in call order.\<close>

theorem operations_count_with_every_stage:
  assumes "r < length evs" "evs ! r = RecordCall n caller uuid p"
    and "n < length (sl_nodes (run_stages scope (take r evs)))" "\<not> stage_closed (run_stages scope (take r evs)) n"
    and "distinct (map (so_id \<circ> se_operation) (sl_entries (run_stages scope evs)))" "ot_writes result = None"
  shows "let counts = succeeded \<and> DiscardStage 0 \<notin> set (drop (r + 1) evs) \<and> reaches_root scope evs (r + 1) n;
      result' = fst (attach_to result succeeded (run_stages scope evs));
      record = drop (length (ot_operations result)) (ot_operations result') ! length (sl_entries (run_stages scope (take r evs)))
    in length (ot_operations result') = length (ot_operations result) + length (sl_entries (run_stages scope evs))
     \<and> or_id record = uuid \<and> or_contract record = so_contract p \<and> or_plugin record = oc_plugin caller
     \<and> or_status record = (if counts then OpStaged else OpDiscarded)
     \<and> jm_get (or_else (ot_writes result') []) uuid = (if counts then Some (so_writes p) else None)"
proof -
  let ?k = "length (sl_entries (run_stages scope (take r evs)))" let ?l = "run_stages scope evs"
  let ?e = "sl_entries ?l ! ?k"
  let ?pre = "run_stages scope (take (r + 1) evs)"
  define counts where "counts \<longleftrightarrow> succeeded \<and> DiscardStage 0 \<notin> set (drop (r + 1) evs) \<and> reaches_root scope evs (r + 1) n"
  note new = recorded_entry[OF assms(1-4)]
  have k: "?k < length (sl_entries ?pre)" "sl_entries ?pre ! ?k
      = \<lparr> se_operation = p\<lparr> so_id := uuid, so_seq := sc_seq (sl_scope (run_stages scope (take r evs))) + 1, so_invoked_by := caller \<rparr>,
         se_owner = n, se_discarded = False \<rparr>"
    using new by (simp_all only: length_append nth_append_length) simp
  have e: "?k < length (sl_entries ?l)" "se_operation ?e = se_operation (sl_entries ?pre ! ?k)"
    using entry_kept_from[OF k(1), of "drop (r + 1) evs"] by simp_all
  have kept: "entry_kept succeeded ?e = counts"
    using kept_exactly[OF k(1), of "drop (r + 1) evs", unfolded k(2)] assms(1) by (subst kept_of) (simp add: counts_def)
  have "sl_entries ?l \<noteq> []" using e(1) by auto
  note at = attach_to_ok[OF stages_ok_run this assms(5,6), of succeeded]
  have id: "so_id (se_operation ?e) = uuid" "so_writes (se_operation ?e) = so_writes p" using e(2)[unfolded k(2)] by simp_all
  have "map_of (map (\<lambda>p. (so_id p, so_writes p)) (map se_operation (filter (entry_kept succeeded) (sl_entries ?l)))) uuid
      = (if counts then Some (so_writes p) else None)"
  proof (cases counts)
    case True
    then have "(uuid, so_writes p) \<in> set (map (\<lambda>p. (so_id p, so_writes p)) (map se_operation (filter (entry_kept succeeded) (sl_entries ?l))))"
      using kept id e(1) by (force simp: in_set_conv_nth)
    then show ?thesis using True assms(5) by (simp add: map_of_is_SomeI distinct_map_filter comp_def)
  next
    case False
    have "x = ?e" if "x \<in> set (sl_entries ?l)" "so_id (se_operation x) = uuid" for x
      using assms(5) id(1) nth_mem[OF e(1)] that by (auto simp: distinct_map inj_on_def)
    then have "uuid \<notin> (so_id \<circ> se_operation) ` {x \<in> set (sl_entries ?l). entry_kept succeeded x}" using False kept by auto
    then show ?thesis using False by (simp add: map_of_eq_None_iff image_image)
  qed
  then show ?thesis unfolding Let_def counts_def[symmetric]
    using at e[unfolded k(2)] kept id by (simp add: build_operation_record_def del: map_map)
qed

text \<open>Two tools of one run: the sub-stage of the first commits before its tool does, the second tool fails.\<close>

definition plain_call :: "nat \<Rightarrow> (nat, unit) staged_operation" where
  "plain_call w = \<lparr> so_id = [], so_seq = 0, so_contract = ''bag@1'', so_provider = ''bag'', so_service = ''change'',
     so_invoked_by = \<lparr> oc_plugin = [], oc_runtime = [], oc_run = None \<rparr>, so_tool_call = None, so_writes = [w], so_read_scopes = None \<rparr>"

definition two_tools :: "(nat, unit) stage_event list" where
  "two_tools = (let caller = \<lparr> oc_plugin = ''npc'', oc_runtime = ''talk'', oc_run = None \<rparr> in
     [OpenChild 0, OpenChild 0, OpenChild 1, RecordCall 3 caller ''a'' (plain_call 7), RecordCall 2 caller ''b'' (plain_call 8),
      DiscardStage 2, CommitStage 3, OtherCall, CommitStage 1])"

definition empty_scope :: "unit operation_scope" where
  "empty_scope = \<lparr> sc_seq = 0, sc_records = [], sc_loaded = [], sc_settled = [], sc_loads = 0 \<rparr>"

lemma operations_count_with_every_stage_witness:
  "let result = fst (attach_to \<lparr> ot_operations = [], ot_writes = None, ot_scopes = None \<rparr> True (run_stages empty_scope two_tools)) in
     map (\<lambda>r. (or_id r, or_status r)) (ot_operations result) = [(''a'', OpStaged), (''b'', OpDiscarded)]
     \<and> ot_writes result = Some [(''a'', [7])] \<and> reaches_root empty_scope two_tools 4 3"
proof -
  let ?l = "run_stages empty_scope two_tools"
  let ?r = "fst (attach_to \<lparr> ot_operations = [], ot_writes = None, ot_scopes = None \<rparr> True ?l)"
  have v: "map (\<lambda>r. (or_id r, or_status r)) (ot_operations ?r) = [(''a'', OpStaged), (''b'', OpDiscarded)]"
    "ot_writes ?r = Some [(''a'', [7])]" by code_simp+
  have h: "3 < length two_tools" "two_tools ! 3 = RecordCall 3 \<lparr> oc_plugin = ''npc'', oc_runtime = ''talk'', oc_run = None \<rparr> ''a'' (plain_call 7)"
    "length (sl_nodes (run_stages empty_scope (take 3 two_tools))) = 4" "stage_closed (run_stages empty_scope (take 3 two_tools)) 3 = False"
    "distinct (map (so_id \<circ> se_operation) (sl_entries ?l))" "length (sl_entries (run_stages empty_scope (take 3 two_tools))) = 0"
    by code_simp+
  have "or_status (drop 0 (ot_operations ?r) ! 0) = (if True \<and> DiscardStage 0 \<notin> set (drop (3 + 1) two_tools) \<and> reaches_root empty_scope two_tools (3 + 1) 3
      then OpStaged else OpDiscarded)"
    using operations_count_with_every_stage[OF h(1,2) _ _ h(5), of "\<lparr> ot_operations = [], ot_writes = None, ot_scopes = None \<rparr>" True] h(3,4,6)
    by (simp add: Let_def)
  moreover have "or_status (ot_operations ?r ! 0) = OpStaged" using v(1) by (cases "ot_operations ?r") auto
  ultimately show ?thesis using v by (simp split: if_splits)
qed

subsection \<open>One call at a time to a provider\<close>

text \<open>
  The locks of a root. A caller's promise resolves when its release is called; what the map holds for a provider resolves
  when the promise before it and the caller's have. A promise is the number under which it was created.
\<close>

record lock_ticket =
  lt_provider :: string
  lt_previous :: "nat option"
  lt_released :: bool

record lock_table =
  lk_tickets :: "lock_ticket list"
  lk_tail :: "(string, nat) jmap"

function chain_resolved :: "lock_ticket list \<Rightarrow> nat \<Rightarrow> bool" where
  "chain_resolved ts k = (k < length ts \<and> lt_released (ts ! k) \<and>
     (case lt_previous (ts ! k) of None \<Rightarrow> True | Some j \<Rightarrow> if j < k then chain_resolved ts j else False))"
  by pat_completeness auto
termination by (relation "measure snd") auto

declare chain_resolved.simps [simp del]

definition lock_granted :: "lock_table \<Rightarrow> nat \<Rightarrow> bool" where
  "lock_granted t k \<longleftrightarrow> k < length (lk_tickets t)
     \<and> (case lt_previous (lk_tickets t ! k) of None \<Rightarrow> True | Some j \<Rightarrow> chain_resolved (lk_tickets t) j)"

definition lock_request :: "string \<Rightarrow> lock_table \<Rightarrow> lock_table" where
  "lock_request provider t = \<lparr> lk_tickets = lk_tickets t @ [\<lparr> lt_provider = provider, lt_previous = jm_get (lk_tail t) provider, lt_released = False \<rparr>],
     lk_tail = jm_set provider (length (lk_tickets t)) (lk_tail t) \<rparr>"

text \<open>A caller has its release function once the lock was granted.\<close>

definition lock_release :: "nat \<Rightarrow> lock_table \<Rightarrow> lock_table" where
  "lock_release k t =
     (if \<not> lock_granted t k \<or> lt_released (lk_tickets t ! k) then t
      else let p = lt_provider (lk_tickets t ! k) in
        \<lparr> lk_tickets = (lk_tickets t)[k := (lk_tickets t ! k)\<lparr> lt_released := True \<rparr>],
          lk_tail = (if jm_get (lk_tail t) p = Some k then jm_delete p (lk_tail t) else lk_tail t) \<rparr>)"

inductive lock_reachable :: "lock_table \<Rightarrow> bool" where
  fresh: "lock_reachable \<lparr> lk_tickets = [], lk_tail = [] \<rparr>"
| request: "lock_reachable t \<Longrightarrow> lock_reachable (lock_request provider t)"
| release: "lock_reachable t \<Longrightarrow> lock_reachable (lock_release k t)"

text \<open>
  The invariant: a ticket follows the last ticket of its provider before it, unless all of those had been
  released, and the map holds the last ticket of a provider unless all its tickets are released.
\<close>

definition locks_ok :: "lock_table \<Rightarrow> bool" where
  "locks_ok t \<longleftrightarrow> (let n = length (lk_tickets t); at = (\<lambda>k. lk_tickets t ! k) in
     (\<forall>k<n. \<forall>j<k. lt_provider (at j) = lt_provider (at k) \<longrightarrow> lt_released (at j) \<or> (\<exists>i. lt_previous (at k) = Some i \<and> j \<le> i))
   \<and> (\<forall>k<n. \<forall>i. lt_previous (at k) = Some i \<longrightarrow> i < k \<and> lt_provider (at i) = lt_provider (at k))
   \<and> (\<forall>p k. jm_get (lk_tail t) p = Some k \<longrightarrow> k < n \<and> lt_provider (at k) = p)
   \<and> (\<forall>k<n. \<not> lt_released (at k) \<longrightarrow> (\<exists>i. jm_get (lk_tail t) (lt_provider (at k)) = Some i \<and> k \<le> i)))"

lemma locks_okD:
  assumes "locks_ok t"
  shows "\<And>j k. k < length (lk_tickets t) \<Longrightarrow> j < k \<Longrightarrow> lt_provider (lk_tickets t ! j) = lt_provider (lk_tickets t ! k)
      \<Longrightarrow> \<not> lt_released (lk_tickets t ! j) \<Longrightarrow> \<exists>i. lt_previous (lk_tickets t ! k) = Some i \<and> j \<le> i"
    "\<And>k i. k < length (lk_tickets t) \<Longrightarrow> lt_previous (lk_tickets t ! k) = Some i
      \<Longrightarrow> i < k \<and> lt_provider (lk_tickets t ! i) = lt_provider (lk_tickets t ! k)"
    "\<And>p k. jm_get (lk_tail t) p = Some k \<Longrightarrow> k < length (lk_tickets t) \<and> lt_provider (lk_tickets t ! k) = p"
    "\<And>k. k < length (lk_tickets t) \<Longrightarrow> \<not> lt_released (lk_tickets t ! k)
      \<Longrightarrow> \<exists>i. jm_get (lk_tail t) (lt_provider (lk_tickets t ! k)) = Some i \<and> k \<le> i"
  using assms unfolding locks_ok_def Let_def by blast+

lemma resolved_all:
  assumes "locks_ok t"
  shows "chain_resolved (lk_tickets t) k \<Longrightarrow> j \<le> k \<Longrightarrow> lt_provider (lk_tickets t ! j) = lt_provider (lk_tickets t ! k) \<Longrightarrow> lt_released (lk_tickets t ! j)"
proof (induction k rule: less_induct)
  case (less k)
  have k: "k < length (lk_tickets t)" "lt_released (lk_tickets t ! k)"
    "\<And>i. lt_previous (lk_tickets t ! k) = Some i \<Longrightarrow> i < k \<and> chain_resolved (lk_tickets t) i"
    using less.prems(1) by (subst (asm) chain_resolved.simps, auto split: if_splits)+
  show ?case
  proof (rule ccontr)
    assume n: "\<not> lt_released (lk_tickets t ! j)"
    then have "j < k" using k(2) less.prems(2) by (metis le_neq_implies_less)
    then obtain i where i: "lt_previous (lk_tickets t ! k) = Some i" "j \<le> i"
      using locks_okD(1)[OF assms k(1)] less.prems(3) n by blast
    then show False using less.IH[of i] k(3)[OF i(1)] locks_okD(2)[OF assms k(1) i(1)] less.prems(3) n by simp
  qed
qed

lemma granted_all:
  assumes "locks_ok t" "lock_granted t k" "j < k" "lt_provider (lk_tickets t ! j) = lt_provider (lk_tickets t ! k)"
  shows "lt_released (lk_tickets t ! j)"
proof (rule ccontr)
  assume n: "\<not> lt_released (lk_tickets t ! j)"
  have k: "k < length (lk_tickets t)" using assms(2) by (simp add: lock_granted_def)
  then obtain i where i: "lt_previous (lk_tickets t ! k) = Some i" "j \<le> i" using locks_okD(1)[OF assms(1) k assms(3,4) n] by blast
  then show False using resolved_all[OF assms(1), of i j] locks_okD(2)[OF assms(1) k i(1)] assms(2,4) n by (simp add: lock_granted_def)
qed

lemma locks_ok_request:
  assumes ok: "locks_ok t"
  shows "locks_ok (lock_request provider t)"
proof -
  let ?n = "length (lk_tickets t)"
  have prev: "jm_get (lk_tail t) provider = Some i \<Longrightarrow> i < ?n \<and> lt_provider (lk_tickets t ! i) = provider" for i
    using locks_okD(3)[OF ok] .
  have last: "j < ?n \<Longrightarrow> lt_provider (lk_tickets t ! j) = provider \<Longrightarrow> \<not> lt_released (lk_tickets t ! j)
      \<Longrightarrow> \<exists>i. jm_get (lk_tail t) provider = Some i \<and> j \<le> i" for j
    using locks_okD(4)[OF ok] by blast
  show ?thesis
    unfolding locks_ok_def Let_def
  proof (intro conjI allI impI)
    fix k j assume "k < length (lk_tickets (lock_request provider t))" "j < k"
      "lt_provider (lk_tickets (lock_request provider t) ! j) = lt_provider (lk_tickets (lock_request provider t) ! k)"
    then show "lt_released (lk_tickets (lock_request provider t) ! j)
      \<or> (\<exists>i. lt_previous (lk_tickets (lock_request provider t) ! k) = Some i \<and> j \<le> i)"
      using locks_okD(1)[OF ok, of k j] last[of j] by (cases "lt_released (lk_tickets t ! j)") (auto simp: lock_request_def nth_append less_Suc_eq)
  next
    fix k i assume "k < length (lk_tickets (lock_request provider t))" "lt_previous (lk_tickets (lock_request provider t) ! k) = Some i"
    then show "i < k" "lt_provider (lk_tickets (lock_request provider t) ! i) = lt_provider (lk_tickets (lock_request provider t) ! k)"
      using locks_okD(2)[OF ok, of k i] prev[of i] by (auto simp: lock_request_def nth_append less_Suc_eq)
  next
    fix p k assume "jm_get (lk_tail (lock_request provider t)) p = Some k"
    then show "k < length (lk_tickets (lock_request provider t))" "lt_provider (lk_tickets (lock_request provider t) ! k) = p"
      using locks_okD(3)[OF ok, of p k] by (auto simp: lock_request_def nth_append split: if_splits)
  next
    fix k assume "k < length (lk_tickets (lock_request provider t))" "\<not> lt_released (lk_tickets (lock_request provider t) ! k)"
    then show "\<exists>i. jm_get (lk_tail (lock_request provider t)) (lt_provider (lk_tickets (lock_request provider t) ! k)) = Some i \<and> k \<le> i"
      using locks_okD(4)[OF ok, of k] by (auto simp: lock_request_def nth_append less_Suc_eq)
  qed
qed

lemma lock_release_table:
  assumes "lock_granted t r" "\<not> lt_released (lk_tickets t ! r)"
  shows "length (lk_tickets (lock_release r t)) = length (lk_tickets t)"
    "lt_provider (lk_tickets (lock_release r t) ! k) = lt_provider (lk_tickets t ! k)"
    "lt_previous (lk_tickets (lock_release r t) ! k) = lt_previous (lk_tickets t ! k)"
    "lt_released (lk_tickets (lock_release r t) ! k) \<longleftrightarrow> k = r \<or> lt_released (lk_tickets t ! k)"
    "jm_get (lk_tail (lock_release r t)) p
      = (if p = lt_provider (lk_tickets t ! r) \<and> jm_get (lk_tail t) p = Some r then None else jm_get (lk_tail t) p)"
  using assms by (cases "k = r"; auto simp: lock_release_def lock_granted_def Let_def)+

lemma locks_ok_release:
  assumes ok: "locks_ok t"
  shows "locks_ok (lock_release r t)"
proof (cases "lock_granted t r \<and> \<not> lt_released (lk_tickets t ! r)")
  case True
  note table = lock_release_table[OF conjunct1[OF True] conjunct2[OF True]]
  have "\<exists>i. jm_get (lk_tail (lock_release r t)) (lt_provider (lk_tickets t ! k)) = Some i \<and> k \<le> i"
    if k: "k < length (lk_tickets t)" "k \<noteq> r" "\<not> lt_released (lk_tickets t ! k)" for k
  proof -
    obtain i where i: "jm_get (lk_tail t) (lt_provider (lk_tickets t ! k)) = Some i" "k \<le> i" using locks_okD(4)[OF ok k(1,3)] by blast
    have "\<not> (lt_provider (lk_tickets t ! k) = lt_provider (lk_tickets t ! r) \<and> i = r)"
      using granted_all[OF ok conjunct1[OF True], of k] k i(2) by auto
    then show ?thesis using i by (auto simp: table)
  qed
  then show ?thesis
    unfolding locks_ok_def Let_def table
    using locks_okD[OF ok] by (auto simp del: not_None_eq split: if_splits)
qed (use ok in \<open>auto simp: lock_release_def\<close>)

lemma locks_ok_reachable: "lock_reachable t \<Longrightarrow> locks_ok t"
proof (induction rule: lock_reachable.induct)
  case fresh
  then show ?case by (simp add: locks_ok_def)
qed (simp_all add: locks_ok_request locks_ok_release)

lemma chain_when_released:
  assumes "locks_ok t"
  shows "i < length (lk_tickets t) \<Longrightarrow> (\<forall>j\<le>i. lt_provider (lk_tickets t ! j) = lt_provider (lk_tickets t ! i) \<longrightarrow> lt_released (lk_tickets t ! j))
    \<Longrightarrow> chain_resolved (lk_tickets t) i"
proof (induction i rule: less_induct)
  case (less i)
  have "j < i \<and> chain_resolved (lk_tickets t) j" if j: "lt_previous (lk_tickets t ! i) = Some j" for j
  proof -
    have "j < i" "lt_provider (lk_tickets t ! j) = lt_provider (lk_tickets t ! i)" using locks_okD(2)[OF assms less.prems(1) j] by simp_all
    then show ?thesis using less.IH[of j] less.prems by simp
  qed
  then show ?case using less.prems by (subst chain_resolved.simps) (auto split: option.split)
qed

text \<open>C26: The calls of one run's code to one provider run one after the other, in the order in which they asked: whatever was
  requested and released, and although the table forgets a provider once its last caller is done, a caller holds the provider's lock exactly
  when every caller before it has released it, so that two callers never hold it at once.\<close>

theorem provider_calls_are_serial:
  assumes "lock_reachable t" "k < length (lk_tickets t)"
  shows "(lock_granted t k \<longleftrightarrow> (\<forall>j<k. lt_provider (lk_tickets t ! j) = lt_provider (lk_tickets t ! k) \<longrightarrow> lt_released (lk_tickets t ! j)))
    \<and> (\<forall>j. lock_granted t k \<and> lock_granted t j \<and> \<not> lt_released (lk_tickets t ! k) \<and> \<not> lt_released (lk_tickets t ! j)
         \<and> lt_provider (lk_tickets t ! j) = lt_provider (lk_tickets t ! k) \<longrightarrow> j = k)"
proof -
  note ok = locks_ok_reachable[OF assms(1)]
  have "lock_granted t k" if "\<forall>j<k. lt_provider (lk_tickets t ! j) = lt_provider (lk_tickets t ! k) \<longrightarrow> lt_released (lk_tickets t ! j)"
    using that assms(2) locks_okD(2)[OF ok assms(2)] chain_when_released[OF ok] by (auto simp: lock_granted_def split: option.split)
  moreover have "j = k" if "lock_granted t k" "lock_granted t j" "\<not> lt_released (lk_tickets t ! k)" "\<not> lt_released (lk_tickets t ! j)"
      "lt_provider (lk_tickets t ! j) = lt_provider (lk_tickets t ! k)" for j
    using that granted_all[OF ok, of k j] granted_all[OF ok, of j k] by (metis linorder_neqE_nat)
  ultimately show ?thesis using granted_all[OF ok, of k] by blast
qed

lemma provider_calls_are_serial_witness:
  "let t = lock_request ''bag'' (lock_release 0 (lock_request ''map'' (lock_request ''bag'' (lock_request ''bag'' \<lparr> lk_tickets = [], lk_tail = [] \<rparr>)))) in
     map (lock_granted t) [0, 1, 2, 3] = [True, True, True, False]
     \<and> (lock_granted t 3 \<longleftrightarrow> (\<forall>j<3. lt_provider (lk_tickets t ! j) = lt_provider (lk_tickets t ! 3) \<longrightarrow> lt_released (lk_tickets t ! j)))"
proof -
  let ?t = "lock_request ''bag'' (lock_release 0 (lock_request ''map'' (lock_request ''bag'' (lock_request ''bag'' \<lparr> lk_tickets = [], lk_tail = [] \<rparr>))))"
  have "lock_reachable ?t" by (intro lock_reachable.intros)
  moreover have "length (lk_tickets ?t) = 4" "map (lock_granted ?t) [0, 1, 2, 3] = [True, True, True, False]" by code_simp+
  ultimately show ?thesis using provider_calls_are_serial[of ?t 3] by (simp add: Let_def)
qed

end
