(* ===== verification/Spec2Isabelle.thy ===== *)
theory Spec2Isabelle
  imports Effects Settle EventBounds EventOrder Scheduling FaultLatch Detachment EventChain StoreSound StoreReads PromptHistory Compaction RequestBudget Retry OperationStage
begin

text \<open>
  A verification development for Covel, a runtime in which plugins play the turns of a session of an interactive
  story. The paths below are relative to \<open>packages/\<close>.

  \<^bold>\<open>The program.\<close> A session has a set of active runtimes, the units of work that plugins declare in
  manifests. An execution (a turn of the player, or a recovery of named runtimes) selects the runtimes to run,
  orders them by their declared dependencies into stages and groups, runs each group in parallel, lets the events
  they emit start further ones, keeps what they write as proposals and staged operations, and commits. Runtimes of
  the setup stage run before the game begins, under a mirror in the session row and a ledger of attempts. What an
  agent runtime asks a language model is a prompt assembled from the session's history under a token budget, and
  sent with bounded retries. The records of a session are in a store with transactions; changes go to the pages of
  the player over an event bus that can replay.

  \<^bold>\<open>Shared theories.\<close> \<open>Prelude\<close> has the ordered maps that model JavaScript's \<open>Map\<close> and \<open>Record\<close> (\<open>jmap\<close>, an
  association list that keeps the position of a key), the \<open>??\<close> operator (\<open>or_else\<close>), the truthiness of texts, and
  the JSON data type. \<open>Digits\<close> prints and reads numbers. \<open>JsText\<close> models text as 16-bit code units, the two text
  orders of the program and the stable array sort, which is specified by the locale \<open>js_comparator\<close> and
  interpreted on every comparator that is used.

  \<^bold>\<open>Scheduling.\<close> \<open>Manifest\<close> (\<open>shared/src/scheduling/normalize.ts\<close>) has the manifests and their normalized
  specs. \<open>DagScheduler\<close> (\<open>runtime/src/schedule/dag-scheduler.ts\<close>) models the levels of a batch; its theorems say
  that a runtime is placed exactly when an AND/OR reading of the declared edges can run it, and that every edge is
  respected. \<open>Effects\<close> (\<open>schedule/effects.ts\<close>) has the hazards of a level and the strict policy, over the locale
  \<open>symmetric_conflict\<close>. \<open>Results\<close> has what scheduling reads of a result. \<open>SetupState\<close>, \<open>SetupRun\<close> and
  \<open>LifecycleStore\<close> model the setup state machine, the completion tracker with the report of cyclic session needs,
  and the ledgers of the store; \<open>Settle\<close> (\<open>runtime/src/commit/session-clock.ts\<close>, \<open>setup-settle.ts\<close>) settles the
  attempts of an execution and counts player turns. \<open>Trigger\<close> and \<open>Scheduling\<close>
  (\<open>runtime/src/turn-executor/scheduling.ts\<close>) select the runtimes of an execution and build its stages.
  \<open>EventChain\<close> (\<open>runtime/src/trigger/turn-event-chain.ts\<close>) is the loop that runs what events start, with the
  execution of a runtime as a parameter. \<open>Detachment\<close> has the runtimes that may finish after their turn, and
  \<open>FaultLatch\<close> (\<open>runtime/src/faults/\<close>) the attribution of faults and the latch that stops a plugin, with the
  locale \<open>latch_invariant\<close> for what every operation of the latch keeps.

  \<^bold>\<open>Operations.\<close> \<open>OperationStage\<close> (\<open>runtime/src/operations/operation-stage.ts\<close>, \<open>operation-records.ts\<close>) models the
  tree of stages under a run, the calls they stage, commit and discard, what ends up on the run's result, and the
  lock that makes calls to one provider serial.

  \<^bold>\<open>The event bus.\<close> \<open>RingBuffer\<close>, \<open>EventReplay\<close> and \<open>EventTransport\<close> (\<open>events/src/event-bus.ts\<close>) model the bus
  as a record whose operations are the constructors of \<open>bus_op\<close>: emissions, frames of other processes, the tasks
  of delivery chains, timers, replay queries, pins, the persist queue, the outbox and closing. A run is any list of
  operations. \<open>EventBus\<close> shows what a replay query and a subscriber can rely on after any run, \<open>EventOrder\<close> that
  frames are handed over in order and no hole is silent, \<open>EventBounds\<close> that queues stay bounded. The ring is used
  through the locale \<open>replay_log\<close>.

  \<^bold>\<open>The memory store.\<close> \<open>StoreRecords\<close> and \<open>MemoryStore\<close> (\<open>store/src/memory/\<close>) have the collections and every method
  that writes, with errors as the left side of a sum; \<open>PluginData\<close> the plugin data, its batch compare-and-set and
  the change feed; \<open>Pagination\<close> the keyset pages over the locale \<open>keyset_pages\<close>; \<open>StoreReads\<close> the methods that
  read. \<open>StoreTransactions\<close> has the table of touched collections and proves every method to stay within it.
  \<open>StoreRollback\<close> models a transaction callback as a program of calls, reads, caught errors and savepoints, with
  the lazily captured snapshots of the code; the locale \<open>transactional_scope\<close> carries the argument for a set of
  protected collections and is interpreted three times, for the callbacks without model locks, for all callbacks on
  the transaction scope, and for all callbacks. \<open>StoreInvariant\<close> and \<open>StoreSound\<close> show the well-formedness of the
  store after any queue of calls and transactions, and that a deletion of a session is complete.

  \<^bold>\<open>Prompts and model calls.\<close> \<open>ContextBudget\<close> (\<open>context/src/budget.ts\<close>) is the pruning pass, \<open>PromptHistory\<close> the
  history of a prompt and the order of its messages, \<open>Compaction\<close> (\<open>context/src/history-budget.ts\<close>) the
  replacement of old messages by summaries in one transaction on the memory store. \<open>RequestBudget\<close>
  (\<open>runtime/src/agent-loop/request-context-budget.ts\<close>) fits a provider request into the window of its target, and
  \<open>Retry\<close> (\<open>runtime/src/retry/llm-retry.ts\<close>, \<open>shared/src/llm-request-budget.ts\<close>) has the retry loops of a call.

  \<^bold>\<open>Conventions.\<close> Records and constructors follow the source's types. A thrown error is the left side of a sum, a
  loop whose end the source does not show runs on fuel or with a termination proof. The Kahn loop of the
  scheduler takes as many rounds as the batch has runtimes, and theorem C3 shows that it then returns; the event
  chain ends by its own depth limit; the retry loop by the policy's retries, at most five. Numbers are integers
  or rationals, with the test for safe integers where the source has it; code units are 16-bit words. Clock
  readings, fresh identifiers, the token estimator, JSON texts and their sizes, the Chinese version of a text, the
  verdicts of schema checks, what a provider or a runtime answers, and the event store of the bus are parameters.
  An awaited call is one step: where operations interleave, the interleaving is the list of operations of a run
  (the bus, the locks, the stages, the store's queue).

  \<^bold>\<open>Not modelled.\<close> The bodies of runtimes and plugins, the agent loop around its model calls, the commit of
  proposals by their handlers, hooks, suspensions beyond their rows, presentation jobs, sessions in a process, traces
  and media; the SQL and browser stores, whose meaning is that of engines outside the repository; the model providers,
  the plugin loader, settings, approvals, memory search and tools; the server, the web application and the desktop
  shell. The structured clones around the memory store are not modelled, since the model has no shared mutable objects.
\<close>

end
